(* ===== verification/Prelude.thy ===== *)
theory Prelude
  imports Complex_Main
begin

text \<open>
  Generic material shared by the component theories: type synonyms for the identifiers
  the backend passes around, the collections of rewrite rules that the component proofs
  use, and a few facts about lists, integer powers of ten and floors.
\<close>

type_synonym coin = string
type_synonym user = string
type_synonym dex_name = string
type_synonym asset = int
type_synonym oid = nat
type_synonym millis = int

named_theorems store_simps \<open>how each store operation changes each key of the store\<close>
named_theorems frame_simps \<open>which keys an engine operation leaves alone\<close>
named_theorems decimal_simps \<open>the decimal operations read as arithmetic\<close>

subsection \<open>Lists\<close>

lemma removeAll_idle [simp]: "x \<notin> set xs \<Longrightarrow> removeAll x xs = xs"
  by (induction xs) auto

lemma find_Some_set: "List.find P xs = Some x \<Longrightarrow> x \<in> set xs \<and> P x"
  by (induction xs) (auto split: if_splits)

subsection \<open>Integer powers of ten\<close>

lemma ten_powi_pos [simp]: "(0::rat) < 10 powi e"
  by (rule zero_less_power_int) simp

lemma ten_powi_mono: "e \<le> f \<Longrightarrow> (10::rat) powi e \<le> 10 powi f"
  by (rule power_int_increasing) simp_all

lemma ten_powi_less_iff [simp]: "(10::rat) powi e < 10 powi f \<longleftrightarrow> e < f"
  by (metis linorder_not_less one_less_numeral_iff order_less_irrefl power_int_strict_increasing
      semiring_norm(76) ten_powi_mono)

lemma ten_powi_add: "(10::rat) powi (e + f) = 10 powi e * 10 powi f"
  by (rule power_int_add) simp

lemma ten_powi_nat: "0 \<le> e \<Longrightarrow> (10::rat) powi e = of_int (10 ^ nat e)"
  by (simp add: power_int_def)

subsection \<open>Floors\<close>

lemma floor_half_bounds:
  fixes t :: rat
  shows "\<bar>of_int \<lfloor>t + 1 / 2\<rfloor> - t\<bar> \<le> 1 / 2"
  by linarith

lemma floor_half_int [simp]: "\<lfloor>(of_int k :: rat) + 1 / 2\<rfloor> = k"
  by linarith

end
