(* ===== verification/Decimals.thy ===== *)
theory Decimals
  imports Prelude
begin

text \<open>
  The decimal layer, \<^verbatim>\<open>src/utils/math.ts\<close>. The engine keeps every amount as a decimal
  string and computes with the package decimal.js. A decimal string stands for the
  rational number it denotes (constructing a Decimal and printing it lose nothing), so
  amounts are rationals here. What decimal.js does to the result of an arithmetic
  operation is a parameter of the model: a record of its rounding operations, with the
  documented behaviour the engine relies on as the locale \<^verbatim>\<open>decimal_js\<close>. The setting
  made by \<^verbatim>\<open>math.ts\<close> (precision 30, half up) is the instance \<open>decimal30\<close>, for which the
  documented behaviour is proved.
\<close>

subsection \<open>The interface of decimal.js\<close>

datatype rounding = ROUND_DOWN | ROUND_HALF_UP

text \<open>
  \<open>rnd\<close> is applied to the exact result of plus, minus, times and div; \<open>toDP\<close> is
  toDecimalPlaces, \<open>toSD\<close> is toSignificantDigits, \<open>toFixed\<close> prints a number in plain
  notation. Comparisons, abs, negated, min, max and
  floor are exact in decimal.js and are the operations on rationals here.
\<close>

record declib =
  rnd :: "rat \<Rightarrow> rat"
  toDP :: "rounding \<Rightarrow> nat \<Rightarrow> rat \<Rightarrow> rat"
  toSD :: "nat \<Rightarrow> rat \<Rightarrow> rat"
  toFixed :: "rat \<Rightarrow> string"

definition fits :: "rat \<Rightarrow> bool" where
  \<comment> \<open>a number of at most 30 significant digits\<close>
  "fits x \<longleftrightarrow> (\<exists>m e. \<bar>m\<bar> \<le> 10 ^ 30 \<and> x = of_int m * 10 powi e)"

definition trunc_dp :: "nat \<Rightarrow> rat \<Rightarrow> rat" where
  \<comment> \<open>towards zero, to \<open>n\<close> decimals\<close>
  "trunc_dp n x = sgn x * of_int \<lfloor>\<bar>x\<bar> * 10 ^ n\<rfloor> / 10 ^ n"

definition half_up_dp :: "nat \<Rightarrow> rat \<Rightarrow> rat" where
  \<comment> \<open>to the nearest number of \<open>n\<close> decimals, ties away from zero\<close>
  "half_up_dp n x = sgn x * of_int \<lfloor>\<bar>x\<bar> * 10 ^ n + 1 / 2\<rfloor> / 10 ^ n"

lemma half_up_nonneg: "0 \<le> x \<Longrightarrow> half_up_dp n x = of_int \<lfloor>x * 10 ^ n + 1 / 2\<rfloor> / 10 ^ n"
proof (cases "x = 0")
  case True
  have "\<lfloor>1 / 2 :: rat\<rfloor> = 0" by linarith
  with True show ?thesis by (simp add: half_up_dp_def)
qed (simp add: half_up_dp_def)

lemma half_up_uminus: "half_up_dp n (- x) = - half_up_dp n x"
  by (simp add: half_up_dp_def)

lemma half_up_ge_0: "0 \<le> x \<Longrightarrow> 0 \<le> half_up_dp n x"
proof -
  assume "0 \<le> x"
  then have "0 \<le> x * 10 ^ n" by simp
  then have "0 \<le> \<lfloor>x * 10 ^ n + 1 / 2\<rfloor>" by linarith
  with \<open>0 \<le> x\<close> show ?thesis by (simp add: half_up_nonneg)
qed

lemma half_up_mono_nonneg: "0 \<le> x \<Longrightarrow> x \<le> y \<Longrightarrow> half_up_dp n x \<le> half_up_dp n y"
  by (simp add: half_up_nonneg divide_right_mono floor_mono mult_right_mono)

lemma half_up_mono: "x \<le> y \<Longrightarrow> half_up_dp n x \<le> half_up_dp n y"
proof (cases "0 \<le> x")
  case False
  assume xy: "x \<le> y"
  show ?thesis
  proof (cases "0 \<le> y")
    case True
    have "half_up_dp n x \<le> 0" using half_up_ge_0 [of "- x" n] False by (simp add: half_up_uminus)
    then show ?thesis using half_up_ge_0 [OF True, of n] by linarith
  next
    case False
    then have "half_up_dp n (- y) \<le> half_up_dp n (- x)" using xy by (intro half_up_mono_nonneg) simp_all
    then show ?thesis by (simp add: half_up_uminus)
  qed
qed (simp add: half_up_mono_nonneg)

lemma half_up_err_nonneg: "0 \<le> x \<Longrightarrow> \<bar>half_up_dp n x - x\<bar> \<le> 1 / 2 / 10 ^ n"
proof -
  assume x: "0 \<le> x"
  have "half_up_dp n x - x = (of_int \<lfloor>x * 10 ^ n + 1 / 2\<rfloor> - x * 10 ^ n) / 10 ^ n"
    using x by (simp add: half_up_nonneg diff_divide_distrib)
  then have "\<bar>half_up_dp n x - x\<bar> = \<bar>of_int \<lfloor>x * 10 ^ n + 1 / 2\<rfloor> - x * 10 ^ n\<bar> / 10 ^ n"
    by simp
  also have "\<dots> \<le> 1 / 2 / 10 ^ n" by (rule divide_right_mono [OF floor_half_bounds]) simp
  finally show ?thesis .
qed

lemma half_up_err: "\<bar>half_up_dp n x - x\<bar> \<le> 1 / 2 / 10 ^ n"
  using half_up_err_nonneg [of x n] half_up_err_nonneg [of "- x" n]
  by (cases "0 \<le> x") (simp_all add: half_up_uminus abs_minus_commute)

lemma trunc_dp_ge_0: "0 \<le> x \<Longrightarrow> 0 \<le> trunc_dp n x"
  by (cases "x = 0") (simp_all add: trunc_dp_def)

lemma trunc_dp_le: "0 \<le> x \<Longrightarrow> trunc_dp n x \<le> x"
  by (cases "x = 0") (simp_all add: trunc_dp_def divide_le_eq)

lemma trunc_dp_grid: "\<exists>k. trunc_dp n x = of_int k / 10 ^ n"
  by (rule exI [of _ "(if x = 0 then 0 else if 0 < x then 1 else - 1) * \<lfloor>\<bar>x\<bar> * 10 ^ n\<rfloor>"])
    (simp add: trunc_dp_def sgn_if)

definition rel_eps :: rat where
  \<comment> \<open>half a unit in the 30th significant digit, relative\<close>
  "rel_eps = 5 / 10 ^ 30"

locale decimal_js =
  fixes L :: declib
  assumes rnd_mono: "x \<le> y \<Longrightarrow> rnd L x \<le> rnd L y"
    and rnd_uminus: "rnd L (- x) = - rnd L x"
    and rnd_fits: "fits x \<Longrightarrow> rnd L x = x"
    and rnd_err: "\<bar>rnd L x - x\<bar> \<le> \<bar>x\<bar> * rel_eps"
    and toDP_down: "toDP L ROUND_DOWN n x = trunc_dp n x"
    and toDP_half_up: "toDP L ROUND_HALF_UP n x = half_up_dp n x"
begin

lemma rnd_0 [simp]: "rnd L 0 = 0"
  using rnd_err [of 0] by simp

lemma rnd_pos: "0 < x \<Longrightarrow> 0 < rnd L x"
proof -
  assume x: "0 < x"
  have "x - rnd L x \<le> x * rel_eps" using rnd_err [of x] x by linarith
  also have "x * rel_eps < x * 1"
    using x by (intro mult_strict_left_mono) (simp_all add: rel_eps_def)
  finally show "0 < rnd L x" by linarith
qed

lemma rnd_neg: "x < 0 \<Longrightarrow> rnd L x < 0"
  using rnd_pos [of "- x"] by (simp add: rnd_uminus)

lemma rnd_nonneg: "0 \<le> x \<Longrightarrow> 0 \<le> rnd L x"
  using rnd_mono [of 0 x] by simp

lemma rnd_eq_0_iff [simp]: "rnd L x = 0 \<longleftrightarrow> x = 0"
  by (metis less_irrefl linorder_neqE_linordered_idom rnd_0 rnd_neg rnd_pos)

lemma rnd_pos_iff [simp]: "0 < rnd L x \<longleftrightarrow> 0 < x"
  by (metis linorder_not_less rnd_0 rnd_mono rnd_pos)

lemma rnd_neg_iff [simp]: "rnd L x < 0 \<longleftrightarrow> x < 0"
  by (metis linorder_not_less rnd_0 rnd_mono rnd_neg)

lemma rnd_le_fits: "fits b \<Longrightarrow> x \<le> b \<Longrightarrow> rnd L x \<le> b"
  using rnd_mono [of x b] by (simp add: rnd_fits)

lemma rnd_ge_fits: "fits b \<Longrightarrow> b \<le> x \<Longrightarrow> b \<le> rnd L x"
  using rnd_mono [of b x] by (simp add: rnd_fits)

end

subsection \<open>The operations of math.ts\<close>

definition add_d :: "declib \<Rightarrow> rat \<Rightarrow> rat \<Rightarrow> rat" where
  "add_d L a b = rnd L (a + b)"

definition sub_d :: "declib \<Rightarrow> rat \<Rightarrow> rat \<Rightarrow> rat" where
  "sub_d L a b = rnd L (a - b)"

definition mul_d :: "declib \<Rightarrow> rat \<Rightarrow> rat \<Rightarrow> rat" where
  "mul_d L a b = rnd L (a * b)"

text \<open>
  A zero divisor gives an infinity or NaN in decimal.js; the engine's divisors are
  leverages, prices, sizes and totals it has tested for zero or that are at least one.
\<close>

definition div_d :: "declib \<Rightarrow> rat \<Rightarrow> rat \<Rightarrow> rat" where
  "div_d L a b = rnd L (a / b)"

definition gt_d :: "rat \<Rightarrow> rat \<Rightarrow> bool" where
  [simp]: "gt_d a b \<longleftrightarrow> a > b"

definition lt_d :: "rat \<Rightarrow> rat \<Rightarrow> bool" where
  [simp]: "lt_d a b \<longleftrightarrow> a < b"

definition gte_d :: "rat \<Rightarrow> rat \<Rightarrow> bool" where
  [simp]: "gte_d a b \<longleftrightarrow> a \<ge> b"

definition lte_d :: "rat \<Rightarrow> rat \<Rightarrow> bool" where
  [simp]: "lte_d a b \<longleftrightarrow> a \<le> b"

definition isZero_d :: "rat \<Rightarrow> bool" where
  [simp]: "isZero_d a \<longleftrightarrow> a = 0"

definition abs_d :: "rat \<Rightarrow> rat" where
  [simp]: "abs_d a = \<bar>a\<bar>"

definition neg_d :: "rat \<Rightarrow> rat" where
  [simp]: "neg_d a = - a"

definition min_d :: "rat \<Rightarrow> rat \<Rightarrow> rat" where
  [simp]: "min_d a b = min a b"

definition max_d :: "rat \<Rightarrow> rat \<Rightarrow> rat" where
  [simp]: "max_d a b = max a b"

definition roundToDecimals :: "declib \<Rightarrow> rat \<Rightarrow> nat \<Rightarrow> rat" where
  "roundToDecimals L value decimals = toDP L ROUND_DOWN decimals value"

definition roundPx :: "declib \<Rightarrow> rat \<Rightarrow> rat" where
  "roundPx L value = toSD L 5 value"

lemmas dec_defs [decimal_simps] = add_d_def sub_d_def mul_d_def div_d_def

subsection \<open>Computations that do not round\<close>

text \<open>
  \<open>exact_on L S\<close>: decimal.js rounds none of the values of \<open>S\<close>. Every number of at most 30
  digits qualifies, so a finite computation on ordinary prices and sizes does.
\<close>

definition exact_on :: "declib \<Rightarrow> rat set \<Rightarrow> bool" where
  "exact_on L S \<longleftrightarrow> (\<forall>x \<in> S. rnd L x = x)"

lemma exact_onD: "exact_on L S \<Longrightarrow> x \<in> S \<Longrightarrow> rnd L x = x"
  by (simp add: exact_on_def)

lemma exact_on_insert [simp]: "exact_on L (insert x S) \<longleftrightarrow> rnd L x = x \<and> exact_on L S"
  by (simp add: exact_on_def)

lemma exact_on_empty [simp]: "exact_on L {}"
  by (simp add: exact_on_def)

lemma exact_on_Un [simp]: "exact_on L (S \<union> T) \<longleftrightarrow> exact_on L S \<and> exact_on L T"
  by (auto simp: exact_on_def)

lemma exact_on_subset: "exact_on L T \<Longrightarrow> S \<subseteq> T \<Longrightarrow> exact_on L S"
  by (auto simp: exact_on_def)

lemma fits_scaled: "x * 10 ^ k = of_int m \<Longrightarrow> \<bar>m\<bar> \<le> 10 ^ 30 \<Longrightarrow> fits x"
  unfolding fits_def
  by (rule exI [of _ m], rule exI [of _ "- int k"]) (simp add: power_int_minus field_simps)

lemma fits_0 [simp]: "fits 0"
  by (rule fits_scaled [of _ 0 0]) simp_all

end
