(* ===== verification/Decimal30.thy ===== *)
theory Decimal30
  imports Decimals
begin

text \<open>
  The decimal library as \<^verbatim>\<open>src/utils/math.ts\<close> configures it: 30 significant digits,
  ties away from zero. \<open>round_sig p\<close> rounds to \<open>p\<close> significant digits; the theory proves
  that the setting satisfies the behaviour collected in the locale \<^verbatim>\<open>decimal_js\<close>.
\<close>

subsection \<open>The decimal magnitude of a number\<close>

fun dlen :: "nat \<Rightarrow> nat" where
  \<comment> \<open>decimal digits of a natural number\<close>
  "dlen n = (if n < 10 then 1 else Suc (dlen (n div 10)))"

declare dlen.simps [simp del]

lemma dlen_pos: "0 < dlen n"
  by (subst dlen.simps) simp

lemma dlen_upper: "n < 10 ^ dlen n"
proof (induction n rule: dlen.induct)
  case (1 n)
  show ?case
  proof (cases "n < 10")
    case False
    with 1 have "n div 10 < 10 ^ dlen (n div 10)" by simp
    then have "n < 10 * 10 ^ dlen (n div 10)" by linarith
    with False show ?thesis by (subst dlen.simps) simp
  qed (subst dlen.simps, simp)
qed

lemma dlen_lower: "0 < n \<Longrightarrow> 10 ^ (dlen n - 1) \<le> n"
proof (induction n rule: dlen.induct)
  case (1 n)
  show ?case
  proof (cases "n < 10")
    case False
    with 1 have "10 ^ (dlen (n div 10) - 1) \<le> n div 10" by simp
    then have "10 * 10 ^ (dlen (n div 10) - 1) \<le> n" by linarith
    moreover have "10 * 10 ^ (dlen (n div 10) - 1) = (10::nat) ^ dlen (n div 10)"
      using dlen_pos [of "n div 10"] by (cases "dlen (n div 10)") simp_all
    ultimately show ?thesis using False by (subst dlen.simps) simp
  qed (use 1 in \<open>subst dlen.simps, simp\<close>)
qed

definition mag :: "rat \<Rightarrow> int" where
  \<comment> \<open>the exponent of the leading digit\<close>
  "mag x = (case quotient_of \<bar>x\<bar> of (a, b) \<Rightarrow>
     let e = int (dlen (nat a)) - int (dlen (nat b))
     in if 10 powi e \<le> \<bar>x\<bar> then e else e - 1)"

lemma dlen_powi:
  assumes "0 < n"
  shows "(10::rat) powi (int (dlen n) - 1) \<le> of_nat n" "of_nat n < (10::rat) powi int (dlen n)"
proof -
  have "(of_nat (10 ^ (dlen n - 1)) :: rat) \<le> of_nat n"
    using dlen_lower [OF assms] by (simp only: of_nat_le_iff)
  moreover have "int (dlen n) - 1 = int (dlen n - 1)" using dlen_pos [of n] by linarith
  ultimately show "(10::rat) powi (int (dlen n) - 1) \<le> of_nat n"
    by (simp only: power_int_of_nat of_nat_power of_nat_numeral)
  have "(of_nat n :: rat) < of_nat (10 ^ dlen n)"
    using dlen_upper [of n] by (simp only: of_nat_less_iff)
  then show "of_nat n < (10::rat) powi int (dlen n)" by simp
qed

lemma mag_bounds:
  assumes x: "0 < x"
  shows "10 powi mag x \<le> x" "x < 10 powi (mag x + 1)"
proof -
  obtain a b where q: "quotient_of x = (a, b)" by (cases "quotient_of x")
  have b: "0 < b" using quotient_of_denom_pos [OF q] .
  have xab: "x = of_int a / of_int b" using quotient_of_div [OF q] .
  with x b have a: "0 < a" by (simp add: zero_less_divide_iff)
  define i where "i = int (dlen (nat a))"
  define j where "j = int (dlen (nat b))"
  have a1: "10 powi (i - 1) \<le> (of_int a :: rat)" and a2: "(of_int a :: rat) < 10 powi i"
    using dlen_powi [of "nat a"] a by (simp_all add: i_def)
  have b1: "10 powi (j - 1) \<le> (of_int b :: rat)" and b2: "(of_int b :: rat) < 10 powi j"
    using dlen_powi [of "nat b"] b by (simp_all add: j_def)
  have hi: "x < 10 powi (i - j + 1)"
  proof -
    have "(of_int a :: rat) < 10 powi (i - j + 1) * 10 powi (j - 1)"
      using a2 by (simp flip: ten_powi_add)
    also have "\<dots> \<le> 10 powi (i - j + 1) * of_int b"
      by (rule mult_left_mono [OF b1]) (simp add: less_imp_le)
    finally show ?thesis using b by (simp add: xab divide_less_eq)
  qed
  have lo: "10 powi (i - j - 1) \<le> x"
  proof -
    have "10 powi (i - j - 1) * (of_int b :: rat) \<le> 10 powi (i - j - 1) * 10 powi j"
      by (rule mult_left_mono) (use b2 in \<open>simp_all add: less_imp_le\<close>)
    also have "\<dots> \<le> of_int a" using a1 by (simp flip: ten_powi_add)
    finally show ?thesis using b by (simp add: xab le_divide_eq)
  qed
  have m: "mag x = (if 10 powi (i - j) \<le> x then i - j else i - j - 1)"
    using x by (simp add: mag_def q Let_def i_def j_def)
  show "10 powi mag x \<le> x" "x < 10 powi (mag x + 1)"
    using hi lo by (auto simp: m)
qed

lemma mag_mono: "0 < x \<Longrightarrow> x \<le> y \<Longrightarrow> mag x \<le> mag y"
proof -
  assume x: "0 < x" and y: "x \<le> y"
  have "(10::rat) powi mag x < 10 powi (mag y + 1)"
    using mag_bounds(1) [OF x] mag_bounds(2) [of y] x y by linarith
  then show ?thesis by simp
qed

subsection \<open>Rounding to significant digits\<close>

definition sig_unit :: "nat \<Rightarrow> rat \<Rightarrow> rat" where
  \<comment> \<open>the weight of the last digit kept\<close>
  "sig_unit p x = 10 powi (mag x + 1 - int p)"

definition round_pos :: "nat \<Rightarrow> rat \<Rightarrow> rat" where
  "round_pos p x = of_int \<lfloor>x / sig_unit p x + 1 / 2\<rfloor> * sig_unit p x"

lemma sig_unit_pos [simp]: "0 < sig_unit p x"
  by (simp add: sig_unit_def)

lemma sig_unit_nz [simp]: "sig_unit p x \<noteq> 0"
  using sig_unit_pos [of p x] by linarith

definition round_sig :: "nat \<Rightarrow> rat \<Rightarrow> rat" where
  "round_sig p x = (if x = 0 then 0 else sgn x * round_pos p \<bar>x\<bar>)"

lemma round_pos_err:
  assumes x: "0 < x"
  shows "\<bar>round_pos p x - x\<bar> \<le> x * (5 / 10 ^ p)"
proof -
  define u where "u = sig_unit p x"
  have u: "0 < u" by (simp add: u_def)
  have "round_pos p x - x = (of_int \<lfloor>x / u + 1 / 2\<rfloor> - x / u) * u"
    using u by (simp only: round_pos_def u_def [symmetric] left_diff_distrib) simp
  then have "\<bar>round_pos p x - x\<bar> = \<bar>of_int \<lfloor>x / u + 1 / 2\<rfloor> - x / u\<bar> * u"
    using u by (simp add: abs_mult)
  also have "\<dots> \<le> 1 / 2 * u"
    by (rule mult_right_mono [OF floor_half_bounds]) (simp add: u less_imp_le)
  also have "u = 10 powi mag x * (10 / 10 ^ p)"
    by (simp add: u_def sig_unit_def power_int_diff power_int_add)
  also have "1 / 2 * (10 powi mag x * (10 / 10 ^ p)) \<le> 1 / 2 * (x * (10 / 10 ^ p))"
    by (intro mult_left_mono mult_right_mono mag_bounds(1) x) simp_all
  finally show ?thesis by (simp add: mult.commute)
qed

lemma round_pos_nonneg: "0 < x \<Longrightarrow> 0 \<le> round_pos p x"
proof -
  assume "0 < x"
  then have "0 \<le> x / sig_unit p x" by (simp add: less_imp_le)
  then have "0 \<le> \<lfloor>x / sig_unit p x + 1 / 2\<rfloor>" by linarith
  then show ?thesis by (simp add: round_pos_def less_imp_le)
qed

lemma round_pos_range:
  assumes x: "0 < x" and p: "0 < p"
  shows "10 powi mag x \<le> round_pos p x" "round_pos p x \<le> 10 powi (mag x + 1)"
proof -
  define u where "u = sig_unit p x"
  have u: "0 < u" by (simp add: u_def)
  have top: "10 powi (mag x + 1) = of_int (10 ^ p) * u"
    by (simp add: u_def sig_unit_def power_int_diff)
  have bot: "10 powi mag x = of_int (10 ^ (p - 1)) * u"
    using p by (cases p) (simp_all add: u_def sig_unit_def power_int_diff power_int_add field_simps)
  have "of_int (10 ^ (p - 1)) \<le> x / u"
    using mag_bounds(1) [OF x] u by (simp only: bot le_divide_eq if_True simp_thms)
  then have "10 ^ (p - 1) \<le> \<lfloor>x / u + 1 / 2\<rfloor>" by linarith
  then have "(of_int (10 ^ (p - 1)) :: rat) \<le> of_int \<lfloor>x / u + 1 / 2\<rfloor>"
    by (simp only: of_int_le_iff)
  then show "10 powi mag x \<le> round_pos p x"
    unfolding bot round_pos_def u_def [symmetric]
    by (rule mult_right_mono) (simp add: u less_imp_le)
  have "x / u < of_int (10 ^ p)"
    using mag_bounds(2) [OF x] u by (simp only: top divide_less_eq if_True simp_thms)
  then have "\<lfloor>x / u + 1 / 2\<rfloor> \<le> 10 ^ p" by linarith
  then have "(of_int \<lfloor>x / u + 1 / 2\<rfloor> :: rat) \<le> of_int (10 ^ p)"
    by (simp only: of_int_le_iff)
  then show "round_pos p x \<le> 10 powi (mag x + 1)"
    unfolding top round_pos_def u_def [symmetric]
    by (rule mult_right_mono) (simp add: u less_imp_le)
qed

lemma round_pos_mono:
  assumes x: "0 < x" and xy: "x \<le> y" and p: "0 < p"
  shows "round_pos p x \<le> round_pos p y"
proof (cases "mag x = mag y")
  case True
  then have u: "sig_unit p x = sig_unit p y" by (simp add: sig_unit_def)
  have "x / sig_unit p y \<le> y / sig_unit p y"
    using xy by (intro divide_right_mono) (simp_all add: less_imp_le)
  then have "\<lfloor>x / sig_unit p y + 1 / 2\<rfloor> \<le> \<lfloor>y / sig_unit p y + 1 / 2\<rfloor>"
    by (intro floor_mono) linarith
  then show ?thesis
    unfolding round_pos_def u
    by (intro mult_right_mono) (simp_all add: less_imp_le)
next
  case False
  with mag_mono [OF x xy] have "mag x + 1 \<le> mag y" by simp
  then have "(10::rat) powi (mag x + 1) \<le> 10 powi mag y" by (rule ten_powi_mono)
  then show ?thesis
    using round_pos_range(2) [OF x p] round_pos_range(1) [of y p] x xy p by linarith
qed

lemma fits_multiple:
  assumes x: "0 < x" and fits: "fits x"
  shows "\<exists>k. x = of_int k * sig_unit 30 x"
proof -
  define u where "u = sig_unit 30 x"
  obtain m e where m: "\<bar>m\<bar> \<le> 10 ^ 30" and xm: "x = of_int m * 10 powi e"
    using fits by (auto simp: fits_def)
  have "\<exists>k. x = of_int k * u"
  proof (cases "mag x - 29 \<le> e")
    case True
    then have "(10::rat) powi e = of_int (10 ^ nat (e - (mag x - 29))) * u"
      unfolding u_def sig_unit_def
      by (subst ten_powi_nat [symmetric]) (simp_all flip: ten_powi_add)
    then have "x = of_int (m * 10 ^ nat (e - (mag x - 29))) * u" by (simp add: xm)
    then show ?thesis by blast
  next
    case False
    have "(of_int m :: rat) \<le> of_int (10 ^ 30)" using m by (simp only: of_int_le_iff abs_le_iff)
    then have "x \<le> of_int (10 ^ 30) * 10 powi e"
      unfolding xm by (intro mult_right_mono less_imp_le [OF ten_powi_pos])
    also have "of_int (10 ^ 30) * 10 powi e = (10::rat) powi (30 + e)"
      by (simp add: ten_powi_add)
    also have "\<dots> \<le> 10 powi mag x" using False by (intro ten_powi_mono) simp
    finally have "x = 10 powi mag x" using mag_bounds(1) [OF x] by simp
    also have "\<dots> = of_int (10 ^ 29) * u"
      by (simp add: u_def sig_unit_def power_int_diff power_int_add)
    finally show ?thesis by blast
  qed
  then show ?thesis by (simp add: u_def)
qed

lemma round_pos_fits: "0 < x \<Longrightarrow> fits x \<Longrightarrow> round_pos 30 x = x"
proof -
  assume "0 < x" "fits x"
  then obtain k where k: "x = of_int k * sig_unit 30 x" using fits_multiple by blast
  then have "x / sig_unit 30 x = of_int k" by (metis nonzero_mult_div_cancel_right sig_unit_nz)
  then show ?thesis using k by (simp add: round_pos_def)
qed

subsection \<open>Plain notation\<close>

definition digit_char :: "nat \<Rightarrow> char" where
  "digit_char d = char_of (48 + d)"

fun show_nat :: "nat \<Rightarrow> string" where
  "show_nat n = (if n < 10 then [digit_char n] else show_nat (n div 10) @ [digit_char (n mod 10)])"

declare show_nat.simps [simp del]

fun frac_digits :: "nat \<Rightarrow> rat \<Rightarrow> string" where
  \<comment> \<open>the decimals of a fraction, at most \<open>k\<close> of them\<close>
  "frac_digits 0 f = []"
| "frac_digits (Suc k) f =
    (if f = 0 then [] else digit_char (nat \<lfloor>f * 10\<rfloor>) # frac_digits k (f * 10 - of_int \<lfloor>f * 10\<rfloor>))"

definition show_plain :: "rat \<Rightarrow> string" where
  "show_plain x =
    (if x < 0 then ''-'' else []) @ show_nat (nat \<lfloor>\<bar>x\<bar>\<rfloor>) @
    (let f = \<bar>x\<bar> - of_int \<lfloor>\<bar>x\<bar>\<rfloor> in if f = 0 then [] else ''.'' @ frac_digits 60 f)"

definition decimal30 :: declib where
  "decimal30 = \<lparr>rnd = round_sig 30,
     toDP = (\<lambda>r. case r of ROUND_DOWN \<Rightarrow> trunc_dp | ROUND_HALF_UP \<Rightarrow> half_up_dp),
     toSD = round_sig, toFixed = show_plain\<rparr>"

lemma round_sig_uminus: "round_sig p (- x) = - round_sig p x"
  by (simp add: round_sig_def)

lemma round_sig_pos: "0 < x \<Longrightarrow> round_sig p x = round_pos p x"
  by (simp add: round_sig_def)

lemma round_sig_nonneg: "0 \<le> x \<Longrightarrow> 0 \<le> round_sig p x"
  using round_pos_nonneg [of x p] by (cases "x = 0") (simp_all add: round_sig_def)

lemma round_sig_mono_pos: "0 < p \<Longrightarrow> 0 \<le> x \<Longrightarrow> x \<le> y \<Longrightarrow> round_sig p x \<le> round_sig p y"
  using round_pos_mono [of x y p] round_sig_nonneg [of y p]
  by (cases "x = 0") (simp_all add: round_sig_pos, simp add: round_sig_def)

lemma round_sig_mono:
  assumes "0 < p" "x \<le> y"
  shows "round_sig p x \<le> round_sig p y"
proof (cases "0 \<le> x")
  case True
  then show ?thesis using assms round_sig_mono_pos by blast
next
  case x: False
  show ?thesis
  proof (cases "0 \<le> y")
    case True
    have "round_sig p x \<le> 0"
      using round_sig_nonneg [of "- x" p] x by (simp add: round_sig_uminus)
    then show ?thesis using round_sig_nonneg [OF True, of p] by linarith
  next
    case False
    then have "round_sig p (- y) \<le> round_sig p (- x)"
      using assms by (intro round_sig_mono_pos) simp_all
    then show ?thesis by (simp add: round_sig_uminus)
  qed
qed

lemma round_sig_err: "\<bar>round_sig p x - x\<bar> \<le> \<bar>x\<bar> * (5 / 10 ^ p)"
proof (cases x "0::rat" rule: linorder_cases)
  case less
  then show ?thesis
    using round_pos_err [of "- x" p] by (simp add: round_sig_def abs_minus_commute)
next
  case greater
  then show ?thesis using round_pos_err [of x p] by (simp add: round_sig_def)
qed (simp add: round_sig_def)

lemma fits_uminus: "fits (- x) = fits x"
proof -
  have "fits (- y)" if "fits y" for y
    using that unfolding fits_def by (metis abs_minus_cancel mult_minus_left of_int_minus)
  from this [of x] this [of "- x"] show ?thesis by auto
qed

lemma round_sig_fits: "fits x \<Longrightarrow> round_sig 30 x = x"
proof (cases x "0::rat" rule: linorder_cases)
  case less
  assume "fits x"
  then show ?thesis
    using round_pos_fits [of "- x"] less by (simp add: round_sig_def fits_uminus)
qed (simp_all add: round_sig_def round_pos_fits)

interpretation d30: decimal_js decimal30
proof unfold_locales
  fix x y :: rat
  show "x \<le> y \<Longrightarrow> rnd decimal30 x \<le> rnd decimal30 y"
    by (simp add: decimal30_def round_sig_mono)
  show "\<bar>rnd decimal30 x - x\<bar> \<le> \<bar>x\<bar> * rel_eps"
    using round_sig_err [of 30 x] by (simp only: decimal30_def declib.simps rel_eps_def)
qed (simp_all add: decimal30_def round_sig_uminus round_sig_fits)

lemma decimal30_js: "decimal_js decimal30"
  by (rule d30.decimal_js_axioms)

text \<open>Numbers with at most 12 decimals and 18 integer digits are not rounded.\<close>

lemma rnd30_scaled:
  "x * 10 ^ 12 = of_int \<lfloor>x * 10 ^ 12\<rfloor> \<Longrightarrow> \<bar>\<lfloor>x * 10 ^ 12\<rfloor>\<bar> \<le> 10 ^ 30 \<Longrightarrow> rnd decimal30 x = x"
  by (rule d30.rnd_fits, rule fits_scaled)

end
