(* ===== verification/Types.thy ===== *)
theory Types
  imports Decimal30
begin

text \<open>
  The data the engine passes around: \<^verbatim>\<open>src/types/order.ts\<close>, \<^verbatim>\<open>src/types/position.ts\<close> and
  the wire types of \<^verbatim>\<open>src/types/hl.ts\<close>. Records keep the fields of the interfaces under
  a short prefix (record fields are global names); an optional field is an option, a
  string of a fixed set a datatype, a decimal string a rational, an address or a coin a
  string, a millisecond time stamp an integer.
\<close>

subsection \<open>Orders\<close>

datatype OrderStatus =
    St_open | St_filled | St_cancelled | St_triggered | St_rejected
  | St_reduceOnlyCanceled | St_marginCanceled

datatype OrderType = Limit | Trigger | TrailingStop
datatype TimeInForce = Gtc | Ioc | Alo
datatype TpSl = Tp | Sl
datatype Grouping = Na | NormalTpsl | PositionTpsl

text \<open>A builder code: the payout address and the fee in tenths of a basis point.\<close>

record builder =
  bld_b :: string
  bld_f :: nat

record PaperOrder =
  o_oid :: oid
  o_cloid :: "string option"
  o_userId :: user
  o_asset :: asset
  o_coin :: coin
  o_isBuy :: bool
  o_sz :: rat
  o_limitPx :: rat
  o_orderType :: OrderType
  o_tif :: TimeInForce
  o_reduceOnly :: bool
  o_triggerPx :: "rat option"
  o_tpsl :: "TpSl option"
  o_isMarket :: bool
  o_grouping :: Grouping
  o_status :: OrderStatus
  o_filledSz :: rat
  o_avgPx :: rat
  o_createdAt :: millis
  o_updatedAt :: millis
  o_builder :: "builder option"
  o_twapId :: "string option"

subsection \<open>Fills\<close>

datatype Side = SideB | SideA

datatype FillDir =
    OpenLong | OpenShort | CloseLong | CloseShort | DirBuy | DirSell
  | LiquidatedCrossLong | LiquidatedCrossShort | LiquidatedIsolatedLong | LiquidatedIsolatedShort

datatype LiqMethod = Market | Backstop

datatype FillHash = ZeroHash | TidHash nat

record FillLiquidation =
  fl_liquidatedUser :: user
  fl_markPx :: rat
  fl_method :: LiqMethod

record PaperFill =
  f_coin :: coin
  f_px :: rat
  f_sz :: rat
  f_side :: Side
  f_time :: millis
  f_startPosition :: rat
  f_dir :: FillDir
  f_closedPnl :: rat
  f_hash :: FillHash
  f_oid :: oid
  f_crossed :: bool
  f_fee :: rat
  f_tid :: nat
  f_cloid :: "string option"
  f_twapId :: "string option"
  f_liquidation :: "FillLiquidation option"

subsection \<open>Wire types\<close>

text \<open>
  An order as it arrives in an \<^verbatim>\<open>order\<close> action. The size is \<open>None\<close> when parseFloat does
  not read a finite number from the string; the price is the decimal the route layer has
  validated.
\<close>

record HlTriggerOrder =
  tg_isMarket :: bool
  tg_triggerPx :: rat
  tg_tpsl :: TpSl

record HlOrderWire =
  w_a :: asset
  w_b :: bool
  w_p :: rat
  w_s :: "rat option"
  w_r :: bool
  w_limit_tif :: "TimeInForce option"
  w_trigger :: "HlTriggerOrder option"
  w_c :: "string option"

datatype OrderError =
    UnknownAsset asset
  | InvalidOrderSize
  | InvalidLeverage
  | MissingTif
  | NoMarketPrice
  | IocNotFilled
  | AloCrossed
  | InsufficientMargin
  | OrderNotFound oid
  | OrderNotOpen oid OrderStatus
  | AlreadyFinished asset
  | CloidNotFound string
  | ModifyInvalid
  | CannotModifyFinished
  | CannotSwitchLeverageType
  | NoIsolatedPosition asset
  | ScheduleTooSoon
  | RetracementInvalid
  | PriceConvert
  | PercentageInvalid
  | InvalidTwapSize
  | TwapTooSmall
  | TwapNotFound nat
  | TwapNotRunning nat

datatype HlOrderResponseStatus =
    Resting oid "string option"
  | Filled rat rat oid "string option" \<comment> \<open>total size, average price, oid, cloid\<close>
  | Error OrderError
  | Success

record HlMarginTier =
  mt_lowerBound :: rat
  mt_maxLeverage :: nat

record HlAssetInfo =
  ai_name :: coin
  ai_szDecimals :: nat
  ai_maxLeverage :: nat
  ai_marginTableId :: "nat option"

record HlMeta =
  m_universe :: "HlAssetInfo list"
  m_marginTables :: "(nat \<times> HlMarginTier list) list option"

subsection \<open>Liquidations and TWAP records\<close>

text \<open>The row of the liquidation log, and the \<open>liquidation\<close> delta of the ledger.\<close>

record LiquidationEvent =
  le_userId :: user
  le_asset :: asset
  le_coin :: coin
  le_szi :: rat
  le_markPx :: rat
  le_entryPx :: rat
  le_leverage :: nat
  le_isCross :: bool
  le_amountRecovered :: rat
  le_marginLost :: rat
  le_full :: bool
  le_time :: millis

record LiquidationDelta =
  ld_liquidatedNtlPos :: rat
  ld_accountValue :: rat
  ld_isCross :: bool
  ld_liquidatedPositions :: "(coin \<times> rat) list"

record LiquidatorVaultState =
  lv_totalCollected :: rat
  lv_vaultAddress :: string
  lv_lastUpdated :: millis

datatype TwapStatus = Tw_running | Tw_finished | Tw_cancelled

text \<open>
  The Redis hash of a TWAP; the two schedule fields are absent until the first slice. The
  filled size is the double that parseFloat reads back from the stored string.
\<close>

record TwapHash =
  twp_userId :: user
  twp_asset :: asset
  twp_coin :: coin
  twp_isBuy :: bool
  twp_reduceOnly :: bool
  twp_totalSize :: rat
  twp_filledSize :: rat
  twp_startTime :: millis
  twp_endTime :: millis
  twp_minutes :: nat
  twp_randomize :: bool
  twp_szDecimals :: nat
  twp_status :: TwapStatus
  twp_lastSubmittedAt :: "millis option"
  twp_nextSliceAt :: "millis option"

subsection \<open>Books\<close>

record L2Level =
  lv_px :: rat
  lv_sz :: rat
  lv_n :: nat

record HlL2Book =
  bk_coin :: coin
  bk_bids :: "L2Level list"
  bk_asks :: "L2Level list"
  bk_time :: millis

end
