(* ===== verification/Slippage.thy ===== *)
theory Slippage
  imports Types
begin

text \<open>
  Fill prices, \<^verbatim>\<open>src/utils/slippage.ts\<close>: a taker walks one side of the order book and pays
  the volume-weighted average of the levels it consumes, bounded by its limit price.
\<close>

subsection \<open>computeVwap\<close>

datatype VwapSource = Vwap | Fallback

record VwapResult =
  vr_fillPx :: rat
  vr_source :: VwapSource

definition beyond :: "bool \<Rightarrow> rat option \<Rightarrow> rat \<Rightarrow> bool" where
  \<comment> \<open>a price on the wrong side of the limit\<close>
  "beyond isBuy limitPx px = (case limitPx of None \<Rightarrow> False
     | Some l \<Rightarrow> if isBuy then gt_d px l else lt_d px l)"

definition clamp_px :: "bool \<Rightarrow> rat option \<Rightarrow> rat \<Rightarrow> rat" where
  "clamp_px isBuy limitPx px = (case limitPx of None \<Rightarrow> px
     | Some l \<Rightarrow> if beyond isBuy limitPx px then l else px)"

text \<open>The loop over the levels; the accumulators are totalNotional and totalFilled.\<close>

fun vwap_walk :: "declib \<Rightarrow> bool \<Rightarrow> rat option \<Rightarrow> rat \<Rightarrow> L2Level list \<Rightarrow> rat \<Rightarrow> rat \<Rightarrow> rat \<times> rat" where
  "vwap_walk L isBuy limitPx target [] totalNotional totalFilled = (totalNotional, totalFilled)"
| "vwap_walk L isBuy limitPx target (level # levels) totalNotional totalFilled =
    (if gte_d totalFilled target then (totalNotional, totalFilled)
     else if beyond isBuy limitPx (lv_px level) then (totalNotional, totalFilled)
     else
       let available = lv_sz level;
           remaining = sub_d L target totalFilled;
           filled = (if lte_d available remaining then available else remaining)
       in vwap_walk L isBuy limitPx target levels
            (add_d L totalNotional (mul_d L filled (lv_px level)))
            (add_d L totalFilled filled))"

definition computeVwap ::
    "declib \<Rightarrow> L2Level list option \<Rightarrow> rat \<Rightarrow> bool \<Rightarrow> rat option \<Rightarrow> rat \<Rightarrow> VwapResult" where
  "computeVwap L levels_opt sz isBuy limitPx fallbackPx =
    (case levels_opt of
      None \<Rightarrow> \<lparr>vr_fillPx = fallbackPx, vr_source = Fallback\<rparr>
    | Some levels \<Rightarrow>
      if levels = [] then \<lparr>vr_fillPx = fallbackPx, vr_source = Fallback\<rparr>
      else case vwap_walk L isBuy limitPx sz levels 0 0 of (totalNotional, totalFilled) \<Rightarrow>
        if isZero_d totalFilled then \<lparr>vr_fillPx = fallbackPx, vr_source = Fallback\<rparr>
        else
          let worstPx = lv_px (last levels);
              fillAtPx = clamp_px isBuy limitPx worstPx;
              remaining = sub_d L sz totalFilled;
              (notional, filled) =
                (if lt_d totalFilled sz
                 then (add_d L totalNotional (mul_d L remaining fillAtPx), sz)
                 else (totalNotional, totalFilled));
              vwap = div_d L notional filled
          in \<lparr>vr_fillPx = clamp_px isBuy limitPx vwap, vr_source = Vwap\<rparr>)"

text \<open>
  \<open>computeFillPrice\<close> is given the book that getL2Book returned for the coin. The
  limit is the explicit argument when there is one (\<open>Some None\<close> is the null of a market
  order: no clamping) and the order's own limit price otherwise.
\<close>

definition computeFillPrice ::
    "declib \<Rightarrow> HlL2Book option \<Rightarrow> PaperOrder \<Rightarrow> rat \<Rightarrow> rat option option \<Rightarrow> rat" where
  "computeFillPrice L book order fallbackPx limitPx =
    (let clamp = (case limitPx of None \<Rightarrow> Some (o_limitPx order) | Some l \<Rightarrow> l)
     in case book of None \<Rightarrow> fallbackPx
     | Some b \<Rightarrow>
        let levels = (if o_isBuy order then bk_asks b else bk_bids b)
        in vr_fillPx (computeVwap L (Some levels) (o_sz order) (o_isBuy order) clamp fallbackPx))"

subsection \<open>What the walk costs\<close>

text \<open>
  The specification of the walk: the levels before the first one beyond the limit are
  consumed in order, each up to the size still needed.
\<close>

definition usable :: "bool \<Rightarrow> rat option \<Rightarrow> L2Level list \<Rightarrow> L2Level list" where
  "usable isBuy limitPx levels = takeWhile (\<lambda>l. \<not> beyond isBuy limitPx (lv_px l)) levels"

definition depth :: "L2Level list \<Rightarrow> rat" where
  "depth levels = sum_list (map lv_sz levels)"

fun depth_cost :: "rat \<Rightarrow> L2Level list \<Rightarrow> rat" where
  "depth_cost need [] = 0"
| "depth_cost need (l # ls) = min need (lv_sz l) * lv_px l + depth_cost (need - min need (lv_sz l)) ls"

definition book_cost :: "bool \<Rightarrow> rat option \<Rightarrow> rat \<Rightarrow> L2Level list \<Rightarrow> rat" where
  \<comment> \<open>cost of \<open>sz\<close>: the usable depth at its prices, the rest at the clamped worst price\<close>
  "book_cost isBuy limitPx sz levels =
     depth_cost sz (usable isBuy limitPx levels) +
     (sz - min sz (depth (usable isBuy limitPx levels))) * clamp_px isBuy limitPx (lv_px (last levels))"

text \<open>The values the walk computes, as a set: none of them is rounded on ordinary input.\<close>

fun walk_values :: "rat \<Rightarrow> L2Level list \<Rightarrow> rat \<Rightarrow> rat \<Rightarrow> rat set" where
  "walk_values target [] n f = {}"
| "walk_values target (l # ls) n f =
    (let s = min (target - f) (lv_sz l) in
     {target - f, s * lv_px l, n + s * lv_px l, f + s} \<union> walk_values target ls (n + s * lv_px l) (f + s))"

definition vwap_values :: "bool \<Rightarrow> rat option \<Rightarrow> rat \<Rightarrow> L2Level list \<Rightarrow> rat set" where
  "vwap_values isBuy limitPx sz levels =
    walk_values sz (usable isBuy limitPx levels) 0 0 \<union>
    (let u = usable isBuy limitPx levels; r = sz - min sz (depth u);
         w = clamp_px isBuy limitPx (lv_px (last levels))
     in {r, r * w, depth_cost sz u + r * w})"

lemma usable_Nil [simp]: "usable isBuy limitPx [] = []"
  by (simp add: usable_def)

lemma usable_Cons [simp]:
  "usable isBuy limitPx (l # ls) =
    (if beyond isBuy limitPx (lv_px l) then [] else l # usable isBuy limitPx ls)"
  by (simp add: usable_def)

lemma set_usable: "set (usable isBuy limitPx ls) \<subseteq> set ls"
  by (auto simp: usable_def dest: set_takeWhileD)

lemma usable_not_beyond: "l \<in> set (usable isBuy limitPx ls) \<Longrightarrow> \<not> beyond isBuy limitPx (lv_px l)"
  by (auto simp: usable_def dest: set_takeWhileD)

lemma depth_nonneg: "(\<And>l. l \<in> set ls \<Longrightarrow> 0 < lv_sz l) \<Longrightarrow> 0 \<le> depth ls"
  by (induction ls) (auto simp: depth_def intro: add_nonneg_nonneg less_imp_le)

lemma depth_Cons [simp]: "depth (l # ls) = lv_sz l + depth ls"
  by (simp add: depth_def)

lemma depth_Nil [simp]: "depth [] = 0"
  by (simp add: depth_def)

lemma depth_cost_0: "(\<And>l. l \<in> set ls \<Longrightarrow> 0 < lv_sz l) \<Longrightarrow> depth_cost 0 ls = 0"
  by (induction ls) (auto simp: min_absorb1 less_imp_le)

lemma vwap_walk_usable:
  assumes "\<And>l. l \<in> set levels \<Longrightarrow> 0 < lv_sz l" "f \<le> target"
    "exact_on L (walk_values target (usable isBuy limitPx levels) n f)"
  shows "vwap_walk L isBuy limitPx target levels n f =
    (n + depth_cost (target - f) (usable isBuy limitPx levels),
     f + min (target - f) (depth (usable isBuy limitPx levels)))"
  using assms
proof (induction levels arbitrary: n f)
  case (Cons l ls)
  let ?u = "usable isBuy limitPx ls"
  have pos: "0 < lv_sz l" "\<And>x. x \<in> set ?u \<Longrightarrow> 0 < lv_sz x"
    using Cons.prems(1) set_usable [of isBuy limitPx ls] by auto
  have d: "0 \<le> depth ?u" by (rule depth_nonneg) (rule pos(2))
  consider "target \<le> f" | "f < target" "beyond isBuy limitPx (lv_px l)"
    | "f < target" "\<not> beyond isBuy limitPx (lv_px l)" by linarith
  then show ?case
  proof cases
    case 1
    with Cons.prems(2) have "target = f" by simp
    with pos d show ?thesis by (simp add: depth_cost_0 min_def)
  next
    case 3
    let ?s = "min (target - f) (lv_sz l)"
    have ex: "exact_on L (walk_values target ?u (n + ?s * lv_px l) (f + ?s))"
      and r: "rnd L (target - f) = target - f" "rnd L (?s * lv_px l) = ?s * lv_px l"
        "rnd L (n + ?s * lv_px l) = n + ?s * lv_px l" "rnd L (f + ?s) = f + ?s"
      using Cons.prems(3) 3 by (simp_all add: Let_def)
    have s: "(if lv_sz l \<le> target - f then lv_sz l else target - f) = ?s" by (simp add: min_def)
    have "vwap_walk L isBuy limitPx target (l # ls) n f =
        vwap_walk L isBuy limitPx target ls (n + ?s * lv_px l) (f + ?s)"
      using 3 by (simp add: Let_def dec_defs r s)
    also have "\<dots> = (n + ?s * lv_px l + depth_cost (target - (f + ?s)) ?u,
        f + ?s + min (target - (f + ?s)) (depth ?u))"
      by (rule Cons.IH) (use Cons.prems(1) ex in auto)
    finally show ?thesis
      using 3 d pos by (auto simp: min_def diff_diff_eq)
  qed simp
qed simp

subsection \<open>The price is the average cost\<close>

lemma depth_pos:
  assumes "\<And>l. l \<in> set levels \<Longrightarrow> 0 < lv_sz l" "usable isBuy limitPx levels \<noteq> []"
  shows "0 < depth (usable isBuy limitPx levels)"
proof -
  obtain l ls where u: "usable isBuy limitPx levels = l # ls"
    using assms(2) by (cases "usable isBuy limitPx levels") auto
  then have "\<And>x. x \<in> set (l # ls) \<Longrightarrow> 0 < lv_sz x"
    using assms(1) set_usable [of isBuy limitPx levels] by auto
  then show ?thesis using depth_nonneg [of ls] by (simp add: u add_pos_nonneg)
qed

lemma computeVwap_average_cost_aux:
  assumes "levels \<noteq> []" "0 < sz" "\<And>l. l \<in> set levels \<Longrightarrow> 0 < lv_sz l"
    and "usable isBuy limitPx levels \<noteq> []"
    and "exact_on L (vwap_values isBuy limitPx sz levels)"
  shows "computeVwap L (Some levels) sz isBuy limitPx fallbackPx =
    \<lparr>vr_fillPx = clamp_px isBuy limitPx (rnd L (book_cost isBuy limitPx sz levels / sz)),
     vr_source = Vwap\<rparr>"
proof -
  let ?u = "usable isBuy limitPx levels"
  let ?w = "clamp_px isBuy limitPx (lv_px (last levels))"
  let ?f = "min sz (depth ?u)"
  have d: "0 < depth ?u" by (rule depth_pos) (use assms in auto)
  have walk: "vwap_walk L isBuy limitPx sz levels 0 0 = (depth_cost sz ?u, ?f)"
    using vwap_walk_usable [of levels 0 sz L isBuy limitPx 0] assms
    by (simp add: vwap_values_def Let_def)
  have r: "rnd L (sz - ?f) = sz - ?f" "rnd L ((sz - ?f) * ?w) = (sz - ?f) * ?w"
    "rnd L (depth_cost sz ?u + (sz - ?f) * ?w) = depth_cost sz ?u + (sz - ?f) * ?w"
    using assms(5) by (simp_all add: vwap_values_def Let_def)
  show ?thesis
  proof (cases "depth ?u < sz")
    case True
    then have "?f = depth ?u" by simp
    with True d show ?thesis
      using assms(1) r by (simp add: computeVwap_def walk dec_defs book_cost_def Let_def)
  next
    case False
    then have "?f = sz" by simp
    with False show ?thesis
      using assms(1,2) by (simp add: computeVwap_def walk dec_defs book_cost_def Let_def)
  qed
qed

text \<open>
  C7. With positive sizes, at least one level inside the limit and no rounding on the way,
  the fill price is the exact cost of the order on the book (usable depth level by level,
  the remainder at the worst price clamped to the limit) divided by its size, clamped to
  the limit once more.
\<close>

theorem computeVwap_average_cost:
  assumes "levels \<noteq> []" "0 < sz" "\<And>l. l \<in> set levels \<Longrightarrow> 0 < lv_sz l"
    and "usable isBuy limitPx levels \<noteq> []"
    and "exact_on L (vwap_values isBuy limitPx sz levels)"
  shows "computeVwap L (Some levels) sz isBuy limitPx fallbackPx =
    \<lparr>vr_fillPx = clamp_px isBuy limitPx (rnd L (book_cost isBuy limitPx sz levels / sz)),
     vr_source = Vwap\<rparr>"
  using assms by (rule computeVwap_average_cost_aux)

theorem computeVwap_average_cost_witness:
  "computeVwap decimal30 (Some [\<lparr>lv_px = 50000, lv_sz = 1, lv_n = 1\<rparr>, \<lparr>lv_px = 50010, lv_sz = 2, lv_n = 1\<rparr>])
     4 True (Some 50100) 0 =
   \<lparr>vr_fillPx = clamp_px True (Some 50100) (rnd decimal30
      (book_cost True (Some 50100) 4 [\<lparr>lv_px = 50000, lv_sz = 1, lv_n = 1\<rparr>, \<lparr>lv_px = 50010, lv_sz = 2, lv_n = 1\<rparr>] / 4)),
    vr_source = Vwap\<rparr>"
  by (rule computeVwap_average_cost)
    (auto simp: beyond_def clamp_px_def vwap_values_def Let_def intro!: rnd30_scaled)

subsection \<open>The limit\<close>

lemma clamp_px_buy: "clamp_px True (Some l) px \<le> l"
  by (simp add: clamp_px_def beyond_def)

lemma clamp_px_sell: "l \<le> clamp_px False (Some l) px"
  by (simp add: clamp_px_def beyond_def)

lemma computeVwap_clamped:
  "vr_fillPx (computeVwap L levels sz isBuy (Some l) fallbackPx) = fallbackPx \<or>
   (if isBuy then vr_fillPx (computeVwap L levels sz isBuy (Some l) fallbackPx) \<le> l
    else l \<le> vr_fillPx (computeVwap L levels sz isBuy (Some l) fallbackPx))"
  using clamp_px_buy clamp_px_sell
  by (cases isBuy) (auto simp: computeVwap_def Let_def split: option.splits if_splits prod.splits)

text \<open>The price of an order never leaves its limit when the fallback price does not.\<close>

lemma computeFillPrice_within_limit:
  assumes "if o_isBuy ord then fallbackPx \<le> o_limitPx ord else o_limitPx ord \<le> fallbackPx"
  shows "if o_isBuy ord then computeFillPrice L book ord fallbackPx None \<le> o_limitPx ord
    else o_limitPx ord \<le> computeFillPrice L book ord fallbackPx None"
proof (cases book)
  case (Some b)
  then show ?thesis
    using assms computeVwap_clamped [of L _ "o_sz ord" "o_isBuy ord" "o_limitPx ord" fallbackPx]
    by (auto simp: computeFillPrice_def Let_def) metis+
qed (use assms in \<open>simp add: computeFillPrice_def\<close>)

text \<open>
  A price taken from the book respects the limit, whatever the book, the size and the
  rounding: a buy never pays more and a sell never receives less than its limit price.
\<close>

theorem computeVwap_respects_limit:
  assumes "vr_source (computeVwap L levels sz isBuy (Some l) fallbackPx) = Vwap"
  shows "if isBuy then vr_fillPx (computeVwap L levels sz isBuy (Some l) fallbackPx) \<le> l
         else l \<le> vr_fillPx (computeVwap L levels sz isBuy (Some l) fallbackPx)"
  using assms clamp_px_buy clamp_px_sell
  by (cases isBuy) (auto simp: computeVwap_def Let_def split: option.splits if_splits prod.splits)

theorem computeVwap_respects_limit_witness:
  "vr_fillPx (computeVwap decimal30 (Some [\<lparr>lv_px = 50000, lv_sz = 1, lv_n = 1\<rparr>]) 1 True (Some 50001) 7) \<le> 50001"
proof -
  have s: "vr_source (computeVwap decimal30 (Some [\<lparr>lv_px = 50000, lv_sz = 1, lv_n = 1\<rparr>]) 1 True (Some 50001) 7) = Vwap"
    by (simp add: computeVwap_def beyond_def Let_def dec_defs rnd30_scaled)
  show ?thesis
    using computeVwap_respects_limit [OF s] by simp
qed

subsection \<open>Between the best and the worst level\<close>

lemma depth_cost_bounds:
  assumes "\<And>l. l \<in> set ls \<Longrightarrow> 0 < lv_sz l \<and> lo \<le> lv_px l \<and> lv_px l \<le> hi" "0 \<le> need"
  shows "lo * min need (depth ls) \<le> depth_cost need ls \<and> depth_cost need ls \<le> hi * min need (depth ls)"
  using assms
proof (induction ls arbitrary: need)
  case (Cons l ls)
  let ?s = "min need (lv_sz l)"
  have l: "0 < lv_sz l" "lo \<le> lv_px l" "lv_px l \<le> hi" using Cons.prems(1) by auto
  have s: "0 \<le> ?s" "0 \<le> need - ?s" using l(1) Cons.prems(2) by auto
  have d: "0 \<le> depth ls" by (rule depth_nonneg) (use Cons.prems(1) in auto)
  have m: "min need (depth (l # ls)) = ?s + min (need - ?s) (depth ls)"
    using d l(1) by (auto simp: min_def)
  have "lo * min (need - ?s) (depth ls) \<le> depth_cost (need - ?s) ls \<and>
      depth_cost (need - ?s) ls \<le> hi * min (need - ?s) (depth ls)"
    by (rule Cons.IH) (use Cons.prems(1) s in auto)
  moreover have "lo * ?s \<le> ?s * lv_px l" "?s * lv_px l \<le> hi * ?s"
    using mult_left_mono [OF l(2) s(1)] mult_left_mono [OF l(3) s(1)] by (simp_all add: mult.commute)
  ultimately show ?case unfolding m by (simp add: distrib_left)
qed simp

lemma clamp_px_range:
  assumes "usable isBuy limitPx levels \<noteq> []"
    "\<And>l. l \<in> set levels \<Longrightarrow> lo \<le> lv_px l \<and> lv_px l \<le> hi" "lo \<le> px" "px \<le> hi"
  shows "lo \<le> clamp_px isBuy limitPx px \<and> clamp_px isBuy limitPx px \<le> hi"
proof -
  obtain l ls where u: "usable isBuy limitPx levels = l # ls"
    using assms(1) by (cases "usable isBuy limitPx levels") auto
  have "l \<in> set levels" using set_usable [of isBuy limitPx levels] by (auto simp: u)
  then have "lo \<le> lv_px l" "lv_px l \<le> hi" using assms(2) by auto
  moreover have "\<not> beyond isBuy limitPx (lv_px l)"
    by (rule usable_not_beyond [of _ _ _ levels]) (simp add: u)
  ultimately show ?thesis
    using assms(3,4) by (auto simp: clamp_px_def beyond_def split: option.splits if_splits)
qed

text \<open>
  The fill price lies between the best and the worst price of the book side, for every
  rounding that decimal.js documents (the bounds are prices of at most 30 digits).
\<close>

theorem computeVwap_within_book:
  assumes "decimal_js L" "levels \<noteq> []" "0 < sz" "usable isBuy limitPx levels \<noteq> []"
    and lv: "\<And>l. l \<in> set levels \<Longrightarrow> 0 < lv_sz l \<and> lo \<le> lv_px l \<and> lv_px l \<le> hi"
    and "exact_on L (vwap_values isBuy limitPx sz levels)" "fits lo" "fits hi"
  shows "lo \<le> vr_fillPx (computeVwap L (Some levels) sz isBuy limitPx fallbackPx) \<and>
    vr_fillPx (computeVwap L (Some levels) sz isBuy limitPx fallbackPx) \<le> hi"
proof -
  let ?u = "usable isBuy limitPx levels"
  let ?w = "clamp_px isBuy limitPx (lv_px (last levels))"
  let ?f = "min sz (depth ?u)"
  have w: "lo \<le> ?w" "?w \<le> hi"
    using clamp_px_range [of isBuy limitPx levels lo hi "lv_px (last levels)"] assms(2,4) lv by auto
  have c: "lo * ?f \<le> depth_cost sz ?u \<and> depth_cost sz ?u \<le> hi * ?f"
    by (rule depth_cost_bounds) (use lv assms(3) set_usable [of isBuy limitPx levels] in auto)
  have r: "lo * (sz - ?f) \<le> (sz - ?f) * ?w" "(sz - ?f) * ?w \<le> hi * (sz - ?f)"
    using mult_left_mono [OF w(1), of "sz - ?f"] mult_left_mono [OF w(2), of "sz - ?f"]
    by (simp_all add: mult.commute)
  have "lo * sz \<le> book_cost isBuy limitPx sz levels" "book_cost isBuy limitPx sz levels \<le> hi * sz"
    using c r by (simp_all add: book_cost_def right_diff_distrib)
  then have "lo \<le> rnd L (book_cost isBuy limitPx sz levels / sz)"
    "rnd L (book_cost isBuy limitPx sz levels / sz) \<le> hi"
    using decimal_js.rnd_ge_fits [OF assms(1,7)] decimal_js.rnd_le_fits [OF assms(1,8)] assms(3)
    by (simp_all add: field_simps)
  then show ?thesis
    using clamp_px_range [of isBuy limitPx levels lo hi] assms(4) lv
    by (simp_all add: computeVwap_average_cost_aux [OF assms(2,3) _ assms(4,6)])
qed

theorem computeVwap_within_book_witness:
  "50000 \<le> vr_fillPx (computeVwap decimal30
     (Some [\<lparr>lv_px = 50000, lv_sz = 1, lv_n = 1\<rparr>, \<lparr>lv_px = 50010, lv_sz = 2, lv_n = 1\<rparr>]) 3 True None 0) \<and>
   vr_fillPx (computeVwap decimal30
     (Some [\<lparr>lv_px = 50000, lv_sz = 1, lv_n = 1\<rparr>, \<lparr>lv_px = 50010, lv_sz = 2, lv_n = 1\<rparr>]) 3 True None 0) \<le> 50010"
  by (rule computeVwap_within_book [OF decimal30_js])
    (auto simp: beyond_def clamp_px_def vwap_values_def Let_def
      intro!: rnd30_scaled fits_scaled [of 50000 0 50000] fits_scaled [of 50010 0 50010])

end
