(* ===== verification/TrailingMath.thy ===== *)
theory TrailingMath
  imports Types
begin

text \<open>
  The trailing-stop rules of \<^verbatim>\<open>src/engine/trailing-math.ts\<close>: the wire format and its
  validation, the trigger and limit prices, and the state machine that ratchets the best
  mark and decides when a stop fires. Everything here is pure.
\<close>

subsection \<open>Wire format\<close>

text \<open>A JSON value, for the raw action.\<close>

datatype json = JNull | JBool bool | JNum rat | JStr string | JArr "json list" | JObj "(string \<times> json) list"

datatype retracement = RetPx string | RetPct string

record TrailingStopWire =
  tw_asset :: asset
  tw_isBuy :: bool
  tw_sz :: string
  tw_reduceOnly :: bool
  tw_retracement :: retracement
  tw_activationPx :: "string option"

definition TRAILING_KEY_ORDER :: "string list" where
  "TRAILING_KEY_ORDER =
    [''type'', ''asset'', ''isBuy'', ''sz'', ''reduceOnly'', ''retracement'', ''activationPx'']"

text \<open>\<open>None\<close> is the deserialization error; the checks are in the order of the code.\<close>

definition parse_retracement :: "json option \<Rightarrow> retracement option" where
  "parse_retracement r = (case r of
     Some (JObj [(k, JStr v)]) \<Rightarrow>
       (if k = ''px'' then Some (RetPx v) else if k = ''pct'' then Some (RetPct v) else None)
   | _ \<Rightarrow> None)"

definition parse_activation :: "json option \<Rightarrow> string option option" where
  "parse_activation a = (case a of Some JNull \<Rightarrow> Some None | Some (JStr s) \<Rightarrow> Some (Some s) | _ \<Rightarrow> None)"

definition read_wire ::
    "json option \<Rightarrow> json option \<Rightarrow> json option \<Rightarrow> json option \<Rightarrow> json option \<Rightarrow> json option \<Rightarrow>
     json option \<Rightarrow> TrailingStopWire option" where
  \<comment> \<open>the type checks of the seven fields, in the code's order\<close>
  "read_wire ty asset isBuy sz reduceOnly ret act =
    (if ty \<noteq> Some (JStr ''trailingStop'') then None
     else (case (asset, isBuy, sz, reduceOnly) of
        (Some (JNum n), Some (JBool b), Some (JStr s), Some (JBool r)) \<Rightarrow>
          if of_int \<lfloor>n\<rfloor> \<noteq> n \<or> n < 0 then None
          else (case (parse_retracement ret, parse_activation act) of
             (Some ret', Some act') \<Rightarrow>
               Some \<lparr>tw_asset = \<lfloor>n\<rfloor>, tw_isBuy = b, tw_sz = s, tw_reduceOnly = r,
                     tw_retracement = ret', tw_activationPx = act'\<rparr>
           | _ \<Rightarrow> None)
      | _ \<Rightarrow> None))"

definition canonicalizeTrailingStop :: "json \<Rightarrow> TrailingStopWire option" where
  "canonicalizeTrailingStop raw = (case raw of
     JObj a \<Rightarrow>
       let get = map_of a in
       if length a \<noteq> length TRAILING_KEY_ORDER then None
       else if \<not> list_all (\<lambda>k. get k \<noteq> None) TRAILING_KEY_ORDER then None
       else read_wire (get ''type'') (get ''asset'') (get ''isBuy'') (get ''sz'') (get ''reduceOnly'')
              (get ''retracement'') (get ''activationPx'')
   | _ \<Rightarrow> None)"

subsection \<open>Decimal literals\<close>

definition is_digit :: "char \<Rightarrow> bool" where
  "is_digit c \<longleftrightarrow> 48 \<le> (of_char c :: nat) \<and> (of_char c :: nat) \<le> 57"

definition int_part :: "string \<Rightarrow> string" where
  "int_part s = takeWhile is_digit s"

definition frac_part :: "string \<Rightarrow> string" where
  \<comment> \<open>what follows the integer digits\<close>
  "frac_part s = dropWhile is_digit s"

definition dec_re :: "string \<Rightarrow> bool" where
  \<comment> \<open>one or more digits, then optionally a point and one or more digits\<close>
  "dec_re s \<longleftrightarrow> int_part s \<noteq> [] \<and>
    (case frac_part s of [] \<Rightarrow> True
     | c # ds \<Rightarrow> c = CHR ''.'' \<and> ds \<noteq> [] \<and> list_all is_digit ds)"

definition pct_re :: "string \<Rightarrow> bool" where
  "pct_re s \<longleftrightarrow> s \<noteq> [] \<and> last s = CHR ''%'' \<and> dec_re (butlast s)"

fun digits_value :: "nat \<Rightarrow> string \<Rightarrow> nat" where
  "digits_value acc [] = acc"
| "digits_value acc (c # cs) = digits_value (10 * acc + (of_char c - 48)) cs"

definition dec_value :: "string \<Rightarrow> rat" where
  \<comment> \<open>the number a literal denotes\<close>
  "dec_value s = of_nat (digits_value 0 (int_part s)) +
    (let ds = tl (frac_part s) in of_nat (digits_value 0 ds) / 10 ^ length ds)"

definition parseDec :: "string \<Rightarrow> rat option" where
  "parseDec s = (if dec_re s then Some (dec_value s) else None)"

subsection \<open>Validation and persisted parameters\<close>

datatype TrailingKind = KindPx | KindPct

record TrailingParams =
  tp_isBuy :: bool
  tp_kind :: TrailingKind
  tp_value :: rat
  tp_activationPx :: "rat option"
  tp_szDecimals :: nat

record TrailingState =
  ts_activated :: bool
  ts_best :: "rat option"

definition priceDecimals :: "nat \<Rightarrow> nat" where
  "priceDecimals szDecimals = 6 - szDecimals"

definition normalizePx :: "declib \<Rightarrow> rat \<Rightarrow> nat \<Rightarrow> rat" where
  "normalizePx L px szDecimals = toDP L ROUND_DOWN (priceDecimals szDecimals) px"

definition is_integer :: "rat \<Rightarrow> bool" where
  "is_integer x \<longleftrightarrow> of_int \<lfloor>x\<rfloor> = x"

definition validate_retracement :: "declib \<Rightarrow> retracement \<Rightarrow> nat \<Rightarrow> OrderError option" where
  "validate_retracement L ret szDecimals = (case ret of
     RetPct raw \<Rightarrow>
       if \<not> pct_re raw then Some PercentageInvalid
       else
         let v = dec_value (butlast raw) in
         if \<not> is_integer (mul_d L v 1000) then Some PercentageInvalid
         else if lte_d v 0 \<or> gte_d v 100 then Some RetracementInvalid
         else None
   | RetPx raw \<Rightarrow>
       (case parseDec raw of None \<Rightarrow> Some PriceConvert
        | Some px \<Rightarrow> if lte_d (normalizePx L px szDecimals) 0 then Some PriceConvert else None))"

definition validateTrailingStop :: "declib \<Rightarrow> TrailingStopWire \<Rightarrow> nat \<Rightarrow> OrderError option" where
  "validateTrailingStop L a szDecimals =
    (if (case parseDec (tw_sz a) of None \<Rightarrow> True | Some sz \<Rightarrow> lte_d sz 0) then Some InvalidOrderSize
     else case validate_retracement L (tw_retracement a) szDecimals of
       Some e \<Rightarrow> Some e
     | None \<Rightarrow>
        (case tw_activationPx a of None \<Rightarrow> None
         | Some s \<Rightarrow> (case parseDec s of None \<Rightarrow> Some PriceConvert
            | Some act \<Rightarrow> if lte_d act 0 then Some PriceConvert else None)))"

definition paramsFromWire :: "declib \<Rightarrow> TrailingStopWire \<Rightarrow> nat \<Rightarrow> TrailingParams" where
  "paramsFromWire L a szDecimals =
    \<lparr>tp_isBuy = tw_isBuy a,
     tp_kind = (case tw_retracement a of RetPct _ \<Rightarrow> KindPct | RetPx _ \<Rightarrow> KindPx),
     tp_value = (case tw_retracement a of
        RetPct s \<Rightarrow> dec_value (butlast s)
      | RetPx s \<Rightarrow> normalizePx L (dec_value s) szDecimals),
     tp_activationPx = map_option dec_value (tw_activationPx a),
     tp_szDecimals = szDecimals\<rparr>"

definition validatePxAgainstReference :: "TrailingParams \<Rightarrow> rat \<Rightarrow> OrderError option" where
  "validatePxAgainstReference p mark =
    (if tp_kind p \<noteq> KindPx \<or> tp_isBuy p then None
     else let ref = (case tp_activationPx p of Some a \<Rightarrow> a | None \<Rightarrow> mark)
          in if gte_d (tp_value p) ref then Some RetracementInvalid else None)"

subsection \<open>Trigger and limit prices\<close>

definition computeTrigger :: "declib \<Rightarrow> TrailingParams \<Rightarrow> rat \<Rightarrow> rat" where
  "computeTrigger L p best =
    (let v = tp_value p;
         raw = (case tp_kind p of
            KindPx \<Rightarrow> if tp_isBuy p then add_d L best v else sub_d L best v
          | KindPct \<Rightarrow>
             let rate = div_d L v 100
             in if tp_isBuy p then mul_d L best (add_d L 1 rate) else mul_d L best (sub_d L 1 rate))
     in toDP L ROUND_HALF_UP (priceDecimals (tp_szDecimals p)) raw)"

definition limit_step :: "nat \<Rightarrow> rat \<Rightarrow> rat" where
  \<comment> \<open>the price step: at most five significant figures and the coin's decimals\<close>
  "limit_step szDecimals raw =
    (let intDigits = max 1 (dlen (nat \<lfloor>\<bar>raw\<bar>\<rfloor>)); k = min (priceDecimals szDecimals) (5 - intDigits)
     in 1 / 10 ^ k)"

definition computeLimit :: "declib \<Rightarrow> TrailingParams \<Rightarrow> rat \<Rightarrow> rat" where
  "computeLimit L p trigger =
    (let raw = mul_d L trigger (if tp_isBuy p then 11 / 10 else 9 / 10);
         step = limit_step (tp_szDecimals p) raw;
         floored = mul_d L (of_int \<lfloor>div_d L raw step\<rfloor>) step
     in if tp_isBuy p then floored else add_d L floored step)"

subsection \<open>The state machine\<close>

record TrailingEval =
  te_state :: TrailingState
  te_triggerPx :: "rat option"
  te_limitPx :: rat
  te_fire :: bool

definition reached :: "TrailingParams \<Rightarrow> rat \<Rightarrow> bool" where
  "reached p mark = (case tp_activationPx p of None \<Rightarrow> True
     | Some a \<Rightarrow> if tp_isBuy p then lte_d mark a else gte_d mark a)"

definition step_best :: "TrailingParams \<Rightarrow> TrailingState \<Rightarrow> rat \<Rightarrow> (bool \<times> rat option) option" where
  \<comment> \<open>activation and watermark; \<open>None\<close> is the exception on an activated state without a best\<close>
  "step_best p prev mark =
    (if \<not> ts_activated prev then
       (if reached p mark then Some (True, Some mark) else Some (False, ts_best prev))
     else map_option (\<lambda>b. (True, Some (if tp_isBuy p then min_d b mark else max_d b mark))) (ts_best prev))"

definition evaluateTrailing :: "declib \<Rightarrow> TrailingParams \<Rightarrow> TrailingState \<Rightarrow> rat \<Rightarrow> TrailingEval option" where
  "evaluateTrailing L p prev mark =
    (case step_best p prev mark of
       None \<Rightarrow> None
     | Some (False, _) \<Rightarrow>
        (case tp_activationPx p of None \<Rightarrow> None
         | Some a \<Rightarrow> Some \<lparr>te_state = \<lparr>ts_activated = False, ts_best = None\<rparr>, te_triggerPx = None,
             te_limitPx = computeLimit L p (computeTrigger L p a), te_fire = False\<rparr>)
     | Some (True, None) \<Rightarrow> None
     | Some (True, Some best) \<Rightarrow>
        let trigger = computeTrigger L p best
        in Some \<lparr>te_state = \<lparr>ts_activated = True, ts_best = Some best\<rparr>, te_triggerPx = Some trigger,
             te_limitPx = computeLimit L p trigger,
             te_fire = (if tp_isBuy p then gte_d mark trigger else lte_d mark trigger)\<rparr>)"

subsection \<open>Formatting\<close>

definition fmtPrice1 :: "declib \<Rightarrow> rat \<Rightarrow> string" where
  "fmtPrice1 L v = (let s = toFixed L v in if CHR ''.'' \<in> set s then s else s @ ''.0'')"

definition triggerConditionText :: "declib \<Rightarrow> TrailingParams \<Rightarrow> TrailingState \<Rightarrow> string" where
  "triggerConditionText L p s =
    (let act = (case tp_activationPx p of None \<Rightarrow> ''immediate''
           | Some a \<Rightarrow> (if tp_isBuy p then ''below '' else ''above '') @ toFixed L a);
         ret = (case tp_kind p of KindPct \<Rightarrow> toFixed L (tp_value p) @ ''%'' | KindPx \<Rightarrow> toFixed L (tp_value p));
         best = (case ts_best s of None \<Rightarrow> ''waiting'' | Some b \<Rightarrow> toFixed L b)
     in ''Activation '' @ act @ '', retracement '' @ ret @ '', best '' @ best)"

subsection \<open>The wire format is read in any key order\<close>

definition ret_json :: "retracement \<Rightarrow> json" where
  "ret_json r = (case r of RetPx v \<Rightarrow> JObj [(''px'', JStr v)] | RetPct v \<Rightarrow> JObj [(''pct'', JStr v)])"

definition wire_entries :: "TrailingStopWire \<Rightarrow> (string \<times> json) list" where
  \<comment> \<open>the action as an object, in the signing order\<close>
  "wire_entries w =
    [(''type'', JStr ''trailingStop''), (''asset'', JNum (of_int (tw_asset w))),
     (''isBuy'', JBool (tw_isBuy w)), (''sz'', JStr (tw_sz w)), (''reduceOnly'', JBool (tw_reduceOnly w)),
     (''retracement'', ret_json (tw_retracement w)),
     (''activationPx'', (case tw_activationPx w of None \<Rightarrow> JNull | Some s \<Rightarrow> JStr s))]"

lemma wire_entries_keys: "map fst (wire_entries w) = TRAILING_KEY_ORDER"
  by (simp add: wire_entries_def TRAILING_KEY_ORDER_def)

lemma parse_ret_json [simp]: "parse_retracement (Some (ret_json r)) = Some r"
  by (cases r) (simp_all add: ret_json_def parse_retracement_def)

lemma parse_retracement_Some: "parse_retracement r = Some v \<Longrightarrow> r = Some (ret_json v)"
  by (auto simp: parse_retracement_def ret_json_def split: option.splits json.splits list.splits
      prod.splits if_splits)

lemma parse_activation_Some:
  "parse_activation r = Some v \<Longrightarrow> r = Some (case v of None \<Rightarrow> JNull | Some s \<Rightarrow> JStr s)"
  by (auto simp: parse_activation_def split: option.splits json.splits)

lemma read_wire_Some:
  assumes "read_wire ty as ib sz ro ret act = Some w"
  shows "ty = Some (JStr ''trailingStop'')" "as = Some (JNum (of_int (tw_asset w)))"
    "ib = Some (JBool (tw_isBuy w))" "sz = Some (JStr (tw_sz w))" "ro = Some (JBool (tw_reduceOnly w))"
    "ret = Some (ret_json (tw_retracement w))"
    "act = Some (case tw_activationPx w of None \<Rightarrow> JNull | Some s \<Rightarrow> JStr s)" "0 \<le> tw_asset w"
  using assms
  by (auto simp: read_wire_def split: option.splits json.splits if_splits
      dest!: parse_retracement_Some parse_activation_Some)

lemma read_wire_entries:
  "0 \<le> tw_asset w \<Longrightarrow> read_wire (Some (JStr ''trailingStop'')) (Some (JNum (of_int (tw_asset w))))
     (Some (JBool (tw_isBuy w))) (Some (JStr (tw_sz w))) (Some (JBool (tw_reduceOnly w)))
     (Some (ret_json (tw_retracement w)))
     (Some (case tw_activationPx w of None \<Rightarrow> JNull | Some s \<Rightarrow> JStr s)) = Some w"
  by (cases "tw_activationPx w") (simp_all add: read_wire_def parse_activation_def)

lemma wire_lookup [simp]:
  "map_of (wire_entries w) ''type'' = Some (JStr ''trailingStop'')"
  "map_of (wire_entries w) ''asset'' = Some (JNum (of_int (tw_asset w)))"
  "map_of (wire_entries w) ''isBuy'' = Some (JBool (tw_isBuy w))"
  "map_of (wire_entries w) ''sz'' = Some (JStr (tw_sz w))"
  "map_of (wire_entries w) ''reduceOnly'' = Some (JBool (tw_reduceOnly w))"
  "map_of (wire_entries w) ''retracement'' = Some (ret_json (tw_retracement w))"
  "map_of (wire_entries w) ''activationPx'' = Some (case tw_activationPx w of None \<Rightarrow> JNull | Some s \<Rightarrow> JStr s)"
  by (simp_all add: wire_entries_def)

lemma canonicalize_entries:
  "0 \<le> tw_asset w \<Longrightarrow> canonicalizeTrailingStop (JObj (wire_entries w)) = Some w"
  by (simp add: canonicalizeTrailingStop_def Let_def read_wire_entries)
    (simp add: TRAILING_KEY_ORDER_def wire_entries_def)

lemma canonicalize_Some:
  assumes "canonicalizeTrailingStop (JObj a) = Some w"
  shows "length a = length TRAILING_KEY_ORDER" "0 \<le> tw_asset w"
    "\<And>k. k \<in> set TRAILING_KEY_ORDER \<Longrightarrow> map_of a k = map_of (wire_entries w) k"
proof -
  have r: "read_wire (map_of a ''type'') (map_of a ''asset'') (map_of a ''isBuy'') (map_of a ''sz'')
      (map_of a ''reduceOnly'') (map_of a ''retracement'') (map_of a ''activationPx'') = Some w"
    and "length a = length TRAILING_KEY_ORDER"
    using assms by (simp_all add: canonicalizeTrailingStop_def Let_def split: if_splits)
  then show "length a = length TRAILING_KEY_ORDER" by simp
  show "0 \<le> tw_asset w" using read_wire_Some [OF r] by simp
  show "map_of a k = map_of (wire_entries w) k" if "k \<in> set TRAILING_KEY_ORDER" for k
    using that read_wire_Some [OF r] by (auto simp: TRAILING_KEY_ORDER_def)
qed

lemma canonicalize_cong:
  "distinct (map fst a) \<Longrightarrow> distinct (map fst b) \<Longrightarrow> set a = set b \<Longrightarrow>
   canonicalizeTrailingStop (JObj a) = canonicalizeTrailingStop (JObj b)"
  using map_of_inject_set [of a b] distinct_card [of a] distinct_card [of b]
  by (simp add: canonicalizeTrailingStop_def distinct_map)

lemma keys_distinct: "distinct TRAILING_KEY_ORDER"
  by (simp add: TRAILING_KEY_ORDER_def)

lemma canonicalize_set:
  assumes c: "canonicalizeTrailingStop (JObj a) = Some w" and d: "distinct (map fst a)"
  shows "set a = set (wire_entries w)"
proof -
  note some = canonicalize_Some [OF c]
  have sub: "set TRAILING_KEY_ORDER \<subseteq> fst ` set a"
  proof
    fix k assume k: "k \<in> set TRAILING_KEY_ORDER"
    then have "k \<in> fst ` set (wire_entries w)" by (metis wire_entries_keys set_map)
    then have "map_of a k \<noteq> None" using some(3) [OF k] by (simp add: map_of_eq_None_iff)
    then show "k \<in> fst ` set a" by (simp add: map_of_eq_None_iff)
  qed
  have "card (fst ` set a) = card (set TRAILING_KEY_ORDER)"
    using some(1) distinct_card [OF d] distinct_card [OF keys_distinct] by simp
  with sub have keys: "fst ` set a = set TRAILING_KEY_ORDER"
    by (metis List.finite_set card_subset_eq finite_imageI)
  have "map_of a k = map_of (wire_entries w) k" for k
  proof (cases "k \<in> set TRAILING_KEY_ORDER")
    case False
    then have "k \<notin> fst ` set a" "k \<notin> fst ` set (wire_entries w)"
      using keys by (simp, metis wire_entries_keys set_map)
    then show ?thesis by (metis map_of_eq_None_iff)
  qed (rule some(3))
  then have "map_of a = map_of (wire_entries w)" by blast
  then show ?thesis
    using map_of_inject_set [of a "wire_entries w"] d keys_distinct by (simp add: wire_entries_keys)
qed

text \<open>
  An object is accepted exactly when it consists of the seven fields of one action, in
  any key order: the canonical action (hence the bytes the signature is recovered from)
  depends on the fields only, and an object with an extra, missing or mistyped field is
  rejected.
\<close>

theorem canonicalize_iff_fields:
  assumes "distinct (map fst a)"
  shows "canonicalizeTrailingStop (JObj a) = Some w \<longleftrightarrow>
    0 \<le> tw_asset w \<and> set a = set (wire_entries w)"
proof
  assume "canonicalizeTrailingStop (JObj a) = Some w"
  then show "0 \<le> tw_asset w \<and> set a = set (wire_entries w)"
    using canonicalize_set canonicalize_Some(2) assms by blast
next
  assume "0 \<le> tw_asset w \<and> set a = set (wire_entries w)"
  then show "canonicalizeTrailingStop (JObj a) = Some w"
    using canonicalize_cong [of a "wire_entries w"] assms keys_distinct
    by (simp add: wire_entries_keys canonicalize_entries)
qed

theorem canonicalize_iff_fields_witness:
  "canonicalizeTrailingStop (JObj
     [(''activationPx'', JNull), (''asset'', JNum 3), (''isBuy'', JBool True), (''reduceOnly'', JBool False),
      (''retracement'', JObj [(''pct'', JStr ''5%'')]), (''sz'', JStr ''1''), (''type'', JStr ''trailingStop'')]) =
   Some \<lparr>tw_asset = 3, tw_isBuy = True, tw_sz = ''1'', tw_reduceOnly = False,
     tw_retracement = RetPct ''5%'', tw_activationPx = None\<rparr>"
  by (subst canonicalize_iff_fields) (auto simp: wire_entries_def ret_json_def)

subsection \<open>Well-formed parameters and states\<close>

definition wf_params :: "TrailingParams \<Rightarrow> bool" where
  "wf_params p \<longleftrightarrow> 0 < tp_value p \<and>
    (case tp_kind p of KindPct \<Rightarrow> tp_value p < 100
     | KindPx \<Rightarrow> (\<exists>k. tp_value p = of_int k / 10 ^ priceDecimals (tp_szDecimals p))) \<and>
    (case tp_activationPx p of None \<Rightarrow> True | Some a \<Rightarrow> 0 < a)"

definition wf_state :: "TrailingState \<Rightarrow> bool" where
  "wf_state s \<longleftrightarrow> ts_activated s = (ts_best s \<noteq> None)"

lemma validated_wf:
  assumes "decimal_js L" "validateTrailingStop L a szDecimals = None"
  shows "wf_params (paramsFromWire L a szDecimals)"
proof -
  have act: "case map_option dec_value (tw_activationPx a) of None \<Rightarrow> True | Some x \<Rightarrow> 0 < x"
    using assms(2)
    by (auto simp: validateTrailingStop_def parseDec_def split: option.splits if_splits)
  have ret: "validate_retracement L (tw_retracement a) szDecimals = None"
    using assms(2) by (auto simp: validateTrailingStop_def split: option.splits if_splits)
  show ?thesis
  proof (cases "tw_retracement a")
    case (RetPx s)
    have "\<exists>k. normalizePx L (dec_value s) szDecimals = of_int k / 10 ^ priceDecimals szDecimals"
      using decimal_js.toDP_down [OF assms(1)] by (simp add: normalizePx_def trunc_dp_grid)
    then show ?thesis
      using ret act RetPx
      by (auto simp: validate_retracement_def parseDec_def wf_params_def paramsFromWire_def Let_def
          split: if_splits)
  next
    case (RetPct s)
    then show ?thesis
      using ret act
      by (auto simp: validate_retracement_def wf_params_def paramsFromWire_def Let_def split: if_splits)
  qed
qed



subsection \<open>The watermark\<close>

text \<open>The state after a sequence of marks (one evaluation per tick).\<close>

fun trail_run :: "declib \<Rightarrow> TrailingParams \<Rightarrow> TrailingState \<Rightarrow> rat list \<Rightarrow> TrailingState option" where
  "trail_run L p s [] = Some s"
| "trail_run L p s (m # ms) =
    (case evaluateTrailing L p s m of None \<Rightarrow> None | Some ev \<Rightarrow> trail_run L p (te_state ev) ms)"

definition extreme :: "TrailingParams \<Rightarrow> rat set \<Rightarrow> rat" where
  \<comment> \<open>the most favourable mark\<close>
  "extreme p ms = (if tp_isBuy p then Min ms else Max ms)"

lemma evaluate_activated:
  "evaluateTrailing L p \<lparr>ts_activated = True, ts_best = Some b\<rparr> m =
    (let best = extreme p {b, m}; trigger = computeTrigger L p best in
     Some \<lparr>te_state = \<lparr>ts_activated = True, ts_best = Some best\<rparr>, te_triggerPx = Some trigger,
       te_limitPx = computeLimit L p trigger, te_fire = (if tp_isBuy p then m \<ge> trigger else m \<le> trigger)\<rparr>)"
  by (simp add: evaluateTrailing_def step_best_def extreme_def Let_def)

lemma evaluate_reached:
  "reached p m \<Longrightarrow> evaluateTrailing L p \<lparr>ts_activated = False, ts_best = x\<rparr> m =
    (let trigger = computeTrigger L p m in
     Some \<lparr>te_state = \<lparr>ts_activated = True, ts_best = Some m\<rparr>, te_triggerPx = Some trigger,
       te_limitPx = computeLimit L p trigger, te_fire = (if tp_isBuy p then m \<ge> trigger else m \<le> trigger)\<rparr>)"
  by (simp add: evaluateTrailing_def step_best_def Let_def)

lemma evaluate_waiting:
  assumes "\<not> reached p m"
  obtains a where "tp_activationPx p = Some a"
    "evaluateTrailing L p \<lparr>ts_activated = False, ts_best = x\<rparr> m =
      Some \<lparr>te_state = \<lparr>ts_activated = False, ts_best = None\<rparr>, te_triggerPx = None,
        te_limitPx = computeLimit L p (computeTrigger L p a), te_fire = False\<rparr>"
  using assms
  by (cases "tp_activationPx p") (auto simp: reached_def evaluateTrailing_def step_best_def)

lemma extreme_insert:
  "finite A \<Longrightarrow> extreme p (insert (extreme p {b, m}) A) = extreme p (insert b (insert m A))"
  by (cases "A = {}") (auto simp: extreme_def min.assoc max.assoc)

lemma trail_run_activated:
  "trail_run L p \<lparr>ts_activated = True, ts_best = Some b\<rparr> ms =
    Some \<lparr>ts_activated = True, ts_best = Some (extreme p (insert b (set ms)))\<rparr>"
proof (induction ms arbitrary: b)
  case Nil
  then show ?case by (simp add: extreme_def)
next
  case (Cons m ms)
  then show ?case
    using extreme_insert [of "set ms" p b m] by (simp add: evaluate_activated Let_def)
qed

text \<open>
  C8. After any sequence of marks the persisted state is the declarative watermark: waiting
  if no mark reached the activation price, otherwise activated with the highest (sell) or
  lowest (buy) mark seen since activation. Evaluation never throws on a fresh stop.
\<close>

theorem trail_run_watermark:
  "trail_run L p \<lparr>ts_activated = False, ts_best = None\<rparr> ms =
    (let seen = dropWhile (\<lambda>m. \<not> reached p m) ms in
     Some (if seen = [] then \<lparr>ts_activated = False, ts_best = None\<rparr>
           else \<lparr>ts_activated = True, ts_best = Some (extreme p (set seen))\<rparr>))"
proof (induction ms)
  case (Cons m ms)
  show ?case
  proof (cases "reached p m")
    case True
    then show ?thesis by (simp add: evaluate_reached trail_run_activated Let_def)
  next
    case False
    then obtain a where "evaluateTrailing L p \<lparr>ts_activated = False, ts_best = None\<rparr> m =
      Some \<lparr>te_state = \<lparr>ts_activated = False, ts_best = None\<rparr>, te_triggerPx = None,
        te_limitPx = computeLimit L p (computeTrigger L p a), te_fire = False\<rparr>"
      by (rule evaluate_waiting)
    with False Cons.IH show ?thesis by simp
  qed
qed simp

lemma evaluate_wf:
  "wf_state s \<Longrightarrow> \<exists>ev. evaluateTrailing L p s m = Some ev \<and> wf_state (te_state ev)"
proof -
  assume wf: "wf_state s"
  obtain act best where s: "s = \<lparr>ts_activated = act, ts_best = best\<rparr>" by (cases s)
  show ?thesis
  proof (cases best)
    case (Some b)
    with wf s show ?thesis by (simp add: wf_state_def evaluate_activated Let_def)
  next
    case None
    with wf s have a: "act = False" by (simp add: wf_state_def)
    show ?thesis
    proof (cases "reached p m")
      case True
      then show ?thesis by (simp add: s a None evaluate_reached Let_def wf_state_def)
    next
      case False
      then show ?thesis
        by (rule evaluate_waiting [of p m L None]) (simp add: s a None wf_state_def)
    qed
  qed
qed

subsection \<open>The ratchet\<close>

lemma computeTrigger_mono:
  assumes L: "decimal_js L" and v: "tp_kind p = KindPct \<Longrightarrow> 0 \<le> tp_value p \<and> tp_value p \<le> 100"
    and "x \<le> y"
  shows "computeTrigger L p x \<le> computeTrigger L p y"
proof -
  note mono = decimal_js.rnd_mono [OF L]
  have one: "fits 1" by (rule fits_scaled [of _ 0 1]) simp_all
  show ?thesis
  proof (cases "tp_kind p")
    case KindPx
    with \<open>x \<le> y\<close> show ?thesis
      by (simp add: computeTrigger_def Let_def dec_defs decimal_js.toDP_half_up [OF L] half_up_mono mono)
  next
    case KindPct
    with v have r: "0 \<le> rnd L (tp_value p / 100)" "rnd L (tp_value p / 100) \<le> 1"
      by (simp_all add: decimal_js.rnd_nonneg [OF L] decimal_js.rnd_le_fits [OF L one])
    then have "0 \<le> rnd L (1 + rnd L (tp_value p / 100))" "0 \<le> rnd L (1 - rnd L (tp_value p / 100))"
      by (simp_all add: decimal_js.rnd_nonneg [OF L])
    with KindPct \<open>x \<le> y\<close> show ?thesis
      by (simp add: computeTrigger_def Let_def dec_defs decimal_js.toDP_half_up [OF L] half_up_mono
          mono mult_right_mono)
  qed
qed

text \<open>
  The trigger only tightens: from an activated state, after any further marks, the
  trigger of a sell stop has not fallen and that of a buy stop has not risen.
\<close>

theorem trigger_ratchets:
  assumes "decimal_js L" "wf_params p"
    and "trail_run L p \<lparr>ts_activated = True, ts_best = Some b\<rparr> ms = Some s"
  shows "ts_activated s \<and> (\<exists>b'. ts_best s = Some b' \<and>
    (if tp_isBuy p then computeTrigger L p b' \<le> computeTrigger L p b
     else computeTrigger L p b \<le> computeTrigger L p b'))"
proof -
  have s: "s = \<lparr>ts_activated = True, ts_best = Some (extreme p (insert b (set ms)))\<rparr>"
    using assms(3) by (simp add: trail_run_activated)
  have "tp_kind p = KindPct \<Longrightarrow> 0 \<le> tp_value p \<and> tp_value p \<le> 100"
    using assms(2) by (auto simp: wf_params_def)
  note mono = computeTrigger_mono [OF assms(1) this]
  show ?thesis by (auto simp: s extreme_def intro!: mono)
qed

theorem trigger_ratchets_witness:
  "computeTrigger decimal30 \<lparr>tp_isBuy = False, tp_kind = KindPct, tp_value = 5, tp_activationPx = None, tp_szDecimals = 5\<rparr> 80000
   \<le> computeTrigger decimal30 \<lparr>tp_isBuy = False, tp_kind = KindPct, tp_value = 5, tp_activationPx = None, tp_szDecimals = 5\<rparr> 83563"
proof -
  let ?p = "\<lparr>tp_isBuy = False, tp_kind = KindPct, tp_value = 5, tp_activationPx = None, tp_szDecimals = 5\<rparr>"
  have r: "trail_run decimal30 ?p \<lparr>ts_activated = True, ts_best = Some 80000\<rparr> [83563, 81000] =
      Some \<lparr>ts_activated = True, ts_best = Some 83563\<rparr>"
    by (subst trail_run_activated) (simp add: extreme_def)
  have "wf_params ?p" by (simp add: wf_params_def)
  from trigger_ratchets [OF decimal30_js this r] show ?thesis by simp
qed

subsection \<open>When a stop fires\<close>

definition retrace :: "TrailingParams \<Rightarrow> rat \<Rightarrow> rat" where
  \<comment> \<open>the distance the user asked for, at a watermark\<close>
  "retrace p best = (case tp_kind p of KindPx \<Rightarrow> tp_value p | KindPct \<Rightarrow> best * (tp_value p / 100))"

definition price_step :: "TrailingParams \<Rightarrow> rat" where
  "price_step p = 1 / 10 ^ priceDecimals (tp_szDecimals p)"

definition trigger_values :: "TrailingParams \<Rightarrow> rat \<Rightarrow> rat set" where
  "trigger_values p best = (case tp_kind p of
     KindPx \<Rightarrow> {best + tp_value p, best - tp_value p}
   | KindPct \<Rightarrow> {tp_value p / 100, 1 + tp_value p / 100, 1 - tp_value p / 100,
       best * (1 + tp_value p / 100), best * (1 - tp_value p / 100)})"

lemma computeTrigger_distance:
  assumes L: "decimal_js L" and ex: "exact_on L (trigger_values p best)"
  shows "\<bar>computeTrigger L p best - (if tp_isBuy p then best + retrace p best else best - retrace p best)\<bar>
    \<le> price_step p / 2"
proof -
  have "computeTrigger L p best = half_up_dp (priceDecimals (tp_szDecimals p))
      (if tp_isBuy p then best + retrace p best else best - retrace p best)"
  proof (cases "tp_kind p")
    case KindPx
    then have "rnd L (best + tp_value p) = best + tp_value p" "rnd L (best - tp_value p) = best - tp_value p"
      using ex by (simp_all add: trigger_values_def)
    with KindPx show ?thesis
      by (simp add: computeTrigger_def retrace_def Let_def dec_defs decimal_js.toDP_half_up [OF L])
  next
    case KindPct
    let ?r = "tp_value p / 100"
    have r: "rnd L ?r = ?r" "rnd L (1 + ?r) = 1 + ?r" "rnd L (1 - ?r) = 1 - ?r"
      "rnd L (best * (1 + ?r)) = best * (1 + ?r)" "rnd L (best * (1 - ?r)) = best * (1 - ?r)"
      using ex KindPct by (simp_all add: trigger_values_def)
    have "best * (1 + ?r) = best + best * ?r" "best * (1 - ?r) = best - best * ?r"
      by (simp_all add: algebra_simps)
    then show ?thesis
      using KindPct r
      by (simp only: computeTrigger_def retrace_def Let_def dec_defs decimal_js.toDP_half_up [OF L]
          TrailingKind.case split: if_splits)
  qed
  then show ?thesis
    using half_up_err [of "priceDecimals (tp_szDecimals p)"] by (simp add: price_step_def mult.commute)
qed

lemma evaluate_fires:
  assumes "evaluateTrailing L p s m = Some ev" "te_fire ev"
  obtains best where "ts_best (te_state ev) = Some best" "ts_activated (te_state ev)"
    "if tp_isBuy p then computeTrigger L p best \<le> m else m \<le> computeTrigger L p best"
  using assms
  by (auto simp: evaluateTrailing_def Let_def split: option.splits prod.splits bool.splits if_splits)

text \<open>
  A stop fires only when the mark has retraced: measured from the watermark, the mark
  has moved against the position by the user's distance, up to half a price step (the
  rounding of the trigger). A stop that was never activated does not fire.
\<close>

theorem fire_needs_retracement:
  assumes "decimal_js L" "evaluateTrailing L p s m = Some ev" "te_fire ev"
    and "\<And>best. ts_best (te_state ev) = Some best \<Longrightarrow> exact_on L (trigger_values p best)"
  shows "ts_activated (te_state ev) \<and> (\<exists>best. ts_best (te_state ev) = Some best \<and>
    retrace p best - price_step p / 2 \<le> (if tp_isBuy p then m - best else best - m))"
proof -
  obtain best where b: "ts_best (te_state ev) = Some best" "ts_activated (te_state ev)"
    and m: "if tp_isBuy p then computeTrigger L p best \<le> m else m \<le> computeTrigger L p best"
    using assms(2,3) by (rule evaluate_fires)
  have "\<bar>computeTrigger L p best - (if tp_isBuy p then best + retrace p best else best - retrace p best)\<bar>
      \<le> price_step p / 2"
    using assms(1) assms(4) [OF b(1)] by (rule computeTrigger_distance)
  with m have "retrace p best - price_step p / 2 \<le> (if tp_isBuy p then m - best else best - m)"
    unfolding abs_le_iff by (cases "tp_isBuy p") simp_all
  with b show ?thesis by blast
qed

theorem fire_needs_retracement_witness:
  "\<exists>ev. evaluateTrailing decimal30
      \<lparr>tp_isBuy = False, tp_kind = KindPx, tp_value = 100, tp_activationPx = None, tp_szDecimals = 5\<rparr>
      \<lparr>ts_activated = True, ts_best = Some 80000\<rparr> 79000 = Some ev \<and> te_fire ev \<and> ts_activated (te_state ev)"
proof -
  let ?p = "\<lparr>tp_isBuy = False, tp_kind = KindPx, tp_value = 100, tp_activationPx = None, tp_szDecimals = 5\<rparr>"
  have r: "rnd decimal30 79900 = 79900" "rnd decimal30 80100 = 80100" by (simp_all add: rnd30_scaled)
  have "\<lfloor>1598001 / 2 :: rat\<rfloor> = 799000" by linarith
  then have t: "computeTrigger decimal30 ?p 80000 = 79900"
    by (simp add: computeTrigger_def Let_def dec_defs d30.toDP_half_up half_up_dp_def priceDecimals_def r)
  define ev where "ev = the (evaluateTrailing decimal30 ?p \<lparr>ts_activated = True, ts_best = Some 80000\<rparr> 79000)"
  have e: "evaluateTrailing decimal30 ?p \<lparr>ts_activated = True, ts_best = Some 80000\<rparr> 79000 = Some ev"
    and f: "te_fire ev" and b: "ts_best (te_state ev) = Some 80000"
    by (simp_all add: ev_def evaluate_activated extreme_def Let_def t)
  have "exact_on decimal30 (trigger_values ?p best)" if "ts_best (te_state ev) = Some best" for best
    using that b by (simp add: trigger_values_def r)
  from fire_needs_retracement [OF decimal30_js e f this] e f show ?thesis by blast
qed

text \<open>
  A stop with a fixed distance never fires on the mark that sets its watermark: the
  distance is at least one price step, and rounding moves the trigger by half a step.
\<close>

theorem fixed_distance_rests_at_watermark:
  assumes "decimal_js L" "wf_params p" "tp_kind p = KindPx"
    and "evaluateTrailing L p s m = Some ev" "ts_best (te_state ev) = Some m"
    and "exact_on L (trigger_values p m)"
  shows "\<not> te_fire ev"
proof
  assume "te_fire ev"
  with assms(4) obtain best where b: "ts_best (te_state ev) = Some best"
    and f: "if tp_isBuy p then computeTrigger L p best \<le> m else m \<le> computeTrigger L p best"
    by (rule evaluate_fires)
  with assms(5) have best: "best = m" by simp
  obtain k where v: "0 < tp_value p" "tp_value p = of_int k * price_step p"
    using assms(2,3) by (auto simp: wf_params_def price_step_def)
  then have "0 < k" by (simp add: price_step_def zero_less_divide_iff)
  then have "1 \<le> k" by simp
  then have "(1::rat) \<le> of_int k" by (metis of_int_1 of_int_le_iff)
  then have "price_step p \<le> tp_value p"
    using v(2) mult_right_mono [of 1 "of_int k" "price_step p"] by (simp add: price_step_def)
  moreover have "0 < price_step p" by (simp add: price_step_def)
  moreover have "\<bar>computeTrigger L p m - (if tp_isBuy p then m + retrace p m else m - retrace p m)\<bar>
      \<le> price_step p / 2"
    using assms(1,6) by (rule computeTrigger_distance)
  ultimately show False
    using f by (auto simp: best retrace_def assms(3) split: if_splits)
qed

theorem fixed_distance_rests_at_watermark_witness:
  "\<exists>ev. evaluateTrailing decimal30
      \<lparr>tp_isBuy = False, tp_kind = KindPx, tp_value = 1 / 10, tp_activationPx = None, tp_szDecimals = 5\<rparr>
      \<lparr>ts_activated = False, ts_best = None\<rparr> 80000 = Some ev \<and> \<not> te_fire ev"
proof -
  let ?p = "\<lparr>tp_isBuy = False, tp_kind = KindPx, tp_value = 1 / 10, tp_activationPx = None, tp_szDecimals = 5\<rparr>"
  define ev where "ev = the (evaluateTrailing decimal30 ?p \<lparr>ts_activated = False, ts_best = None\<rparr> 80000)"
  have "reached ?p 80000" by (simp add: reached_def)
  then have e: "evaluateTrailing decimal30 ?p \<lparr>ts_activated = False, ts_best = None\<rparr> 80000 = Some ev"
    and b: "ts_best (te_state ev) = Some 80000"
    by (simp_all add: ev_def evaluate_reached Let_def)
  have "wf_params ?p" by (auto simp: wf_params_def priceDecimals_def intro: exI [of _ 1])
  moreover have "exact_on decimal30 (trigger_values ?p 80000)"
    by (simp add: trigger_values_def rnd30_scaled)
  ultimately have "\<not> te_fire ev"
    using fixed_distance_rests_at_watermark [OF decimal30_js _ _ e b] by simp
  with e show ?thesis by blast
qed

subsection \<open>The price cap\<close>

definition limit_values :: "TrailingParams \<Rightarrow> rat \<Rightarrow> rat set" where
  "limit_values p trigger =
    (let raw = trigger * (if tp_isBuy p then 11 / 10 else 9 / 10); step = limit_step (tp_szDecimals p) raw;
         floored = of_int \<lfloor>raw / step\<rfloor> * step
     in {raw, raw / step, floored, floored + step})"

lemma limit_step_pos: "0 < limit_step d raw"
  by (simp add: limit_step_def Let_def)

lemma floor_step_bounds:
  fixes raw step :: rat
  assumes "0 < step"
  shows "of_int \<lfloor>raw / step\<rfloor> * step \<le> raw" "raw < of_int \<lfloor>raw / step\<rfloor> * step + step"
proof -
  have "of_int \<lfloor>raw / step\<rfloor> \<le> raw / step" by linarith
  then show "of_int \<lfloor>raw / step\<rfloor> * step \<le> raw" by (simp only: pos_le_divide_eq [OF assms])
  have "raw / step < of_int \<lfloor>raw / step\<rfloor> + 1" by linarith
  then show "raw < of_int \<lfloor>raw / step\<rfloor> * step + step"
    by (simp only: pos_divide_less_eq [OF assms] distrib_right mult_1)
qed

text \<open>
  The cap of the market order a fired stop becomes is within one price step of ten
  percent: a buy is capped at most ten percent above its trigger, a sell just above ten
  percent below.
\<close>

theorem computeLimit_ten_percent:
  assumes "exact_on L (limit_values p trigger)"
  shows "\<exists>step > 0. step \<le> 1 \<and>
    (if tp_isBuy p
     then computeLimit L p trigger \<le> trigger * (11 / 10) \<and> trigger * (11 / 10) - step < computeLimit L p trigger
     else trigger * (9 / 10) < computeLimit L p trigger \<and> computeLimit L p trigger \<le> trigger * (9 / 10) + step)"
proof -
  let ?raw = "trigger * (if tp_isBuy p then 11 / 10 else 9 / 10)"
  let ?step = "limit_step (tp_szDecimals p) ?raw"
  have st: "0 < ?step" "?step \<le> 1" by (rule limit_step_pos) (simp add: limit_step_def Let_def)
  have "computeLimit L p trigger = of_int \<lfloor>?raw / ?step\<rfloor> * ?step + (if tp_isBuy p then 0 else ?step)"
    using assms
    by (cases "tp_isBuy p")
      (simp_all only: computeLimit_def limit_values_def Let_def dec_defs exact_on_insert if_True if_False
        simp_thms add_0_right)
  with floor_step_bounds [OF st(1), of ?raw] st show ?thesis
    by (intro exI [of _ ?step]) (auto split: if_splits)
qed

theorem computeLimit_ten_percent_witness:
  "81080 * (9 / 10) < computeLimit decimal30 \<lparr>tp_isBuy = False, tp_kind = KindPx, tp_value = 1, tp_activationPx = None, tp_szDecimals = 5\<rparr> 81080"
proof -
  let ?p = "\<lparr>tp_isBuy = False, tp_kind = KindPx, tp_value = 1, tp_activationPx = None, tp_szDecimals = 5\<rparr>"
  have "limit_step 5 72972 = 1"
    by (simp add: limit_step_def dlen.simps [of 72972] dlen.simps [of 7297] dlen.simps [of 729]
        dlen.simps [of 72] dlen.simps [of 7])
  then have "exact_on decimal30 (limit_values ?p 81080)"
    by (simp add: limit_values_def rnd30_scaled)
  note bound = computeLimit_ten_percent [OF this]
  have "\<not> tp_isBuy ?p" by simp
  with bound show ?thesis by (elim exE) (simp only: if_False simp_thms)
qed

end
