(* ===== verification/TrailingHash.thy ===== *)
theory TrailingHash
  imports TrailingMath
begin

text \<open>
  The Redis hash of an order and the rows built from it: the last part of
  engine/trailing-math.ts (field encoding, the Hyperliquid-shaped bodies) and
  \<open>paperOrderFromHash\<close> of engine/trailing-state.ts. A hash is a record: the order's own
  fields, the optional expiry, the fields that only a trailing stop has, and the frozen body
  (\<open>trSnap\<close>). The trailing fields of an order of another type are never read: every
  reader first looks at \<open>orderType\<close> or walks the set of trailing stops.
\<close>

subsection \<open>The persisted fields\<close>

record TrailingFields =
  trKind :: TrailingKind
  trValue :: rat
  trActPx :: "rat option"
  trActivated :: bool
  trBest :: "rat option"
  trSzDec :: nat

record TrailingBody =
  tb_coin :: coin
  tb_side :: Side
  tb_limitPx :: string
  tb_sz :: rat
  tb_oid :: oid
  tb_timestamp :: millis
  tb_triggerCondition :: string
  tb_isTrigger :: bool
  tb_triggerPx :: string
  tb_reduceOnly :: bool
  tb_origSz :: rat
  tb_tif :: "TimeInForce option"

record OrderHash =
  h_order :: PaperOrder
  h_expiresAfter :: "millis option"
  h_trail :: TrailingFields
  h_trSnap :: "TrailingBody option"

definition fieldsFrom :: "TrailingParams \<Rightarrow> TrailingState \<Rightarrow> TrailingFields" where
  "fieldsFrom p s =
    \<lparr>trKind = tp_kind p, trValue = tp_value p, trActPx = tp_activationPx p,
     trActivated = ts_activated s, trBest = ts_best s, trSzDec = tp_szDecimals p\<rparr>"

definition isTrailingHash :: "OrderHash \<Rightarrow> bool" where
  "isTrailingHash d \<longleftrightarrow> o_orderType (h_order d) = TrailingStop"

definition readTrailing :: "OrderHash \<Rightarrow> TrailingParams \<times> TrailingState" where
  "readTrailing d =
    (\<lparr>tp_isBuy = o_isBuy (h_order d), tp_kind = trKind (h_trail d), tp_value = trValue (h_trail d),
      tp_activationPx = trActPx (h_trail d), tp_szDecimals = trSzDec (h_trail d)\<rparr>,
     \<lparr>ts_activated = trActivated (h_trail d), ts_best = trBest (h_trail d)\<rparr>)"

lemma readTrailing_fieldsFrom:
  "o_isBuy (h_order d) = tp_isBuy p \<Longrightarrow> h_trail d = fieldsFrom p s \<Longrightarrow> readTrailing d = (p, s)"
  by (simp add: readTrailing_def fieldsFrom_def)

subsection \<open>Bodies and rows\<close>

definition remainderSz :: "declib \<Rightarrow> OrderHash \<Rightarrow> rat" where
  "remainderSz L d =
    (let rem = sub_d L (o_sz (h_order d)) (o_filledSz (h_order d)) in if lte_d rem 0 then 0 else rem)"

definition side_of :: "bool \<Rightarrow> Side" where
  "side_of isBuy = (if isBuy then SideB else SideA)"

definition buildTrailingBody :: "declib \<Rightarrow> OrderHash \<Rightarrow> bool \<Rightarrow> TrailingBody" where
  "buildTrailingBody L d finished =
    (let ord = h_order d; (params, st) = readTrailing d;
         limitPx = fmtPrice1 L (o_limitPx ord)
     in if finished
        then \<lparr>tb_coin = o_coin ord, tb_side = side_of (o_isBuy ord), tb_limitPx = limitPx,
              tb_sz = remainderSz L d, tb_oid = o_oid ord, tb_timestamp = o_updatedAt ord,
              tb_triggerCondition = ''Triggered'', tb_isTrigger = False, tb_triggerPx = ''0.0'',
              tb_reduceOnly = o_reduceOnly ord, tb_origSz = o_sz ord, tb_tif = Some Gtc\<rparr>
        else \<lparr>tb_coin = o_coin ord, tb_side = side_of (o_isBuy ord), tb_limitPx = limitPx,
              tb_sz = o_sz ord, tb_oid = o_oid ord, tb_timestamp = o_createdAt ord,
              tb_triggerCondition = triggerConditionText L params st, tb_isTrigger = True,
              tb_triggerPx =
                (case o_triggerPx ord of
                   Some t \<Rightarrow> if ts_activated st then fmtPrice1 L t else ''0.0''
                 | None \<Rightarrow> ''0.0''),
              tb_reduceOnly = o_reduceOnly ord, tb_origSz = o_sz ord, tb_tif = None\<rparr>)"

record OpenOrderRow =
  or_coin :: coin
  or_side :: Side
  or_limitPx :: string
  or_sz :: rat
  or_oid :: oid
  or_timestamp :: millis
  or_origSz :: rat
  or_reduceOnly :: "bool option"

definition buildTrailingOpenOrderRow :: "declib \<Rightarrow> OrderHash \<Rightarrow> OpenOrderRow" where
  "buildTrailingOpenOrderRow L d =
    (let ord = h_order d
     in \<lparr>or_coin = o_coin ord, or_side = side_of (o_isBuy ord), or_limitPx = fmtPrice1 L (o_limitPx ord),
         or_sz = o_sz ord, or_oid = o_oid ord, or_timestamp = o_createdAt ord, or_origSz = o_sz ord,
         or_reduceOnly = (if o_reduceOnly ord then Some True else None)\<rparr>)"

record TrailingOrderStatus =
  to_body :: TrailingBody
  to_status :: OrderStatus
  to_statusTimestamp :: millis

definition buildTrailingOrderStatus :: "declib \<Rightarrow> OrderHash \<Rightarrow> bool \<Rightarrow> TrailingOrderStatus" where
  "buildTrailingOrderStatus L d liveMode =
    (let status = o_status (h_order d);
         frozen = (case h_trSnap d of None \<Rightarrow> buildTrailingBody L d False | Some b \<Rightarrow> b);
         body = (if status = St_filled then buildTrailingBody L d True
                 else if status = St_open
                      then (if liveMode then buildTrailingBody L d False else frozen)
                 else frozen)
     in \<lparr>to_body = body, to_status = status, to_statusTimestamp = o_updatedAt (h_order d)\<rparr>)"

definition paperOrderFromHash :: "OrderHash \<Rightarrow> OrderStatus \<Rightarrow> millis \<Rightarrow> PaperOrder" where
  "paperOrderFromHash d status ts =
    (h_order d)\<lparr>o_cloid := None, o_orderType := TrailingStop, o_tif := Gtc, o_grouping := Na,
      o_tpsl := None, o_isMarket := False, o_builder := None, o_twapId := None,
      o_status := status, o_updatedAt := ts\<rparr>"

subsection \<open>Persisting an evaluation\<close>

definition apply_eval :: "TrailingEval \<Rightarrow> OrderHash \<Rightarrow> OrderHash" where
  "apply_eval ev d =
    d\<lparr>h_order := (h_order d)\<lparr>o_triggerPx := te_triggerPx ev, o_limitPx := te_limitPx ev\<rparr>,
      h_trail := (h_trail d)\<lparr>trActivated := ts_activated (te_state ev), trBest := ts_best (te_state ev)\<rparr>\<rparr>"

lemma readTrailing_apply_eval [simp]: "readTrailing (apply_eval ev d) = (fst (readTrailing d), te_state ev)"
  by (simp add: readTrailing_def apply_eval_def)

lemma apply_eval_frame [simp]:
  "o_oid (h_order (apply_eval ev d)) = o_oid (h_order d)"
  "o_status (h_order (apply_eval ev d)) = o_status (h_order d)"
  "o_userId (h_order (apply_eval ev d)) = o_userId (h_order d)"
  "o_asset (h_order (apply_eval ev d)) = o_asset (h_order d)"
  "o_coin (h_order (apply_eval ev d)) = o_coin (h_order d)"
  "o_sz (h_order (apply_eval ev d)) = o_sz (h_order d)"
  "o_filledSz (h_order (apply_eval ev d)) = o_filledSz (h_order d)"
  "o_isBuy (h_order (apply_eval ev d)) = o_isBuy (h_order d)"
  "o_reduceOnly (h_order (apply_eval ev d)) = o_reduceOnly (h_order d)"
  "o_orderType (h_order (apply_eval ev d)) = o_orderType (h_order d)"
  by (simp_all add: apply_eval_def)

lemma paperOrderFromHash_fields [simp]:
  "o_oid (paperOrderFromHash d st ts) = o_oid (h_order d)"
  "o_status (paperOrderFromHash d st ts) = st"
  "o_sz (paperOrderFromHash d st ts) = o_sz (h_order d)"
  by (simp_all add: paperOrderFromHash_def)

end
