(* ===== verification/Store.thy ===== *)
theory Store
  imports TrailingHash
begin

text \<open>
  The Redis state that the engine works on (store/keys.ts) and the primitive updates its
  handlers use. Every key of keys.ts that the engine reads or writes is a field of the
  record: a string key or hash as a partial function, a Redis set as a list without order
  (SADD inserts, SREM removes every occurrence), a sorted set as a list of (member, score)
  pairs. \<open>env\<close> holds what an operation gets from outside Redis: decimal.js, the
  HINCRBYFLOAT addition of the Redis server, the clock, the order book that getL2Book
  returns for a coin, the fee and vault configuration, and \<open>pow10neg n\<close>, the value of the
  JavaScript power \<open>10 ** -n\<close>, which ECMAScript leaves to the implementation.
\<close>

subsection \<open>Environment\<close>

record env =
  lib :: declib
  incrf :: "rat \<Rightarrow> rat \<Rightarrow> rat"
  now :: millis
  l2book :: "coin \<Rightarrow> HlL2Book option"
  FEES_ENABLED :: bool
  FEE_RATE_TAKER :: rat
  FEE_RATE_MAKER :: rat
  LIQUIDATOR_VAULT_ADDRESS :: string
  pow10neg :: "nat \<Rightarrow> rat"

subsection \<open>State\<close>

record LeverageSetting =
  lev_leverage :: nat
  lev_isCross :: bool

record SpotPair =
  sp_name :: coin
  sp_base :: nat
  sp_index :: int

record SpotToken =
  st_szDecimals :: nat
  st_index :: nat

record SpotMetaCache =
  spot_tokens :: "SpotToken list"
  spot_universe :: "SpotPair list"

record market =
  mids :: "(coin \<times> rat) list"
  ctx_mark :: "coin \<Rightarrow> (rat \<times> millis) option"
  meta :: "HlMeta option"
  meta_dex :: "dex_name \<Rightarrow> HlMeta option"
  perpDexs :: "dex_name option list option"
  spotMeta :: "SpotMetaCache option"

record PosHash =
  p_coin :: coin
  p_szi :: rat
  p_entryPx :: rat
  p_cumFunding :: rat
  p_cumFundingSinceOpen :: rat
  p_cumFundingSinceChange :: rat
  p_marginAlloc :: "rat option"
  p_rawUsd :: "rat option"

record ledger = market +
  balance :: "user \<Rightarrow> dex_name \<Rightarrow> rat option"
  pos :: "user \<Rightarrow> asset \<Rightarrow> PosHash option"
  posSet :: "user \<Rightarrow> dex_name \<Rightarrow> asset list"
  lev :: "user \<Rightarrow> asset \<Rightarrow> LeverageSetting option"
  holders :: "(user \<times> dex_name) list"
  usersActive :: "user list"
  fills :: "user \<Rightarrow> PaperFill list"
  seqTid :: nat

record book = ledger +
  orders :: "oid \<Rightarrow> OrderHash option"
  openSet :: "oid list"
  trigSet :: "oid list"
  trailSet :: "oid list"
  bracket :: "oid \<Rightarrow> oid list"
  children :: "oid \<Rightarrow> oid list"
  parentOf :: "oid \<Rightarrow> oid option"
  expiry :: "(oid \<times> millis) list"
  userOrders :: "user \<Rightarrow> dex_name \<Rightarrow> (oid \<times> millis) list"
  cloids :: "user \<Rightarrow> string \<Rightarrow> oid option"
  seqOid :: nat

datatype event =
    OrderUpdate user PaperOrder OrderStatus
  | OrderUpdateBatch user "(PaperOrder \<times> OrderStatus) list"
  | FillEvent user PaperFill
  | TrailingHistory user oid OrderStatus millis TrailingBody
  | AccountUpdate user
  | AccountUpdateVenues user "dex_name list"
  | LedgerRow user millis string rat \<comment> \<open>user, time, type of the flow, signed amount\<close>
  | MarkSub coin
  | LiquidationOrder PaperOrder
  | LiquidationLedger user millis LiquidationDelta
  | LiquidationUser user nat rat rat \<comment> \<open>user, lid, notional, account value\<close>
  | LiquidationLog LiquidationEvent
  | TwapUpdate user nat TwapStatus "rat option"
  | TwapHistory nat TwapStatus rat millis \<comment> \<open>id, status, executed size, finished at\<close>
  | TwapActivated nat TwapHash
  | FundingRow user coin rat rat rat millis \<comment> \<open>user, coin, usdc, size, rate, time\<close>

record state = book +
  schedule_cancel :: "user \<Rightarrow> millis option"
  liqCooldown :: "user \<times> dex_name \<times> asset option \<Rightarrow> millis option"
  vault :: "LiquidatorVaultState option"
  twaps :: "nat \<Rightarrow> TwapHash option"
  twapsActive :: "nat list"
  userTwaps :: "user \<Rightarrow> (nat \<times> millis) list"
  seqTwap :: nat
  bus :: "event list"

definition empty_state :: state where
  \<comment> \<open>an empty Redis\<close>
  "empty_state =
    \<lparr>mids = [], ctx_mark = \<lambda>_. None, meta = None, meta_dex = \<lambda>_. None, perpDexs = None, spotMeta = None,
     balance = \<lambda>_ _. None, pos = \<lambda>_ _. None, posSet = \<lambda>_ _. [], lev = \<lambda>_ _. None, holders = [],
     usersActive = [], fills = \<lambda>_. [], seqTid = 0,
     orders = \<lambda>_. None, openSet = [], trigSet = [], trailSet = [], bracket = \<lambda>_. [], children = \<lambda>_. [],
     parentOf = \<lambda>_. None, expiry = [], userOrders = \<lambda>_ _. [], cloids = \<lambda>_ _. None, seqOid = 0,
     schedule_cancel = \<lambda>_. None, liqCooldown = \<lambda>_. None, vault = None, twaps = \<lambda>_. None, twapsActive = [],
     userTwaps = \<lambda>_. [], seqTwap = 0, bus = []\<rparr>"

definition emit :: "event \<Rightarrow> state \<Rightarrow> state" where
  "emit ev s = s\<lparr>bus := bus s @ [ev]\<rparr>"

subsection \<open>Redis sets and sorted sets\<close>

definition sadd :: "'a \<Rightarrow> 'a list \<Rightarrow> 'a list" where
  "sadd x xs = (if x \<in> set xs then xs else x # xs)"

definition srem :: "'a \<Rightarrow> 'a list \<Rightarrow> 'a list" where
  "srem x xs = removeAll x xs"

definition zrem :: "'a \<Rightarrow> ('a \<times> 'b) list \<Rightarrow> ('a \<times> 'b) list" where
  "zrem x z = filter (\<lambda>e. fst e \<noteq> x) z"

definition zadd :: "'b \<Rightarrow> 'a \<Rightarrow> ('a \<times> 'b) list \<Rightarrow> ('a \<times> 'b) list" where
  "zadd score x z = (x, score) # zrem x z"

definition zrangebyscore :: "'b::linorder \<Rightarrow> ('a \<times> 'b) list \<Rightarrow> 'a list" where
  \<comment> \<open>the members with a score up to the bound, in score order\<close>
  "zrangebyscore bound z = map fst (sort_key snd (filter (\<lambda>e. snd e \<le> bound) z))"

text \<open>What the engine relies on: the laws of a set under SADD and SREM.\<close>

locale redis_set =
  fixes add :: "'a \<Rightarrow> 's \<Rightarrow> 's" and rem :: "'a \<Rightarrow> 's \<Rightarrow> 's" and members :: "'s \<Rightarrow> 'a set"
  assumes members_add [simp]: "members (add x s) = insert x (members s)"
    and members_rem [simp]: "members (rem x s) = members s - {x}"
begin

lemma rem_add: "members (rem x (add x s)) = members s - {x}"
  by simp

lemma add_all: "members (foldr add xs s) = set xs \<union> members s"
  by (induction xs) auto

lemma rem_all: "members (foldr rem xs s) = members s - set xs"
  by (induction xs) auto

lemma rem_idle: "x \<notin> members s \<Longrightarrow> members (rem x s) = members s"
  by simp

end

interpretation sset: redis_set sadd srem set
  by unfold_locales (auto simp: sadd_def srem_def)

interpretation zset: redis_set "zadd score" zrem "\<lambda>z. fst ` set z" for score
  by unfold_locales (auto simp: zadd_def zrem_def)

lemma set_sadd [simp]: "set (sadd x xs) = insert x (set xs)"
  by (simp add: sadd_def insert_absorb)

lemma set_srem [simp]: "set (srem x xs) = set xs - {x}"
  by (simp add: srem_def)

lemma distinct_sadd [simp]: "distinct xs \<Longrightarrow> distinct (sadd x xs)"
  by (simp add: sadd_def)

lemma distinct_srem [simp]: "distinct xs \<Longrightarrow> distinct (srem x xs)"
  by (simp add: srem_def distinct_removeAll)

lemma set_zrangebyscore: "set (zrangebyscore b z) = {x. \<exists>t. (x, t) \<in> set z \<and> t \<le> b}"
  by (force simp: zrangebyscore_def)

subsection \<open>Updates of one hash\<close>

definition upd_hash :: "oid \<Rightarrow> (OrderHash \<Rightarrow> OrderHash) \<Rightarrow> state \<Rightarrow> state" where
  \<comment> \<open>HSET on the hash of an order that exists\<close>
  "upd_hash oid f s = s\<lparr>orders := (orders s)(oid := map_option f (orders s oid))\<rparr>"

definition set_status :: "OrderStatus \<Rightarrow> millis \<Rightarrow> OrderHash \<Rightarrow> OrderHash" where
  "set_status st t d = d\<lparr>h_order := (h_order d)\<lparr>o_status := st, o_updatedAt := t\<rparr>\<rparr>"

definition status_of :: "state \<Rightarrow> oid \<Rightarrow> OrderStatus option" where
  "status_of s oid = map_option (\<lambda>d. o_status (h_order d)) (orders s oid)"

definition drop_from_sets :: "oid \<Rightarrow> state \<Rightarrow> state" where
  \<comment> \<open>SREM of orders:open, orders:triggers and orders:trailing\<close>
  "drop_from_sets oid s =
    s\<lparr>openSet := srem oid (openSet s), trigSet := srem oid (trigSet s), trailSet := srem oid (trailSet s)\<rparr>"

definition incr_balance :: "env \<Rightarrow> user \<Rightarrow> dex_name \<Rightarrow> rat \<Rightarrow> state \<Rightarrow> state" where
  \<comment> \<open>HINCRBYFLOAT: a missing field counts as 0\<close>
  "incr_balance E u scope d s =
    s\<lparr>balance := (balance s)(u := (balance s u)(scope :=
        Some (incrf E (case balance s u scope of None \<Rightarrow> 0 | Some b \<Rightarrow> b) d)))\<rparr>"

lemma set_status_fields [simp]:
  "o_status (h_order (set_status st t d)) = st"
  "o_oid (h_order (set_status st t d)) = o_oid (h_order d)"
  "o_userId (h_order (set_status st t d)) = o_userId (h_order d)"
  "o_asset (h_order (set_status st t d)) = o_asset (h_order d)"
  "o_orderType (h_order (set_status st t d)) = o_orderType (h_order d)"
  "o_filledSz (h_order (set_status st t d)) = o_filledSz (h_order d)"
  "o_sz (h_order (set_status st t d)) = o_sz (h_order d)"
  "h_trSnap (set_status st t d) = h_trSnap d"
  "h_trail (set_status st t d) = h_trail d"
  by (simp_all add: set_status_def)

text \<open>
  Operations that touch orders only are described by \<open>ledger.truncate\<close>: the market and
  ledger part of the state. Equality of the two parts is equality of every field.
\<close>

lemma ledger_eqD:
  assumes "ledger.truncate s = ledger.truncate t"
  shows "mids s = mids t" "ctx_mark s = ctx_mark t" "meta s = meta t" "meta_dex s = meta_dex t"
    "perpDexs s = perpDexs t" "spotMeta s = spotMeta t" "balance s = balance t" "pos s = pos t"
    "posSet s = posSet t" "lev s = lev t" "holders s = holders t" "usersActive s = usersActive t"
    "fills s = fills t" "seqTid s = seqTid t"
  using assms by (simp_all add: ledger.defs)

lemma market_eqD:
  assumes "market.truncate s = market.truncate t"
  shows "mids s = mids t" "ctx_mark s = ctx_mark t" "meta s = meta t" "meta_dex s = meta_dex t"
    "perpDexs s = perpDexs t" "spotMeta s = spotMeta t"
  using assms by (simp_all add: market.defs)

lemma ledger_truncate_updates [simp]:
  "ledger.truncate ((s::state)\<lparr>orders := x0\<rparr>) = ledger.truncate s"
  "ledger.truncate ((s::state)\<lparr>openSet := x1\<rparr>) = ledger.truncate s"
  "ledger.truncate ((s::state)\<lparr>trigSet := x2\<rparr>) = ledger.truncate s"
  "ledger.truncate ((s::state)\<lparr>trailSet := x3\<rparr>) = ledger.truncate s"
  "ledger.truncate ((s::state)\<lparr>bracket := x4\<rparr>) = ledger.truncate s"
  "ledger.truncate ((s::state)\<lparr>children := x5\<rparr>) = ledger.truncate s"
  "ledger.truncate ((s::state)\<lparr>parentOf := x6\<rparr>) = ledger.truncate s"
  "ledger.truncate ((s::state)\<lparr>expiry := x7\<rparr>) = ledger.truncate s"
  "ledger.truncate ((s::state)\<lparr>userOrders := x8\<rparr>) = ledger.truncate s"
  "ledger.truncate ((s::state)\<lparr>cloids := x9\<rparr>) = ledger.truncate s"
  "ledger.truncate ((s::state)\<lparr>seqOid := x10\<rparr>) = ledger.truncate s"
  "ledger.truncate ((s::state)\<lparr>bus := x11\<rparr>) = ledger.truncate s"
  "ledger.truncate ((s::state)\<lparr>liqCooldown := x12\<rparr>) = ledger.truncate s"
  "ledger.truncate ((s::state)\<lparr>vault := x13\<rparr>) = ledger.truncate s"
  "ledger.truncate ((s::state)\<lparr>twaps := x14\<rparr>) = ledger.truncate s"
  "ledger.truncate ((s::state)\<lparr>twapsActive := x15\<rparr>) = ledger.truncate s"
  "ledger.truncate ((s::state)\<lparr>userTwaps := x16\<rparr>) = ledger.truncate s"
  "ledger.truncate ((s::state)\<lparr>seqTwap := x17\<rparr>) = ledger.truncate s"
  "ledger.truncate ((s::state)\<lparr>schedule_cancel := x18\<rparr>) = ledger.truncate s"
  by (simp_all add: ledger.defs)

lemma market_truncate_updates [simp]:
  "market.truncate ((s::state)\<lparr>balance := x0\<rparr>) = market.truncate s"
  "market.truncate ((s::state)\<lparr>pos := x1\<rparr>) = market.truncate s"
  "market.truncate ((s::state)\<lparr>posSet := x2\<rparr>) = market.truncate s"
  "market.truncate ((s::state)\<lparr>lev := x3\<rparr>) = market.truncate s"
  "market.truncate ((s::state)\<lparr>holders := x4\<rparr>) = market.truncate s"
  "market.truncate ((s::state)\<lparr>usersActive := x5\<rparr>) = market.truncate s"
  "market.truncate ((s::state)\<lparr>fills := x6\<rparr>) = market.truncate s"
  "market.truncate ((s::state)\<lparr>seqTid := x7\<rparr>) = market.truncate s"
  "market.truncate ((s::state)\<lparr>orders := x8\<rparr>) = market.truncate s"
  "market.truncate ((s::state)\<lparr>openSet := x9\<rparr>) = market.truncate s"
  "market.truncate ((s::state)\<lparr>trigSet := x10\<rparr>) = market.truncate s"
  "market.truncate ((s::state)\<lparr>trailSet := x11\<rparr>) = market.truncate s"
  "market.truncate ((s::state)\<lparr>bracket := x12\<rparr>) = market.truncate s"
  "market.truncate ((s::state)\<lparr>children := x13\<rparr>) = market.truncate s"
  "market.truncate ((s::state)\<lparr>parentOf := x14\<rparr>) = market.truncate s"
  "market.truncate ((s::state)\<lparr>expiry := x15\<rparr>) = market.truncate s"
  "market.truncate ((s::state)\<lparr>userOrders := x16\<rparr>) = market.truncate s"
  "market.truncate ((s::state)\<lparr>cloids := x17\<rparr>) = market.truncate s"
  "market.truncate ((s::state)\<lparr>seqOid := x18\<rparr>) = market.truncate s"
  "market.truncate ((s::state)\<lparr>bus := x19\<rparr>) = market.truncate s"
  by (simp_all add: market.defs)

lemma market_of_ledger: "ledger.truncate s = ledger.truncate t \<Longrightarrow> market.truncate s = market.truncate t"
  by (simp add: ledger.defs market.defs)

lemma emit_fields [simp]:
  "ledger.truncate (emit ev s) = ledger.truncate s" "market.truncate (emit ev s) = market.truncate s"
  "book.truncate (emit ev s) = book.truncate s"
  "orders (emit ev s) = orders s" "openSet (emit ev s) = openSet s" "trigSet (emit ev s) = trigSet s"
  "trailSet (emit ev s) = trailSet s" "bracket (emit ev s) = bracket s" "children (emit ev s) = children s"
  "parentOf (emit ev s) = parentOf s" "expiry (emit ev s) = expiry s" "userOrders (emit ev s) = userOrders s"
  "cloids (emit ev s) = cloids s" "seqOid (emit ev s) = seqOid s" "bus (emit ev s) = bus s @ [ev]"
  by (simp_all add: emit_def ledger.defs market.defs book.defs)

lemma status_of_emit [simp]: "status_of (emit ev s) = status_of s"
  by (simp add: status_of_def fun_eq_iff)

lemma book_eqD:
  assumes "book.truncate s = book.truncate t"
  shows "ledger.truncate s = ledger.truncate t" "orders s = orders t" "openSet s = openSet t"
    "trigSet s = trigSet t" "trailSet s = trailSet t" "bracket s = bracket t" "children s = children t"
    "parentOf s = parentOf t" "expiry s = expiry t" "userOrders s = userOrders t" "cloids s = cloids t"
    "seqOid s = seqOid t"
  using assms by (simp_all add: book.defs ledger.defs)

subsection \<open>Concrete values for the examples\<close>

definition sample_env :: env where
  \<comment> \<open>decimal.js at 30 digits, exact HINCRBYFLOAT, no cached order books, the default fees\<close>
  "sample_env = \<lparr>lib = decimal30, incrf = (+), now = 1000000, l2book = \<lambda>_. None,
    FEES_ENABLED = True, FEE_RATE_TAKER = 35 / 100000, FEE_RATE_MAKER = 1 / 10000,
    LIQUIDATOR_VAULT_ADDRESS = ''0xvault'', pow10neg = (\<lambda>n. 1 / 10 ^ n)\<rparr>"

definition sample_order :: "oid \<Rightarrow> bool \<Rightarrow> rat \<Rightarrow> rat \<Rightarrow> bool \<Rightarrow> PaperOrder" where
  \<comment> \<open>an open Gtc limit order of user u on asset 0\<close>
  "sample_order oid isBuy sz limitPx reduceOnly =
    \<lparr>o_oid = oid, o_cloid = None, o_userId = ''u'', o_asset = 0, o_coin = ''BTC'', o_isBuy = isBuy, o_sz = sz,
     o_limitPx = limitPx, o_orderType = Limit, o_tif = Gtc, o_reduceOnly = reduceOnly, o_triggerPx = None,
     o_tpsl = None, o_isMarket = False, o_grouping = Na, o_status = St_open, o_filledSz = 0, o_avgPx = 0,
     o_createdAt = 0, o_updatedAt = 0, o_builder = None, o_twapId = None\<rparr>"

definition no_trail :: TrailingFields where
  \<comment> \<open>the trailing fields of an order that is not a trailing stop\<close>
  "no_trail = \<lparr>trKind = KindPx, trValue = 0, trActPx = None, trActivated = False, trBest = None, trSzDec = 0\<rparr>"

definition sample_hash :: "PaperOrder \<Rightarrow> OrderHash" where
  "sample_hash ord = \<lparr>h_order = ord, h_expiresAfter = None, h_trail = no_trail, h_trSnap = None\<rparr>"

definition sample_pos :: "rat \<Rightarrow> rat \<Rightarrow> PosHash" where
  "sample_pos szi entryPx =
    \<lparr>p_coin = ''BTC'', p_szi = szi, p_entryPx = entryPx, p_cumFunding = 0, p_cumFundingSinceOpen = 0,
     p_cumFundingSinceChange = 0, p_marginAlloc = None, p_rawUsd = None\<rparr>"

lemma sample_pos_fields [simp]: "p_szi (sample_pos szi e) = szi" "p_entryPx (sample_pos szi e) = e"
  by (simp_all add: sample_pos_def)

definition sample_state :: "PosHash option \<Rightarrow> OrderHash list \<Rightarrow> state" where
  \<comment> \<open>user u holds 1000 USDC, perhaps a position on asset 0, and the given orders, open on the book\<close>
  "sample_state p hs = empty_state
    \<lparr>mids := [(''BTC'', 100)],
     meta := Some \<lparr>m_universe = [\<lparr>ai_name = ''BTC'', ai_szDecimals = 5, ai_maxLeverage = 40, ai_marginTableId = None\<rparr>],
       m_marginTables = None\<rparr>,
     balance := (\<lambda>u scope. if u = ''u'' \<and> scope = '''' then Some 1000 else None),
     pos := (\<lambda>u a. if u = ''u'' \<and> a = 0 then p else None),
     posSet := (\<lambda>u scope. if u = ''u'' \<and> scope = '''' \<and> p \<noteq> None then [0] else []),
     orders := (\<lambda>x. List.find (\<lambda>h. o_oid (h_order h) = x) hs),
     openSet := map (\<lambda>h. o_oid (h_order h)) hs,
     seqOid := length hs\<rparr>"

lemmas sample_defs = sample_env_def sample_order_def sample_hash_def sample_pos_def sample_state_def empty_state_def

end
