(* ===== verification/AssetMeta.thy ===== *)
theory AssetMeta
  imports Store
begin

text \<open>
  engine/assetMeta.ts, the spot decoding at the head of engine/order.ts and the read side of
  worker/mark-feed.ts: what an asset id means (native perp, spot pair, perp of a sub-dex),
  which sub-account it belongs to, its leverage limits, and which mark may be traded on. The
  functions read the cached market data and are polymorphic in the rest of the state.
\<close>

subsection \<open>Asset ids\<close>

definition SUB_DEX_OFFSET :: asset where
  "SUB_DEX_OFFSET = 100000"

definition SUB_DEX_STRIDE :: asset where
  "SUB_DEX_STRIDE = 10000"

definition SPOT_OFFSET :: asset where
  "SPOT_OFFSET = 10000"

lemmas offsets = SUB_DEX_OFFSET_def SUB_DEX_STRIDE_def SPOT_OFFSET_def

definition isSpotAsset :: "asset \<Rightarrow> bool" where
  "isSpotAsset a \<longleftrightarrow> SPOT_OFFSET \<le> a \<and> a < SUB_DEX_OFFSET"

definition nth_opt :: "'b list \<Rightarrow> int \<Rightarrow> 'b option" where
  \<comment> \<open>array access; an index outside the array gives undefined\<close>
  "nth_opt xs i = (if 0 \<le> i \<and> i < int (length xs) then Some (xs ! nat i) else None)"

definition dex_name_at :: "'a market_scheme \<Rightarrow> int \<Rightarrow> dex_name option" where
  \<comment> \<open>the name of an entry of perpDexs that is present and not empty\<close>
  "dex_name_at s i =
    (case perpDexs s of None \<Rightarrow> None
     | Some ds \<Rightarrow> (case nth_opt ds i of
         Some (Some n) \<Rightarrow> if n = '''' then None else Some n
       | _ \<Rightarrow> None))"

definition loadUniverseEntry :: "'a market_scheme \<Rightarrow> asset \<Rightarrow> (HlAssetInfo list \<times> nat) option" where
  "loadUniverseEntry s a =
    (if a < SUB_DEX_OFFSET
     then (case meta s of None \<Rightarrow> None
           | Some m \<Rightarrow> if a < 0 \<or> int (length (m_universe m)) \<le> a then None else Some (m_universe m, nat a))
     else
       let offset = a - SUB_DEX_OFFSET; dexIdx = offset div SUB_DEX_STRIDE; localIdx = offset mod SUB_DEX_STRIDE
       in case dex_name_at s dexIdx of None \<Rightarrow> None
          | Some n \<Rightarrow> (case meta_dex s n of None \<Rightarrow> None
             | Some m \<Rightarrow> if localIdx < 0 \<or> int (length (m_universe m)) \<le> localIdx then None
                 else Some (m_universe m, nat localIdx)))"

definition scopeForAsset :: "'a market_scheme \<Rightarrow> asset \<Rightarrow> dex_name" where
  "scopeForAsset s a =
    (if a < SUB_DEX_OFFSET then ''''
     else case dex_name_at s ((a - SUB_DEX_OFFSET) div SUB_DEX_STRIDE) of None \<Rightarrow> '''' | Some n \<Rightarrow> n)"

definition subDexNames :: "'a market_scheme \<Rightarrow> dex_name list" where
  "subDexNames s = (case perpDexs s of None \<Rightarrow> []
     | Some ds \<Rightarrow> filter (\<lambda>n. n \<noteq> '''') (map the (filter (\<lambda>d. d \<noteq> None) ds)))"

definition cachedMaxLeverage :: "'a market_scheme \<Rightarrow> asset \<Rightarrow> nat option" where
  "cachedMaxLeverage s a =
    (if isSpotAsset a then None
     else map_option (\<lambda>(universe, localIdx). ai_maxLeverage (universe ! localIdx)) (loadUniverseEntry s a))"

text \<open>
  \<open>fetchMaxLeverage\<close> is given the outcome of the HTTP request: \<open>Some meta\<close> for a
  response with a universe, \<open>None\<close> for every failure.
\<close>

definition fetchMaxLeverage :: "HlMeta option \<Rightarrow> asset \<Rightarrow> 'a market_scheme \<Rightarrow> nat option \<times> 'a market_scheme" where
  "fetchMaxLeverage fetched a s =
    (if isSpotAsset a then (None, s)
     else
       let s' = (case fetched of None \<Rightarrow> s
           | Some m \<Rightarrow> if scopeForAsset s a = '''' then s\<lparr>meta := Some m\<rparr>
                      else s\<lparr>meta_dex := (meta_dex s)(scopeForAsset s a := Some m)\<rparr>)
       in (cachedMaxLeverage s' a, s'))"

definition HL_DEFAULT_LEVERAGE :: nat where
  "HL_DEFAULT_LEVERAGE = 20"

definition getLeverageSetting :: "'a ledger_scheme \<Rightarrow> user \<Rightarrow> asset \<Rightarrow> LeverageSetting" where
  "getLeverageSetting s u a =
    (case lev s u a of Some l \<Rightarrow> l
     | None \<Rightarrow> \<lparr>lev_leverage = (case cachedMaxLeverage s a of None \<Rightarrow> HL_DEFAULT_LEVERAGE
                   | Some m \<Rightarrow> min HL_DEFAULT_LEVERAGE m),
               lev_isCross = True\<rparr>)"

subsection \<open>Spot pairs and names\<close>

definition at_or_find :: "('b \<Rightarrow> bool) \<Rightarrow> int \<Rightarrow> 'b list \<Rightarrow> 'b option" where
  \<comment> \<open>the element at the index when it carries the wanted index, else a search\<close>
  "at_or_find P i xs = (case nth_opt xs i of Some x \<Rightarrow> if P x then Some x else List.find P xs
     | None \<Rightarrow> List.find P xs)"

definition loadSpotEntry :: "'a market_scheme \<Rightarrow> asset \<Rightarrow> (coin \<times> nat) option" where
  "loadSpotEntry s a =
    (case spotMeta s of None \<Rightarrow> None
     | Some spot \<Rightarrow>
        let idx = a - SPOT_OFFSET
        in case at_or_find (\<lambda>p. sp_index p = idx) idx (spot_universe spot) of None \<Rightarrow> None
           | Some pair \<Rightarrow>
              Some (sp_name pair,
                (case at_or_find (\<lambda>t. st_index t = sp_base pair) (int (sp_base pair)) (spot_tokens spot) of
                   None \<Rightarrow> 0 | Some t \<Rightarrow> st_szDecimals t)))"

definition resolveAssetCoin :: "'a market_scheme \<Rightarrow> asset \<Rightarrow> coin option" where
  "resolveAssetCoin s a =
    (if isSpotAsset a then map_option fst (loadSpotEntry s a)
     else map_option (\<lambda>(universe, localIdx). ai_name (universe ! localIdx)) (loadUniverseEntry s a))"

definition getAssetDecimals :: "'a market_scheme \<Rightarrow> asset \<Rightarrow> nat" where
  "getAssetDecimals s a =
    (if isSpotAsset a then (case loadSpotEntry s a of None \<Rightarrow> 0 | Some (_, d) \<Rightarrow> d)
     else case loadUniverseEntry s a of None \<Rightarrow> 0
          | Some (universe, localIdx) \<Rightarrow> ai_szDecimals (universe ! localIdx))"

subsection \<open>Marks and mids\<close>

definition midPx :: "'a market_scheme \<Rightarrow> coin \<Rightarrow> rat option" where
  "midPx s c = map_of (mids s) c"

definition MARK_FRESH_MS :: millis where
  "MARK_FRESH_MS = 15000"

definition getMark :: "'a market_scheme \<Rightarrow> coin \<Rightarrow> (rat \<times> millis) option" where
  "getMark s c = (case ctx_mark s c of None \<Rightarrow> None | Some (px, ts) \<Rightarrow> if px \<le> 0 then None else Some (px, ts))"

definition getFreshMark :: "env \<Rightarrow> 'a market_scheme \<Rightarrow> coin \<Rightarrow> rat option" where
  "getFreshMark E s c =
    (case getMark s c of None \<Rightarrow> None
     | Some (px, ts) \<Rightarrow> if ts = 0 \<or> MARK_FRESH_MS < now E - ts then None else Some px)"

lemma getFreshMark_pos: "getFreshMark E s c = Some px \<Longrightarrow> 0 < px"
  by (auto simp: getFreshMark_def getMark_def split: option.splits if_splits)

subsection \<open>Facts the engine uses\<close>

lemma scope_native: "a < SUB_DEX_OFFSET \<Longrightarrow> scopeForAsset s a = ''''"
  by (simp add: scopeForAsset_def)

lemma loadUniverse_index:
  "loadUniverseEntry s a = Some (universe, i) \<Longrightarrow> i < length universe"
  by (auto simp: loadUniverseEntry_def Let_def offsets split: if_splits option.splits)

lemma default_leverage_capped:
  "lev s u a = None \<Longrightarrow> cachedMaxLeverage s a = Some m \<Longrightarrow> lev_leverage (getLeverageSetting s u a) \<le> m"
  by (simp add: getLeverageSetting_def)

text \<open>The market data decides these readings, not the rest of the state.\<close>

lemma scopeForAsset_cong:
  "perpDexs s = perpDexs s' \<Longrightarrow> scopeForAsset s a = scopeForAsset s' a"
  by (simp add: scopeForAsset_def dex_name_at_def)

lemma market_cong:
  fixes s t :: "'a market_scheme"
  assumes "market.truncate s = market.truncate t"
  shows "scopeForAsset s = scopeForAsset t" "resolveAssetCoin s = resolveAssetCoin t"
    "loadUniverseEntry s = loadUniverseEntry t" "cachedMaxLeverage s = cachedMaxLeverage t"
    "getAssetDecimals s = getAssetDecimals t" "midPx s = midPx t" "getFreshMark E s = getFreshMark E t"
proof -
  have f: "mids s = mids t" "ctx_mark s = ctx_mark t" "meta s = meta t" "meta_dex s = meta_dex t"
    "perpDexs s = perpDexs t" "spotMeta s = spotMeta t"
    using assms by (simp_all add: market.defs)
  have u: "loadUniverseEntry s = loadUniverseEntry t"
    by (intro ext, unfold loadUniverseEntry_def dex_name_at_def f) (rule refl)
  have sp: "loadSpotEntry s = loadSpotEntry t"
    by (intro ext, unfold loadSpotEntry_def f) (rule refl)
  show "scopeForAsset s = scopeForAsset t" by (intro ext, unfold scopeForAsset_def dex_name_at_def f) (rule refl)
  show "resolveAssetCoin s = resolveAssetCoin t" by (intro ext, unfold resolveAssetCoin_def u sp) (rule refl)
  show "loadUniverseEntry s = loadUniverseEntry t" by (rule u)
  show "cachedMaxLeverage s = cachedMaxLeverage t" by (intro ext, unfold cachedMaxLeverage_def u) (rule refl)
  show "getAssetDecimals s = getAssetDecimals t" by (intro ext, unfold getAssetDecimals_def u sp) (rule refl)
  show "midPx s = midPx t" by (intro ext, unfold midPx_def f) (rule refl)
  show "getFreshMark E s = getFreshMark E t" by (intro ext, unfold getFreshMark_def getMark_def f) (rule refl)
qed

lemma getLeverageSetting_cong:
  fixes s t :: "'a ledger_scheme"
  assumes "market.truncate s = market.truncate t" "lev s = lev t"
  shows "getLeverageSetting s = getLeverageSetting t"
  by (intro ext, unfold getLeverageSetting_def assms(2) market_cong(4) [OF assms(1)]) (rule refl)

end
