(* ===== verification/TrailingStops.thy ===== *)
theory TrailingStops
  imports AssetMeta
begin

text \<open>
  Trailing stops in Redis: engine/trailing-state.ts (persisting an evaluation, freezing the
  body, ending a stop without a fill, cancelling reduce-only stops whose position is gone)
  and refreshMarks of worker/mark-feed.ts, on which placement and the matcher rely.
\<close>

subsection \<open>Operations on one stop\<close>

definition persistTrailingEvaluation :: "oid \<Rightarrow> OrderHash \<Rightarrow> TrailingEval \<Rightarrow> state \<Rightarrow> bool \<times> OrderHash \<times> state" where
  \<comment> \<open>whether anything changed, the caller's copy of the hash, the store\<close>
  "persistTrailingEvaluation oid d ev s =
    (if apply_eval ev d = d then (False, d, s)
     else (True, apply_eval ev d, upd_hash oid (apply_eval ev) s))"

definition freezeTrailingSnapshot :: "env \<Rightarrow> oid \<Rightarrow> OrderHash \<Rightarrow> state \<Rightarrow> state" where
  "freezeTrailingSnapshot E oid d s =
    upd_hash oid (\<lambda>h. h\<lparr>h_trSnap := Some (buildTrailingBody (lib E) d False)\<rparr>) s"

definition emitTrailingHistory :: "OrderHash \<Rightarrow> OrderStatus \<Rightarrow> millis \<Rightarrow> TrailingBody \<Rightarrow> state \<Rightarrow> state" where
  "emitTrailingHistory d status ts body s =
    emit (TrailingHistory (o_userId (h_order d)) (o_oid (h_order d)) status ts body) s"

definition terminateTrailingStop :: "env \<Rightarrow> oid \<Rightarrow> OrderStatus \<Rightarrow> bool \<Rightarrow> bool \<Rightarrow> state \<Rightarrow> bool \<times> state" where
  "terminateTrailingStop E oid status emitUpdate afterTrigger s =
    (case orders s oid of None \<Rightarrow> (False, s)
     | Some d \<Rightarrow>
        if o_status (h_order d) \<noteq> St_open then (False, s)
        else
          let frozen = buildTrailingBody (lib E) d False; ts = now E; u = o_userId (h_order d);
              s1 = upd_hash oid (\<lambda>h. set_status status ts (h\<lparr>h_trSnap := Some frozen\<rparr>)) s;
              s2 = (drop_from_sets oid s1)\<lparr>expiry := zrem oid (expiry s1)\<rparr>;
              s3 = (if afterTrigger then emitTrailingHistory d St_triggered ts frozen s2 else s2);
              s4 = emitTrailingHistory d status ts frozen s3;
              s5 = (if \<not> emitUpdate then s4
                else if afterTrigger
                     then emit (OrderUpdateBatch u [(paperOrderFromHash d St_triggered ts, St_triggered),
                            (paperOrderFromHash d status ts, status)]) s4
                     else emit (OrderUpdate u (paperOrderFromHash d status ts) status) s4)
          in (True, s5))"

subsection \<open>Reduce-only stops after a position change\<close>

definition can_reduce :: "rat \<Rightarrow> bool \<Rightarrow> bool" where
  "can_reduce szi isBuy = (if gt_d szi 0 then \<not> isBuy else if lt_d szi 0 then isBuy else False)"

definition orphaned :: "user \<Rightarrow> asset \<Rightarrow> rat \<Rightarrow> OrderHash \<Rightarrow> bool" where
  \<comment> \<open>an open reduce-only stop of the position that can no longer reduce it\<close>
  "orphaned u a newSzi d \<longleftrightarrow>
    o_status (h_order d) = St_open \<and> o_userId (h_order d) = u \<and> o_asset (h_order d) = a \<and>
    o_reduceOnly (h_order d) \<and> \<not> can_reduce newSzi (o_isBuy (h_order d))"

fun reconcile_loop ::
    "env \<Rightarrow> user \<Rightarrow> asset \<Rightarrow> rat \<Rightarrow> oid list \<Rightarrow> state \<Rightarrow> (PaperOrder \<times> OrderStatus) list \<times> state" where
  "reconcile_loop E u a newSzi [] s = ([], s)"
| "reconcile_loop E u a newSzi (oid # oids) s =
    (case orders s oid of None \<Rightarrow> reconcile_loop E u a newSzi oids s
     | Some d \<Rightarrow>
        if orphaned u a newSzi d
        then let (ended, s1) = terminateTrailingStop E oid St_reduceOnlyCanceled False False s;
                 (updates, s2) = reconcile_loop E u a newSzi oids s1
             in ((if ended then [(paperOrderFromHash d St_reduceOnlyCanceled (now E), St_reduceOnlyCanceled)]
                  else []) @ updates, s2)
        else reconcile_loop E u a newSzi oids s)"

definition reconcileReduceOnlyStops ::
    "env \<Rightarrow> user \<Rightarrow> asset \<Rightarrow> rat \<Rightarrow> state \<Rightarrow> (PaperOrder \<times> OrderStatus) list \<times> state" where
  "reconcileReduceOnlyStops E u a newSzi s = reconcile_loop E u a newSzi (trailSet s) s"

subsection \<open>Refreshing marks over HTTP\<close>

definition MARK_POLL_THRESHOLD_MS :: millis where
  "MARK_POLL_THRESHOLD_MS = 5000"

definition coin_dex :: "coin \<Rightarrow> dex_name" where
  \<comment> \<open>the part before a colon that is not the first character\<close>
  "coin_dex c =
    (let pre = takeWhile (\<lambda>ch. ch \<noteq> CHR '':'') c in if pre = c then '''' else pre)"

definition stale_mark :: "millis \<Rightarrow> 'a market_scheme \<Rightarrow> coin \<Rightarrow> bool" where
  "stale_mark t s c =
    (case getMark s c of None \<Rightarrow> True | Some (px, ts) \<Rightarrow> ts = 0 \<or> MARK_POLL_THRESHOLD_MS < t - ts)"

fun store_marks :: "millis \<Rightarrow> coin list \<Rightarrow> (coin \<times> rat option) list \<Rightarrow> nat \<times> 'a market_scheme \<Rightarrow> nat \<times> 'a market_scheme" where
  \<comment> \<open>the rows of one response: the name and the mark of each asset of the universe\<close>
  "store_marks t wanted [] (n, s) = (n, s)"
| "store_marks t wanted ((name, None) # rows) (n, s) = store_marks t wanted rows (n, s)"
| "store_marks t wanted ((name, Some px) # rows) (n, s) =
    (if name \<in> set wanted
     then store_marks t wanted rows (Suc n, s\<lparr>ctx_mark := (ctx_mark s)(name \<mapsto> (px, t))\<rparr>)
     else store_marks t wanted rows (n, s))"

definition refreshMarks ::
    "millis \<Rightarrow> (dex_name \<Rightarrow> (coin \<times> rat option) list option) \<Rightarrow> coin list \<Rightarrow> 'a market_scheme \<Rightarrow> nat \<times> 'a market_scheme" where
  \<comment> \<open>\<open>resp\<close> gives the answer to the request of each dex, \<open>None\<close> for a failure\<close>
  "refreshMarks t resp coins s =
    (let stale = filter (stale_mark t s) (remdups coins)
     in foldl (\<lambda>acc dex. case resp dex of None \<Rightarrow> acc
           | Some rows \<Rightarrow> store_marks t (filter (\<lambda>c. coin_dex c = dex) stale) rows acc)
          (0, s) (remdups (map coin_dex stale)))"

subsection \<open>What the operations change\<close>

lemma terminate_frame:
  "terminateTrailingStop E oid st em af s = (b, s') \<Longrightarrow>
    ledger.truncate s' = ledger.truncate s \<and>
    bracket s' = bracket s \<and> children s' = children s \<and> parentOf s' = parentOf s \<and>
    userOrders s' = userOrders s \<and> cloids s' = cloids s \<and> seqOid s' = seqOid s"
  by (auto simp: terminateTrailingStop_def Let_def upd_hash_def drop_from_sets_def emit_def emitTrailingHistory_def
      ledger.defs split: option.splits if_splits)

lemma terminate_orders:
  "terminateTrailingStop E oid st em af s = (b, s') \<Longrightarrow>
    b = (status_of s oid = Some St_open) \<and>
    orders s' = (if b then (orders s)(oid := map_option (\<lambda>d. set_status st (now E)
      (d\<lparr>h_trSnap := Some (buildTrailingBody (lib E) d False)\<rparr>)) (orders s oid)) else orders s) \<and>
    set (openSet s') = (if b then set (openSet s) - {oid} else set (openSet s)) \<and>
    set (trigSet s') = (if b then set (trigSet s) - {oid} else set (trigSet s)) \<and>
    set (trailSet s') = (if b then set (trailSet s) - {oid} else set (trailSet s))"
  by (auto simp: terminateTrailingStop_def Let_def upd_hash_def drop_from_sets_def emit_def emitTrailingHistory_def
      status_of_def split: option.splits if_splits)


definition orphan_of :: "user \<Rightarrow> asset \<Rightarrow> rat \<Rightarrow> state \<Rightarrow> oid \<Rightarrow> bool" where
  "orphan_of u a newSzi s oid \<longleftrightarrow> (\<exists>d. orders s oid = Some d \<and> orphaned u a newSzi d)"

definition ended_hash :: "env \<Rightarrow> OrderStatus \<Rightarrow> OrderHash \<Rightarrow> OrderHash" where
  "ended_hash E st d = set_status st (now E) (d\<lparr>h_trSnap := Some (buildTrailingBody (lib E) d False)\<rparr>)"

lemma ended_not_orphaned [simp]: "st \<noteq> St_open \<Longrightarrow> \<not> orphaned u a newSzi (ended_hash E st d)"
  by (simp add: orphaned_def ended_hash_def)

lemma reconcile_frame:
  "reconcile_loop E u a newSzi oids s = (ups, s') \<Longrightarrow>
    ledger.truncate s' = ledger.truncate s \<and>
    bracket s' = bracket s \<and> children s' = children s \<and> parentOf s' = parentOf s \<and>
    userOrders s' = userOrders s \<and> cloids s' = cloids s \<and> seqOid s' = seqOid s"
proof (induction oids arbitrary: s ups s')
  case (Cons oid oids)
  show ?case
  proof (cases "orphan_of u a newSzi s oid")
    case False
    with Cons show ?thesis by (auto simp: orphan_of_def split: option.splits)
  next
    case True
    obtain b s1 where t: "terminateTrailingStop E oid St_reduceOnlyCanceled False False s = (b, s1)" by force
    from True Cons.prems t obtain ups' where "reconcile_loop E u a newSzi oids s1 = (ups', s')"
      by (auto simp: orphan_of_def split: option.splits prod.splits if_splits)
    from Cons.IH [OF this] terminate_frame [OF t] show ?thesis by simp
  qed
qed simp

lemma reconcile_orders:
  "reconcile_loop E u a newSzi oids s = (ups, s') \<Longrightarrow>
    orders s' = (\<lambda>oid. if oid \<in> set oids \<and> orphan_of u a newSzi s oid
       then map_option (ended_hash E St_reduceOnlyCanceled) (orders s oid) else orders s oid) \<and>
    set (openSet s') = set (openSet s) - {oid \<in> set oids. orphan_of u a newSzi s oid} \<and>
    set (trigSet s') = set (trigSet s) - {oid \<in> set oids. orphan_of u a newSzi s oid} \<and>
    set (trailSet s') = set (trailSet s) - {oid \<in> set oids. orphan_of u a newSzi s oid}"
proof (induction oids arbitrary: s ups s')
  case (Cons oid oids)
  show ?case
  proof (cases "orphan_of u a newSzi s oid")
    case False
    with Cons.prems have "reconcile_loop E u a newSzi oids s = (ups, s')"
      by (auto simp: orphan_of_def split: option.splits)
    from Cons.IH [OF this] False show ?thesis by auto
  next
    case True
    obtain b s1 where t: "terminateTrailingStop E oid St_reduceOnlyCanceled False False s = (b, s1)" by force
    from True Cons.prems t obtain ups' where r: "reconcile_loop E u a newSzi oids s1 = (ups', s')"
      by (auto simp: orphan_of_def split: option.splits prod.splits if_splits)
    from True have "status_of s oid = Some St_open" by (auto simp: orphan_of_def orphaned_def status_of_def)
    with terminate_orders [OF t]
    have o1: "orders s1 = (orders s)(oid := map_option (ended_hash E St_reduceOnlyCanceled) (orders s oid))"
      and sets: "set (openSet s1) = set (openSet s) - {oid}" "set (trigSet s1) = set (trigSet s) - {oid}"
        "set (trailSet s1) = set (trailSet s) - {oid}"
      by (simp_all add: ended_hash_def [abs_def])
    have orph: "orphan_of u a newSzi s1 x \<longleftrightarrow> x \<noteq> oid \<and> orphan_of u a newSzi s x" for x
      using True by (auto simp: orphan_of_def o1)
    have mem: "{x \<in> set (oid # oids). orphan_of u a newSzi s x} =
        insert oid {x \<in> set oids. x \<noteq> oid \<and> orphan_of u a newSzi s x}"
      using True by auto
    have ord: "orders s' = (\<lambda>x. if x \<in> set (oid # oids) \<and> orphan_of u a newSzi s x
        then map_option (ended_hash E St_reduceOnlyCanceled) (orders s x) else orders s x)"
      using Cons.IH [OF r] True by (intro ext) (simp add: orph o1)
    show ?thesis
      using Cons.IH [OF r] ord by (simp only: mem sets orph) blast
  qed
qed simp

text \<open>
  C11. After a position change no open reduce-only trailing stop of the position is left that
  could not reduce it, every stop that still can is untouched, and balances, positions and
  fills are not affected.
\<close>

theorem reconcile_ends_exactly_the_orphans:
  "case reconcileReduceOnlyStops E u a newSzi s of (updates, s') \<Rightarrow>
     (\<forall>oid. oid \<in> set (trailSet s') \<longleftrightarrow> oid \<in> set (trailSet s) \<and> \<not> orphan_of u a newSzi s oid) \<and>
     (\<forall>oid. oid \<in> set (trailSet s') \<longrightarrow> \<not> orphan_of u a newSzi s' oid) \<and>
     (\<forall>oid. status_of s' oid =
        (if oid \<in> set (trailSet s) \<and> orphan_of u a newSzi s oid then Some St_reduceOnlyCanceled
         else status_of s oid)) \<and>
     ledger.truncate s' = ledger.truncate s"
proof -
  obtain ups s' where r: "reconcile_loop E u a newSzi (trailSet s) s = (ups, s')" by force
  note ord = reconcile_orders [OF r]
  then have o: "orders s' x = (if x \<in> set (trailSet s) \<and> orphan_of u a newSzi s x
      then map_option (ended_hash E St_reduceOnlyCanceled) (orders s x) else orders s x)" for x
    by metis
  from ord have t: "oid \<in> set (trailSet s') \<longleftrightarrow> oid \<in> set (trailSet s) \<and> \<not> orphan_of u a newSzi s oid" for oid
    by blast
  have "\<not> orphan_of u a newSzi s' oid" if "oid \<in> set (trailSet s')" for oid
  proof -
    have n: "\<not> orphan_of u a newSzi s oid" using that t [of oid] by simp
    then have "orders s' oid = orders s oid" using o [of oid] by simp
    with n show ?thesis by (simp add: orphan_of_def)
  qed
  moreover have "status_of s' oid = (if oid \<in> set (trailSet s) \<and> orphan_of u a newSzi s oid
      then Some St_reduceOnlyCanceled else status_of s oid)" for oid
    by (auto simp: status_of_def o ended_hash_def orphan_of_def)
  ultimately show ?thesis
    using t reconcile_frame [OF r] by (simp add: reconcileReduceOnlyStops_def r)
qed

theorem reconcile_ends_exactly_the_orphans_witness:
  "status_of (snd (reconcileReduceOnlyStops sample_env ''u'' 0 0
     ((sample_state None [sample_hash ((sample_order 1 False 2 90 True)\<lparr>o_orderType := TrailingStop\<rparr>)])
        \<lparr>openSet := [], trailSet := [1]\<rparr>))) 1 = Some St_reduceOnlyCanceled"
proof -
  let ?s = "(sample_state None [sample_hash ((sample_order 1 False 2 90 True)\<lparr>o_orderType := TrailingStop\<rparr>)])
        \<lparr>openSet := [], trailSet := [1]\<rparr>"
  have "orphan_of ''u'' 0 0 ?s 1"
    by (simp add: orphan_of_def orphaned_def can_reduce_def dec_defs sample_state_def sample_hash_def sample_order_def)
  then show ?thesis
    using reconcile_ends_exactly_the_orphans [where E = sample_env and u = "''u''" and a = 0 and newSzi = 0 and s = ?s]
    by (auto split: prod.splits)
qed

end
