(* ===== verification/MarginTiers.thy ===== *)
theory MarginTiers
  imports Types
begin

text \<open>
  Tiered maintenance margin, \<^verbatim>\<open>src/engine/marginTiers.ts\<close>. A schedule is a list of tiers
  with ascending lower bounds; the margin of a position is its notional at the rate of the
  tier it falls in, less a deduction. The theory shows that this is the marginal schedule:
  every slice of the notional is charged the rate of its own tier.
\<close>

subsection \<open>The operations\<close>

definition getMarginTiersForCoin :: "HlMeta option \<Rightarrow> coin \<Rightarrow> HlMarginTier list option" where
  "getMarginTiersForCoin meta_opt coin =
    (case meta_opt of None \<Rightarrow> None
     | Some meta \<Rightarrow>
       (case List.find (\<lambda>u. ai_name u = coin) (m_universe meta) of None \<Rightarrow> None
        | Some asset \<Rightarrow>
           let flat = [\<lparr>mt_lowerBound = 0, mt_maxLeverage = ai_maxLeverage asset\<rparr>] in
           (case (ai_marginTableId asset, m_marginTables meta) of
              (Some tableId, Some tables) \<Rightarrow>
                (case List.find (\<lambda>(i, _). i = tableId) tables of
                   Some (_, tiers) \<Rightarrow> Some tiers
                 | None \<Rightarrow> Some flat)
            | _ \<Rightarrow> Some flat)))"

text \<open>The loop of tierForNotional: \<open>i\<close> is the loop index, \<open>chosen\<close> and \<open>idx\<close> its variables.\<close>

fun tier_scan :: "rat \<Rightarrow> HlMarginTier list \<Rightarrow> HlMarginTier \<Rightarrow> nat \<Rightarrow> nat \<Rightarrow> HlMarginTier \<times> nat" where
  "tier_scan notional [] chosen i idx = (chosen, idx)"
| "tier_scan notional (t # ts) chosen i idx =
    (if gte_d notional (mt_lowerBound t) then tier_scan notional ts t (Suc i) i else (chosen, idx))"

definition tierForNotional :: "HlMarginTier list \<Rightarrow> rat \<Rightarrow> (HlMarginTier \<times> nat) option" where
  \<comment> \<open>\<open>None\<close>: no tier to choose (reading the rate of the undefined tier throws)\<close>
  "tierForNotional tiers notional =
    (case tiers of [] \<Rightarrow> None | t # _ \<Rightarrow> Some (tier_scan notional tiers t 0 0))"

definition rateForTier :: "declib \<Rightarrow> HlMarginTier \<Rightarrow> rat" where
  "rateForTier L tier = div_d L (div_d L 1 (of_nat (mt_maxLeverage tier))) 2"

definition maintenanceMarginRateForNotional :: "declib \<Rightarrow> HlMarginTier list \<Rightarrow> rat \<Rightarrow> rat option" where
  "maintenanceMarginRateForNotional L tiers notional =
    map_option (\<lambda>(tier, _). rateForTier L tier) (tierForNotional tiers notional)"

text \<open>The deduction loop for \<open>i = 1 .. index\<close>; \<open>prev\<close> is the tier before the current one.\<close>

fun deduction_loop :: "declib \<Rightarrow> HlMarginTier \<Rightarrow> HlMarginTier list \<Rightarrow> nat \<Rightarrow> rat \<Rightarrow> rat" where
  "deduction_loop L prev (t # ts) (Suc k) deduction =
    deduction_loop L t ts k
      (add_d L deduction
        (mul_d L (mt_lowerBound t) (sub_d L (rateForTier L t) (rateForTier L prev))))"
| "deduction_loop L prev _ _ deduction = deduction"

definition maintenanceMarginForNotional :: "declib \<Rightarrow> HlMarginTier list \<Rightarrow> rat \<Rightarrow> rat" where
  "maintenanceMarginForNotional L tiers notional =
    (case tierForNotional tiers notional of None \<Rightarrow> 0
     | Some (tier, index) \<Rightarrow>
        let rate = rateForTier L tier;
            deduction = deduction_loop L (hd tiers) (tl tiers) index 0;
            raw = sub_d L (mul_d L notional rate) deduction
        in if gt_d raw 0 then raw else 0)"

subsection \<open>The marginal schedule\<close>

definition tier_rate :: "HlMarginTier \<Rightarrow> rat" where
  "tier_rate t = 1 / of_nat (mt_maxLeverage t) / 2"

fun marginal :: "HlMarginTier list \<Rightarrow> rat \<Rightarrow> rat" where
  \<comment> \<open>each slice of the notional at the rate of its own tier\<close>
  "marginal [] n = 0"
| "marginal [t] n = tier_rate t * (n - mt_lowerBound t)"
| "marginal (t # u # ts) n =
    (if mt_lowerBound u \<le> n
     then tier_rate t * (mt_lowerBound u - mt_lowerBound t) + marginal (u # ts) n
     else tier_rate t * (n - mt_lowerBound t))"

fun schedule :: "HlMarginTier list \<Rightarrow> bool" where
  \<comment> \<open>ascending lower bounds, leverage at least one and falling as the notional grows\<close>
  "schedule [] = True"
| "schedule [t] = (1 \<le> mt_maxLeverage t)"
| "schedule (t # u # ts) =
    (1 \<le> mt_maxLeverage t \<and> mt_lowerBound t \<le> mt_lowerBound u \<and>
     mt_maxLeverage u \<le> mt_maxLeverage t \<and> schedule (u # ts))"

fun tier_at :: "HlMarginTier \<Rightarrow> HlMarginTier list \<Rightarrow> rat \<Rightarrow> HlMarginTier" where
  "tier_at t [] n = t"
| "tier_at t (u # us) n = (if mt_lowerBound u \<le> n then tier_at u us n else t)"

fun deduction_at :: "HlMarginTier \<Rightarrow> HlMarginTier list \<Rightarrow> rat \<Rightarrow> rat" where
  "deduction_at t [] n = 0"
| "deduction_at t (u # us) n =
    (if mt_lowerBound u \<le> n
     then mt_lowerBound u * (tier_rate u - tier_rate t) + deduction_at u us n else 0)"

fun deduction_values :: "HlMarginTier \<Rightarrow> HlMarginTier list \<Rightarrow> rat \<Rightarrow> rat \<Rightarrow> rat set" where
  "deduction_values t [] n acc = {}"
| "deduction_values t (u # us) n acc =
    (if mt_lowerBound u \<le> n
     then (let d = tier_rate u - tier_rate t; acc' = acc + mt_lowerBound u * d in
       {1 / of_nat (mt_maxLeverage u), tier_rate u, d, mt_lowerBound u * d, acc'}
       \<union> deduction_values u us n acc')
     else {})"

fun margin_values :: "HlMarginTier list \<Rightarrow> rat \<Rightarrow> rat set" where
  \<comment> \<open>the values the margin of \<open>n\<close> is computed from\<close>
  "margin_values [] n = {}"
| "margin_values (t # ts) n =
    {1 / of_nat (mt_maxLeverage t), tier_rate t, n * tier_rate (tier_at t ts n),
     n * tier_rate (tier_at t ts n) - deduction_at t ts n} \<union> deduction_values t ts n 0"

lemma rateForTier_exact:
  "rnd L (1 / of_nat (mt_maxLeverage t)) = 1 / of_nat (mt_maxLeverage t) \<Longrightarrow>
   rnd L (tier_rate t) = tier_rate t \<Longrightarrow> rateForTier L t = tier_rate t"
  by (simp add: rateForTier_def tier_rate_def div_d_def)

lemma rateForTier_bounds:
  assumes "decimal_js L"
  shows "0 \<le> rateForTier L t" "rateForTier L t \<le> 1 / 2"
proof -
  have f: "fits 1" "fits (1 / 2)" by (rule fits_scaled [of _ 0 1]; simp) (rule fits_scaled [of _ 1 5]; simp)
  have "(1::rat) / of_nat k \<le> 1" for k :: nat by (cases k) simp_all
  then have "rnd L (1 / of_nat (mt_maxLeverage t)) \<le> 1"
    by (intro decimal_js.rnd_le_fits [OF assms] f(1))
  then have "rnd L (1 / of_nat (mt_maxLeverage t)) / 2 \<le> 1 / 2" by simp
  then show "rateForTier L t \<le> 1 / 2"
    unfolding rateForTier_def div_d_def by (intro decimal_js.rnd_le_fits [OF assms] f(2))
  show "0 \<le> rateForTier L t"
    by (simp add: rateForTier_def div_d_def decimal_js.rnd_nonneg [OF assms])
qed

lemma tier_scan_at:
  "tier_scan n ts c (Suc i) i = (tier_at c ts n, i + length (takeWhile (\<lambda>t. mt_lowerBound t \<le> n) ts))"
  by (induction ts arbitrary: c i) auto

lemma tierForNotional_at:
  "mt_lowerBound t \<le> n \<Longrightarrow> tierForNotional (t # ts) n =
    Some (tier_at t ts n, length (takeWhile (\<lambda>t. mt_lowerBound t \<le> n) ts))"
  by (simp add: tierForNotional_def tier_scan_at)

lemma deduction_loop_at:
  assumes "exact_on L (deduction_values t ts n acc)" "rateForTier L t = tier_rate t"
  shows "deduction_loop L t ts (length (takeWhile (\<lambda>t. mt_lowerBound t \<le> n) ts)) acc =
    acc + deduction_at t ts n"
  using assms
proof (induction ts arbitrary: t acc)
  case (Cons u us)
  show ?case
  proof (cases "mt_lowerBound u \<le> n")
    case True
    let ?d = "tier_rate u - tier_rate t"
    have r: "rateForTier L u = tier_rate u"
      using Cons.prems(1) True by (intro rateForTier_exact) (simp_all add: Let_def)
    have e: "rnd L ?d = ?d" "rnd L (mt_lowerBound u * ?d) = mt_lowerBound u * ?d"
      "rnd L (acc + mt_lowerBound u * ?d) = acc + mt_lowerBound u * ?d"
      using Cons.prems(1) True by (simp_all add: Let_def)
    show ?thesis
      using Cons.IH [of u "acc + mt_lowerBound u * ?d"] Cons.prems True
      by (simp add: Let_def dec_defs r e)
  qed simp
qed simp

lemma marginal_closed:
  "mt_lowerBound t \<le> n \<Longrightarrow> marginal (t # ts) n =
    n * tier_rate (tier_at t ts n) - deduction_at t ts n - mt_lowerBound t * tier_rate t"
proof (induction ts arbitrary: t)
  case (Cons u us)
  then show ?case by (cases "mt_lowerBound u \<le> n") (simp_all add: algebra_simps)
qed (simp add: algebra_simps)

lemma tier_rate_mono:
  "1 \<le> mt_maxLeverage u \<Longrightarrow> mt_maxLeverage u \<le> mt_maxLeverage t \<Longrightarrow> tier_rate t \<le> tier_rate u"
  by (simp add: tier_rate_def frac_le)

lemma tier_rate_nonneg [simp]: "0 \<le> tier_rate t"
  by (simp add: tier_rate_def)

lemma marginal_nonneg: "mt_lowerBound t \<le> n \<Longrightarrow> schedule (t # ts) \<Longrightarrow> 0 \<le> marginal (t # ts) n"
  by (induction ts arbitrary: t) auto

lemma rate_tier_at:
  assumes "exact_on L (deduction_values t ts n acc)" "rateForTier L t = tier_rate t"
  shows "rateForTier L (tier_at t ts n) = tier_rate (tier_at t ts n)"
  using assms
proof (induction ts arbitrary: t acc)
  case (Cons u us)
  show ?case
  proof (cases "mt_lowerBound u \<le> n")
    case True
    then have "rateForTier L u = tier_rate u"
      using Cons.prems(1) by (intro rateForTier_exact) (simp_all add: Let_def)
    moreover have "exact_on L (deduction_values u us n
        (acc + mt_lowerBound u * (tier_rate u - tier_rate t)))"
      using Cons.prems(1) True by (simp add: Let_def)
    ultimately show ?thesis using Cons.IH [of u] True by simp
  qed (use Cons.prems in simp)
qed simp

lemma maintenanceMargin_exact:
  assumes "schedule (t # ts)" "mt_lowerBound t = 0" "0 \<le> n" "exact_on L (margin_values (t # ts) n)"
  shows "maintenanceMarginForNotional L (t # ts) n = marginal (t # ts) n"
proof -
  have r: "rateForTier L t = tier_rate t"
    using assms(4) by (intro rateForTier_exact) simp_all
  have ex: "exact_on L (deduction_values t ts n 0)" using assms(4) by simp
  have v: "rnd L (n * tier_rate (tier_at t ts n)) = n * tier_rate (tier_at t ts n)"
    "rnd L (n * tier_rate (tier_at t ts n) - deduction_at t ts n) =
      n * tier_rate (tier_at t ts n) - deduction_at t ts n"
    using assms(4) by simp_all
  have m: "n * tier_rate (tier_at t ts n) - deduction_at t ts n = marginal (t # ts) n"
    using marginal_closed [of t n ts] assms(2,3) by simp
  have "0 \<le> marginal (t # ts) n" by (rule marginal_nonneg) (use assms in simp_all)
  then show ?thesis
    using assms(2,3) v
    by (simp add: maintenanceMarginForNotional_def tierForNotional_at deduction_loop_at [OF ex r]
        rate_tier_at [OF ex r] dec_defs m Let_def)
qed

lemma marginal_at_bound: "schedule (t # ts) \<Longrightarrow> marginal (t # ts) (mt_lowerBound t) = 0"
proof (induction ts arbitrary: t)
  case (Cons u us)
  then have "mt_lowerBound u \<le> mt_lowerBound t \<Longrightarrow> mt_lowerBound u = mt_lowerBound t" by simp
  with Cons show ?case by auto
qed simp

lemma marginal_diff:
  assumes "schedule (t # ts)" "mt_lowerBound t \<le> m" "m \<le> n"
  shows "0 \<le> marginal (t # ts) n - marginal (t # ts) m \<and>
    marginal (t # ts) n - marginal (t # ts) m \<le> (n - m) / 2"
  using assms
proof (induction ts arbitrary: t m)
  case Nil
  have "tier_rate t \<le> 1 / 2" using Nil.prems(1) by (simp add: tier_rate_def divide_le_eq)
  then have "tier_rate t * (n - m) \<le> 1 / 2 * (n - m)"
    using Nil.prems(3) by (intro mult_right_mono) simp_all
  moreover have "0 \<le> tier_rate t * (n - m)" using Nil.prems(3) by simp
  ultimately show ?case by (simp add: right_diff_distrib)
next
  case (Cons u us)
  have half: "tier_rate t \<le> 1 / 2" using Cons.prems(1) by (simp add: tier_rate_def divide_le_eq)
  have slice: "0 \<le> tier_rate t * (y - x) \<and> tier_rate t * (y - x) \<le> (y - x) / 2" if "x \<le> y" for x y
    using mult_right_mono [OF half, of "y - x"] that by simp
  consider "mt_lowerBound u \<le> m" | "m < mt_lowerBound u" "mt_lowerBound u \<le> n" | "n < mt_lowerBound u"
    by linarith
  then show ?case
  proof cases
    case 1
    then show ?thesis using Cons.IH [of u m] Cons.prems by simp
  next
    case 2
    have "marginal (u # us) (mt_lowerBound u) = 0"
      by (rule marginal_at_bound) (use Cons.prems(1) in simp)
    with 2 Cons.IH [of u "mt_lowerBound u"] Cons.prems slice [of m "mt_lowerBound u"]
    show ?thesis by (simp add: right_diff_distrib)
  next
    case 3
    then show ?thesis using Cons.prems slice [of m n] by (simp add: right_diff_distrib)
  qed
qed

subsection \<open>The properties\<close>



text \<open>
  The maintenance margin grows with the notional and never faster than half of it:
  a larger position never needs less margin, and no tier boundary makes it jump.
\<close>

theorem maintenanceMargin_monotone_continuous:
  assumes "schedule (t # ts)" "mt_lowerBound t = 0" "0 \<le> m" "m \<le> n"
    and "exact_on L (margin_values (t # ts) m)" "exact_on L (margin_values (t # ts) n)"
  shows "maintenanceMarginForNotional L (t # ts) m \<le> maintenanceMarginForNotional L (t # ts) n \<and>
    maintenanceMarginForNotional L (t # ts) n - maintenanceMarginForNotional L (t # ts) m \<le> (n - m) / 2"
proof -
  have "maintenanceMarginForNotional L (t # ts) m = marginal (t # ts) m"
    "maintenanceMarginForNotional L (t # ts) n = marginal (t # ts) n"
    using assms by (auto intro!: maintenanceMargin_exact)
  with marginal_diff [of t ts m n] assms show ?thesis by simp
qed

theorem maintenanceMargin_monotone_continuous_witness:
  "maintenanceMarginForNotional decimal30 [\<lparr>mt_lowerBound = 0, mt_maxLeverage = 40\<rparr>, \<lparr>mt_lowerBound = 150000, mt_maxLeverage = 20\<rparr>] 100000
   \<le> maintenanceMarginForNotional decimal30 [\<lparr>mt_lowerBound = 0, mt_maxLeverage = 40\<rparr>, \<lparr>mt_lowerBound = 150000, mt_maxLeverage = 20\<rparr>] 200000"
  by (rule maintenanceMargin_monotone_continuous [THEN conjunct1])
    (simp_all add: tier_rate_def Let_def rnd30_scaled)

lemma maintenanceMargin_nonneg: "0 \<le> maintenanceMarginForNotional L tiers n"
  by (auto simp: maintenanceMarginForNotional_def Let_def split: option.splits)

end
