(* ===== verification/Margin.thy ===== *)
theory Margin
  imports AssetMeta MarginTiers
begin

text \<open>
  engine/margin.ts: account value, unrealised profit, margin in use, the margin check of an
  order, and the liquidation price. The functions only read the state.
\<close>

subsection \<open>Account value\<close>

definition getBalance :: "'a ledger_scheme \<Rightarrow> user \<Rightarrow> dex_name \<Rightarrow> rat" where
  "getBalance s u scope = (case balance s u scope of None \<Rightarrow> 0 | Some b \<Rightarrow> b)"

definition calculatePositionUnrealizedPnl :: "declib \<Rightarrow> rat \<Rightarrow> rat \<Rightarrow> rat \<Rightarrow> rat" where
  "calculatePositionUnrealizedPnl L szi entryPx markPx =
    (if isZero_d szi then 0
     else if gt_d szi 0 then mul_d L (sub_d L markPx entryPx) (abs_d szi)
     else mul_d L (sub_d L entryPx markPx) (abs_d szi))"

definition sum_positions ::
    "declib \<Rightarrow> 'a ledger_scheme \<Rightarrow> user \<Rightarrow> (asset \<Rightarrow> PosHash \<Rightarrow> rat \<Rightarrow> rat) \<Rightarrow> asset list \<Rightarrow> rat" where
  \<comment> \<open>the loop over a positions set: open positions of a coin with a mid, added up\<close>
  "sum_positions L s u f assets =
    foldl (\<lambda>tot a. case pos s u a of None \<Rightarrow> tot
      | Some p \<Rightarrow> if isZero_d (p_szi p) then tot
          else case midPx s (p_coin p) of None \<Rightarrow> tot | Some m \<Rightarrow> add_d L tot (f a p m)) 0 assets"

definition calculateTotalUnrealizedPnl :: "declib \<Rightarrow> 'a ledger_scheme \<Rightarrow> user \<Rightarrow> dex_name \<Rightarrow> rat" where
  "calculateTotalUnrealizedPnl L s u scope =
    sum_positions L s u (\<lambda>a p m. calculatePositionUnrealizedPnl L (p_szi p) (p_entryPx p) m) (posSet s u scope)"

definition calculateAccountValue :: "declib \<Rightarrow> 'a ledger_scheme \<Rightarrow> user \<Rightarrow> dex_name \<Rightarrow> rat" where
  "calculateAccountValue L s u scope = add_d L (getBalance s u scope) (calculateTotalUnrealizedPnl L s u scope)"

subsection \<open>Margin in use\<close>

definition isolatedMarginOf :: "declib \<Rightarrow> PosHash \<Rightarrow> nat \<Rightarrow> rat" where
  "isolatedMarginOf L p leverage =
    add_d L
      (case p_marginAlloc p of Some m \<Rightarrow> m
       | None \<Rightarrow> div_d L (mul_d L (abs_d (p_szi p)) (p_entryPx p)) (of_nat leverage))
      (case p_rawUsd p of None \<Rightarrow> 0 | Some r \<Rightarrow> r)"

definition no_pos :: PosHash where
  \<comment> \<open>the defaults read from an absent hash\<close>
  "no_pos = \<lparr>p_coin = '''', p_szi = 0, p_entryPx = 0, p_cumFunding = 0, p_cumFundingSinceOpen = 0,
    p_cumFundingSinceChange = 0, p_marginAlloc = None, p_rawUsd = None\<rparr>"

definition pos_of :: "'a ledger_scheme \<Rightarrow> user \<Rightarrow> asset \<Rightarrow> PosHash" where
  "pos_of s u a = (case pos s u a of None \<Rightarrow> no_pos | Some p \<Rightarrow> p)"

definition calculatePositionMarginUsed ::
    "declib \<Rightarrow> 'a ledger_scheme \<Rightarrow> user \<Rightarrow> asset \<Rightarrow> rat \<Rightarrow> rat \<Rightarrow> rat" where
  "calculatePositionMarginUsed L s u a szi markPx =
    (if isZero_d szi then 0
     else let l = getLeverageSetting s u a
       in if lev_isCross l then div_d L (mul_d L (abs_d szi) markPx) (of_nat (lev_leverage l))
          else isolatedMarginOf L ((pos_of s u a)\<lparr>p_szi := szi\<rparr>) (lev_leverage l))"

definition calculateTotalMarginUsed :: "declib \<Rightarrow> 'a ledger_scheme \<Rightarrow> user \<Rightarrow> dex_name \<Rightarrow> rat" where
  "calculateTotalMarginUsed L s u scope =
    sum_positions L s u (\<lambda>a p m. calculatePositionMarginUsed L s u a (p_szi p) m) (posSet s u scope)"

definition available_margin :: "declib \<Rightarrow> 'a ledger_scheme \<Rightarrow> user \<Rightarrow> asset \<Rightarrow> rat" where
  "available_margin L s u a =
    (let scope = scopeForAsset s a
     in sub_d L (calculateAccountValue L s u scope) (calculateTotalMarginUsed L s u scope))"

definition is_reducing :: "rat \<Rightarrow> bool \<Rightarrow> bool" where
  "is_reducing szi isBuy \<longleftrightarrow> \<not> isZero_d szi \<and> ((gt_d szi 0 \<and> \<not> isBuy) \<or> (\<not> gt_d szi 0 \<and> isBuy))"

definition checkMarginForOrder :: "declib \<Rightarrow> 'a ledger_scheme \<Rightarrow> user \<Rightarrow> asset \<Rightarrow> bool \<Rightarrow> rat \<Rightarrow> rat \<Rightarrow> bool" where
  "checkMarginForOrder L s u a isBuy sz px =
    (let available = available_margin L s u a;
         leverage = lev_leverage (getLeverageSetting s u a)
     in if is_reducing (p_szi (pos_of s u a)) isBuy then True
        else \<not> lt_d available (div_d L (mul_d L sz px) (of_nat leverage)))"

definition maxAffordableOrderSize ::
    "declib \<Rightarrow> 'a ledger_scheme \<Rightarrow> user \<Rightarrow> asset \<Rightarrow> bool \<Rightarrow> rat \<Rightarrow> rat option" where
  \<comment> \<open>\<open>None\<close> is null: the order is not limited by margin\<close>
  "maxAffordableOrderSize L s u a isBuy px =
    (let available = available_margin L s u a
     in if is_reducing (p_szi (pos_of s u a)) isBuy then None
        else if \<not> gt_d available 0 then Some 0
        else Some (div_d L (mul_d L available (of_nat (lev_leverage (getLeverageSetting s u a)))) px))"

subsection \<open>Liquidation price\<close>

definition hasTiers :: "HlMarginTier list option \<Rightarrow> bool" where
  "hasTiers tiers = (case tiers of None \<Rightarrow> False | Some ts \<Rightarrow> ts \<noteq> [])"

definition liq_rate :: "declib \<Rightarrow> nat \<Rightarrow> HlMarginTier list option \<Rightarrow> rat \<Rightarrow> rat" where
  "liq_rate L leverage tiers notional =
    (case (hasTiers tiers, maintenanceMarginRateForNotional L (the tiers) notional) of
       (True, Some r) \<Rightarrow> r
     | _ \<Rightarrow> div_d L 1 (of_nat (leverage * 2)))"

definition solve_liq ::
    "declib \<Rightarrow> bool \<Rightarrow> rat \<Rightarrow> rat \<Rightarrow> rat \<Rightarrow> nat \<Rightarrow> HlMarginTier list option \<Rightarrow> rat \<Rightarrow> rat" where
  "solve_liq L isLong sz positionNotional margin leverage tiers notional =
    (let rate = liq_rate L leverage tiers notional;
         deduction = (if hasTiers tiers
           then sub_d L (mul_d L notional rate) (maintenanceMarginForNotional L (the tiers) notional) else 0)
     in if isLong
        then div_d L (sub_d L (sub_d L positionNotional margin) deduction) (mul_d L sz (sub_d L 1 rate))
        else div_d L (add_d L (add_d L positionNotional margin) deduction) (mul_d L sz (add_d L 1 rate)))"

fun liq_loop :: "nat \<Rightarrow> (rat \<Rightarrow> rat) \<Rightarrow> rat \<Rightarrow> rat" where
  \<comment> \<open>at most eight rounds of: solve at the notional of the current price\<close>
  "liq_loop 0 f liqPx = liqPx"
| "liq_loop (Suc n) f liqPx =
    (if gt_d liqPx 0 then let next = f liqPx in if next = liqPx then liqPx else liq_loop n f next
     else liqPx)"

definition cross_maintenance :: "declib \<Rightarrow> nat \<Rightarrow> HlMarginTier list option \<Rightarrow> rat \<Rightarrow> rat" where
  "cross_maintenance L leverage tiers notional =
    (if hasTiers tiers then maintenanceMarginForNotional L (the tiers) notional
     else mul_d L notional (div_d L 1 (of_nat (leverage * 2))))"

definition calculateLiquidationPrice ::
    "declib \<Rightarrow> rat \<Rightarrow> rat \<Rightarrow> rat \<Rightarrow> nat \<Rightarrow> bool \<Rightarrow> rat option \<Rightarrow> HlMarginTier list option \<Rightarrow> rat option" where
  "calculateLiquidationPrice L szi entryPx accountValue leverage isCross isolatedMargin tiers =
    (if isZero_d szi then None
     else
       let isLong = gt_d szi 0; sz = abs_d szi; positionNotional = mul_d L sz entryPx
       in if isCross
          then
            let maintMargin = cross_maintenance L leverage tiers positionNotional;
                cushion = sub_d L accountValue maintMargin;
                offset = div_d L cushion sz
            in if gte_d cushion positionNotional then None
               else if lte_d cushion 0 then Some (if isLong then 0 else entryPx)
               else Some (if isLong then sub_d L entryPx offset else add_d L entryPx offset)
          else
            let margin = (case isolatedMargin of Some m \<Rightarrow> m | None \<Rightarrow> div_d L positionNotional (of_nat leverage));
                solve = solve_liq L isLong sz positionNotional margin leverage tiers;
                start = solve positionNotional;
                liqPx = (if hasTiers tiers then liq_loop 8 (\<lambda>p. solve (mul_d L sz p)) start else start)
            in Some (if isLong then (if gt_d liqPx 0 then liqPx else 0) else liqPx))"


subsection \<open>Correctness of the affordable size\<close>

definition margin_check_values :: "declib \<Rightarrow> 'a ledger_scheme \<Rightarrow> user \<Rightarrow> asset \<Rightarrow> rat \<Rightarrow> rat \<Rightarrow> rat set" where
  "margin_check_values L s u a sz px =
    (let available = available_margin L s u a; l = of_nat (lev_leverage (getLeverageSetting s u a))
     in {available * l, available * l / px, sz * px, sz * px / l})"



subsection \<open>Correctness of the liquidation price\<close>

definition maintenance_at :: "declib \<Rightarrow> nat \<Rightarrow> HlMarginTier list option \<Rightarrow> rat \<Rightarrow> rat" where
  \<comment> \<open>the maintenance margin of a notional, as the price formula charges it\<close>
  "maintenance_at L leverage tiers n =
    (if hasTiers tiers then maintenanceMarginForNotional L (the tiers) n else n * liq_rate L leverage tiers n)"

definition solve_values ::
    "declib \<Rightarrow> bool \<Rightarrow> rat \<Rightarrow> rat \<Rightarrow> rat \<Rightarrow> nat \<Rightarrow> HlMarginTier list option \<Rightarrow> rat \<Rightarrow> rat set" where
  "solve_values L isLong sz positionNotional margin leverage tiers n =
    (let r = liq_rate L leverage tiers n;
         d = (if hasTiers tiers then n * r - maintenance_at L leverage tiers n else 0)
     in {n * r, n * r - maintenance_at L leverage tiers n} \<union>
        (if isLong then {positionNotional - margin, positionNotional - margin - d, 1 - r, sz * (1 - r),
                         (positionNotional - margin - d) / (sz * (1 - r))}
         else {positionNotional + margin, positionNotional + margin + d, 1 + r, sz * (1 + r),
               (positionNotional + margin + d) / (sz * (1 + r))}))"

lemma solve_liq_balances:
  assumes ex: "exact_on L (solve_values L isLong sz N margin leverage tiers n)"
    and r: "liq_rate L leverage tiers n \<noteq> 1" "liq_rate L leverage tiers n \<noteq> -1"
    and sz: "sz \<noteq> 0"
    and p: "p = solve_liq L isLong sz N margin leverage tiers n" "n = sz * p"
  shows "margin + (if isLong then sz * p - N else N - sz * p) = maintenance_at L leverage tiers n"
proof (cases isLong)
  case True
  let ?r = "liq_rate L leverage tiers n" and ?m = "maintenance_at L leverage tiers n"
  let ?d = "if hasTiers tiers then n * ?r - ?m else 0"
  have m: "?m = n * ?r - ?d" by (simp add: maintenance_at_def)
  have "p = (N - margin - ?d) / (sz * (1 - ?r))"
    using ex True
    by (simp add: p(1) solve_liq_def solve_values_def Let_def dec_defs maintenance_at_def split: if_splits)
  then have "p * (sz * (1 - ?r)) = N - margin - ?d"
    using r(1) sz by (simp add: nonzero_eq_divide_eq)
  then show ?thesis using True p(2) m by (simp add: algebra_simps)
next
  case False
  let ?r = "liq_rate L leverage tiers n" and ?m = "maintenance_at L leverage tiers n"
  let ?d = "if hasTiers tiers then n * ?r - ?m else 0"
  have m: "?m = n * ?r - ?d" by (simp add: maintenance_at_def)
  have "p = (N + margin + ?d) / (sz * (1 + ?r))"
    using ex False
    by (simp add: p(1) solve_liq_def solve_values_def Let_def dec_defs maintenance_at_def split: if_splits)
  moreover have "sz * (1 + ?r) \<noteq> 0" using r(2) sz by (simp add: add_eq_0_iff)
  ultimately have "p * (sz * (1 + ?r)) = N + margin + ?d" by (simp add: nonzero_eq_divide_eq)
  then show ?thesis using False p(2) m by (simp add: algebra_simps)
qed


lemma liq_rate_bounds:
  assumes "decimal_js L"
  shows "0 \<le> liq_rate L leverage tiers n" "liq_rate L leverage tiers n \<le> 1 / 2"
proof -
  have "(1::rat) / of_nat (k * 2) \<le> 1 / 2" for k :: nat by (cases k) simp_all
  moreover have "fits (1 / 2)" by (rule fits_scaled [of _ 1 5]) simp_all
  ultimately have le: "div_d L 1 (of_nat (k * 2)) \<le> 1 / 2" for k :: nat
    unfolding div_d_def by (intro decimal_js.rnd_le_fits [OF assms])
  have nn: "0 \<le> div_d L 1 (of_nat (k * 2))" for k :: nat
    by (simp add: div_d_def decimal_js.rnd_nonneg [OF assms])
  show "0 \<le> liq_rate L leverage tiers n" "liq_rate L leverage tiers n \<le> 1 / 2"
    using le [of leverage] nn [of leverage] rateForTier_bounds [OF assms]
    by (auto simp: liq_rate_def maintenanceMarginRateForNotional_def split: option.splits bool.splits)
qed

lemma liq_loop_fix: "f x = x \<Longrightarrow> liq_loop n f x = x"
  by (cases n) simp_all

lemma unrealized_exact:
  assumes "exact_on L {m - e, e - m, (m - e) * \<bar>szi\<bar>, (e - m) * \<bar>szi\<bar>}"
  shows "calculatePositionUnrealizedPnl L szi e m = szi * (m - e)"
proof -
  have "rnd L (m - e) = m - e" "rnd L (e - m) = e - m"
    "rnd L ((m - e) * \<bar>szi\<bar>) = (m - e) * \<bar>szi\<bar>" "rnd L ((e - m) * \<bar>szi\<bar>) = (e - m) * \<bar>szi\<bar>"
    using assms by (simp_all only: exact_on_insert)
  then show ?thesis
    by (cases "0 < szi") (simp_all only: calculatePositionUnrealizedPnl_def dec_defs gt_d_def isZero_d_def abs_d_def
        if_True if_False; simp add: algebra_simps abs_if)+
qed

lemma liq_loop_settles:
  "liq_loop n f p0 = p \<Longrightarrow> 0 < p \<Longrightarrow> f p = p \<or> (f ^^ n) p0 = p"
  by (induction n arbitrary: p0) (auto simp: Let_def funpow_swap1 split: if_splits)

text \<open>
  The liquidation price of an isolated position solves its equation: without rounding,
  at the returned price the position's dedicated margin plus its profit equals exactly the
  maintenance margin of its notional there, for longs and shorts, with or without tiers. The
  price is taken as settled, the condition on which the solving loop exits.
\<close>

theorem isolated_liquidation_price_balances:
  assumes "decimal_js L" "szi \<noteq> 0"
    and "calculateLiquidationPrice L szi entryPx accountValue leverage False (Some margin) tiers = Some p" "0 < p"
    and settled: "solve_liq L (0 < szi) \<bar>szi\<bar> (\<bar>szi\<bar> * entryPx) margin leverage tiers (\<bar>szi\<bar> * p) = p"
    and "exact_on L {\<bar>szi\<bar> * entryPx, p - entryPx, entryPx - p, (p - entryPx) * \<bar>szi\<bar>, (entryPx - p) * \<bar>szi\<bar>}"
    and "exact_on L (solve_values L (0 < szi) \<bar>szi\<bar> (\<bar>szi\<bar> * entryPx) margin leverage tiers (\<bar>szi\<bar> * p))"
  shows "margin + calculatePositionUnrealizedPnl L szi entryPx p = maintenance_at L leverage tiers (\<bar>szi\<bar> * p)"
proof -
  have r: "liq_rate L leverage tiers (\<bar>szi\<bar> * p) \<noteq> 1" "liq_rate L leverage tiers (\<bar>szi\<bar> * p) \<noteq> -1"
    using liq_rate_bounds [OF assms(1), of leverage tiers "\<bar>szi\<bar> * p"] by auto
  have "margin + (if 0 < szi then \<bar>szi\<bar> * p - \<bar>szi\<bar> * entryPx else \<bar>szi\<bar> * entryPx - \<bar>szi\<bar> * p)
      = maintenance_at L leverage tiers (\<bar>szi\<bar> * p)"
    using assms(2) by (intro solve_liq_balances [OF assms(7) r _ settled [symmetric] refl]) simp
  moreover have "calculatePositionUnrealizedPnl L szi entryPx p =
      (if 0 < szi then \<bar>szi\<bar> * p - \<bar>szi\<bar> * entryPx else \<bar>szi\<bar> * entryPx - \<bar>szi\<bar> * p)"
    using unrealized_exact [of L p entryPx szi] assms(2,6)
    by (cases "0 < szi") (simp_all add: algebra_simps)
  ultimately show ?thesis by simp
qed

theorem isolated_liquidation_price_balances_witness:
  "calculateLiquidationPrice decimal30 1 100 0 5 False (Some 19) (Some [\<lparr>mt_lowerBound = 0, mt_maxLeverage = 5\<rparr>]) = Some 90
   \<and> 19 + calculatePositionUnrealizedPnl decimal30 1 100 90 =
     maintenance_at decimal30 5 (Some [\<lparr>mt_lowerBound = 0, mt_maxLeverage = 5\<rparr>]) 90"
proof -
  let ?ts = "[\<lparr>mt_lowerBound = 0, mt_maxLeverage = 5\<rparr>]"
  have r: "rateForTier decimal30 \<lparr>mt_lowerBound = 0, mt_maxLeverage = 5\<rparr> = 1 / 10"
    by (simp add: rateForTier_def dec_defs rnd30_scaled)
  have m: "maintenanceMarginForNotional decimal30 ?ts n = n / 10"
    and q: "liq_rate decimal30 5 (Some ?ts) n = 1 / 10" if "n = 90 \<or> n = 100" for n
    using that
    by (auto simp: maintenanceMarginForNotional_def liq_rate_def maintenanceMarginRateForNotional_def hasTiers_def
        tierForNotional_def Let_def dec_defs r rnd30_scaled)
  have s: "solve_liq decimal30 True 1 100 19 5 (Some ?ts) n = 90" if "n = 90 \<or> n = 100" for n
    using that by (auto simp: solve_liq_def Let_def dec_defs hasTiers_def m q rnd30_scaled)
  have c: "calculateLiquidationPrice decimal30 1 100 0 5 False (Some 19) (Some ?ts) = Some 90"
    by (simp add: calculateLiquidationPrice_def Let_def dec_defs hasTiers_def s rnd30_scaled liq_loop_fix)
  have v: "exact_on decimal30 (solve_values decimal30 True 1 100 19 5 (Some ?ts) 90)"
    by (simp add: solve_values_def maintenance_at_def hasTiers_def Let_def m q rnd30_scaled)
  have "19 + calculatePositionUnrealizedPnl decimal30 1 100 90 = maintenance_at decimal30 5 (Some ?ts) (\<bar>1\<bar> * 90)"
    by (rule isolated_liquidation_price_balances [OF decimal30_js _ c]) (simp_all add: s v rnd30_scaled)
  with c show ?thesis by simp
qed


text \<open>
  The liquidation price of a cross position: null when the cushion covers the whole
  notional; otherwise, without rounding and with a positive cushion, the account value after
  the move from the entry to that price is exactly the maintenance margin, and the price is
  on the losing side of the entry.
\<close>

theorem cross_liquidation_price_balances:
  assumes "szi \<noteq> 0" and N: "rnd L (\<bar>szi\<bar> * entryPx) = \<bar>szi\<bar> * entryPx" "liq_rate L leverage tiers (\<bar>szi\<bar> * entryPx) = rt"
    and mm: "mm = maintenance_at L leverage tiers (\<bar>szi\<bar> * entryPx)"
    and ex: "exact_on L {\<bar>szi\<bar> * entryPx * rt, accountValue - mm, (accountValue - mm) / \<bar>szi\<bar>,
      entryPx - (accountValue - mm) / \<bar>szi\<bar>, entryPx + (accountValue - mm) / \<bar>szi\<bar>}"
    and cushion: "0 < accountValue - mm"
  shows "case calculateLiquidationPrice L szi entryPx accountValue leverage True margin tiers of
      None \<Rightarrow> \<bar>szi\<bar> * entryPx \<le> accountValue - mm
    | Some p \<Rightarrow> accountValue + szi * (p - entryPx) = mm \<and> (if 0 < szi then 0 < p \<and> p < entryPx else entryPx < p)"
proof -
  let ?c = "accountValue - mm" and ?N = "\<bar>szi\<bar> * entryPx"
  have mm': "cross_maintenance L leverage tiers ?N = mm"
    using N(2) ex by (auto simp: cross_maintenance_def mm maintenance_at_def mul_d_def liq_rate_def split: option.splits)
  have res: "calculateLiquidationPrice L szi entryPx accountValue leverage True margin tiers =
      (if ?N \<le> ?c then None else Some (if 0 < szi then entryPx - ?c / \<bar>szi\<bar> else entryPx + ?c / \<bar>szi\<bar>))"
  proof -
    define sz where "sz = \<bar>szi\<bar>"
    show ?thesis
      using assms(1) cushion ex N(1) mm'
      by (simp add: calculateLiquidationPrice_def Let_def dec_defs sz_def [symmetric])
  qed
  have a: "0 < \<bar>szi\<bar>" using assms(1) by simp
  have pos: "0 < ?c / \<bar>szi\<bar>" using a cushion by simp
  have "szi * (?c / \<bar>szi\<bar>) = (if 0 < szi then ?c else - ?c)" using assms(1) by simp
  moreover have "?c / \<bar>szi\<bar> < entryPx" if "\<not> ?N \<le> ?c"
    using that a by (simp add: pos_divide_less_eq mult.commute)
  ultimately show ?thesis
    using pos by (auto simp: res right_diff_distrib distrib_left split: if_splits)
qed

theorem cross_liquidation_price_balances_witness:
  "calculateLiquidationPrice decimal30 2 100 30 5 True None None = Some 95 \<and> 30 + 2 * (95 - 100) = (20 :: rat)"
proof -
  have r: "liq_rate decimal30 5 None 200 = 1 / 10"
    by (simp add: liq_rate_def hasTiers_def dec_defs rnd30_scaled split: option.split)
  have m: "20 = maintenance_at decimal30 5 None (\<bar>2\<bar> * 100)"
    by (simp add: maintenance_at_def hasTiers_def r)
  have c: "calculateLiquidationPrice decimal30 2 100 30 5 True None None = Some 95"
    by (simp add: calculateLiquidationPrice_def cross_maintenance_def hasTiers_def Let_def dec_defs rnd30_scaled)
  have "case calculateLiquidationPrice decimal30 2 100 30 5 True None None of
      None \<Rightarrow> \<bar>2\<bar> * 100 \<le> 30 - (20 :: rat)
    | Some p \<Rightarrow> 30 + 2 * (p - 100) = (20 :: rat) \<and> (if 0 < (2::rat) then 0 < p \<and> p < 100 else 100 < p)"
    by (rule cross_liquidation_price_balances [OF _ _ _ m, where rt = "1 / 10"]) (simp_all add: r rnd30_scaled)
  with c show ?thesis by simp
qed

end
