(* ===== verification/Fill.thy ===== *)
theory Fill
  imports TrailingStops Margin
begin

text \<open>
  The fill path of worker/order-matcher.ts: \<open>executeFill\<close> with everything it changes
  (position, isolated margin, balance, fees, the order's hash and sets, reduce-only stops,
  events, bracket links). The long \<open>executeFillWithSize\<close> is split where its comments split
  it; \<open>executeFillWithSize\<close> below composes the parts in the code's order.
\<close>

subsection \<open>Position arithmetic\<close>

definition signed_fill :: "bool \<Rightarrow> rat \<Rightarrow> rat" where
  "signed_fill isBuy fillSz = (if isBuy then fillSz else neg_d fillSz)"

definition is_increasing :: "rat \<Rightarrow> bool \<Rightarrow> bool" where
  "is_increasing szi isBuy \<longleftrightarrow> (gt_d szi 0 \<and> isBuy) \<or> (lt_d szi 0 \<and> \<not> isBuy) \<or> isZero_d szi"

definition fill_entry_px :: "declib \<Rightarrow> rat \<Rightarrow> rat \<Rightarrow> bool \<Rightarrow> rat \<Rightarrow> rat \<Rightarrow> rat" where
  "fill_entry_px L szi entryPx isBuy fillSz fillPx =
    (if is_increasing szi isBuy
     then if isZero_d szi then fillPx
          else div_d L (add_d L (mul_d L (abs_d szi) entryPx) (mul_d L fillSz fillPx)) (add_d L (abs_d szi) fillSz)
     else if gt_d fillSz (abs_d szi) then fillPx else entryPx)"

definition fill_closed_pnl :: "declib \<Rightarrow> rat \<Rightarrow> rat \<Rightarrow> bool \<Rightarrow> rat \<Rightarrow> rat \<Rightarrow> rat" where
  "fill_closed_pnl L szi entryPx isBuy fillSz fillPx =
    (if is_increasing szi isBuy then 0
     else let closingSz = min_d fillSz (abs_d szi)
       in if gt_d szi 0 then mul_d L (sub_d L fillPx entryPx) closingSz
          else mul_d L (sub_d L entryPx fillPx) closingSz)"

definition getFillDir :: "declib \<Rightarrow> rat \<Rightarrow> rat \<Rightarrow> FillDir" where
  "getFillDir L startPosition signedFillSz =
    (let newPos = add_d L startPosition signedFillSz
     in if isZero_d startPosition then (if gt_d signedFillSz 0 then OpenLong else OpenShort)
        else if isZero_d newPos then (if gt_d startPosition 0 then CloseLong else CloseShort)
        else if gt_d signedFillSz 0 then DirBuy else DirSell)"

subsection \<open>Fees\<close>

definition exchange_fee_rate :: "env \<Rightarrow> bool \<Rightarrow> rat" where
  "exchange_fee_rate E isTaker =
    (if FEES_ENABLED E then if isTaker then FEE_RATE_TAKER E else FEE_RATE_MAKER E else 0)"

definition fill_fee :: "env \<Rightarrow> builder option \<Rightarrow> bool \<Rightarrow> rat \<Rightarrow> rat \<Rightarrow> rat" where
  "fill_fee E bld isTaker fillSz fillPx =
    (let L = lib E; notional = mul_d L fillSz fillPx;
         exchangeFee = mul_d L notional (exchange_fee_rate E isTaker);
         builderFee = (case bld of
             Some b \<Rightarrow> if FEES_ENABLED E \<and> isTaker then mul_d L notional (of_nat (bld_f b) / 1000000) else 0
           | None \<Rightarrow> 0)
     in add_d L exchangeFee builderFee)"

subsection \<open>Isolated margin\<close>

definition iso_fields ::
    "env \<Rightarrow> state \<Rightarrow> PaperOrder \<Rightarrow> rat \<Rightarrow> rat \<Rightarrow> rat \<Rightarrow> rat \<Rightarrow> rat \<Rightarrow> PosHash \<Rightarrow> PosHash" where
  \<comment> \<open>the writes of marginAlloc and rawUsd on the position's hash\<close>
  "iso_fields E s ord fillPx fillSz szi entryPx newSzi p =
    (let L = lib E; l = getLeverageSetting s (o_userId ord) (o_asset ord);
         allocPx = (case getFreshMark E s (o_coin ord) of Some m \<Rightarrow> m | None \<Rightarrow> fillPx);
         leverage = of_nat (lev_leverage l); curAbs = abs_d szi
     in if lev_isCross l \<or> isZero_d newSzi then p
        else
          let prevAlloc = (case p_marginAlloc p of Some m \<Rightarrow> m | None \<Rightarrow> div_d L (mul_d L curAbs entryPx) leverage)
          in if is_increasing szi (o_isBuy ord)
             then p\<lparr>p_marginAlloc := Some (add_d L (if isZero_d szi then 0 else prevAlloc)
                     (div_d L (mul_d L fillSz allocPx) leverage))\<rparr>
             else if gt_d fillSz curAbs
             then p\<lparr>p_marginAlloc := Some (div_d L (mul_d L (abs_d newSzi) allocPx) leverage), p_rawUsd := Some 0\<rparr>
             else let keep = div_d L (abs_d newSzi) curAbs
               in p\<lparr>p_marginAlloc := Some (mul_d L prevAlloc keep),
                    p_rawUsd := map_option (\<lambda>r. mul_d L r keep) (p_rawUsd p)\<rparr>)"

subsection \<open>The pipeline of a fill\<close>

definition fill_position ::
    "env \<Rightarrow> PaperOrder \<Rightarrow> rat \<Rightarrow> rat \<Rightarrow> rat \<Rightarrow> rat \<Rightarrow> rat \<Rightarrow> state \<Rightarrow> state" where
  "fill_position E ord fillPx fillSz szi entryPx newSzi s =
    (let u = o_userId ord; a = o_asset ord; scope = scopeForAsset s a; cur = pos_of s u a
     in if isZero_d newSzi
        then s\<lparr>pos := (pos s)(u := (pos s u)(a := None)),
               posSet := (posSet s)(u := (posSet s u)(scope := srem a (posSet s u scope)))\<rparr>
        else
          let p = iso_fields E s ord fillPx fillSz szi entryPx newSzi cur;
              p' = p\<lparr>p_coin := o_coin ord, p_szi := newSzi,
                     p_entryPx := fill_entry_px (lib E) szi entryPx (o_isBuy ord) fillSz fillPx,
                     p_cumFunding := p_cumFunding cur,
                     p_cumFundingSinceOpen := (if isZero_d szi then 0 else p_cumFundingSinceOpen cur),
                     p_cumFundingSinceChange := 0\<rparr>
          in s\<lparr>pos := (pos s)(u := (pos s u)(a := Some p')),
               posSet := (posSet s)(u := (posSet s u)(scope := sadd a (posSet s u scope))),
               holders := sadd (u, scope) (holders s)\<rparr>)"

definition fill_balance :: "env \<Rightarrow> user \<Rightarrow> dex_name \<Rightarrow> rat \<Rightarrow> rat \<Rightarrow> state \<Rightarrow> state" where
  "fill_balance E u scope closedPnl fee s =
    (let s1 = (if isZero_d closedPnl then s else incr_balance E u scope closedPnl s)
     in if isZero_d fee then s1 else incr_balance E u scope (neg_d fee) s1)"

definition filled_hash :: "PaperOrder \<Rightarrow> rat \<Rightarrow> millis \<Rightarrow> OrderHash \<Rightarrow> OrderHash" where
  "filled_hash ord fillPx t d =
    d\<lparr>h_order := (h_order d)\<lparr>o_status := St_filled, o_filledSz := o_sz ord, o_avgPx := fillPx, o_updatedAt := t\<rparr>\<rparr>"

definition filled_order :: "PaperOrder \<Rightarrow> rat \<Rightarrow> millis \<Rightarrow> PaperOrder" where
  "filled_order ord fillPx t =
    ord\<lparr>o_status := St_filled, o_filledSz := o_sz ord, o_avgPx := fillPx, o_updatedAt := t\<rparr>"

definition make_fill ::
    "env \<Rightarrow> PaperOrder \<Rightarrow> rat \<Rightarrow> rat \<Rightarrow> rat \<Rightarrow> rat \<Rightarrow> bool \<Rightarrow> nat \<Rightarrow> PaperFill" where
  "make_fill E ord fillPx fillSz szi entryPx isTaker tid =
    \<lparr>f_coin = o_coin ord, f_px = fillPx, f_sz = fillSz, f_side = side_of (o_isBuy ord), f_time = now E,
     f_startPosition = szi, f_dir = getFillDir (lib E) szi (signed_fill (o_isBuy ord) fillSz),
     f_closedPnl = fill_closed_pnl (lib E) szi entryPx (o_isBuy ord) fillSz fillPx,
     f_hash = (if o_twapId ord = None then TidHash tid else ZeroHash),
     f_oid = o_oid ord, f_crossed = isTaker,
     f_fee = fill_fee E (o_builder ord) isTaker fillSz fillPx,
     f_tid = tid, f_cloid = o_cloid ord, f_twapId = o_twapId ord, f_liquidation = None\<rparr>"

definition fill_pipeline ::
    "env \<Rightarrow> PaperOrder \<Rightarrow> rat \<Rightarrow> rat \<Rightarrow> rat \<Rightarrow> rat \<Rightarrow> PaperFill \<Rightarrow> state \<Rightarrow> state" where
  "fill_pipeline E ord fillPx fillSz szi entryPx fill s =
    (let u = o_userId ord; scope = scopeForAsset s (o_asset ord);
         newSzi = add_d (lib E) szi (signed_fill (o_isBuy ord) fillSz);
         s1 = fill_position E ord fillPx fillSz szi entryPx newSzi s;
         s2 = s1\<lparr>usersActive := sadd u (usersActive s1)\<rparr>;
         s3 = fill_balance E u scope (f_closedPnl fill) (f_fee fill) s2;
         s4 = drop_from_sets (o_oid ord) (upd_hash (o_oid ord) (filled_hash ord fillPx (now E)) s3)
     in s4\<lparr>fills := (fills s4)(u := fill # fills s4 u)\<rparr>)"

subsection \<open>Bracket links and events\<close>

definition cancelled_row :: "user \<Rightarrow> OrderHash \<Rightarrow> millis \<Rightarrow> PaperOrder" where
  \<comment> \<open>the order of a cancellation event\<close>
  "cancelled_row u d t =
    (h_order d)\<lparr>o_userId := u, o_status := St_cancelled, o_updatedAt := t, o_triggerPx := None,
      o_tpsl := None, o_isMarket := False, o_builder := None, o_twapId := None\<rparr>"

definition cancel_sibling :: "env \<Rightarrow> user \<Rightarrow> oid option \<Rightarrow> oid \<Rightarrow> state \<Rightarrow> state" where
  "cancel_sibling E u parentOid sib s =
    (case orders s sib of None \<Rightarrow> s
     | Some d \<Rightarrow>
        if o_status (h_order d) \<noteq> St_open then s
        else
          let s1 = upd_hash sib (set_status St_cancelled (now E)) s;
              s2 = s1\<lparr>openSet := srem sib (openSet s1), trigSet := srem sib (trigSet s1),
                     bracket := (bracket s1)(sib := []), parentOf := (parentOf s1)(sib := None)\<rparr>;
              s3 = (case parentOid of None \<Rightarrow> s2
                | Some p \<Rightarrow> s2\<lparr>children := (children s2)(p := srem sib (children s2 p))\<rparr>)
          in emit (OrderUpdate u (cancelled_row u d (now E)) St_cancelled) s3)"

definition cancelOrderSiblings :: "env \<Rightarrow> oid \<Rightarrow> user \<Rightarrow> state \<Rightarrow> state" where
  "cancelOrderSiblings E oid u s =
    (if children s oid \<noteq> []
     then s\<lparr>children := (children s)(oid := []),
            parentOf := (\<lambda>x. if x \<in> set (children s oid) then None else parentOf s x)\<rparr>
     else
       let siblings = bracket s oid
       in if siblings = [] then s\<lparr>parentOf := (parentOf s)(oid := None)\<rparr>
          else
            let parentOid = parentOf s oid;
                s1 = s\<lparr>bracket := (bracket s)(oid := []), parentOf := (parentOf s)(oid := None)\<rparr>;
                s2 = (case parentOid of None \<Rightarrow> s1
                  | Some p \<Rightarrow> s1\<lparr>children := (children s1)(p := srem oid (children s1 p))\<rparr>)
            in foldl (\<lambda>acc sib. cancel_sibling E u parentOid sib acc) s2 siblings)"

definition emitTrailingFire ::
    "env \<Rightarrow> PaperOrder \<Rightarrow> (PaperOrder \<times> OrderStatus) list \<Rightarrow> state \<Rightarrow> state" where
  "emitTrailingFire E ord alsoInFrame s =
    (case orders s (o_oid ord) of None \<Rightarrow> s
     | Some d \<Rightarrow>
        let triggeredBody = (case h_trSnap d of Some b \<Rightarrow> b
              | None \<Rightarrow> buildTrailingBody (lib E) (d\<lparr>h_order := (h_order d)\<lparr>o_status := St_open\<rparr>\<rparr>) False);
            s1 = emitTrailingHistory d St_triggered (now E) triggeredBody s;
            s2 = emitTrailingHistory d St_filled (now E) (buildTrailingBody (lib E) d True) s1
        in emit (OrderUpdateBatch (o_userId ord)
             ([(paperOrderFromHash d St_triggered (now E), St_triggered),
               (paperOrderFromHash d St_filled (now E), St_filled)] @ alsoInFrame)) s2)"

definition emit_fill_updates ::
    "env \<Rightarrow> PaperOrder \<Rightarrow> rat \<Rightarrow> (PaperOrder \<times> OrderStatus) list \<Rightarrow> PaperFill \<Rightarrow> state \<Rightarrow> state" where
  "emit_fill_updates E ord fillPx orphans fill s =
    (let u = o_userId ord; filled = filled_order ord fillPx (now E);
         s1 = (if o_orderType ord = TrailingStop then emitTrailingFire E ord orphans s
               else if orphans \<noteq> [] then emit (OrderUpdateBatch u ((filled, St_filled) # orphans)) s
               else emit (OrderUpdate u filled St_filled) s)
     in emit (FillEvent u fill) s1)"

subsection \<open>Executing a fill\<close>

definition executeFillWithSize ::
    "env \<Rightarrow> PaperOrder \<Rightarrow> rat \<Rightarrow> rat \<Rightarrow> rat \<Rightarrow> rat \<Rightarrow> bool \<Rightarrow> state \<Rightarrow> state" where
  "executeFillWithSize E ord fillPx fillSz szi entryPx isTaker s =
    (let newSzi = add_d (lib E) szi (signed_fill (o_isBuy ord) fillSz);
         s0 = s\<lparr>seqTid := Suc (seqTid s)\<rparr>;
         fill = make_fill E ord fillPx fillSz szi entryPx isTaker (seqTid s0);
         s1 = fill_pipeline E ord fillPx fillSz szi entryPx fill s0;
         (orphans, s2) = reconcileReduceOnlyStops E (o_userId ord) (o_asset ord) newSzi s1;
         s3 = emit_fill_updates E ord fillPx orphans fill s2
     in cancelOrderSiblings E (o_oid ord) (o_userId ord) s3)"

text \<open>
  \<open>fill_size\<close>: the size that executeFillLocked lets through, \<open>None\<close> for its early returns
  (nothing left to fill; a reduce-only order without a position on the other side).
\<close>

definition fill_size :: "declib \<Rightarrow> PaperOrder \<Rightarrow> rat \<Rightarrow> rat option" where
  "fill_size L ord szi =
    (let fillSz = sub_d L (o_sz ord) (o_filledSz ord)
     in if isZero_d fillSz then None
        else if o_reduceOnly ord
        then if isZero_d szi then None
             else if (gt_d szi 0 \<and> o_isBuy ord) \<or> (\<not> gt_d szi 0 \<and> \<not> o_isBuy ord) then None
             else if gt_d fillSz (abs_d szi) then Some (abs_d szi)
             else Some fillSz
        else Some fillSz)"

definition executeFill :: "env \<Rightarrow> PaperOrder \<Rightarrow> rat \<Rightarrow> bool \<Rightarrow> state \<Rightarrow> state" where
  "executeFill E ord fillPx isTaker s =
    (let p = pos_of s (o_userId ord) (o_asset ord)
     in case fill_size (lib E) ord (p_szi p) of None \<Rightarrow> s
        | Some fillSz \<Rightarrow> executeFillWithSize E ord fillPx fillSz (p_szi p) (p_entryPx p) isTaker s)"

definition parseOrder :: "OrderHash \<Rightarrow> PaperOrder" where
  \<comment> \<open>the TWAP id is not persisted\<close>
  "parseOrder d = (h_order d)\<lparr>o_twapId := None\<rparr>"

subsection \<open>What the parts of a fill change\<close>

lemma cancel_sibling_frame:
  "ledger.truncate (cancel_sibling E u p sib s) = ledger.truncate s"
  "trailSet (cancel_sibling E u p sib s) = trailSet s" "expiry (cancel_sibling E u p sib s) = expiry s"
  "userOrders (cancel_sibling E u p sib s) = userOrders s" "cloids (cancel_sibling E u p sib s) = cloids s"
  "seqOid (cancel_sibling E u p sib s) = seqOid s"
  by (auto simp: cancel_sibling_def Let_def upd_hash_def split: option.splits)

lemma cancel_sibling_orders:
  "orders (cancel_sibling E u p sib s) =
    (if status_of s sib = Some St_open
     then (orders s)(sib := map_option (set_status St_cancelled (now E)) (orders s sib)) else orders s)"
  "set (openSet (cancel_sibling E u p sib s)) =
    (if status_of s sib = Some St_open then set (openSet s) - {sib} else set (openSet s))"
  "set (trigSet (cancel_sibling E u p sib s)) =
    (if status_of s sib = Some St_open then set (trigSet s) - {sib} else set (trigSet s))"
  by (auto simp: cancel_sibling_def Let_def upd_hash_def status_of_def split: option.splits)

abbreviation cancel_siblings :: "env \<Rightarrow> user \<Rightarrow> oid option \<Rightarrow> state \<Rightarrow> oid list \<Rightarrow> state" where
  "cancel_siblings E u p \<equiv> foldl (\<lambda>acc sib. cancel_sibling E u p sib acc)"

lemma cancel_siblings_frame:
  "ledger.truncate (cancel_siblings E u p s sibs) = ledger.truncate s \<and>
   trailSet (cancel_siblings E u p s sibs) = trailSet s \<and> expiry (cancel_siblings E u p s sibs) = expiry s \<and>
   userOrders (cancel_siblings E u p s sibs) = userOrders s \<and> cloids (cancel_siblings E u p s sibs) = cloids s \<and>
   seqOid (cancel_siblings E u p s sibs) = seqOid s"
  by (induction sibs arbitrary: s) (simp_all add: cancel_sibling_frame)

lemma cancel_siblings_orders:
  "orders (cancel_siblings E u p s sibs) = (\<lambda>x. if x \<in> set sibs \<and> status_of s x = Some St_open
     then map_option (set_status St_cancelled (now E)) (orders s x) else orders s x) \<and>
   set (openSet (cancel_siblings E u p s sibs)) =
     set (openSet s) - {x \<in> set sibs. status_of s x = Some St_open} \<and>
   set (trigSet (cancel_siblings E u p s sibs)) =
     set (trigSet s) - {x \<in> set sibs. status_of s x = Some St_open}"
proof (induction sibs arbitrary: s)
  case (Cons sib sibs)
  let ?s1 = "cancel_sibling E u p sib s"
  have st: "status_of ?s1 x = Some St_open \<longleftrightarrow> x \<noteq> sib \<and> status_of s x = Some St_open \<or>
      x = sib \<and> status_of s sib = Some St_open \<and> False" for x
    by (auto simp: status_of_def cancel_sibling_orders)
  have "orders (cancel_siblings E u p s (sib # sibs)) = (\<lambda>x. if x \<in> set (sib # sibs) \<and> status_of s x = Some St_open
      then map_option (set_status St_cancelled (now E)) (orders s x) else orders s x)"
    using Cons.IH [of ?s1] by (intro ext) (auto simp: st cancel_sibling_orders)
  moreover have "set (openSet (cancel_siblings E u p s (sib # sibs))) =
      set (openSet s) - {x \<in> set (sib # sibs). status_of s x = Some St_open}"
    using Cons.IH [of ?s1] by (auto simp: st cancel_sibling_orders)
  moreover have "set (trigSet (cancel_siblings E u p s (sib # sibs))) =
      set (trigSet s) - {x \<in> set (sib # sibs). status_of s x = Some St_open}"
    using Cons.IH [of ?s1] by (auto simp: st cancel_sibling_orders)
  ultimately show ?case by blast
qed simp

definition oco_targets :: "state \<Rightarrow> oid \<Rightarrow> oid set" where
  \<comment> \<open>the orders that the fill of \<open>oid\<close> cancels\<close>
  "oco_targets s oid = (if children s oid \<noteq> [] then {} else {x \<in> set (bracket s oid). status_of s x = Some St_open})"

lemma siblings_frame:
  "ledger.truncate (cancelOrderSiblings E oid u s) = ledger.truncate s"
  "trailSet (cancelOrderSiblings E oid u s) = trailSet s" "expiry (cancelOrderSiblings E oid u s) = expiry s"
  "userOrders (cancelOrderSiblings E oid u s) = userOrders s" "cloids (cancelOrderSiblings E oid u s) = cloids s"
  "seqOid (cancelOrderSiblings E oid u s) = seqOid s"
  by (simp_all add: cancelOrderSiblings_def Let_def cancel_siblings_frame split: option.splits)

lemma siblings_orders:
  "orders (cancelOrderSiblings E oid u s) x = (if x \<in> oco_targets s oid
     then map_option (set_status St_cancelled (now E)) (orders s x) else orders s x)"
  "set (openSet (cancelOrderSiblings E oid u s)) = set (openSet s) - oco_targets s oid"
  "set (trigSet (cancelOrderSiblings E oid u s)) = set (trigSet s) - oco_targets s oid"
  by (auto simp: cancelOrderSiblings_def Let_def oco_targets_def cancel_siblings_orders status_of_def
      split: option.splits)


lemma emit_fill_updates_book [simp]:
  "book.truncate (emit_fill_updates E ord px orphans fill s) = book.truncate s"
  by (simp add: emit_fill_updates_def emitTrailingFire_def emitTrailingHistory_def Let_def split: option.splits)

lemma fill_balance_frame:
  "fill_balance E u scope pnl fee s = s\<lparr>balance := balance (fill_balance E u scope pnl fee s)\<rparr>"
  by (simp add: fill_balance_def incr_balance_def Let_def)

lemma fill_balance_value:
  "balance (fill_balance E u scope pnl fee s) = (balance s)(u := (balance s u)(scope :=
    (if pnl = 0 \<and> fee = 0 then balance s u scope
     else Some (let b = (case balance s u scope of None \<Rightarrow> 0 | Some b \<Rightarrow> b);
                    b1 = (if pnl = 0 then b else incrf E b pnl)
                in if fee = 0 then b1 else incrf E b1 (- fee)))))"
  by (auto simp: fill_balance_def incr_balance_def Let_def fun_eq_iff)

lemma fill_position_frame:
  "fill_position E ord px sz szi entry newSzi s =
    s\<lparr>pos := pos (fill_position E ord px sz szi entry newSzi s),
      posSet := posSet (fill_position E ord px sz szi entry newSzi s),
      holders := holders (fill_position E ord px sz szi entry newSzi s)\<rparr>"
  by (simp add: fill_position_def Let_def)

lemma fill_position_other:
  "u \<noteq> o_userId ord \<or> a \<noteq> o_asset ord \<Longrightarrow> pos (fill_position E ord px sz szi entry newSzi s) u a = pos s u a"
  by (auto simp: fill_position_def Let_def)

lemma iso_fields_frame [simp]:
  "p_szi (iso_fields E s ord px sz szi e n p) = p_szi p" "p_entryPx (iso_fields E s ord px sz szi e n p) = p_entryPx p"
  "p_coin (iso_fields E s ord px sz szi e n p) = p_coin p"
  by (simp_all add: iso_fields_def Let_def)

lemma fill_position_szi:
  "map_option p_szi (pos (fill_position E ord px sz szi entry newSzi s) (o_userId ord) (o_asset ord)) =
    (if newSzi = 0 then None else Some newSzi)"
  "newSzi \<noteq> 0 \<Longrightarrow> map_option p_entryPx (pos (fill_position E ord px sz szi entry newSzi s) (o_userId ord) (o_asset ord)) =
    Some (fill_entry_px (lib E) szi entry (o_isBuy ord) sz px)"
  by (simp_all add: fill_position_def Let_def)

subsection \<open>Effects of a whole fill\<close>

definition filled_state ::
    "env \<Rightarrow> PaperOrder \<Rightarrow> rat \<Rightarrow> rat \<Rightarrow> rat \<Rightarrow> rat \<Rightarrow> bool \<Rightarrow> state \<Rightarrow> state" where
  \<comment> \<open>the state right after the pipeline\<close>
  "filled_state E ord px sz szi entry isTaker s =
    fill_pipeline E ord px sz szi entry (make_fill E ord px sz szi entry isTaker (Suc (seqTid s)))
      (s\<lparr>seqTid := Suc (seqTid s)\<rparr>)"

lemma executeFillWithSize_eq:
  obtains orphans s2 where
    "reconcileReduceOnlyStops E (o_userId ord) (o_asset ord) (add_d (lib E) szi (signed_fill (o_isBuy ord) sz))
       (filled_state E ord px sz szi entry tk s) = (orphans, s2)"
    "executeFillWithSize E ord px sz szi entry tk s = cancelOrderSiblings E (o_oid ord) (o_userId ord)
       (emit_fill_updates E ord px orphans (make_fill E ord px sz szi entry tk (Suc (seqTid s))) s2)"
  by (cases "reconcileReduceOnlyStops E (o_userId ord) (o_asset ord) (add_d (lib E) szi (signed_fill (o_isBuy ord) sz))
       (filled_state E ord px sz szi entry tk s)")
    (simp add: executeFillWithSize_def filled_state_def Let_def)

lemma executeFillWithSize_ledger:
  "ledger.truncate (executeFillWithSize E ord px sz szi entry tk s) =
   ledger.truncate (filled_state E ord px sz szi entry tk s)"
proof -
  obtain orphans s2 where
    r: "reconcileReduceOnlyStops E (o_userId ord) (o_asset ord) (add_d (lib E) szi (signed_fill (o_isBuy ord) sz))
       (filled_state E ord px sz szi entry tk s) = (orphans, s2)"
    and e: "executeFillWithSize E ord px sz szi entry tk s = cancelOrderSiblings E (o_oid ord) (o_userId ord)
       (emit_fill_updates E ord px orphans (make_fill E ord px sz szi entry tk (Suc (seqTid s))) s2)"
    by (rule executeFillWithSize_eq)
  from reconcile_frame [OF r [unfolded reconcileReduceOnlyStops_def]]
    book_eqD(1) [OF emit_fill_updates_book]
  show ?thesis by (simp add: e siblings_frame)
qed

subsection \<open>A fill conserves equity\<close>

definition fill_values :: "rat \<Rightarrow> rat \<Rightarrow> bool \<Rightarrow> rat \<Rightarrow> rat \<Rightarrow> rat set" where
  \<comment> \<open>the results of the decimal operations on the position\<close>
  "fill_values szi e isBuy sz px =
    {szi + signed_fill isBuy sz} \<union>
    (if is_increasing szi isBuy
     then {\<bar>szi\<bar> * e, sz * px, \<bar>szi\<bar> * e + sz * px, \<bar>szi\<bar> + sz, (\<bar>szi\<bar> * e + sz * px) / (\<bar>szi\<bar> + sz)}
     else {px - e, e - px, (px - e) * min sz \<bar>szi\<bar>, (e - px) * min sz \<bar>szi\<bar>})"

definition incr_exact :: "env \<Rightarrow> (rat \<times> rat) set \<Rightarrow> bool" where
  \<comment> \<open>HINCRBYFLOAT adds these pairs without rounding\<close>
  "incr_exact E S \<longleftrightarrow> (\<forall>(x, y) \<in> S. incrf E x y = x + y)"

lemma fill_entry_exact:
  assumes "exact_on L (fill_values szi e isBuy sz px)" "0 < sz"
  shows "is_increasing szi isBuy \<Longrightarrow>
    fill_entry_px L szi e isBuy sz px * (\<bar>szi\<bar> + sz) = \<bar>szi\<bar> * e + sz * px"
proof -
  assume inc: "is_increasing szi isBuy"
  have ex: "rnd L (\<bar>szi\<bar> * e) = \<bar>szi\<bar> * e" "rnd L (sz * px) = sz * px"
    "rnd L (\<bar>szi\<bar> * e + sz * px) = \<bar>szi\<bar> * e + sz * px" "rnd L (\<bar>szi\<bar> + sz) = \<bar>szi\<bar> + sz"
    "rnd L ((\<bar>szi\<bar> * e + sz * px) / (\<bar>szi\<bar> + sz)) = (\<bar>szi\<bar> * e + sz * px) / (\<bar>szi\<bar> + sz)"
    using assms(1) inc unfolding fill_values_def exact_on_Un by (simp_all only: if_True exact_on_insert)
  have "\<bar>szi\<bar> + sz \<noteq> 0" using assms(2) by linarith
  then show ?thesis
    using inc by (simp add: fill_entry_px_def add_d_def mul_d_def div_d_def ex)
qed

lemma fill_pnl_exact:
  assumes "exact_on L (fill_values szi e isBuy sz px)" "\<not> is_increasing szi isBuy"
  shows "fill_closed_pnl L szi e isBuy sz px = (if 0 < szi then px - e else e - px) * min sz \<bar>szi\<bar>"
proof -
  have ex: "rnd L (px - e) = px - e" "rnd L (e - px) = e - px"
    "rnd L ((px - e) * min sz \<bar>szi\<bar>) = (px - e) * min sz \<bar>szi\<bar>"
    "rnd L ((e - px) * min sz \<bar>szi\<bar>) = (e - px) * min sz \<bar>szi\<bar>"
    using assms unfolding fill_values_def exact_on_Un by (simp_all only: if_False exact_on_insert)
  show ?thesis using assms(2) unfolding fill_closed_pnl_def by (simp only: Let_def if_False gt_d_def mul_d_def
      sub_d_def min_d_def abs_d_def ex) simp
qed

lemma fill_pnl_identity:
  assumes ex: "exact_on L (fill_values szi e isBuy sz px)" and sz: "0 < sz"
    and n: "n = szi + signed_fill isBuy sz"
  shows "n * (m - fill_entry_px L szi e isBuy sz px) + fill_closed_pnl L szi e isBuy sz px =
    szi * (m - e) + signed_fill isBuy sz * (m - px)"
proof (cases "is_increasing szi isBuy")
  case True
  let ?e' = "fill_entry_px L szi e isBuy sz px"
  have "?e' * (\<bar>szi\<bar> + sz) = \<bar>szi\<bar> * e + sz * px"
    using ex sz True by (rule fill_entry_exact)
  moreover have "\<bar>n\<bar> = \<bar>szi\<bar> + sz" "szi = 0 \<or> (0 < szi) = isBuy"
    using True sz by (auto simp: n is_increasing_def signed_fill_def)
  moreover have "fill_closed_pnl L szi e isBuy sz px = 0" using True by (simp add: fill_closed_pnl_def)
  ultimately show ?thesis
    using sz by (cases isBuy; cases "szi = 0") (auto simp: n signed_fill_def algebra_simps abs_if split: if_splits)
next
  case False
  note pnl = fill_pnl_exact [OF ex False]
  have e': "fill_entry_px L szi e isBuy sz px = (if \<bar>szi\<bar> < sz then px else e)"
    using False by (simp add: fill_entry_px_def)
  from False have "0 < szi \<and> \<not> isBuy \<or> szi < 0 \<and> isBuy" by (auto simp: is_increasing_def)
  then show ?thesis
    unfolding pnl e' n
    by (elim disjE conjE; cases "\<bar>szi\<bar> < sz") (simp_all add: signed_fill_def min_def algebra_simps)
qed


lemma filled_state_ledger:
  fixes s :: state and ord :: PaperOrder and sz :: rat
  defines "q \<equiv> signed_fill (o_isBuy ord) sz" and "scope \<equiv> scopeForAsset s (o_asset ord)"
  shows "balance (filled_state E ord px sz szi e tk s) =
      balance (fill_balance E (o_userId ord) scope (fill_closed_pnl (lib E) szi e (o_isBuy ord) sz px)
        (fill_fee E (o_builder ord) tk sz px) s)"
    "pos (filled_state E ord px sz szi e tk s) =
      pos (fill_position E ord px sz szi e (add_d (lib E) szi q) (s\<lparr>seqTid := Suc (seqTid s)\<rparr>))"
    "fills (filled_state E ord px sz szi e tk s) =
      (fills s)(o_userId ord := make_fill E ord px sz szi e tk (Suc (seqTid s)) # fills s (o_userId ord))"
    "market.truncate (filled_state E ord px sz szi e tk s) = market.truncate s"
    "lev (filled_state E ord px sz szi e tk s) = lev s"
    "seqTid (filled_state E ord px sz szi e tk s) = Suc (seqTid s)"
proof -
  let ?s0 = "s\<lparr>seqTid := Suc (seqTid s)\<rparr>"
  let ?n = "add_d (lib E) szi (signed_fill (o_isBuy ord) sz)"
  have scope: "scopeForAsset ?s0 (o_asset ord) = scope"
    unfolding scope_def by (rule scopeForAsset_cong) simp
  note frame = fill_position_frame [of E ord px sz szi e ?n ?s0]
  define s1 where "s1 = fill_position E ord px sz szi e ?n ?s0"
  have s1: "balance s1 = balance s" "fills s1 = fills s" "lev s1 = lev s" "seqTid s1 = Suc (seqTid s)"
    "market.truncate s1 = market.truncate s"
    unfolding s1_def by (subst frame, simp add: market.defs)+
  define s2 where "s2 = s1\<lparr>usersActive := sadd (o_userId ord) (usersActive s1)\<rparr>"
  let ?f = "make_fill E ord px sz szi e tk (Suc (seqTid s))"
  define s3 where "s3 = fill_balance E (o_userId ord) scope (f_closedPnl ?f) (f_fee ?f) s2"
  note b = fill_balance_frame [of E "o_userId ord" scope "f_closedPnl ?f" "f_fee ?f" s2, folded s3_def]
  have s3: "fills s3 = fills s" "lev s3 = lev s" "seqTid s3 = Suc (seqTid s)" "pos s3 = pos s1"
    "market.truncate s3 = market.truncate s"
    by (subst b, simp add: s2_def s1)+
  have bal: "balance s3 = balance (fill_balance E (o_userId ord) scope (f_closedPnl ?f) (f_fee ?f) s)"
    unfolding s3_def by (simp only: fill_balance_value) (simp add: s2_def s1)
  have fs: "filled_state E ord px sz szi e tk s =
      (let s4 = drop_from_sets (o_oid ord) (upd_hash (o_oid ord) (filled_hash ord px (now E)) s3)
       in s4\<lparr>fills := (fills s4)(o_userId ord := ?f # fills s4 (o_userId ord))\<rparr>)"
    by (simp add: filled_state_def fill_pipeline_def Let_def scope s1_def s2_def s3_def)
  show "balance (filled_state E ord px sz szi e tk s) =
      balance (fill_balance E (o_userId ord) scope (fill_closed_pnl (lib E) szi e (o_isBuy ord) sz px)
        (fill_fee E (o_builder ord) tk sz px) s)"
    using bal by (simp add: fs Let_def drop_from_sets_def upd_hash_def make_fill_def)
  show "pos (filled_state E ord px sz szi e tk s) = pos (fill_position E ord px sz szi e (add_d (lib E) szi q) ?s0)"
    by (simp add: fs Let_def drop_from_sets_def upd_hash_def s3 s1_def q_def)
  show "fills (filled_state E ord px sz szi e tk s) = (fills s)(o_userId ord := ?f # fills s (o_userId ord))"
    "lev (filled_state E ord px sz szi e tk s) = lev s"
    "seqTid (filled_state E ord px sz szi e tk s) = Suc (seqTid s)"
    "market.truncate (filled_state E ord px sz szi e tk s) = market.truncate s"
    by (simp_all add: fs Let_def drop_from_sets_def upd_hash_def s3)
qed

lemma filled_state_book:
  "orders (filled_state E ord px sz szi e tk s) =
    (orders s)(o_oid ord := map_option (filled_hash ord px (now E)) (orders s (o_oid ord)))"
  "openSet (filled_state E ord px sz szi e tk s) = srem (o_oid ord) (openSet s)"
  "trigSet (filled_state E ord px sz szi e tk s) = srem (o_oid ord) (trigSet s)"
  "trailSet (filled_state E ord px sz szi e tk s) = srem (o_oid ord) (trailSet s)"
  "bracket (filled_state E ord px sz szi e tk s) = bracket s" "children (filled_state E ord px sz szi e tk s) = children s"
  "parentOf (filled_state E ord px sz szi e tk s) = parentOf s" "seqOid (filled_state E ord px sz szi e tk s) = seqOid s"
  "expiry (filled_state E ord px sz szi e tk s) = expiry s" "cloids (filled_state E ord px sz szi e tk s) = cloids s"
  "userOrders (filled_state E ord px sz szi e tk s) = userOrders s"
  by (simp_all add: filled_state_def fill_pipeline_def fill_position_def fill_balance_def incr_balance_def
      drop_from_sets_def upd_hash_def Let_def)

lemma status_filled_hash [simp]: "o_status (h_order (filled_hash ord px t d)) = St_filled"
  by (simp add: filled_hash_def)

text \<open>
  The orders after a fill: the filled order, the orphaned reduce-only stops, the cancelled
  siblings, and nothing else.
\<close>

definition fill_orphans :: "env \<Rightarrow> PaperOrder \<Rightarrow> rat \<Rightarrow> state \<Rightarrow> oid set" where
  "fill_orphans E ord newSzi s =
    {x \<in> set (trailSet s). x \<noteq> o_oid ord \<and> orphan_of (o_userId ord) (o_asset ord) newSzi s x}"

lemma executeFillWithSize_orders:
  fixes s :: state and ord :: PaperOrder and sz szi :: rat and E :: env
  defines "n \<equiv> add_d (lib E) szi (signed_fill (o_isBuy ord) sz)"
  assumes s': "s' = executeFillWithSize E ord px sz szi e tk s"
  shows "orders s' x =
     (if x = o_oid ord then map_option (filled_hash ord px (now E)) (orders s x)
      else if x \<in> fill_orphans E ord n s then map_option (ended_hash E St_reduceOnlyCanceled) (orders s x)
      else if x \<in> oco_targets s (o_oid ord) then map_option (set_status St_cancelled (now E)) (orders s x)
      else orders s x)"
    "x \<in> set (openSet s') \<longleftrightarrow> x \<in> set (openSet s) \<and> x \<noteq> o_oid ord \<and> x \<notin> fill_orphans E ord n s \<and>
       x \<notin> oco_targets s (o_oid ord)"
    "x \<in> set (trigSet s') \<longleftrightarrow> x \<in> set (trigSet s) \<and> x \<noteq> o_oid ord \<and> x \<notin> fill_orphans E ord n s \<and>
       x \<notin> oco_targets s (o_oid ord)"
    "x \<in> set (trailSet s') \<longleftrightarrow> x \<in> set (trailSet s) \<and> x \<noteq> o_oid ord \<and> x \<notin> fill_orphans E ord n s"
    "seqOid s' = seqOid s" "userOrders s' = userOrders s" "cloids s' = cloids s"
proof -
  let ?f = "filled_state E ord px sz szi e tk s"
  obtain orphans s2 where
    r: "reconcileReduceOnlyStops E (o_userId ord) (o_asset ord) n ?f = (orphans, s2)"
    and e: "s' = cancelOrderSiblings E (o_oid ord) (o_userId ord)
       (emit_fill_updates E ord px orphans (make_fill E ord px sz szi e tk (Suc (seqTid s))) s2)"
    unfolding n_def s' by (rule executeFillWithSize_eq)
  note r' = r [unfolded reconcileReduceOnlyStops_def]
  note book = book_eqD [OF emit_fill_updates_book]
  have orph: "x \<in> set (trailSet ?f) \<and> orphan_of (o_userId ord) (o_asset ord) n ?f x \<longleftrightarrow> x \<in> fill_orphans E ord n s" for x
    by (auto simp: fill_orphans_def orphan_of_def filled_state_book orphaned_def)
  have s2: "orders s2 x = (if x \<in> fill_orphans E ord n s
      then map_option (ended_hash E St_reduceOnlyCanceled) (orders s x) else orders ?f x)" for x
    using reconcile_orders [OF r'] orph [of x] by (auto simp: fill_orphans_def filled_state_book)
  have sets: "x \<in> set (openSet s2) \<longleftrightarrow> x \<in> set (openSet s) \<and> x \<noteq> o_oid ord \<and> x \<notin> fill_orphans E ord n s"
    "x \<in> set (trigSet s2) \<longleftrightarrow> x \<in> set (trigSet s) \<and> x \<noteq> o_oid ord \<and> x \<notin> fill_orphans E ord n s"
    "x \<in> set (trailSet s2) \<longleftrightarrow> x \<in> set (trailSet s) \<and> x \<noteq> o_oid ord \<and> x \<notin> fill_orphans E ord n s" for x
    using reconcile_orders [OF r'] orph [of x] by (auto simp: filled_state_book)
  have links: "children s2 = children s" "bracket s2 = bracket s" "seqOid s2 = seqOid s"
    "userOrders s2 = userOrders s" "cloids s2 = cloids s"
    using reconcile_frame [OF r'] by (simp_all add: filled_state_book)
  have oco: "x \<in> oco_targets (emit_fill_updates E ord px orphans fl s2) (o_oid ord) \<longleftrightarrow>
      x \<in> oco_targets s (o_oid ord) \<and> x \<noteq> o_oid ord \<and> x \<notin> fill_orphans E ord n s" for x fl
    by (auto simp: oco_targets_def book links status_of_def s2 filled_state_book ended_hash_def)
  show "orders s' x =
     (if x = o_oid ord then map_option (filled_hash ord px (now E)) (orders s x)
      else if x \<in> fill_orphans E ord n s then map_option (ended_hash E St_reduceOnlyCanceled) (orders s x)
      else if x \<in> oco_targets s (o_oid ord) then map_option (set_status St_cancelled (now E)) (orders s x)
      else orders s x)"
    by (simp add: e siblings_orders oco book s2 filled_state_book) (simp add: fill_orphans_def)
  show "x \<in> set (openSet s') \<longleftrightarrow> x \<in> set (openSet s) \<and> x \<noteq> o_oid ord \<and> x \<notin> fill_orphans E ord n s \<and>
       x \<notin> oco_targets s (o_oid ord)"
    "x \<in> set (trigSet s') \<longleftrightarrow> x \<in> set (trigSet s) \<and> x \<noteq> o_oid ord \<and> x \<notin> fill_orphans E ord n s \<and>
       x \<notin> oco_targets s (o_oid ord)"
    "x \<in> set (trailSet s') \<longleftrightarrow> x \<in> set (trailSet s) \<and> x \<noteq> o_oid ord \<and> x \<notin> fill_orphans E ord n s"
    by (auto simp: e siblings_orders siblings_frame oco book sets)
  show "seqOid s' = seqOid s" "userOrders s' = userOrders s" "cloids s' = cloids s"
    by (simp_all add: e siblings_frame book links)
qed

lemma executeFillWithSize_pos:
  fixes s :: state and ord :: PaperOrder and sz szi :: rat and E :: env
  defines "n \<equiv> add_d (lib E) szi (signed_fill (o_isBuy ord) sz)"
  assumes s': "s' = executeFillWithSize E ord px sz szi e tk s"
  shows "p_szi (pos_of s' (o_userId ord) (o_asset ord)) = n"
    "n \<noteq> 0 \<Longrightarrow> p_entryPx (pos_of s' (o_userId ord) (o_asset ord)) = fill_entry_px (lib E) szi e (o_isBuy ord) sz px"
    "u \<noteq> o_userId ord \<or> a \<noteq> o_asset ord \<Longrightarrow> pos s' u a = pos s u a"
proof -
  have pos: "pos s' = pos (fill_position E ord px sz szi e n (s\<lparr>seqTid := Suc (seqTid s)\<rparr>))"
    using ledger_eqD(8) [OF executeFillWithSize_ledger] by (simp add: s' filled_state_ledger n_def)
  note f = fill_position_szi [where E = E and ord = ord and px = px and sz = sz and szi = szi and entry = e
      and newSzi = n and s = "s\<lparr>seqTid := Suc (seqTid s)\<rparr>"]
  from f(1) show "p_szi (pos_of s' (o_userId ord) (o_asset ord)) = n"
    by (auto simp: pos_of_def pos no_pos_def split: option.splits if_splits)
  from f show "n \<noteq> 0 \<Longrightarrow> p_entryPx (pos_of s' (o_userId ord) (o_asset ord)) = fill_entry_px (lib E) szi e (o_isBuy ord) sz px"
    by (auto simp: pos_of_def pos split: option.splits)
  show "u \<noteq> o_userId ord \<or> a \<noteq> o_asset ord \<Longrightarrow> pos s' u a = pos s u a"
    by (simp add: pos fill_position_other)
qed

lemma fill_size_reduce_only:
  assumes "decimal_js L" "fill_size L ord szi = Some sz" "o_reduceOnly ord" "o_filledSz ord \<le> o_sz ord"
  shows "0 \<le> sz" "sz \<le> \<bar>szi\<bar>" "szi \<noteq> 0" "o_isBuy ord = (szi < 0)"
proof -
  have "0 \<le> sub_d L (o_sz ord) (o_filledSz ord)"
    using assms(4) by (simp add: sub_d_def decimal_js.rnd_nonneg [OF assms(1)])
  then show "0 \<le> sz" "sz \<le> \<bar>szi\<bar>" "szi \<noteq> 0" "o_isBuy ord = (szi < 0)"
    using assms(2,3) by (auto simp: fill_size_def Let_def split: if_splits)
qed

text \<open>
  C12. A reduce-only order never grows a position and never flips it, whatever the sizes,
  the price and the rounding: after executeFill the position is on the same side and at most
  as large as before.
\<close>

theorem reduce_only_only_reduces:
  assumes "decimal_js (lib E)" "o_reduceOnly ord" "o_filledSz ord \<le> o_sz ord"
    and szi: "szi = p_szi (pos_of s (o_userId ord) (o_asset ord))" "rnd (lib E) szi = szi"
    and szi': "szi' = p_szi (pos_of (executeFill E ord px tk s) (o_userId ord) (o_asset ord))"
  shows "(if 0 < szi then 0 \<le> szi' \<and> szi' \<le> szi else if szi < 0 then szi \<le> szi' \<and> szi' \<le> 0 else szi' = 0)"
proof (cases "fill_size (lib E) ord szi")
  case None
  then show ?thesis using szi szi' by (simp add: executeFill_def Let_def)
next
  case (Some sz)
  note b = fill_size_reduce_only [OF assms(1) Some assms(2,3)]
  have n: "szi' = rnd (lib E) (szi + signed_fill (o_isBuy ord) sz)"
    using Some by (simp add: szi' executeFill_def Let_def szi(1) executeFillWithSize_pos(1) add_d_def)
  have mono: "rnd (lib E) x \<le> rnd (lib E) y" if "x \<le> y" for x y
    using decimal_js.rnd_mono [OF assms(1) that] .
  have "rnd (lib E) 0 = 0" by (rule decimal_js.rnd_0 [OF assms(1)])
  then show ?thesis
    using b mono [of 0 "szi - sz"] mono [of "szi - sz" szi] mono [of szi "szi + sz"] mono [of "szi + sz" 0] szi(2)
    by (auto simp: n signed_fill_def)
qed


theorem reduce_only_only_reduces_witness:
  "p_szi (pos_of (executeFill sample_env (sample_order 7 False 5 90 True) 90 True
     (sample_state (Some (sample_pos 2 100)) [])) ''u'' 0) \<in> {0..2}"
proof -
  let ?s = "sample_state (Some (sample_pos 2 100)) []"
  have r: "rnd (lib sample_env) 2 = 2" by (simp add: sample_defs rnd30_scaled)
  have "decimal_js (lib sample_env)" by (simp add: sample_env_def decimal30_js)
  from reduce_only_only_reduces [OF this, of "sample_order 7 False 5 90 True" 2 ?s _ 90 True] r
  show ?thesis by (simp add: sample_defs pos_of_def)
qed


text \<open>
  C14. What a fill does to orders: the filled order ends as filled and leaves all three sets;
  the open siblings of a bracket child are cancelled (one exit only), while the children of a
  filled parent stay alive; reduce-only trailing stops that lost their position are ended;
  every other order keeps its hash.
\<close>

theorem fill_order_outcomes:
  fixes s :: state and ord :: PaperOrder
  defines "szi \<equiv> p_szi (pos_of s (o_userId ord) (o_asset ord))"
  assumes "fill_size (lib E) ord szi = Some sz" "orders s (o_oid ord) \<noteq> None"
    and s': "s' = executeFill E ord px tk s"
    and n: "n = add_d (lib E) szi (signed_fill (o_isBuy ord) sz)"
  shows "status_of s' (o_oid ord) = Some St_filled \<and>
    o_oid ord \<notin> set (openSet s') \<union> set (trigSet s') \<union> set (trailSet s') \<and>
    (\<forall>x. x \<noteq> o_oid ord \<longrightarrow> status_of s' x =
      (if x \<in> fill_orphans E ord n s then Some St_reduceOnlyCanceled
       else if children s (o_oid ord) = [] \<and> x \<in> set (bracket s (o_oid ord)) \<and> status_of s x = Some St_open
       then Some St_cancelled else status_of s x)) \<and>
    (\<forall>x \<in> set (openSet s') \<union> set (trigSet s'). orders s' x = orders s x)"
proof -
  have x: "s' = executeFillWithSize E ord px sz szi (p_entryPx (pos_of s (o_userId ord) (o_asset ord))) tk s"
    using assms(2) by (simp add: s' executeFill_def Let_def szi_def)
  note ef = executeFillWithSize_orders [OF x, folded n]
  have "x \<in> fill_orphans E ord n s \<Longrightarrow> orders s x \<noteq> None" for x
    by (auto simp: fill_orphans_def orphan_of_def)
  then have "x \<noteq> o_oid ord \<Longrightarrow> status_of s' x =
      (if x \<in> fill_orphans E ord n s then Some St_reduceOnlyCanceled
       else if children s (o_oid ord) = [] \<and> x \<in> set (bracket s (o_oid ord)) \<and> status_of s x = Some St_open
       then Some St_cancelled else status_of s x)" for x
    by (fastforce simp: status_of_def ef(1) oco_targets_def ended_hash_def)
  moreover have "status_of s' (o_oid ord) = Some St_filled"
    using assms(3) by (auto simp: status_of_def ef(1))
  ultimately show ?thesis by (auto simp: ef)
qed

theorem fill_order_outcomes_witness:
  "\<exists>s'. s' = executeFill sample_env (sample_order 7 True 2 100 False) 100 True
      ((sample_state None [sample_hash (sample_order 7 True 2 100 False), sample_hash (sample_order 8 False 2 120 True)])
        \<lparr>bracket := (\<lambda>x. if x = 7 then [8] else if x = 8 then [7] else [])\<rparr>) \<and>
     status_of s' 7 = Some St_filled \<and> status_of s' 8 = Some St_cancelled"
proof -
  let ?o = "sample_order 7 True 2 100 False" and ?o' = "sample_order 8 False 2 120 True"
  let ?s = "(sample_state None [sample_hash ?o, sample_hash ?o'])
      \<lparr>bracket := (\<lambda>x. if x = 7 then [8] else if x = 8 then [7] else [])\<rparr>"
  have p: "pos_of ?s ''u'' 0 = no_pos" by (simp add: pos_of_def sample_state_def)
  have o: "o_userId ?o = ''u''" "o_asset ?o = 0" "o_oid ?o = 7" "o_sz ?o = 2" "o_filledSz ?o = 0"
    "o_reduceOnly ?o = False" "o_oid ?o' = 8" "o_status ?o' = St_open"
    by (simp_all add: sample_order_def)
  have h: "h_order (sample_hash x) = x" for x by (simp add: sample_hash_def)
  have L: "lib sample_env = decimal30" by (simp add: sample_env_def)
  have f: "fill_size (lib sample_env) ?o (p_szi (pos_of ?s (o_userId ?o) (o_asset ?o))) = Some 2"
    by (simp add: fill_size_def o L dec_defs rnd30_scaled)
  have k: "orders ?s 8 = Some (sample_hash ?o')" "children ?s 7 = []" "bracket ?s 7 = [8]" "trailSet ?s = []"
    "orders ?s (o_oid ?o) \<noteq> None"
    by (simp_all add: sample_state_def empty_state_def h o)
  have st: "status_of ?s 8 = Some St_open" by (simp only: status_of_def k(1) option.map h o)
  note th = fill_order_outcomes [OF f k(5) refl refl, of 100 True]
  from th have "status_of (executeFill sample_env ?o 100 True ?s) 7 = Some St_filled" by (simp only: o)
  moreover from th [THEN conjunct2, THEN conjunct2, THEN conjunct1, THEN spec, of 8]
  have "status_of (executeFill sample_env ?o 100 True ?s) 8 = Some St_cancelled"
    by (simp only: o k st) (simp add: fill_orphans_def k)
  ultimately show ?thesis by blast
qed

subsection \<open>A fill only removes bracket links\<close>

definition links_shrink :: "state \<Rightarrow> state \<Rightarrow> bool" where
  "links_shrink s s' \<longleftrightarrow> (\<forall>x. set (bracket s' x) \<subseteq> set (bracket s x) \<and> set (children s' x) \<subseteq> set (children s x) \<and>
    (parentOf s' x = parentOf s x \<or> parentOf s' x = None))"

lemma links_shrink_refl [simp]: "links_shrink s s"
  by (simp add: links_shrink_def)

lemma links_shrink_trans: "links_shrink s t \<Longrightarrow> links_shrink t u \<Longrightarrow> links_shrink s u"
  unfolding links_shrink_def by (metis subset_trans)

lemma cancel_sibling_links: "links_shrink s (cancel_sibling E u p sib s)"
  by (auto simp: links_shrink_def cancel_sibling_def Let_def upd_hash_def split: option.splits)

lemma cancel_siblings_links: "links_shrink s (cancel_siblings E u p s sibs)"
  by (induction sibs arbitrary: s) (auto intro: links_shrink_trans cancel_sibling_links)

lemma cancelOrderSiblings_links: "links_shrink s (cancelOrderSiblings E oid u s)"
proof -
  let ?p = "parentOf s oid"
  let ?s1 = "s\<lparr>bracket := (bracket s)(oid := []), parentOf := (parentOf s)(oid := None)\<rparr>"
  let ?s2 = "case ?p of None \<Rightarrow> ?s1 | Some p \<Rightarrow> ?s1\<lparr>children := (children ?s1)(p := srem oid (children ?s1 p))\<rparr>"
  have "links_shrink s ?s2" by (auto simp: links_shrink_def split: option.split)
  then have "links_shrink s (cancel_siblings E u ?p ?s2 (bracket s oid))"
    using cancel_siblings_links by (rule links_shrink_trans)
  then show ?thesis
    by (simp add: cancelOrderSiblings_def Let_def) (auto simp: links_shrink_def)
qed

lemma executeFill_links: "links_shrink s (executeFill E ord px tk s)"
proof (cases "fill_size (lib E) ord (p_szi (pos_of s (o_userId ord) (o_asset ord)))")
  case (Some sz)
  let ?szi = "p_szi (pos_of s (o_userId ord) (o_asset ord))" and ?e = "p_entryPx (pos_of s (o_userId ord) (o_asset ord))"
  let ?fill = "make_fill E ord px sz ?szi ?e tk (Suc (seqTid s))"
  obtain orphans s2 where
    r: "reconcileReduceOnlyStops E (o_userId ord) (o_asset ord) (add_d (lib E) ?szi (signed_fill (o_isBuy ord) sz))
       (filled_state E ord px sz ?szi ?e tk s) = (orphans, s2)"
    and e: "executeFillWithSize E ord px sz ?szi ?e tk s = cancelOrderSiblings E (o_oid ord) (o_userId ord)
       (emit_fill_updates E ord px orphans ?fill s2)"
    by (rule executeFillWithSize_eq)
  have "links_shrink s (emit_fill_updates E ord px orphans ?fill s2)"
    using reconcile_frame [OF r [unfolded reconcileReduceOnlyStops_def]] book_eqD(6,7,8) [OF emit_fill_updates_book]
    by (simp add: links_shrink_def filled_state_book)
  then have "links_shrink s (executeFillWithSize E ord px sz ?szi ?e tk s)"
    unfolding e using cancelOrderSiblings_links by (rule links_shrink_trans)
  with Some show ?thesis by (simp add: executeFill_def Let_def)
qed (simp add: executeFill_def Let_def)

end
