(* ===== verification/Orders.thy ===== *)
theory Orders
  imports Slippage Fill
begin

text \<open>
  engine/order.ts, placement: the checks of an order, the three time-in-force branches,
  trigger orders, and the bracket links of a batch. Every function returns the status that
  goes to the client together with the new state; a rejected order is an \<open>Error\<close>.
\<close>

record OrderOpts =
  op_expiresAfter :: "millis option"
  op_builder :: "builder option"
  op_twapId :: "string option"

definition no_opts :: OrderOpts where
  "no_opts = \<lparr>op_expiresAfter = None, op_builder = None, op_twapId = None\<rparr>"

subsection \<open>Building and storing an order\<close>

definition buildOrder ::
    "oid \<Rightarrow> user \<Rightarrow> asset \<Rightarrow> coin \<Rightarrow> bool \<Rightarrow> rat \<Rightarrow> rat \<Rightarrow> OrderType \<Rightarrow> TimeInForce \<Rightarrow> bool \<Rightarrow> Grouping \<Rightarrow>
     string option \<Rightarrow> millis \<Rightarrow> builder option \<Rightarrow> string option \<Rightarrow> PaperOrder" where
  "buildOrder oid u a c isBuy sz limitPx orderType tif reduceOnly grouping cloid t bld twapId =
    \<lparr>o_oid = oid, o_cloid = cloid, o_userId = u, o_asset = a, o_coin = c, o_isBuy = isBuy, o_sz = sz,
     o_limitPx = limitPx, o_orderType = orderType, o_tif = tif, o_reduceOnly = reduceOnly, o_triggerPx = None,
     o_tpsl = None, o_isMarket = False, o_grouping = grouping, o_status = St_open, o_filledSz = 0, o_avgPx = 0,
     o_createdAt = t, o_updatedAt = t, o_builder = bld, o_twapId = twapId\<rparr>"

definition saveOrder :: "PaperOrder \<Rightarrow> millis option \<Rightarrow> state \<Rightarrow> state" where
  \<comment> \<open>the hash of a new oid, the cloid index and the expiry set\<close>
  "saveOrder ord expiresAfter s =
    (let oid = o_oid ord;
         h = \<lparr>h_order = ord\<lparr>o_twapId := None\<rparr>, h_expiresAfter = expiresAfter, h_trail = no_trail, h_trSnap = None\<rparr>;
         s1 = s\<lparr>orders := (orders s)(oid := Some h)\<rparr>;
         s2 = (case o_cloid ord of None \<Rightarrow> s1
           | Some c \<Rightarrow> s1\<lparr>cloids := (cloids s1)(o_userId ord := (cloids s1 (o_userId ord))(c := Some oid))\<rparr>)
     in case expiresAfter of None \<Rightarrow> s2 | Some t \<Rightarrow> s2\<lparr>expiry := zadd t oid (expiry s2)\<rparr>)"

definition add_user_order :: "user \<Rightarrow> dex_name \<Rightarrow> millis \<Rightarrow> oid \<Rightarrow> state \<Rightarrow> state" where
  "add_user_order u scope t oid s =
    s\<lparr>userOrders := (userOrders s)(u := (userOrders s u)(scope := zadd t oid (userOrders s u scope)))\<rparr>"

definition restOrder :: "PaperOrder \<Rightarrow> state \<Rightarrow> state" where
  "restOrder ord s =
    (let scope = scopeForAsset s (o_asset ord);
         s1 = s\<lparr>openSet := sadd (o_oid ord) (openSet s)\<rparr>;
         s2 = add_user_order (o_userId ord) scope (o_createdAt ord) (o_oid ord) s1
     in emit (OrderUpdate (o_userId ord) ord St_open) s2)"

subsection \<open>Checks\<close>

definition leverageErrorForOpen :: "'a ledger_scheme \<Rightarrow> user \<Rightarrow> asset \<Rightarrow> bool \<Rightarrow> OrderError option" where
  "leverageErrorForOpen s u a isBuy =
    (if isSpotAsset a then None
     else
       let szi = p_szi (pos_of s u a)
       in if (gt_d szi 0 \<and> \<not> isBuy) \<or> (lt_d szi 0 \<and> isBuy) then None
          else case cachedMaxLeverage s a of None \<Rightarrow> None
            | Some m \<Rightarrow> if m < lev_leverage (getLeverageSetting s u a) then Some InvalidLeverage else None)"

definition would_fill :: "bool \<Rightarrow> rat \<Rightarrow> rat \<Rightarrow> bool" where
  "would_fill isBuy mid limitPx = (if isBuy then lte_d mid limitPx else gte_d mid limitPx)"

definition margin_ok :: "env \<Rightarrow> state \<Rightarrow> user \<Rightarrow> HlOrderWire \<Rightarrow> rat \<Rightarrow> rat \<Rightarrow> bool" where
  "margin_ok E s u w sz px \<longleftrightarrow> w_r w \<or> checkMarginForOrder (lib E) s u (w_a w) (w_b w) sz px"

subsection \<open>The branches\<close>

definition wire_order ::
    "env \<Rightarrow> user \<Rightarrow> coin \<Rightarrow> rat \<Rightarrow> Grouping \<Rightarrow> HlOrderWire \<Rightarrow> TimeInForce \<Rightarrow> builder option \<Rightarrow> string option \<Rightarrow>
     oid \<Rightarrow> PaperOrder" where
  "wire_order E u c sz grouping w tif bld twapId oid =
    buildOrder oid u (w_a w) c (w_b w) sz (w_p w) Limit tif (w_r w) grouping (w_c w) (now E) bld twapId"

definition fill_at_once :: "env \<Rightarrow> PaperOrder \<Rightarrow> rat \<Rightarrow> HlOrderWire \<Rightarrow> state \<Rightarrow> HlOrderResponseStatus \<times> state" where
  "fill_at_once E ord mid w s =
    (let fillPx = computeFillPrice (lib E) (l2book E (o_coin ord)) ord mid None
     in (Filled (o_sz ord) fillPx (o_oid ord) (w_c w), executeFill E ord fillPx True s))"

definition place_ioc ::
    "env \<Rightarrow> user \<Rightarrow> coin \<Rightarrow> rat \<Rightarrow> Grouping \<Rightarrow> OrderOpts \<Rightarrow> HlOrderWire \<Rightarrow> state \<Rightarrow> HlOrderResponseStatus \<times> state" where
  "place_ioc E u c sz grouping opts w s =
    (case midPx s c of None \<Rightarrow> (Error NoMarketPrice, s)
     | Some mid \<Rightarrow>
        if \<not> would_fill (w_b w) mid (w_p w) then (Error IocNotFilled, s)
        else if \<not> margin_ok E s u w sz mid then (Error InsufficientMargin, s)
        else
          let oid = Suc (seqOid s);
              ord = wire_order E u c sz grouping w Ioc (op_builder opts) (op_twapId opts) oid;
              s1 = saveOrder ord (op_expiresAfter opts) (s\<lparr>seqOid := oid\<rparr>)
          in fill_at_once E ord mid w (emit (OrderUpdate u ord St_open) s1))"

definition rest_new ::
    "env \<Rightarrow> user \<Rightarrow> coin \<Rightarrow> rat \<Rightarrow> Grouping \<Rightarrow> OrderOpts \<Rightarrow> HlOrderWire \<Rightarrow> TimeInForce \<Rightarrow> state \<Rightarrow> HlOrderResponseStatus \<times> state" where
  "rest_new E u c sz grouping opts w tif s =
    (if \<not> margin_ok E s u w sz (w_p w) then (Error InsufficientMargin, s)
     else
       let oid = Suc (seqOid s);
           ord = wire_order E u c sz grouping w tif (op_builder opts) None oid;
           s1 = saveOrder ord (op_expiresAfter opts) (s\<lparr>seqOid := oid\<rparr>)
       in (Resting oid (w_c w), restOrder ord s1))"

definition place_alo ::
    "env \<Rightarrow> user \<Rightarrow> coin \<Rightarrow> rat \<Rightarrow> Grouping \<Rightarrow> OrderOpts \<Rightarrow> HlOrderWire \<Rightarrow> state \<Rightarrow> HlOrderResponseStatus \<times> state" where
  "place_alo E u c sz grouping opts w s =
    (case midPx s c of
       Some mid \<Rightarrow> if would_fill (w_b w) mid (w_p w) then (Error AloCrossed, s)
                  else rest_new E u c sz grouping opts w Alo s
     | None \<Rightarrow> rest_new E u c sz grouping opts w Alo s)"

definition place_gtc ::
    "env \<Rightarrow> user \<Rightarrow> coin \<Rightarrow> rat \<Rightarrow> Grouping \<Rightarrow> OrderOpts \<Rightarrow> HlOrderWire \<Rightarrow> state \<Rightarrow> HlOrderResponseStatus \<times> state" where
  \<comment> \<open>the crossing branch passes neither the builder nor the TWAP id on\<close>
  "place_gtc E u c sz grouping opts w s =
    (case midPx s c of
       Some mid \<Rightarrow>
         if would_fill (w_b w) mid (w_p w)
         then if \<not> margin_ok E s u w sz mid then (Error InsufficientMargin, s)
              else
                let oid = Suc (seqOid s);
                    ord = wire_order E u c sz grouping w Gtc None None oid;
                    s1 = saveOrder ord (op_expiresAfter opts) (s\<lparr>seqOid := oid\<rparr>)
                in fill_at_once E ord mid w s1
         else rest_new E u c sz grouping opts w Gtc s
     | None \<Rightarrow> rest_new E u c sz grouping opts w Gtc s)"

definition placeTriggeredOrder ::
    "env \<Rightarrow> user \<Rightarrow> coin \<Rightarrow> rat \<Rightarrow> HlTriggerOrder \<Rightarrow> Grouping \<Rightarrow> builder option \<Rightarrow> HlOrderWire \<Rightarrow> state \<Rightarrow>
     HlOrderResponseStatus \<times> state" where
  "placeTriggeredOrder E u c sz trigger grouping bld w s =
    (let oid = Suc (seqOid s);
         ord = (buildOrder oid u (w_a w) c (w_b w) sz (w_p w) Trigger Gtc (w_r w) grouping (w_c w) (now E) bld None)
           \<lparr>o_triggerPx := Some (tg_triggerPx trigger), o_tpsl := Some (tg_tpsl trigger),
            o_isMarket := tg_isMarket trigger\<rparr>;
         s1 = saveOrder ord None (s\<lparr>seqOid := oid\<rparr>);
         s2 = s1\<lparr>trigSet := sadd oid (trigSet s1)\<rparr>;
         s3 = add_user_order u (scopeForAsset s (w_a w)) (now E) oid s2
     in (Resting oid (w_c w), emit (OrderUpdate u ord St_open) s3))"

definition placeSingleOrder ::
    "env \<Rightarrow> user \<Rightarrow> Grouping \<Rightarrow> OrderOpts \<Rightarrow> HlOrderWire \<Rightarrow> state \<Rightarrow> HlOrderResponseStatus \<times> state" where
  "placeSingleOrder E u grouping opts w s =
    (case resolveAssetCoin s (w_a w) of None \<Rightarrow> (Error (UnknownAsset (w_a w)), s)
     | Some c \<Rightarrow>
        if c = '''' then (Error (UnknownAsset (w_a w)), s)
        else case w_s w of None \<Rightarrow> (Error InvalidOrderSize, s)
        | Some sz \<Rightarrow>
            if sz \<le> 0 then (Error InvalidOrderSize, s)
            else case (if w_r w then None else leverageErrorForOpen s u (w_a w) (w_b w)) of
              Some err \<Rightarrow> (Error err, s)
            | None \<Rightarrow>
               (case w_trigger w of
                  Some trigger \<Rightarrow> placeTriggeredOrder E u c sz trigger grouping (op_builder opts) w s
                | None \<Rightarrow>
                   (case w_limit_tif w of None \<Rightarrow> (Error MissingTif, s)
                    | Some Ioc \<Rightarrow> place_ioc E u c sz grouping opts w s
                    | Some Alo \<Rightarrow> place_alo E u c sz grouping opts w s
                    | Some Gtc \<Rightarrow> place_gtc E u c sz grouping opts w s)))"

subsection \<open>Batches and bracket links\<close>

fun placed_oid :: "HlOrderResponseStatus \<Rightarrow> oid option" where
  "placed_oid (Resting oid _) = Some oid"
| "placed_oid (Filled _ _ oid _) = Some oid"
| "placed_oid _ = None"

fun place_all ::
    "env \<Rightarrow> user \<Rightarrow> Grouping \<Rightarrow> OrderOpts \<Rightarrow> HlOrderWire list \<Rightarrow> state \<Rightarrow> HlOrderResponseStatus list \<times> state" where
  "place_all E u grouping opts [] s = ([], s)"
| "place_all E u grouping opts (w # ws) s =
    (let (r, s1) = placeSingleOrder E u grouping opts w s; (rs, s2) = place_all E u grouping opts ws s1
     in (r # rs, s2))"

definition others :: "oid \<Rightarrow> oid list \<Rightarrow> oid list" where
  "others oid oids = filter (\<lambda>x. x \<noteq> oid) oids"

lemma set_others [simp]: "set (others x xs) = set xs - {x}"
  by (auto simp: others_def)

definition add_siblings :: "oid list \<Rightarrow> state \<Rightarrow> state" where
  \<comment> \<open>every order of the list gets the others as its siblings\<close>
  "add_siblings oids s =
    s\<lparr>bracket := (\<lambda>x. if x \<in> set oids then foldr sadd (others x oids) (bracket s x) else bracket s x)\<rparr>"

definition link_bracket :: "Grouping \<Rightarrow> oid list \<Rightarrow> state \<Rightarrow> state" where
  "link_bracket grouping placed s =
    (case placed of
       parent # first # rest \<Rightarrow>
         (case grouping of
            PositionTpsl \<Rightarrow> add_siblings placed s
          | NormalTpsl \<Rightarrow>
              let kids = first # rest;
                  s1 = s\<lparr>children := (children s)(parent := foldr sadd kids (children s parent)),
                         parentOf := (\<lambda>x. if x \<in> set kids then Some parent else parentOf s x)\<rparr>
              in add_siblings kids s1
          | Na \<Rightarrow> s)
     | _ \<Rightarrow> s)"

definition placeOrders ::
    "env \<Rightarrow> user \<Rightarrow> HlOrderWire list \<Rightarrow> Grouping \<Rightarrow> OrderOpts \<Rightarrow> state \<Rightarrow> HlOrderResponseStatus list \<times> state" where
  "placeOrders E u ws grouping opts s =
    (let (results, s1) = place_all E u grouping opts ws s
     in (results, link_bracket grouping (List.map_filter placed_oid results) s1))"

subsection \<open>What placing an order does\<close>

lemma saveOrder_frame [simp]:
  "ledger.truncate (saveOrder ord ea s) = ledger.truncate s"
  "openSet (saveOrder ord ea s) = openSet s" "trigSet (saveOrder ord ea s) = trigSet s"
  "trailSet (saveOrder ord ea s) = trailSet s" "bracket (saveOrder ord ea s) = bracket s"
  "children (saveOrder ord ea s) = children s" "parentOf (saveOrder ord ea s) = parentOf s"
  "seqOid (saveOrder ord ea s) = seqOid s" "userOrders (saveOrder ord ea s) = userOrders s"
  by (simp_all add: saveOrder_def Let_def split: option.split)

lemma saveOrder_orders:
  "orders (saveOrder ord ea s) = (orders s)(o_oid ord \<mapsto>
    \<lparr>h_order = ord\<lparr>o_twapId := None\<rparr>, h_expiresAfter = ea, h_trail = no_trail, h_trSnap = None\<rparr>)"
  by (simp add: saveOrder_def Let_def split: option.split)

lemma restOrder_frame [simp]:
  "ledger.truncate (restOrder ord s) = ledger.truncate s" "orders (restOrder ord s) = orders s"
  "openSet (restOrder ord s) = sadd (o_oid ord) (openSet s)" "trigSet (restOrder ord s) = trigSet s"
  "trailSet (restOrder ord s) = trailSet s" "bracket (restOrder ord s) = bracket s"
  "children (restOrder ord s) = children s" "parentOf (restOrder ord s) = parentOf s"
  "seqOid (restOrder ord s) = seqOid s"
  by (simp_all add: restOrder_def add_user_order_def Let_def)

lemma rest_new_outcome:
  assumes "rest_new E u c sz grouping opts w tif s = (r, s')"
  shows "(\<exists>err. r = Error err \<and> s' = s) \<or>
    (r = Resting (Suc (seqOid s)) (w_c w) \<and> ledger.truncate s' = ledger.truncate s \<and>
     seqOid s' = Suc (seqOid s) \<and> status_of s' (Suc (seqOid s)) = Some St_open \<and>
     Suc (seqOid s) \<in> set (openSet s') \<and> margin_ok E s u w sz (w_p w))"
  using assms
  by (auto simp: rest_new_def Let_def saveOrder_orders wire_order_def buildOrder_def status_of_def split: if_splits)

lemma placeTriggered_outcome:
  assumes "placeTriggeredOrder E u c sz trigger grouping bld w s = (r, s')"
  shows "r = Resting (Suc (seqOid s)) (w_c w) \<and> ledger.truncate s' = ledger.truncate s \<and>
     seqOid s' = Suc (seqOid s) \<and> status_of s' (Suc (seqOid s)) = Some St_open \<and>
     Suc (seqOid s) \<in> set (trigSet s')"
  using assms
  by (auto simp: placeTriggeredOrder_def Let_def saveOrder_orders buildOrder_def status_of_def add_user_order_def)

lemma fill_at_once_result:
  assumes "fill_at_once E ord mid w s = (r, s')" "would_fill (o_isBuy ord) mid (o_limitPx ord)"
  shows "\<exists>px. r = Filled (o_sz ord) px (o_oid ord) (w_c w) \<and> s' = executeFill E ord px True s \<and>
    would_fill (o_isBuy ord) px (o_limitPx ord)"
  using assms computeFillPrice_within_limit [of ord mid "lib E" "l2book E (o_coin ord)"]
  by (auto simp: fill_at_once_def Let_def would_fill_def)

lemma executeFill_seqOid [simp]: "seqOid (executeFill E ord px tk s) = seqOid s"
  by (auto simp: executeFill_def Let_def executeFillWithSize_orders(5) [OF refl] split: option.split)

definition crossing :: "state \<Rightarrow> coin \<Rightarrow> HlOrderWire \<Rightarrow> bool" where
  \<comment> \<open>the mid is on the filling side of the order's price\<close>
  "crossing s c w \<longleftrightarrow> (\<exists>mid. midPx s c = Some mid \<and> would_fill (w_b w) mid (w_p w))"

text \<open>
  C15. The outcome of placing one order, on every branch. A rejection changes nothing. A resting
  order gets the next oid, is open in exactly the set its kind is matched from, and leaves
  balances and positions alone; it is never an Ioc order and never one that crosses. A filled
  order crossed, is never post-only or a trigger, and its price respects the limit.
\<close>

theorem place_order_outcome:
  assumes "placeSingleOrder E u grouping opts w s = (r, s')"
  shows "case r of
      Error err \<Rightarrow> s' = s
    | Success \<Rightarrow> False
    | Resting oid cloid \<Rightarrow>
        oid = Suc (seqOid s) \<and> seqOid s' = oid \<and> status_of s' oid = Some St_open \<and>
        ledger.truncate s' = ledger.truncate s \<and>
        (if w_trigger w \<noteq> None then oid \<in> set (trigSet s')
         else w_limit_tif w \<in> {Some Gtc, Some Alo} \<and> oid \<in> set (openSet s') \<and>
           (\<forall>c. resolveAssetCoin s (w_a w) = Some c \<longrightarrow> \<not> crossing s c w))
    | Filled sz px oid cloid \<Rightarrow>
        oid = Suc (seqOid s) \<and> seqOid s' = oid \<and> w_s w = Some sz \<and> would_fill (w_b w) px (w_p w) \<and>
        w_trigger w = None \<and> w_limit_tif w \<in> {Some Gtc, Some Ioc} \<and>
        (\<exists>c. resolveAssetCoin s (w_a w) = Some c \<and> crossing s c w)"
  using assms
  by (auto simp: placeSingleOrder_def place_ioc_def place_alo_def place_gtc_def Let_def crossing_def
      wire_order_def buildOrder_def
      split: option.splits if_splits TimeInForce.splits HlOrderResponseStatus.splits
      dest!: rest_new_outcome placeTriggered_outcome fill_at_once_result)

definition sample_wire :: "bool \<Rightarrow> rat \<Rightarrow> rat \<Rightarrow> bool \<Rightarrow> TimeInForce \<Rightarrow> HlOrderWire" where
  "sample_wire isBuy px sz reduceOnly tif =
    \<lparr>w_a = 0, w_b = isBuy, w_p = px, w_s = Some sz, w_r = reduceOnly, w_limit_tif = Some tif, w_trigger = None, w_c = None\<rparr>"

lemma sample_coin: "resolveAssetCoin (sample_state p hs) 0 = Some ''BTC''"
  by (simp add: resolveAssetCoin_def isSpotAsset_def loadUniverseEntry_def offsets sample_state_def)

lemma sample_mid: "midPx (sample_state p hs) ''BTC'' = Some 100"
  by (simp add: midPx_def sample_state_def)

theorem place_order_outcome_witness:
  "case placeSingleOrder sample_env ''u'' Na no_opts (sample_wire False 120 2 True Alo) (sample_state None []) of
     (Resting oid cloid, s') \<Rightarrow> status_of s' oid = Some St_open \<and> oid \<in> set (openSet s')
   | _ \<Rightarrow> False"
proof -
  let ?p = "placeSingleOrder sample_env ''u'' Na no_opts (sample_wire False 120 2 True Alo) (sample_state None [])"
  obtain r s' where p: "?p = (r, s')" by force
  then have "\<exists>oid cl. r = Resting oid cl"
    by (auto simp: placeSingleOrder_def sample_coin sample_mid sample_wire_def place_alo_def would_fill_def
        rest_new_def margin_ok_def Let_def)
  moreover have "w_trigger (sample_wire False 120 2 True Alo) = None" by (simp add: sample_wire_def)
  ultimately show ?thesis
    using place_order_outcome [OF p] p by auto
qed

subsection \<open>Bracket links\<close>

lemma placeSingleOrder_links:
  assumes "placeSingleOrder E u grouping opts w s = (r, s')"
  shows "links_shrink s s'"
proof -
  have rest: "links_shrink s s'" if "rest_new E u c sz grouping opts w tif s = (r, s')" for c sz tif
    using that by (auto simp: rest_new_def Let_def links_shrink_def split: if_splits)
  have trig: "links_shrink s s'" if "placeTriggeredOrder E u c sz t grouping bld w s = (r, s')" for c sz t bld
    using that by (auto simp: placeTriggeredOrder_def add_user_order_def Let_def links_shrink_def)
  have fill: "links_shrink s s'"
    if "fill_at_once E ord mid w s1 = (r, s')" "bracket s1 = bracket s" "children s1 = children s" "parentOf s1 = parentOf s"
    for ord mid s1
  proof -
    from that(1) obtain px where "s' = executeFill E ord px True s1" by (auto simp: fill_at_once_def Let_def)
    moreover have "links_shrink s s1" using that by (simp add: links_shrink_def)
    ultimately show ?thesis using executeFill_links links_shrink_trans by blast
  qed
  show ?thesis
    using assms
    by (auto simp: placeSingleOrder_def place_ioc_def place_alo_def place_gtc_def Let_def
        split: option.splits if_splits TimeInForce.splits dest!: rest trig dest: fill)
qed

lemma placeSingleOrder_seq:
  assumes "placeSingleOrder E u grouping opts w s = (r, s')"
  shows "(placed_oid r = None \<and> seqOid s' = seqOid s) \<or>
    (placed_oid r = Some (Suc (seqOid s)) \<and> seqOid s' = Suc (seqOid s))"
  using assms
  by (auto simp: placeSingleOrder_def place_ioc_def place_alo_def place_gtc_def Let_def
      wire_order_def buildOrder_def
      split: option.splits if_splits TimeInForce.splits
      dest!: rest_new_outcome placeTriggered_outcome simp: fill_at_once_def)

lemma place_all_seq:
  assumes "place_all E u grouping opts ws s = (rs, s')"
  shows "seqOid s \<le> seqOid s' \<and> sorted_wrt (<) (List.map_filter placed_oid rs) \<and>
    set (List.map_filter placed_oid rs) \<subseteq> {seqOid s <.. seqOid s'} \<and>
    links_shrink s s'"
  using assms
proof (induction ws arbitrary: s rs)
  case (Cons w ws)
  obtain r s1 where p: "placeSingleOrder E u grouping opts w s = (r, s1)" by force
  obtain rs' where q: "place_all E u grouping opts ws s1 = (rs', s')" "rs = r # rs'"
    using Cons.prems p by (auto split: prod.splits)
  note ih = Cons.IH [OF q(1)]
  have links: "links_shrink s s'"
    using ih placeSingleOrder_links [OF p] by (blast intro: links_shrink_trans)
  let ?m = "List.map_filter placed_oid"
  from placeSingleOrder_seq [OF p] show ?case
  proof (elim disjE conjE)
    assume "placed_oid r = None" "seqOid s1 = seqOid s"
    then show ?thesis using ih links by (simp add: q(2) map_filter_simps)
  next
    assume "placed_oid r = Some (Suc (seqOid s))" "seqOid s1 = Suc (seqOid s)"
    moreover from this ih have "\<forall>x \<in> set (?m rs'). Suc (seqOid s) < x \<and> x \<le> seqOid s'" "Suc (seqOid s) \<le> seqOid s'"
      by (auto simp: subset_iff)
    ultimately show ?thesis
      using ih links by (fastforce simp: q(2) map_filter_simps)
  qed
qed (simp add: map_filter_simps)

lemma bracket_add_siblings: "set (bracket (add_siblings oids s) x) =
    (if x \<in> set oids then (set oids - {x}) \<union> set (bracket s x) else set (bracket s x))"
  by (auto simp: add_siblings_def sset.add_all)

lemma children_add_siblings [simp]: "children (add_siblings oids s) = children s"
  "parentOf (add_siblings oids s) = parentOf s"
  by (simp_all add: add_siblings_def)

text \<open>
  The links of a batch. When oids above the counter carry no links yet, the orders of a
  positionTpsl batch that made it to the book become mutual siblings; in a normalTpsl batch the
  first is the parent of the rest, each of which points back to it, and the rest are mutual
  siblings. Other orders keep a subset of their links.
\<close>

theorem batch_links:
  assumes "placeOrders E u ws grouping opts s = (rs, s')"
    and fresh: "\<And>x. seqOid s < x \<Longrightarrow> bracket s x = [] \<and> children s x = []"
    and placed: "List.map_filter placed_oid rs = p # k # ks"
  shows "distinct (p # k # ks) \<and>
    (case grouping of
       PositionTpsl \<Rightarrow> \<forall>x \<in> set (p # k # ks). set (bracket s' x) = set (p # k # ks) - {x} \<and> children s' x = []
     | NormalTpsl \<Rightarrow> set (children s' p) = set (k # ks) \<and> bracket s' p = [] \<and>
         (\<forall>x \<in> set (k # ks). parentOf s' x = Some p \<and> set (bracket s' x) = set (k # ks) - {x})
     | Na \<Rightarrow> \<forall>x \<in> set (p # k # ks). bracket s' x = [] \<and> children s' x = [])"
proof -
  obtain s1 where a: "place_all E u grouping opts ws s = (rs, s1)"
    and s': "s' = link_bracket grouping (p # k # ks) s1"
    using assms(1) placed by (auto simp: placeOrders_def split: prod.splits)
  note q = place_all_seq [OF a, unfolded placed]
  have d: "distinct (p # k # ks)"
    using q strict_sorted_iff by blast
  have e: "bracket s1 x = [] \<and> children s1 x = []" if "x \<in> set (p # k # ks)" for x
  proof -
    from that q have "seqOid s < x" by (auto simp: subset_iff)
    from fresh [OF this] q show ?thesis
      by (metis links_shrink_def list.set(1) set_empty subset_empty)
  qed
  show ?thesis
  proof (cases grouping)
    case Na
    with d e show ?thesis by (simp add: s' link_bracket_def)
  next
    case PositionTpsl
    with d e show ?thesis by (simp add: s' link_bracket_def bracket_add_siblings)
  next
    case NormalTpsl
    with d e show ?thesis
      by (auto simp: s' link_bracket_def Let_def bracket_add_siblings sset.add_all add_siblings_def)
  qed
qed

definition sample_trigger :: "bool \<Rightarrow> rat \<Rightarrow> TpSl \<Rightarrow> HlOrderWire" where
  "sample_trigger isBuy triggerPx tpsl =
    \<lparr>w_a = 0, w_b = isBuy, w_p = triggerPx, w_s = Some 2, w_r = True, w_limit_tif = None,
     w_trigger = Some \<lparr>tg_isMarket = True, tg_triggerPx = triggerPx, tg_tpsl = tpsl\<rparr>, w_c = None\<rparr>"

theorem batch_links_witness:
  "\<exists>rs s'. placeOrders sample_env ''u'' [sample_trigger False 120 Tp, sample_trigger False 80 Sl] PositionTpsl no_opts
      (sample_state (Some (sample_pos 2 100)) []) = (rs, s') \<and>
    List.map_filter placed_oid rs = [Suc 0, Suc (Suc 0)] \<and>
    set (bracket s' (Suc 0)) = {Suc (Suc 0)} \<and> set (bracket s' (Suc (Suc 0))) = {Suc 0}"
proof -
  let ?s = "sample_state (Some (sample_pos 2 100)) []"
  have step: "\<exists>s'. placeSingleOrder sample_env ''u'' PositionTpsl no_opts (sample_trigger False px t) s =
      (Resting (Suc (seqOid s)) None, s') \<and> seqOid s' = Suc (seqOid s) \<and> market.truncate s' = market.truncate s"
    if "resolveAssetCoin s 0 = Some ''BTC''" for px t s
  proof -
    obtain r s' where p: "placeTriggeredOrder sample_env ''u'' ''BTC'' 2 \<lparr>tg_isMarket = True, tg_triggerPx = px, tg_tpsl = t\<rparr>
        PositionTpsl None (sample_trigger False px t) s = (r, s')" by force
    moreover have "placeSingleOrder sample_env ''u'' PositionTpsl no_opts (sample_trigger False px t) s = (r, s')"
      using p that by (simp add: placeSingleOrder_def sample_trigger_def no_opts_def)
    ultimately show ?thesis
      using placeTriggered_outcome [OF p] market_of_ledger [of s' s] by (auto simp: sample_trigger_def)
  qed
  obtain s1 where p1: "placeSingleOrder sample_env ''u'' PositionTpsl no_opts (sample_trigger False 120 Tp) ?s =
      (Resting (Suc 0) None, s1)" "seqOid s1 = Suc 0" "market.truncate s1 = market.truncate ?s"
    using step [of ?s 120 Tp] by (auto simp: sample_coin) (auto simp: sample_state_def)
  have "resolveAssetCoin s1 0 = Some ''BTC''" using market_cong(2) [OF p1(3)] by (simp add: sample_coin)
  from step [OF this] obtain s2 where p2: "placeSingleOrder sample_env ''u'' PositionTpsl no_opts
      (sample_trigger False 80 Sl) s1 = (Resting (Suc (Suc 0)) None, s2)"
    by (auto simp: p1)
  let ?rs = "[Resting (Suc 0) None, Resting (Suc (Suc 0)) None]"
  have m: "List.map_filter placed_oid ?rs = [Suc 0, Suc (Suc 0)]" by (simp add: map_filter_simps)
  obtain s' where o: "placeOrders sample_env ''u'' [sample_trigger False 120 Tp, sample_trigger False 80 Sl]
      PositionTpsl no_opts ?s = (?rs, s')"
    by (simp add: placeOrders_def p1 p2)
  have "bracket ?s x = [] \<and> children ?s x = []" for x by (simp add: sample_state_def empty_state_def)
  from batch_links [OF o this m] o m show ?thesis by auto
qed

end
