(* ===== verification/Cancel.thy ===== *)
theory Cancel
  imports Orders
begin

text \<open>
  engine/order.ts, the operations on existing orders and settings: cancelling (with the
  cascade over bracket children), cancelling by client id, modifying (cancel and replace, with
  the bracket links carried over), leverage, isolated margin and the scheduled cancel.
\<close>

subsection \<open>Cancelling\<close>

definition cancel_error :: "state \<Rightarrow> user \<Rightarrow> asset \<Rightarrow> oid \<Rightarrow> OrderError option" where
  "cancel_error s u a oid =
    (case orders s oid of None \<Rightarrow> Some (OrderNotFound oid)
     | Some d \<Rightarrow>
        if o_userId (h_order d) \<noteq> u then Some (OrderNotFound oid)
        else if o_status (h_order d) \<noteq> St_open
        then Some (if o_orderType (h_order d) = TrailingStop then AlreadyFinished a
                   else OrderNotOpen oid (o_status (h_order d)))
        else None)"

definition cancel_pipeline :: "env \<Rightarrow> OrderHash \<Rightarrow> oid \<Rightarrow> state \<Rightarrow> state" where
  "cancel_pipeline E d oid s =
    (let trailing = (o_orderType (h_order d) = TrailingStop); body = buildTrailingBody (lib E) d False;
         s1 = drop_from_sets oid (upd_hash oid (set_status St_cancelled (now E)) s);
         s2 = s1\<lparr>expiry := zrem oid (expiry s1)\<rparr>
     in if trailing
        then emitTrailingHistory d St_cancelled (now E) body
               (upd_hash oid (\<lambda>h. h\<lparr>h_trSnap := Some body\<rparr>) s2)
        else s2)"

definition child_cancels :: "user \<Rightarrow> state \<Rightarrow> oid list \<Rightarrow> (asset \<times> oid) list" where
  \<comment> \<open>the children that are still open orders of the user\<close>
  "child_cancels u s kids =
    List.map_filter (\<lambda>k. case orders s k of None \<Rightarrow> None
      | Some d \<Rightarrow> if o_status (h_order d) = St_open \<and> o_userId (h_order d) = u then Some (o_asset (h_order d), k)
                 else None) kids"

definition drop_child_links :: "oid list \<Rightarrow> state \<Rightarrow> state" where
  "drop_child_links kids s =
    s\<lparr>parentOf := (\<lambda>x. if x \<in> set kids then None else parentOf s x),
      bracket := (\<lambda>x. if x \<in> set kids then [] else bracket s x)\<rparr>"

text \<open>
  The cascade calls cancelOrders again for the children. Every call first ends an open order,
  so the depth is bounded by the number of open orders; \<open>fuel\<close> is that bound, and
  \<open>cancel_enough_fuel\<close> below shows that the number of oids handed out is enough.
\<close>

fun cancel_loop ::
    "nat \<Rightarrow> env \<Rightarrow> user \<Rightarrow> (asset \<times> oid) list \<Rightarrow> state \<Rightarrow> (HlOrderResponseStatus list \<times> state) option" where
  "cancel_loop fuel E u [] s = Some ([], s)"
| "cancel_loop fuel E u ((a, oid) # cs) s =
    (case cancel_error s u a oid of
       Some err \<Rightarrow> map_option (\<lambda>(rs, s'). (Error err # rs, s')) (cancel_loop fuel E u cs s)
     | None \<Rightarrow>
        let d = the (orders s oid);
            s1 = cancel_pipeline E d oid s;
            kids = children s1 oid;
            after =
              (if kids \<noteq> []
               then
                 let ccs = child_cancels u s1 kids;
                     s2 = drop_child_links kids (s1\<lparr>children := (children s1)(oid := [])\<rparr>)
                 in if ccs = [] then Some s2
                    else case fuel of 0 \<Rightarrow> None | Suc n \<Rightarrow> map_option snd (cancel_loop n E u ccs s2)
               else Some (s1\<lparr>bracket := (bracket s1)(oid := []), parentOf := (parentOf s1)(oid := None)\<rparr>))
        in case after of None \<Rightarrow> None
           | Some s3 \<Rightarrow>
               map_option (\<lambda>(rs, s'). (Success # rs, s'))
                 (cancel_loop fuel E u cs (emit (OrderUpdate u (cancelled_row u d (now E)) St_cancelled) s3)))"

definition cancelOrders ::
    "env \<Rightarrow> user \<Rightarrow> (asset \<times> oid) list \<Rightarrow> state \<Rightarrow> HlOrderResponseStatus list \<times> state" where
  "cancelOrders E u cs s = (case cancel_loop (seqOid s) E u cs s of Some r \<Rightarrow> r | None \<Rightarrow> ([], s))"

fun cancelByCloid ::
    "env \<Rightarrow> user \<Rightarrow> (asset \<times> string) list \<Rightarrow> state \<Rightarrow> HlOrderResponseStatus list \<times> state" where
  "cancelByCloid E u [] s = ([], s)"
| "cancelByCloid E u ((a, cloid) # cs) s =
    (case cloids s u cloid of
       None \<Rightarrow> (let (rs, s') = cancelByCloid E u cs s in (Error (CloidNotFound cloid) # rs, s'))
     | Some oid \<Rightarrow>
        let (r, s1) = cancelOrders E u [(a, oid)] s; (rs, s') = cancelByCloid E u cs s1
        in (r @ rs, s'))"

subsection \<open>Modifying\<close>

definition carryBracketLinks :: "env \<Rightarrow> user \<Rightarrow> oid \<Rightarrow> HlOrderResponseStatus \<Rightarrow> state \<Rightarrow> state" where
  "carryBracketLinks E u oldOid replacement s =
    (let newOid = (case replacement of Resting oid _ \<Rightarrow> Some oid | _ \<Rightarrow> None);
         parent = parentOf s oldOid; siblings = bracket s oldOid; kids = children s oldOid;
         s1 = (if kids \<noteq> []
           then let s0 = s\<lparr>children := (children s)(oldOid := [])\<rparr>;
                    ccs = child_cancels u s0 kids; s0' = drop_child_links kids s0
                in if ccs = [] then s0' else snd (cancelOrders E u ccs s0')
           else s);
         s2 = s1\<lparr>bracket := (bracket s1)(oldOid := []), parentOf := (parentOf s1)(oldOid := None)\<rparr>;
         s3 = (case parent of None \<Rightarrow> s2
           | Some p \<Rightarrow>
              let s2' = s2\<lparr>children := (children s2)(p := srem oldOid (children s2 p))\<rparr>
              in case newOid of None \<Rightarrow> s2'
                 | Some n \<Rightarrow> s2'\<lparr>children := (children s2')(p := sadd n (children s2' p)),
                               parentOf := (parentOf s2')(n := Some p)\<rparr>);
         s4 = s3\<lparr>bracket := (\<lambda>x. if x \<in> set siblings
           then (case newOid of None \<Rightarrow> srem oldOid (bracket s3 x) | Some n \<Rightarrow> sadd n (srem oldOid (bracket s3 x)))
           else bracket s3 x)\<rparr>
     in case newOid of None \<Rightarrow> s4
        | Some n \<Rightarrow> s4\<lparr>bracket := (bracket s4)(n := foldr sadd siblings (bracket s4 n))\<rparr>)"

definition modify_error :: "state \<Rightarrow> user \<Rightarrow> oid \<Rightarrow> OrderError option" where
  "modify_error s u oid =
    (case orders s oid of None \<Rightarrow> Some (OrderNotFound oid)
     | Some d \<Rightarrow>
        if o_userId (h_order d) \<noteq> u then Some (OrderNotFound oid)
        else if o_orderType (h_order d) = TrailingStop then Some ModifyInvalid
        else if o_status (h_order d) \<noteq> St_open then Some CannotModifyFinished
        else None)"

definition replace_order ::
    "env \<Rightarrow> user \<Rightarrow> oid \<Rightarrow> HlOrderWire \<Rightarrow> state \<Rightarrow> HlOrderResponseStatus \<times> state" where
  \<comment> \<open>cancel the old order, place the new one, carry the links\<close>
  "replace_order E u oid w s =
    (let d = the (orders s oid);
         s1 = upd_hash oid (set_status St_cancelled (now E)) s;
         s2 = s1\<lparr>openSet := srem oid (openSet s1), trigSet := srem oid (trigSet s1), expiry := zrem oid (expiry s1)\<rparr>;
         s3 = emit (OrderUpdate u (cancelled_row u d (now E)) St_cancelled) s2;
         (r, s4) = placeSingleOrder E u (o_grouping (h_order d)) no_opts w s3
     in (r, carryBracketLinks E u oid r s4))"

definition modifyOrder :: "env \<Rightarrow> user \<Rightarrow> oid \<Rightarrow> HlOrderWire \<Rightarrow> state \<Rightarrow> OrderError option \<times> state" where
  \<comment> \<open>\<open>None\<close> is ok, also when the replacement was rejected\<close>
  "modifyOrder E u oid w s =
    (case modify_error s u oid of Some err \<Rightarrow> (Some err, s)
     | None \<Rightarrow> (None, snd (replace_order E u oid w s)))"

fun batchModifyOrders ::
    "env \<Rightarrow> user \<Rightarrow> (oid \<times> HlOrderWire) list \<Rightarrow> state \<Rightarrow> HlOrderResponseStatus list \<times> state" where
  "batchModifyOrders E u [] s = ([], s)"
| "batchModifyOrders E u ((oid, w) # ms) s =
    (let (r, s1) = (case modify_error s u oid of Some err \<Rightarrow> (Error err, s) | None \<Rightarrow> replace_order E u oid w s);
         (rs, s') = batchModifyOrders E u ms s1
     in (r # rs, s'))"

subsection \<open>Settings\<close>

definition updateLeverage ::
    "HlMeta option \<Rightarrow> user \<Rightarrow> asset \<Rightarrow> bool \<Rightarrow> rat \<Rightarrow> state \<Rightarrow> OrderError option \<times> state" where
  \<comment> \<open>the first argument is the outcome of the request for the asset's current meta\<close>
  "updateLeverage fetched u a isCross leverage s =
    (case fetchMaxLeverage fetched a s of
       (None, s1) \<Rightarrow> (Some (UnknownAsset a), s1)
     | (Some maxLeverage, s1) \<Rightarrow>
        if \<not> is_integer leverage \<or> leverage < 1 \<or> of_nat maxLeverage < leverage then (Some InvalidLeverage, s1)
        else if \<not> isZero_d (p_szi (pos_of s1 u a)) \<and> lev_isCross (getLeverageSetting s1 u a) \<noteq> isCross
        then (Some CannotSwitchLeverageType, s1)
        else (None, s1\<lparr>lev := (lev s1)(u := (lev s1 u)(a := Some \<lparr>lev_leverage = nat \<lfloor>leverage\<rfloor>, lev_isCross = isCross\<rparr>))\<rparr>))"

text \<open>
  updateIsolatedMargin works on doubles printed with six decimals; the amounts are integers
  of micro-dollars, so the model computes in exact six-decimal numbers.
\<close>

definition updateIsolatedMargin :: "user \<Rightarrow> asset \<Rightarrow> bool \<Rightarrow> int \<Rightarrow> state \<Rightarrow> OrderError option \<times> state" where
  "updateIsolatedMargin u a isBuy ntli s =
    (case pos s u a of None \<Rightarrow> (Some (NoIsolatedPosition a), s)
     | Some p \<Rightarrow>
        let magnitudeUsd = of_int \<bar>ntli\<bar> / 1000000;
            deltaUsd = half_up_dp 6 (if isBuy then magnitudeUsd else - magnitudeUsd);
            current = (case p_rawUsd p of None \<Rightarrow> 0 | Some r \<Rightarrow> r);
            updated = half_up_dp 6 (current + deltaUsd)
        in (None, emit (AccountUpdate u)
             (s\<lparr>pos := (pos s)(u := (pos s u)(a := Some (p\<lparr>p_rawUsd := Some updated\<rparr>)))\<rparr>)))"

definition scheduleCancel :: "env \<Rightarrow> user \<Rightarrow> millis option \<Rightarrow> state \<Rightarrow> OrderError option \<times> state" where
  "scheduleCancel E u time s =
    (case time of
       None \<Rightarrow> (None, s\<lparr>schedule_cancel := (schedule_cancel s)(u := None)\<rparr>)
     | Some t \<Rightarrow>
        if t < now E + 5000 then (Some ScheduleTooSoon, s)
        else (None, s\<lparr>schedule_cancel := (schedule_cancel s)(u := Some t)\<rparr>))"

subsection \<open>What cancelling does\<close>

definition opens :: "state \<Rightarrow> oid set" where
  "opens s = {x. status_of s x = Some St_open}"

definition listed :: "state \<Rightarrow> oid set" where
  \<comment> \<open>the orders the matcher looks at\<close>
  "listed s = set (openSet s) \<union> set (trigSet s) \<union> set (trailSet s)"

definition cancels_only :: "state \<Rightarrow> state \<Rightarrow> bool" where
  "cancels_only s s' \<longleftrightarrow>
    ledger.truncate s' = ledger.truncate s \<and> seqOid s' = seqOid s \<and> listed s' \<subseteq> listed s \<and>
    (\<forall>x. orders s' x = orders s x \<or>
      (status_of s x = Some St_open \<and> status_of s' x = Some St_cancelled \<and> x \<notin> listed s'))"

lemma cancels_only_refl [simp]: "cancels_only s s"
  by (simp add: cancels_only_def)

lemma cancels_only_trans:
  assumes "cancels_only s t" "cancels_only t u"
  shows "cancels_only s u"
proof -
  have "orders u x = orders s x \<or> (status_of s x = Some St_open \<and> status_of u x = Some St_cancelled \<and> x \<notin> listed u)" for x
    using assms unfolding cancels_only_def by (metis option.inject status_of_def OrderStatus.distinct(3) subsetD)
  then show ?thesis using assms unfolding cancels_only_def by auto
qed

lemma cancels_only_opens: "cancels_only s s' \<Longrightarrow> opens s' \<subseteq> opens s"
  by (auto simp: cancels_only_def opens_def status_of_def) metis

lemma cancels_only_links [simp]:
  "cancels_only s (t\<lparr>bracket := b\<rparr>) = cancels_only s t" "cancels_only s (t\<lparr>children := c\<rparr>) = cancels_only s t"
  "cancels_only s (t\<lparr>parentOf := p\<rparr>) = cancels_only s t" "cancels_only s (t\<lparr>expiry := e\<rparr>) = cancels_only s t"
  "cancels_only s (emit ev t) = cancels_only s t" "cancels_only s (drop_child_links kids t) = cancels_only s t"
  by (simp_all add: cancels_only_def listed_def status_of_def drop_child_links_def)

lemma opens_links [simp]:
  "opens (t\<lparr>bracket := b\<rparr>) = opens t" "opens (t\<lparr>children := c\<rparr>) = opens t"
  "opens (t\<lparr>parentOf := p\<rparr>) = opens t" "opens (emit ev t) = opens t" "opens (drop_child_links kids t) = opens t"
  by (simp_all add: opens_def status_of_def drop_child_links_def)

lemma cancel_error_open: "cancel_error s u a oid = None \<Longrightarrow> oid \<in> opens s"
  by (auto simp: cancel_error_def opens_def status_of_def split: option.splits if_splits)

lemma cancel_pipeline_effect:
  fixes E :: env
  assumes "cancel_error s u a oid = None"
  defines "s1 \<equiv> cancel_pipeline E (the (orders s oid)) oid s"
  shows "cancels_only s s1" "status_of s1 oid = Some St_cancelled" "opens s1 = opens s - {oid}"
    "children s1 = children s" "bracket s1 = bracket s" "x \<noteq> oid \<Longrightarrow> orders s1 x = orders s x"
proof -
  from assms(1) obtain d where d: "orders s oid = Some d" "o_status (h_order d) = St_open"
    by (auto simp: cancel_error_def split: option.splits if_splits)
  have o: "status_of s1 x = (if x = oid then Some St_cancelled else status_of s x)"
    "x \<noteq> oid \<Longrightarrow> orders s1 x = orders s x" for x
    by (simp_all add: s1_def cancel_pipeline_def drop_from_sets_def upd_hash_def emitTrailingHistory_def status_of_def
        Let_def d)
  have l: "listed s1 = listed s - {oid}"
    by (auto simp: s1_def cancel_pipeline_def drop_from_sets_def upd_hash_def emitTrailingHistory_def listed_def Let_def)
  show "cancels_only s s1"
    unfolding cancels_only_def using o d
    by (auto simp: l status_of_def)
      (auto simp: s1_def cancel_pipeline_def drop_from_sets_def upd_hash_def emitTrailingHistory_def Let_def)
  show "status_of s1 oid = Some St_cancelled" "opens s1 = opens s - {oid}"
    using o d by (auto simp: opens_def status_of_def)
  show "children s1 = children s" "bracket s1 = bracket s"
    by (simp_all add: s1_def cancel_pipeline_def drop_from_sets_def upd_hash_def emitTrailingHistory_def Let_def)
  show "x \<noteq> oid \<Longrightarrow> orders s1 x = orders s x" by (rule o)
qed

lemma cancels_only_finished:
  "cancels_only s s' \<Longrightarrow> status_of s x \<noteq> Some St_open \<Longrightarrow> orders s' x = orders s x"
  by (auto simp: cancels_only_def)

lemma cancels_only_later:
  assumes "cancels_only s s'" "cancel_error s u a x = None"
  shows "cancel_error s' u a x = None \<or> status_of s' x = Some St_cancelled"
  using assms unfolding cancels_only_def cancel_error_def by (metis (no_types, lifting))

definition requested_done :: "user \<Rightarrow> (asset \<times> oid) list \<Rightarrow> state \<Rightarrow> state \<Rightarrow> bool" where
  \<comment> \<open>every open order of the user in the request is cancelled\<close>
  "requested_done u cs s s' \<longleftrightarrow>
    (\<forall>(a, x) \<in> set cs. cancel_error s u a x = None \<longrightarrow> status_of s' x = Some St_cancelled)"

lemma requested_done_later:
  assumes "cancels_only s t" "cancels_only t s'" "requested_done u cs t s'"
  shows "requested_done u cs s s'"
  unfolding requested_done_def
proof (clarify)
  fix a x
  assume "(a, x) \<in> set cs" "cancel_error s u a x = None"
  with assms cancels_only_later [OF assms(1), of u a x] cancels_only_finished [OF assms(2), of x]
  show "status_of s' x = Some St_cancelled"
    by (auto simp: requested_done_def status_of_def)
qed

lemma cancel_loop_total:
  assumes "finite (opens s)" "card (opens s) \<le> fuel"
  shows "\<exists>rs s'. cancel_loop fuel E u cs s = Some (rs, s') \<and> cancels_only s s' \<and> length rs = length cs \<and>
    requested_done u cs s s'"
  using assms
proof (induction fuel E u cs s rule: cancel_loop.induct)
  case (2 fuel E u a oid cs s)
  show ?case
  proof (cases "cancel_error s u a oid")
    case (Some err)
    from "2.IH"(3) [OF Some "2.prems"] show ?thesis by (auto simp: Some requested_done_def)
  next
    case None
    define s1 where "s1 = cancel_pipeline E (the (orders s oid)) oid s"
    note eff = cancel_pipeline_effect [OF None, where E = E, folded s1_def]
    let ?kids = "children s1 oid" and ?ev = "OrderUpdate u (cancelled_row u (the (orders s oid)) (now E)) St_cancelled"
    define s2 where "s2 = drop_child_links ?kids (s1\<lparr>children := (children s1)(oid := [])\<rparr>)"
    let ?ccs = "child_cancels u s1 ?kids"
    define after where "after =
      (if ?kids \<noteq> []
       then if ?ccs = [] then Some s2
            else case fuel of 0 \<Rightarrow> None | Suc n \<Rightarrow> map_option snd (cancel_loop n E u ?ccs s2)
       else Some (s1\<lparr>bracket := (bracket s1)(oid := []), parentOf := (parentOf s1)(oid := None)\<rparr>))"
    have fuel: "card (opens s) = Suc (card (opens s1))" "finite (opens s1)"
      using card_Suc_Diff1 [OF "2.prems"(1) cancel_error_open [OF None]] "2.prems"(1) by (simp_all add: eff(3))
    have s2: "opens s2 = opens s1" "cancels_only s s2"
      "cancels_only s1 s2"
      using eff(1) by (simp_all add: s2_def)
    have "\<exists>s3. after = Some s3 \<and> cancels_only s s3 \<and> cancels_only s1 s3"
    proof (cases "?kids \<noteq> [] \<and> ?ccs \<noteq> []")
      case True
      obtain n where n: "fuel = Suc n" using "2.prems"(2) fuel by (cases fuel) simp_all
      have f2: "finite (opens s2)" "card (opens s2) \<le> n" using fuel "2.prems"(2) n s2(1) by simp_all
      have "\<exists>rs s'. cancel_loop n E u ?ccs s2 = Some (rs, s') \<and> cancels_only s2 s' \<and> length rs = length ?ccs \<and>
          requested_done u ?ccs s2 s'"
        using True f2
        by (intro "2.IH"(1) [OF None refl s1_def refl]) (simp_all add: n s2_def)
      with s2(2,3) True n show ?thesis by (auto simp: after_def intro: cancels_only_trans)
    next
      case False
      with s2(2,3) eff(1) show ?thesis by (auto simp: after_def)
    qed
    then obtain s3 where s3: "after = Some s3" "cancels_only s s3" "cancels_only s1 s3" by blast
    have f3: "finite (opens (emit ?ev s3))" "card (opens (emit ?ev s3)) \<le> fuel"
      using cancels_only_opens [OF s3(2)] "2.prems"
      by (simp_all add: finite_subset) (meson card_mono order_trans)
    have "\<exists>rs s'. cancel_loop fuel E u cs (emit ?ev s3) = Some (rs, s') \<and> cancels_only (emit ?ev s3) s' \<and>
        length rs = length cs \<and> requested_done u cs (emit ?ev s3) s'"
      using f3 s3(1)
      by (intro "2.IH"(2) [OF None refl s1_def refl, of after]) (simp only: after_def s2_def Let_def, simp_all)
    then obtain rs s' where r: "cancel_loop fuel E u cs (emit ?ev s3) = Some (rs, s')"
      "cancels_only (emit ?ev s3) s'" "length rs = length cs" "requested_done u cs (emit ?ev s3) s'" by blast
    have "cancel_loop fuel E u ((a, oid) # cs) s = Some (Success # rs, s')"
      unfolding cancel_loop.simps None option.case Let_def
      unfolding s1_def [symmetric] unfolding s2_def [symmetric] unfolding after_def [symmetric]
      by (simp add: r(1) s3(1))
    moreover have c: "cancels_only s (emit ?ev s3)" "cancels_only s1 (emit ?ev s3)" using s3(2,3) by simp_all
    moreover have "cancels_only s s'" using c(1) r(2) by (rule cancels_only_trans)
    moreover have "requested_done u cs s s'" using c(1) r(2,4) by (rule requested_done_later)
    moreover have "status_of s' oid = Some St_cancelled"
    proof -
      have "status_of s1 oid \<noteq> Some St_open" using eff(2) by simp
      from cancels_only_finished [OF cancels_only_trans [OF c(2) r(2)] this] eff(2)
      show ?thesis by (simp only: status_of_def)
    qed
    ultimately show ?thesis using r(3) by (auto simp: requested_done_def)
  qed
qed (simp add: requested_done_def)

definition oids_ok :: "state \<Rightarrow> bool" where
  \<comment> \<open>only oids that the sequence has handed out carry an order\<close>
  "oids_ok s \<longleftrightarrow> (\<forall>x. orders s x \<noteq> None \<longrightarrow> 0 < x \<and> x \<le> seqOid s)"

lemma opens_bounded:
  assumes "oids_ok s"
  shows "finite (opens s)" "card (opens s) \<le> seqOid s"
proof -
  have "opens s \<subseteq> {1..seqOid s}"
  proof
    fix x assume "x \<in> opens s"
    then have "orders s x \<noteq> None" by (auto simp: opens_def status_of_def)
    with assms have "0 < x \<and> x \<le> seqOid s" by (simp add: oids_ok_def)
    then show "x \<in> {1..seqOid s}" by simp
  qed
  then show "finite (opens s)" "card (opens s) \<le> seqOid s"
    using card_mono [of "{1..seqOid s}" "opens s"] by (auto intro: finite_subset)
qed

lemma cancel_enough_fuel:
  assumes "oids_ok s"
  shows "\<exists>rs s'. cancel_loop (seqOid s) E u cs s = Some (rs, s') \<and> cancels_only s s' \<and> length rs = length cs \<and>
    requested_done u cs s s'"
  using opens_bounded [OF assms] by (rule cancel_loop_total)

text \<open>
  C16. Cancelling always returns, with one status per request, however the bracket links look:
  with one oid of fuel per order handed out the cascade never runs out. It changes nothing but
  turning open orders into cancelled ones that no list holds any more, it leaves balances,
  positions and finished orders alone, and every open order of the user in the request is
  cancelled at the end.
\<close>

theorem cancel_returns:
  assumes "oids_ok s"
  shows "case cancelOrders E u cs s of (rs, s') \<Rightarrow>
    cancel_loop (seqOid s) E u cs s = Some (rs, s') \<and> length rs = length cs \<and>
    cancels_only s s' \<and> requested_done u cs s s'"
  using cancel_enough_fuel [OF assms, of E u cs] by (auto simp: cancelOrders_def)

theorem cancel_returns_witness:
  "case cancelOrders sample_env ''u'' [(0, 7), (0, 9)]
      (sample_state None [sample_hash (sample_order 7 True 2 90 False)]\<lparr>seqOid := 7\<rparr>) of (rs, s') \<Rightarrow>
    length rs = 2 \<and> status_of s' 7 = Some St_cancelled"
proof -
  let ?h = "sample_hash (sample_order 7 True 2 90 False)"
  let ?s = "sample_state None [?h]\<lparr>seqOid := 7\<rparr>"
  have o: "orders ?s x = (if x = 7 then Some ?h else None)" for x
    by (simp add: sample_state_def sample_hash_def sample_order_def)
  have "oids_ok ?s" using o by (auto simp: oids_ok_def)
  from cancel_returns [OF this, of sample_env "''u''" "[(0, 7), (0, 9)]"]
  have *: "case cancelOrders sample_env ''u'' [(0, 7), (0, 9)] ?s of (rs, s') \<Rightarrow>
      length rs = 2 \<and> requested_done ''u'' [(0, 7), (0, 9)] ?s s'"
    by auto
  have "cancel_error ?s ''u'' 0 7 = None"
    using o [of 7] by (simp add: cancel_error_def) (simp add: sample_hash_def sample_order_def)
  with * show ?thesis by (auto simp: requested_done_def)
qed

lemma set_map_filter: "set (List.map_filter f xs) = {y. \<exists>x \<in> set xs. f x = Some y}"
  by (induction xs) (auto simp: map_filter_simps split: option.splits)

lemma child_cancels_iff:
  "(a, k) \<in> set (child_cancels u s kids) \<longleftrightarrow>
    k \<in> set kids \<and> cancel_error s u a k = None \<and> a = o_asset (h_order (the (orders s k)))"
  by (force simp: child_cancels_def set_map_filter cancel_error_def split: option.splits if_splits)

lemma cancel_single:
  fixes E :: env
  assumes fin: "finite (opens s)" "card (opens s) \<le> fuel" and None: "cancel_error s u a oid = None"
  defines "s1 \<equiv> cancel_pipeline E (the (orders s oid)) oid s"
  shows "\<exists>s3. cancel_loop fuel E u [(a, oid)] s = Some ([Success], s3) \<and> cancels_only s1 s3 \<and>
    requested_done u (child_cancels u s1 (children s oid)) s1 s3 \<and>
    (children s oid = [] \<longrightarrow> orders s3 = orders s1)"
proof -
  note eff = cancel_pipeline_effect [OF None, where E = E, folded s1_def]
  let ?kids = "children s oid" and ?ccs = "child_cancels u s1 (children s oid)"
  define s2 where "s2 = drop_child_links ?kids (s1\<lparr>children := (children s1)(oid := [])\<rparr>)"
  have s2: "opens s2 = opens s1" "cancels_only s1 s2" "orders s2 = orders s1"
    by (simp_all add: s2_def) (simp add: drop_child_links_def)
  have rd: "requested_done u ?ccs s2 t \<Longrightarrow> requested_done u ?ccs s1 t" for t
    by (auto simp: requested_done_def cancel_error_def s2(3))
  consider (none) "?kids = []" | (closed) "?kids \<noteq> []" "?ccs = []" | (casc) "?kids \<noteq> []" "?ccs \<noteq> []" by blast
  then show ?thesis
  proof cases
    case none
    then show ?thesis
      by (simp add: None Let_def s1_def [symmetric] eff(4) requested_done_def child_cancels_def map_filter_simps)
  next
    case closed
    then show ?thesis
      using s2 by (simp add: None Let_def s1_def [symmetric] eff(4) requested_done_def s2_def)
  next
    case casc
    have "card (opens s) = Suc (card (opens s1))" "finite (opens s1)"
      using card_Suc_Diff1 [OF fin(1) cancel_error_open [OF None]] fin(1) by (simp_all add: eff(3))
    moreover from this obtain n where n: "fuel = Suc n" using fin(2) by (cases fuel) simp_all
    ultimately have "finite (opens s2)" "card (opens s2) \<le> n" using fin(2) s2(1) by simp_all
    from cancel_loop_total [OF this, of E u ?ccs] obtain rs s' where
      r: "cancel_loop n E u ?ccs s2 = Some (rs, s')" "cancels_only s2 s'" "requested_done u ?ccs s2 s'" by blast
    have s2': "drop_child_links ?kids (s1\<lparr>children := (children s)(oid := [])\<rparr>) = s2"
      by (simp add: s2_def eff(4))
    have em: "requested_done u ?ccs s1 (emit ev s')" for ev
      using rd [OF r(3)] by (simp add: requested_done_def)
    show ?thesis
      using casc r(1) em cancels_only_trans [OF s2(2) r(2)]
      by (simp add: None Let_def s1_def [symmetric] eff(4) s2' n)
  qed
qed

text \<open>
  Cancelling one open order of the user: it ends cancelled; when it is a bracket parent,
  every child of the user that was still open is cancelled with it; when it has no children,
  no other order changes, so the other leg of a bracket survives. An order of someone else, or
  one that is no longer open, is refused and nothing changes.
\<close>

theorem cancel_one:
  assumes "oids_ok s"
  shows "case cancelOrders E u [(a, oid)] s of (rs, s') \<Rightarrow>
    (case cancel_error s u a oid of
       Some err \<Rightarrow> rs = [Error err] \<and> s' = s
     | None \<Rightarrow> rs = [Success] \<and> status_of s' oid = Some St_cancelled \<and>
         (\<forall>k \<in> set (children s oid). k \<noteq> oid \<and> k \<in> opens s \<and> o_userId (h_order (the (orders s k))) = u \<longrightarrow>
            status_of s' k = Some St_cancelled) \<and>
         (children s oid = [] \<longrightarrow> (\<forall>x. x \<noteq> oid \<longrightarrow> orders s' x = orders s x)))"
proof (cases "cancel_error s u a oid")
  case (Some err)
  then show ?thesis by (simp add: cancelOrders_def)
next
  case None
  define s1 where "s1 = cancel_pipeline E (the (orders s oid)) oid s"
  note eff = cancel_pipeline_effect [OF None, where E = E, folded s1_def]
  note fin = opens_bounded [OF assms]
  from cancel_single [OF fin None, of E, folded s1_def] obtain s3 where
    r: "cancel_loop (seqOid s) E u [(a, oid)] s = Some ([Success], s3)" "cancels_only s1 s3"
    "requested_done u (child_cancels u s1 (children s oid)) s1 s3"
    "children s oid = [] \<longrightarrow> orders s3 = orders s1" by blast
  have "status_of s1 oid \<noteq> Some St_open" using eff(2) by simp
  from cancels_only_finished [OF r(2) this] eff(2)
  have own: "status_of s3 oid = Some St_cancelled" by (simp only: status_of_def)
  have kid: "status_of s3 k = Some St_cancelled"
    if "k \<in> set (children s oid)" "k \<noteq> oid" "k \<in> opens s" "o_userId (h_order (the (orders s k))) = u" for k
  proof -
    have o: "orders s1 k = orders s k" using eff(6) that(2) by blast
    then have e: "cancel_error s1 u a' k = None" for a'
      using that by (auto simp: cancel_error_def opens_def status_of_def)
    then have "(o_asset (h_order (the (orders s1 k))), k) \<in> set (child_cancels u s1 (children s oid))"
      using that(1) by (simp add: child_cancels_iff)
    with r(3) e show ?thesis by (auto simp: requested_done_def)
  qed
  have "\<forall>x. x \<noteq> oid \<longrightarrow> orders s3 x = orders s x" if "children s oid = []"
    using r(4) that eff(6) by simp
  with own kid r(1) None show ?thesis by (simp add: cancelOrders_def)
qed

theorem cancel_one_witness:
  "case cancelOrders sample_env ''u'' [(0, 7)]
      (sample_state None [sample_hash (sample_order 7 True 2 90 False), sample_hash (sample_order 8 False 2 120 True)]
        \<lparr>seqOid := 8, children := (\<lambda>x. if x = 7 then [8] else [])\<rparr>) of (rs, s') \<Rightarrow>
    rs = [Success] \<and> status_of s' 7 = Some St_cancelled \<and> status_of s' 8 = Some St_cancelled"
proof -
  let ?h = "sample_hash (sample_order 7 True 2 90 False)" and ?k = "sample_hash (sample_order 8 False 2 120 True)"
  let ?s = "sample_state None [?h, ?k]\<lparr>seqOid := 8, children := (\<lambda>x. if x = 7 then [8] else [])\<rparr>"
  have o: "orders ?s x = (if x = 7 then Some ?h else if x = 8 then Some ?k else None)" for x
    by (simp add: sample_state_def sample_hash_def sample_order_def)
  have f: "o_status (h_order ?h) = St_open" "o_status (h_order ?k) = St_open" "o_userId (h_order ?h) = ''u''"
    "o_userId (h_order ?k) = ''u''"
    by (simp_all add: sample_hash_def sample_order_def)
  have ok: "oids_ok ?s" unfolding oids_ok_def o by simp
  have e: "cancel_error ?s ''u'' 0 7 = None" unfolding cancel_error_def o by (simp add: f)
  have op: "8 \<in> opens ?s" unfolding opens_def status_of_def o by (simp add: f)
  have ow: "o_userId (h_order (the (orders ?s 8))) = ''u''" unfolding o by (simp add: f)
  obtain rs s' where c: "cancelOrders sample_env ''u'' [(0, 7)] ?s = (rs, s')" by force
  from cancel_one [OF ok, where E = sample_env and u = "''u''" and a = 0 and oid = 7, unfolded c e prod.case option.case]
  have "rs = [Success]" "status_of s' 7 = Some St_cancelled"
    "8 \<in> set (children ?s 7) \<Longrightarrow> status_of s' 8 = Some St_cancelled"
    using op ow by auto
  then show ?thesis by (simp add: c)
qed

subsection \<open>Bracket links across a modify\<close>

text \<open>
  A modified bracket leg keeps its place in the bracket: when the replacement rests, it
  inherits the parent and the siblings, the parent's children and every sibling's list swap the
  old oid for the new one, and the old order keeps no link. When it does not rest, the old oid
  is only removed.
\<close>

theorem modify_carries_links:
  assumes "children s old = []" "old \<notin> set (bracket s old)" "parentOf s old \<noteq> Some old"
    and new: "replacement = Resting n cl" "n \<noteq> old" "bracket s n = []" "n \<notin> set (bracket s old)"
    and s': "s' = carryBracketLinks E u old replacement s"
  shows "bracket s' old = [] \<and> parentOf s' old = None \<and> orders s' = orders s \<and>
    set (bracket s' n) = set (bracket s old) \<and>
    (\<forall>x \<in> set (bracket s old). set (bracket s' x) = insert n (set (bracket s x) - {old})) \<and>
    (\<forall>p. parentOf s old = Some p \<longrightarrow>
      parentOf s' n = Some p \<and> set (children s' p) = insert n (set (children s p) - {old}))"
  using assms
  by (auto simp: carryBracketLinks_def Let_def sset.add_all split: option.splits)

theorem modify_carries_links_witness:
  "\<exists>s'. s' = carryBracketLinks sample_env ''u'' 7 (Resting 9 None)
      (sample_state None []\<lparr>bracket := (\<lambda>x. if x = 7 then [8] else if x = 8 then [7] else []),
        parentOf := (\<lambda>x. if x = 7 \<or> x = 8 then Some 6 else None)\<rparr>) \<and>
     parentOf s' 9 = Some 6 \<and> set (bracket s' 9) = {8} \<and> set (bracket s' 8) = {9}"
proof -
  let ?s = "sample_state None []\<lparr>bracket := (\<lambda>x. if x = 7 then [8] else if x = 8 then [7] else []),
        parentOf := (\<lambda>x. if x = 7 \<or> x = 8 then Some 6 else None)\<rparr>"
  have c: "children ?s 7 = []" by (simp add: sample_state_def empty_state_def)
  have "set (bracket (carryBracketLinks sample_env ''u'' 7 (Resting 9 None) ?s) 9) = set (bracket ?s 7) \<and>
    (\<forall>x \<in> set (bracket ?s 7). set (bracket (carryBracketLinks sample_env ''u'' 7 (Resting 9 None) ?s) x) =
      insert 9 (set (bracket ?s x) - {7})) \<and>
    parentOf (carryBracketLinks sample_env ''u'' 7 (Resting 9 None) ?s) 9 = Some 6"
    using modify_carries_links [OF c _ _ refl _ _ _ refl, of 9 sample_env "''u''" None] by simp
  then show ?thesis by simp
qed

subsection \<open>Leverage\<close>

text \<open>
  A leverage that updateLeverage accepts is an integer between one and the asset's current
  maximum, so it never blocks a later open; and the margin type of an open position does not
  change.
\<close>

theorem accepted_leverage_within_max:
  assumes "updateLeverage fetched u a isCross leverage s = (None, s')"
  shows "\<exists>m. cachedMaxLeverage s' a = Some m \<and>
    1 \<le> lev_leverage (getLeverageSetting s' u a) \<and> lev_leverage (getLeverageSetting s' u a) \<le> m \<and>
    of_nat (lev_leverage (getLeverageSetting s' u a)) = leverage \<and> lev_isCross (getLeverageSetting s' u a) = isCross \<and>
    leverageErrorForOpen s' u a isBuy = None \<and>
    (p_szi (pos_of s u a) \<noteq> 0 \<longrightarrow> pos s' = pos s \<and>
      isCross = lev_isCross (getLeverageSetting (snd (fetchMaxLeverage fetched a s)) u a))"
proof -
  obtain m s1 where f: "fetchMaxLeverage fetched a s = (Some m, s1)"
    and i: "is_integer leverage" "1 \<le> leverage" "leverage \<le> of_nat m"
    and k: "p_szi (pos_of s1 u a) = 0 \<or> lev_isCross (getLeverageSetting s1 u a) = isCross"
    and s': "s' = s1\<lparr>lev := (lev s1)(u := (lev s1 u)(a := Some \<lparr>lev_leverage = nat \<lfloor>leverage\<rfloor>, lev_isCross = isCross\<rparr>))\<rparr>"
    using assms
    by (cases "fetchMaxLeverage fetched a s"; cases "fst (fetchMaxLeverage fetched a s)")
      (auto simp: updateLeverage_def not_less split: if_splits)
  have "cachedMaxLeverage s1 a = Some m" and p: "pos s1 = pos s"
    using f by (auto simp: fetchMaxLeverage_def Let_def split: if_splits option.splits)
  then have c: "cachedMaxLeverage s' a = Some m"
    using market_cong(4) [of s' s1] by (simp add: s')
  obtain z where z: "leverage = of_int z" using i(1) by (auto simp: is_integer_def elim: Ints_cases)
  have zb: "1 \<le> z" "z \<le> int m"
  proof -
    show "1 \<le> z" using i(2) z by simp
    have "(of_int z :: rat) \<le> of_int (int m)" using i(3) z by simp
    then show "z \<le> int m" by (simp only: of_int_le_iff)
  qed
  have l: "getLeverageSetting s' u a = \<lparr>lev_leverage = nat z, lev_isCross = isCross\<rparr>"
    by (simp add: getLeverageSetting_def s' z)
  have "\<not> m < nat z" using zb by linarith
  then have "leverageErrorForOpen s' u a isBuy = None"
    by (simp add: leverageErrorForOpen_def Let_def c l)
  moreover have "p_szi (pos_of s1 u a) = p_szi (pos_of s u a)" by (simp add: pos_of_def p)
  moreover have "pos s' = pos s" by (simp add: s' p)
  moreover have "1 \<le> nat z" "nat z \<le> m" using zb by linarith+
  moreover have "(of_nat (nat z) :: rat) = of_int z" using zb by simp
  ultimately show ?thesis
    using k by (intro exI [of _ m]) (auto simp: c l z f)
qed

theorem accepted_leverage_within_max_witness:
  "\<exists>s'. updateLeverage None ''u'' 0 False 10 (sample_state None []) = (None, s') \<and>
    leverageErrorForOpen s' ''u'' 0 True = None"
proof -
  have c: "cachedMaxLeverage (sample_state None []) 0 = Some 40"
    by (simp add: cachedMaxLeverage_def isSpotAsset_def loadUniverseEntry_def offsets sample_state_def)
  have f: "fetchMaxLeverage None 0 (sample_state None []) = (Some 40, sample_state None [])"
    using c by (simp add: fetchMaxLeverage_def isSpotAsset_def offsets)
  have i: "is_integer 10" by (simp add: is_integer_def)
  have "p_szi (pos_of (sample_state None []) ''u'' 0) = 0" by (simp add: pos_of_def no_pos_def sample_state_def)
  then obtain s' where "updateLeverage None ''u'' 0 False 10 (sample_state None []) = (None, s')"
    by (simp add: updateLeverage_def f i)
  with accepted_leverage_within_max [OF this, of True] show ?thesis by blast
qed

end
