(* ===== verification/Matcher.thy ===== *)
theory Matcher
  imports Cancel
begin

text \<open>
  The matching loops of worker/order-matcher.ts: resting limit orders and TP/SL triggers
  against the mids, trailing stops against fresh marks, and the sweep of expired orders. Every
  loop walks a snapshot of its set; the order of the snapshot is not fixed by Redis, and
  nothing below depends on it.
\<close>

subsection \<open>Resting orders\<close>

definition match_open_one :: "env \<Rightarrow> (coin \<times> rat) list \<Rightarrow> oid \<Rightarrow> state \<Rightarrow> state" where
  "match_open_one E ms oid s =
    (case orders s oid of None \<Rightarrow> s
     | Some d \<Rightarrow>
        let ord = parseOrder d
        in if o_status ord \<noteq> St_open then s\<lparr>openSet := srem oid (openSet s)\<rparr>
           else case map_of ms (o_coin ord) of None \<Rightarrow> s
             | Some mid \<Rightarrow>
                if would_fill (o_isBuy ord) mid (o_limitPx ord)
                then executeFill E ord (computeFillPrice (lib E) (l2book E (o_coin ord)) ord mid None) False s
                else s)"

definition matchOpenOrders :: "env \<Rightarrow> state \<Rightarrow> state" where
  "matchOpenOrders E s =
    (if openSet s = [] \<or> mids s = [] then s
     else foldl (\<lambda>acc oid. match_open_one E (mids s) oid acc) s (openSet s))"

subsection \<open>Take-profit and stop-loss triggers\<close>

definition checkTrigger :: "TpSl \<Rightarrow> bool \<Rightarrow> rat \<Rightarrow> rat \<Rightarrow> bool" where
  "checkTrigger tpsl isBuy triggerPx mid =
    (case tpsl of Sl \<Rightarrow> if isBuy then gte_d mid triggerPx else lte_d mid triggerPx
     | Tp \<Rightarrow> if isBuy then lte_d mid triggerPx else gte_d mid triggerPx)"

definition dormant :: "state \<Rightarrow> oid \<Rightarrow> bool" where
  \<comment> \<open>the bracket leg's entry is still resting\<close>
  "dormant s oid \<longleftrightarrow> (case parentOf s oid of None \<Rightarrow> False | Some p \<Rightarrow> status_of s p = Some St_open)"

definition match_trigger_one :: "env \<Rightarrow> (coin \<times> rat) list \<Rightarrow> oid \<Rightarrow> state \<Rightarrow> state" where
  "match_trigger_one E ms oid s =
    (case orders s oid of None \<Rightarrow> s
     | Some d \<Rightarrow>
        let ord = parseOrder d
        in if o_status ord \<noteq> St_open then s\<lparr>trigSet := srem oid (trigSet s)\<rparr>
           else case (map_of ms (o_coin ord), o_triggerPx ord, o_tpsl ord) of
             (Some mid, Some triggerPx, Some tpsl) \<Rightarrow>
               if dormant s oid then s
               else if checkTrigger tpsl (o_isBuy ord) triggerPx mid
               then
                 let basePx = (if o_isMarket ord then mid else o_limitPx ord);
                     limitClamp = (if o_isMarket ord then None else Some (o_limitPx ord));
                     fillPx = computeFillPrice (lib E) (l2book E (o_coin ord)) ord basePx (Some limitClamp);
                     s1 = executeFill E ord fillPx True s
                 in s1\<lparr>trigSet := srem oid (trigSet s1)\<rparr>
               else s
           | _ \<Rightarrow> s)"

definition matchTriggerOrders :: "env \<Rightarrow> state \<Rightarrow> state" where
  "matchTriggerOrders E s =
    (if trigSet s = [] \<or> mids s = [] then s
     else foldl (\<lambda>acc oid. match_trigger_one E (mids s) oid acc) s (trigSet s))"

subsection \<open>Trailing stops\<close>

definition fireTrailingStop :: "env \<Rightarrow> oid \<Rightarrow> OrderHash \<Rightarrow> rat \<Rightarrow> state \<Rightarrow> state" where
  "fireTrailingStop E oid d mark s =
    (if status_of s oid \<noteq> Some St_open then s
     else
       let ord = h_order d; L = lib E; u = o_userId ord; a = o_asset ord; szi = p_szi (pos_of s u a)
       in if o_reduceOnly ord \<and> (isZero_d szi \<or> gt_d szi 0 = o_isBuy ord) then s
          else
            let s1 = freezeTrailingSnapshot E oid d s;
                affordable = (if o_reduceOnly ord then None
                  else map_option (\<lambda>cap. roundToDecimals L cap (trSzDec (h_trail d)))
                         (maxAffordableOrderSize L s1 u a (o_isBuy ord) mark));
                short = (case affordable of None \<Rightarrow> False | Some c \<Rightarrow> lt_d c (o_sz ord))
            in if short \<and> \<not> gt_d (the affordable) 0
               then snd (terminateTrailingStop E oid St_marginCanceled True True s1)
               else
                 let full = parseOrder (the (orders s1 oid));
                     ord' = (if short then full\<lparr>o_sz := the affordable\<rparr> else full);
                     mid = (case midPx s1 (o_coin ord') of None \<Rightarrow> mark | Some m \<Rightarrow> m);
                     fillPx = computeFillPrice L (l2book E (o_coin ord')) ord' mid (Some (Some (o_limitPx ord')))
                 in executeFill E ord' fillPx True s1)"

definition match_trailing_one :: "env \<Rightarrow> oid \<Rightarrow> state \<Rightarrow> state" where
  "match_trailing_one E oid s =
    (case orders s oid of None \<Rightarrow> s\<lparr>trailSet := srem oid (trailSet s)\<rparr>
     | Some d \<Rightarrow>
        if o_status (h_order d) \<noteq> St_open then s\<lparr>trailSet := srem oid (trailSet s)\<rparr>
        else case getFreshMark E s (o_coin (h_order d)) of None \<Rightarrow> s
          | Some mark \<Rightarrow>
             let (params, st) = readTrailing d
             in case evaluateTrailing (lib E) params st mark of None \<Rightarrow> s
                | Some ev \<Rightarrow>
                   let (_, d', s1) = persistTrailingEvaluation oid d ev s
                   in if te_fire ev then fireTrailingStop E oid d' mark s1 else s1)"

definition matchTrailingStops :: "env \<Rightarrow> state \<Rightarrow> state" where
  "matchTrailingStops E s = foldl (\<lambda>acc oid. match_trailing_one E oid acc) s (trailSet s)"

subsection \<open>Expiry\<close>

definition sweep_one :: "env \<Rightarrow> oid \<Rightarrow> state \<Rightarrow> state" where
  "sweep_one E oid s =
    (let s0 = s\<lparr>expiry := zrem oid (expiry s)\<rparr>
     in case orders s oid of None \<Rightarrow> s0
        | Some d \<Rightarrow>
           if o_status (h_order d) \<noteq> St_open then s0
           else
             let s1 = drop_from_sets oid (upd_hash oid (set_status St_cancelled (now E)) s0);
                 s2 = (if o_orderType (h_order d) = TrailingStop
                   then emitTrailingHistory d St_cancelled (now E) (buildTrailingBody (lib E) d False) s1 else s1)
             in emit (OrderUpdate (o_userId (h_order d)) (cancelled_row (o_userId (h_order d)) d (now E)) St_cancelled) s2)"

definition sweepExpired :: "env \<Rightarrow> state \<Rightarrow> state" where
  "sweepExpired E s = foldl (\<lambda>acc oid. sweep_one E oid acc) s (zrangebyscore (now E) (expiry s))"


end
