(* ===== verification/Liquidation.thy ===== *)
theory Liquidation
  imports Matcher
begin

text \<open>
  engine/liquidation.ts and engine/liquidator-vault.ts: the maintenance check of an isolated
  position and of the cross account of a dex, the closes it plans, the one transaction that
  books them, and the pass over all accounts that hold positions. The Postgres rows are
  events.
\<close>

subsection \<open>Maintenance margin\<close>

definition maintenanceMarginRate :: "declib \<Rightarrow> nat \<Rightarrow> rat" where
  "maintenanceMarginRate L leverage = div_d L 1 (of_nat (max 1 leverage * 2))"

record MaintenanceMarginResult =
  mr_maintenanceMargin :: rat
  mr_maintenanceMarginRate :: rat
  mr_positionNotional :: rat

definition computeMaintenanceMargin ::
    "declib \<Rightarrow> rat \<Rightarrow> rat \<Rightarrow> nat \<Rightarrow> HlMarginTier list option \<Rightarrow> MaintenanceMarginResult" where
  "computeMaintenanceMargin L szi markPx leverage tiers =
    (let positionNotional = mul_d L (abs_d szi) markPx
     in case (hasTiers tiers, maintenanceMarginRateForNotional L (the tiers) positionNotional) of
       (True, Some rate) \<Rightarrow>
         \<lparr>mr_maintenanceMargin = maintenanceMarginForNotional L (the tiers) positionNotional,
          mr_maintenanceMarginRate = rate, mr_positionNotional = positionNotional\<rparr>
     | _ \<Rightarrow>
         let rate = maintenanceMarginRate L leverage
         in \<lparr>mr_maintenanceMargin = mul_d L positionNotional rate, mr_maintenanceMarginRate = rate,
             mr_positionNotional = positionNotional\<rparr>)"

definition PARTIAL_LIQ_THRESHOLD_USDC :: rat where "PARTIAL_LIQ_THRESHOLD_USDC = 100000"
definition PARTIAL_LIQ_PCT :: rat where "PARTIAL_LIQ_PCT = 2 / 10"
definition PARTIAL_LIQ_COOLDOWN_MS :: millis where "PARTIAL_LIQ_COOLDOWN_MS = 30000"
definition BACKSTOP_FRACTION :: "declib \<Rightarrow> rat" where "BACKSTOP_FRACTION L = div_d L 2 3"

subsection \<open>The positions of an account\<close>

record PositionView =
  pv_asset :: asset
  pv_coin :: coin
  pv_szi :: rat
  pv_entryPx :: rat
  pv_px :: rat
  pv_leverage :: nat
  pv_isCross :: bool
  pv_notional :: rat
  pv_pnl :: rat
  pv_maintenanceMargin :: rat
  pv_isolatedMargin :: rat
  pv_raw :: PosHash

definition priceFor :: "env \<Rightarrow> 'a market_scheme \<Rightarrow> coin \<Rightarrow> rat option" where
  "priceFor E s c = (case getFreshMark E s c of Some m \<Rightarrow> Some m | None \<Rightarrow> midPx s c)"

definition view_of :: "env \<Rightarrow> 'a ledger_scheme \<Rightarrow> user \<Rightarrow> dex_name \<Rightarrow> asset \<Rightarrow> PositionView option" where
  \<comment> \<open>one round of the loop; \<open>None\<close> is continue\<close>
  "view_of E s u scope a =
    (case pos s u a of None \<Rightarrow> None
     | Some raw \<Rightarrow>
        if isZero_d (p_szi raw) then None
        else case priceFor E s (p_coin raw) of None \<Rightarrow> None
        | Some px \<Rightarrow>
           let L = lib E; l = getLeverageSetting s u a; leverage = lev_leverage l;
               metaOf = (if scope = '''' then meta s else meta_dex s scope);
               tiers = (case getMarginTiersForCoin metaOf (p_coin raw) of Some ts \<Rightarrow> ts
                 | None \<Rightarrow> [\<lparr>mt_lowerBound = 0, mt_maxLeverage = leverage\<rparr>]);
               r = computeMaintenanceMargin L (p_szi raw) px leverage (Some tiers)
           in Some \<lparr>pv_asset = a, pv_coin = p_coin raw, pv_szi = p_szi raw, pv_entryPx = p_entryPx raw, pv_px = px,
                pv_leverage = leverage, pv_isCross = lev_isCross l, pv_notional = mr_positionNotional r,
                pv_pnl = calculatePositionUnrealizedPnl L (p_szi raw) (p_entryPx raw) px,
                pv_maintenanceMargin = mr_maintenanceMargin r,
                pv_isolatedMargin = (if lev_isCross l then 0 else isolatedMarginOf L raw leverage), pv_raw = raw\<rparr>)"

definition loadPositions :: "env \<Rightarrow> 'a ledger_scheme \<Rightarrow> user \<Rightarrow> dex_name \<Rightarrow> PositionView list" where
  "loadPositions E s u scope = List.map_filter (view_of E s u scope) (posSet s u scope)"

definition crossAccountValue :: "declib \<Rightarrow> rat \<Rightarrow> PositionView list \<Rightarrow> rat" where
  "crossAccountValue L bal ps =
    foldl (\<lambda>v p. if pv_isCross p then add_d L v (pv_pnl p) else sub_d L v (pv_isolatedMargin p)) bal ps"

subsection \<open>The check\<close>

record Assessment =
  as_shouldLiquidate :: bool
  as_equity :: rat
  as_maintenanceMargin :: rat
  as_method :: LiqMethod
  as_targets :: "PositionView list"

definition assess :: "declib \<Rightarrow> rat \<Rightarrow> rat \<Rightarrow> PositionView list \<Rightarrow> Assessment" where
  "assess L equity mm targets =
    \<lparr>as_shouldLiquidate = (targets \<noteq> [] \<and> lt_d equity mm), as_equity = equity, as_maintenanceMargin = mm,
     as_method = (if lt_d equity (mul_d L mm (BACKSTOP_FRACTION L)) then Backstop else Market), as_targets = targets\<rparr>"

definition assessIsolated :: "declib \<Rightarrow> PositionView \<Rightarrow> Assessment" where
  "assessIsolated L p = assess L (add_d L (pv_isolatedMargin p) (pv_pnl p)) (pv_maintenanceMargin p) [p]"

definition assessCross :: "declib \<Rightarrow> rat \<Rightarrow> PositionView list \<Rightarrow> Assessment" where
  "assessCross L bal ps =
    (let cross = filter pv_isCross ps; mm = foldl (\<lambda>m p. add_d L m (pv_maintenanceMargin p)) 0 cross
     in assess L (crossAccountValue L bal ps) mm cross)"

definition assess_asset :: "env \<Rightarrow> 'a ledger_scheme \<Rightarrow> user \<Rightarrow> dex_name \<Rightarrow> asset \<Rightarrow> Assessment option" where
  \<comment> \<open>the assessment of the account that the asset's position belongs to\<close>
  "assess_asset E s u scope a =
    (let positions = loadPositions E s u scope
     in case List.find (\<lambda>p. pv_asset p = a) positions of None \<Rightarrow> None
        | Some p \<Rightarrow> Some (if pv_isCross p then assessCross (lib E) (getBalance s u scope) positions
                         else assessIsolated (lib E) p))"

record LiquidationCheckResult =
  lc_shouldLiquidate :: bool
  lc_accountEquity :: rat
  lc_maintenanceMargin :: rat
  lc_shortfall :: rat

definition checkLiquidation :: "env \<Rightarrow> 'a ledger_scheme \<Rightarrow> user \<Rightarrow> asset \<Rightarrow> dex_name \<Rightarrow> LiquidationCheckResult" where
  "checkLiquidation E s u a scope =
    (case assess_asset E s u scope a of
       None \<Rightarrow> \<lparr>lc_shouldLiquidate = False, lc_accountEquity = 0, lc_maintenanceMargin = 0, lc_shortfall = 0\<rparr>
     | Some r \<Rightarrow> \<lparr>lc_shouldLiquidate = as_shouldLiquidate r, lc_accountEquity = as_equity r,
         lc_maintenanceMargin = as_maintenanceMargin r,
         lc_shortfall = (if as_shouldLiquidate r then sub_d (lib E) (as_maintenanceMargin r) (as_equity r) else 0)\<rparr>)"

subsection \<open>Planning a close\<close>

definition szDecimalsFor :: "'a market_scheme \<Rightarrow> asset \<Rightarrow> nat" where
  "szDecimalsFor s a = (case loadUniverseEntry s a of None \<Rightarrow> 8
     | Some (universe, localIdx) \<Rightarrow> ai_szDecimals (universe ! localIdx))"

definition liquidationFillPx :: "env \<Rightarrow> PositionView \<Rightarrow> rat \<Rightarrow> LiqMethod \<Rightarrow> rat" where
  "liquidationFillPx E p sz meth =
    (if meth = Backstop then pv_px p
     else case l2book E (pv_coin p) of None \<Rightarrow> pv_px p
     | Some book \<Rightarrow>
        let isBuy = (\<not> gt_d (pv_szi p) 0)
        in vr_fillPx (computeVwap (lib E) (Some (if isBuy then bk_asks book else bk_bids book)) sz isBuy None (pv_px p)))"

record PlannedClose =
  pc_p :: PositionView
  pc_order :: PaperOrder
  pc_fill :: PaperFill
  pc_remaining :: rat

definition liq_dir :: "LiqMethod \<Rightarrow> bool \<Rightarrow> bool \<Rightarrow> FillDir" where
  "liq_dir meth isCross isLong =
    (if meth = Market then (if isLong then CloseLong else CloseShort)
     else if isCross then (if isLong then LiquidatedCrossLong else LiquidatedCrossShort)
     else (if isLong then LiquidatedIsolatedLong else LiquidatedIsolatedShort))"

definition planClose :: "env \<Rightarrow> user \<Rightarrow> PositionView \<Rightarrow> rat \<Rightarrow> LiqMethod \<Rightarrow> oid \<Rightarrow> nat \<Rightarrow> PlannedClose" where
  \<comment> \<open>the last two arguments are the oid and tid drawn for the close\<close>
  "planClose E u p closeAbs meth oid tid =
    (let L = lib E; isLong = gt_d (pv_szi p) 0; posAbs = abs_d (pv_szi p);
         sz = (if gt_d closeAbs posAbs then posAbs else closeAbs);
         px = liquidationFillPx E p sz meth;
         closedPnl = calculatePositionUnrealizedPnl L (if isLong then sz else neg_d sz) (pv_entryPx p) px;
         fee = (if meth = Market \<and> FEES_ENABLED E then mul_d L (mul_d L sz px) (FEE_RATE_TAKER E) else 0);
         ord = \<lparr>o_oid = oid, o_cloid = None, o_userId = u, o_asset = pv_asset p, o_coin = pv_coin p, o_isBuy = (\<not> isLong),
           o_sz = sz, o_limitPx = px, o_orderType = Limit, o_tif = Ioc, o_reduceOnly = True, o_triggerPx = None,
           o_tpsl = None, o_isMarket = False, o_grouping = Na, o_status = St_filled, o_filledSz = sz, o_avgPx = px,
           o_createdAt = now E, o_updatedAt = now E, o_builder = None, o_twapId = None\<rparr>;
         fill = \<lparr>f_coin = pv_coin p, f_px = px, f_sz = sz, f_side = (if isLong then SideA else SideB), f_time = now E,
           f_startPosition = pv_szi p, f_dir = liq_dir meth (pv_isCross p) isLong, f_closedPnl = closedPnl,
           f_hash = TidHash tid, f_oid = oid, f_crossed = True, f_fee = fee, f_tid = tid, f_cloid = None,
           f_twapId = None,
           f_liquidation = Some \<lparr>fl_liquidatedUser = u, fl_markPx = pv_px p, fl_method = meth\<rparr>\<rparr>
     in \<lparr>pc_p = p, pc_order = ord, pc_fill = fill, pc_remaining = sub_d L posAbs sz\<rparr>)"

definition slice_of :: "env \<Rightarrow> 'a market_scheme \<Rightarrow> LiqMethod \<Rightarrow> bool \<Rightarrow> PositionView \<Rightarrow> rat option" where
  \<comment> \<open>the 20 percent that a large market liquidation sends first, \<open>None\<close> for a full close\<close>
  "slice_of E s meth inCooldown p =
    (if meth = Market \<and> \<not> inCooldown \<and> gt_d (pv_notional p) PARTIAL_LIQ_THRESHOLD_USDC
     then let slice = roundToDecimals (lib E) (mul_d (lib E) (abs_d (pv_szi p)) PARTIAL_LIQ_PCT)
                        (szDecimalsFor s (pv_asset p))
          in if gt_d slice 0 then Some slice else None
     else None)"

fun plan_closes ::
    "env \<Rightarrow> user \<Rightarrow> LiqMethod \<Rightarrow> bool \<Rightarrow> PositionView list \<Rightarrow> state \<Rightarrow> PlannedClose list \<times> state" where
  "plan_closes E u meth inCooldown [] s = ([], s)"
| "plan_closes E u meth inCooldown (p # ps) s =
    (let closeAbs = (case slice_of E s meth inCooldown p of Some sl \<Rightarrow> sl | None \<Rightarrow> abs_d (pv_szi p));
         oid = Suc (seqOid s); tid = Suc (seqTid s);
         c = planClose E u p closeAbs meth oid tid;
         (cs, s') = plan_closes E u meth inCooldown ps (s\<lparr>seqOid := oid, seqTid := tid\<rparr>)
     in (c # cs, s'))"

subsection \<open>The liquidator vault\<close>

definition vault_total :: "state \<Rightarrow> rat" where
  "vault_total s = (case vault s of None \<Rightarrow> 0 | Some v \<Rightarrow> lv_totalCollected v)"

definition queueVaultCredit :: "env \<Rightarrow> rat \<Rightarrow> state \<Rightarrow> bool \<times> state" where
  "queueVaultCredit E proceeds s =
    (if \<not> gt_d proceeds 0 \<or> LIQUIDATOR_VAULT_ADDRESS E = '''' then (False, s)
     else (True, s\<lparr>vault := Some \<lparr>lv_totalCollected = incrf E (vault_total s) proceeds,
       lv_vaultAddress = LIQUIDATOR_VAULT_ADDRESS E, lv_lastUpdated = now E\<rparr>\<rparr>))"

definition creditVault :: "env \<Rightarrow> rat \<Rightarrow> state \<Rightarrow> state" where
  "creditVault E proceeds s =
    (if \<not> gt_d proceeds 0 \<or> LIQUIDATOR_VAULT_ADDRESS E = '''' then s
     else s\<lparr>vault := Some \<lparr>lv_totalCollected = add_d (lib E) (vault_total s) proceeds,
       lv_vaultAddress = LIQUIDATOR_VAULT_ADDRESS E, lv_lastUpdated = now E\<rparr>\<rparr>)"

definition getVaultState :: "env \<Rightarrow> state \<Rightarrow> LiquidatorVaultState" where
  "getVaultState E s = (case vault s of Some v \<Rightarrow> v
     | None \<Rightarrow> \<lparr>lv_totalCollected = 0, lv_vaultAddress = LIQUIDATOR_VAULT_ADDRESS E, lv_lastUpdated = 0\<rparr>)"

definition initVault :: "env \<Rightarrow> state \<Rightarrow> state" where
  "initVault E s =
    (if LIQUIDATOR_VAULT_ADDRESS E = '''' \<or> vault s \<noteq> None then s
     else s\<lparr>vault := Some \<lparr>lv_totalCollected = 0, lv_vaultAddress = LIQUIDATOR_VAULT_ADDRESS E,
       lv_lastUpdated = now E\<rparr>\<rparr>)"

subsection \<open>Booking a liquidation\<close>

definition emit_all :: "event list \<Rightarrow> state \<Rightarrow> state" where
  "emit_all evs s = s\<lparr>bus := bus s @ evs\<rparr>"

definition signed_remaining :: "PlannedClose \<Rightarrow> rat" where
  "signed_remaining c =
    (if isZero_d (pc_remaining c) then 0
     else if gt_d (pv_szi (pc_p c)) 0 then pc_remaining c else neg_d (pc_remaining c))"

definition reduced_hash :: "declib \<Rightarrow> PlannedClose \<Rightarrow> PosHash \<Rightarrow> PosHash" where
  \<comment> \<open>the size that is left, and of an isolated position the share of its margin\<close>
  "reduced_hash L c h =
    (let p = pc_p c; h1 = h\<lparr>p_szi := signed_remaining c\<rparr>;
         keep = div_d L (pc_remaining c) (abs_d (pv_szi p));
         alloc = (case p_marginAlloc (pv_raw p) of Some m \<Rightarrow> m
           | None \<Rightarrow> div_d L (mul_d L (abs_d (pv_szi p)) (pv_entryPx p)) (of_nat (pv_leverage p)))
     in if pv_isCross p then h1
        else h1\<lparr>p_marginAlloc := Some (mul_d L alloc keep),
                p_rawUsd := (case p_rawUsd (pv_raw p) of None \<Rightarrow> p_rawUsd h1 | Some r \<Rightarrow> Some (mul_d L r keep))\<rparr>)"

definition queueClose :: "env \<Rightarrow> user \<Rightarrow> dex_name \<Rightarrow> PlannedClose \<Rightarrow> state \<Rightarrow> state" where
  "queueClose E u scope c s =
    (let a = pv_asset (pc_p c); fill = pc_fill c;
         s1 = (if isZero_d (pc_remaining c)
           then s\<lparr>pos := (pos s)(u := (pos s u)(a := None)),
                  posSet := (posSet s)(u := (\<lambda>sc. if sc = scope \<or> sc = '''' then srem a (posSet s u sc)
                                             else posSet s u sc))\<rparr>
           else s\<lparr>pos := (pos s)(u := (pos s u)(a := map_option (reduced_hash (lib E) c) (pos s u a)))\<rparr>);
         s2 = fill_balance E u scope (f_closedPnl fill) (f_fee fill) s1
     in s2\<lparr>fills := (fills s2)(u := fill # fills s2 u)\<rparr>)"

definition cooldown_key :: "user \<Rightarrow> dex_name \<Rightarrow> PositionView \<Rightarrow> user \<times> dex_name \<times> asset option" where
  "cooldown_key u scope p = (u, scope, if pv_isCross p then None else Some (pv_asset p))"

definition in_cooldown :: "env \<Rightarrow> state \<Rightarrow> user \<times> dex_name \<times> asset option \<Rightarrow> bool" where
  "in_cooldown E s key = (case liqCooldown s key of None \<Rightarrow> False | Some t \<Rightarrow> now E < t)"

definition backstop_events :: "env \<Rightarrow> user \<Rightarrow> Assessment \<Rightarrow> PlannedClose list \<Rightarrow> event list" where
  "backstop_events E u a closes =
    (if as_method a = Market then []
     else
       let ntl = foldl (\<lambda>n p. add_d (lib E) n (pv_notional p)) 0 (as_targets a)
       in [LiquidationLedger u (now E)
             \<lparr>ld_liquidatedNtlPos = ntl, ld_accountValue = as_equity a, ld_isCross = pv_isCross (hd (as_targets a)),
              ld_liquidatedPositions = map (\<lambda>p. (pv_coin p, pv_szi p)) (as_targets a)\<rparr>,
           LiquidationUser u (f_tid (pc_fill (hd closes))) ntl (as_equity a)])"

definition liquidation_log :: "user \<Rightarrow> Assessment \<Rightarrow> rat \<Rightarrow> nat \<times> PlannedClose \<Rightarrow> event" where
  "liquidation_log u a transferred ic =
    (let (i, c) = ic; p = pc_p c
     in LiquidationLog \<lparr>le_userId = u, le_asset = pv_asset p, le_coin = pv_coin p, le_szi = f_sz (pc_fill c),
          le_markPx = pv_px p, le_entryPx = pv_entryPx p, le_leverage = pv_leverage p, le_isCross = pv_isCross p,
          le_amountRecovered = (if i = 0 then transferred else 0),
          le_marginLost = (if as_method a = Backstop
             then (if pv_isCross p then pv_maintenanceMargin p else pv_isolatedMargin p) else 0),
          le_full = isZero_d (pc_remaining c), le_time = f_time (pc_fill c)\<rparr>)"

definition reconcile_close :: "env \<Rightarrow> user \<Rightarrow> state \<Rightarrow> PlannedClose \<Rightarrow> state" where
  "reconcile_close E u s c =
    (let (orphans, s') = reconcileReduceOnlyStops E u (pv_asset (pc_p c)) (signed_remaining c) s
     in if orphans \<noteq> [] then emit (OrderUpdateBatch u orphans) s' else s')"

definition liq_transaction ::
    "env \<Rightarrow> user \<Rightarrow> dex_name \<Rightarrow> Assessment \<Rightarrow> PlannedClose list \<Rightarrow> bool \<Rightarrow> state \<Rightarrow> state" where
  \<comment> \<open>the MULTI: the closes, the debit of a backstop, the vault credit, the cooldown marker\<close>
  "liq_transaction E u scope a closes partial s =
    (let transferred = (if as_method a = Backstop then as_equity a else 0);
         s1 = foldl (\<lambda>acc c. queueClose E u scope c acc) s closes;
         s2 = (if isZero_d transferred then s1 else incr_balance E u scope (neg_d transferred) s1);
         s3 = snd (queueVaultCredit E transferred s2)
     in if partial
        then s3\<lparr>liqCooldown := (liqCooldown s3)(cooldown_key u scope (hd (as_targets a)) \<mapsto> now E + PARTIAL_LIQ_COOLDOWN_MS)\<rparr>
        else s3)"

definition runLiquidation :: "env \<Rightarrow> user \<Rightarrow> dex_name \<Rightarrow> Assessment \<Rightarrow> state \<Rightarrow> bool \<times> state" where
  \<comment> \<open>every caller has checked \<open>as_shouldLiquidate\<close>, so there is a target\<close>
  "runLiquidation E u scope a s =
    (case as_targets a of [] \<Rightarrow> (False, s)
     | first # _ \<Rightarrow>
        let inCooldown = in_cooldown E s (cooldown_key u scope first);
            partial = list_ex (\<lambda>p. slice_of E s (as_method a) inCooldown p \<noteq> None) (as_targets a);
            (closes, s1) = plan_closes E u (as_method a) inCooldown (as_targets a) s;
            transferred = (if as_method a = Backstop then as_equity a else 0);
            s2 = liq_transaction E u scope a closes partial s1;
            s3 = emit_all (concat (map (\<lambda>c. [LiquidationOrder (pc_order c), FillEvent u (pc_fill c)]) closes)) s2;
            s4 = emit_all (backstop_events E u a closes) s3;
            s5 = (if trailSet s4 = [] then s4 else foldl (reconcile_close E u) s4 closes);
            s6 = emit_all (map (liquidation_log u a transferred) (enumerate 0 closes)) s5
        in (True, emit (AccountUpdate u) s6))"

subsection \<open>The passes\<close>

definition executeLiquidation :: "env \<Rightarrow> user \<Rightarrow> asset \<Rightarrow> dex_name \<Rightarrow> state \<Rightarrow> bool \<times> state" where
  "executeLiquidation E u a scope s =
    (case assess_asset E s u scope a of None \<Rightarrow> (False, s)
     | Some r \<Rightarrow> if as_shouldLiquidate r then runLiquidation E u scope r s else (False, s))"

definition liquidate_isolated :: "env \<Rightarrow> user \<Rightarrow> dex_name \<Rightarrow> state \<Rightarrow> PositionView \<Rightarrow> state" where
  "liquidate_isolated E u scope s p =
    (if pv_isCross p then s
     else let r = assessIsolated (lib E) p
          in if as_shouldLiquidate r then snd (runLiquidation E u scope r s) else s)"

definition checkAndLiquidateUser :: "env \<Rightarrow> user \<Rightarrow> dex_name \<Rightarrow> state \<Rightarrow> state" where
  "checkAndLiquidateUser E u scope s =
    (let s1 = foldl (liquidate_isolated E u scope) s (loadPositions E s u scope);
         positions = loadPositions E s1 u scope
     in if list_ex pv_isCross positions
        then let r = assessCross (lib E) (getBalance s1 u scope) positions
             in if as_shouldLiquidate r then snd (runLiquidation E u scope r s1) else s1
        else s1)"

definition positionHolders :: "state \<Rightarrow> (user \<times> dex_name) list \<times> state" where
  \<comment> \<open>the accounts whose position set is not empty; the others are pruned\<close>
  "positionHolders s =
    (filter (\<lambda>(u, sc). posSet s u sc \<noteq> []) (holders s),
     s\<lparr>holders := filter (\<lambda>(u, sc). posSet s u sc \<noteq> []) (holders s)\<rparr>)"

definition backfillPositionHolders :: "state \<Rightarrow> state" where
  "backfillPositionHolders s =
    s\<lparr>holders := foldr sadd
       (concat (map (\<lambda>u. map (Pair u) (filter (\<lambda>sc. posSet s u sc \<noteq> []) ('''' # subDexNames s))) (usersActive s)))
       (holders s)\<rparr>"

definition checkAndLiquidateAll :: "env \<Rightarrow> state \<Rightarrow> state" where
  "checkAndLiquidateAll E s =
    (let (accounts, s1) = positionHolders s in foldl (\<lambda>acc (u, scope). checkAndLiquidateUser E u scope acc) s1 accounts)"

definition positionCoins :: "state \<Rightarrow> coin list \<times> state" where
  "positionCoins s =
    (let (accounts, s1) = positionHolders s
     in (remdups (filter (\<lambda>c. c \<noteq> '''')
           (concat (map (\<lambda>(u, sc). List.map_filter (\<lambda>a. map_option p_coin (pos s1 u a)) (posSet s1 u sc)) accounts))), s1))"

definition keepMarks :: "env \<Rightarrow> (dex_name \<Rightarrow> (coin \<times> rat option) list option) \<Rightarrow> state \<Rightarrow> state" where
  \<comment> \<open>liquidation-worker.ts: a mark subscription and an HTTP refresh for every coin with a position\<close>
  "keepMarks E resp s =
    (let (coins, s1) = positionCoins s; s2 = emit_all (map MarkSub coins) s1
     in snd (refreshMarks (now E) resp coins s2))"

subsection \<open>Frames\<close>

lemma state_seq_twice:
  "s' = (s\<lparr>seqOid := a, seqTid := b\<rparr>)\<lparr>seqOid := c, seqTid := d\<rparr> \<Longrightarrow> s' = (s::state)\<lparr>seqOid := c, seqTid := d\<rparr>"
  by simp

lemma plan_closes_frame:
  assumes "plan_closes E u meth ic ps s = (cs, s')"
  shows "s' = s\<lparr>seqOid := seqOid s', seqTid := seqTid s'\<rparr> \<and> seqOid s \<le> seqOid s'" "map pc_p cs = ps"
    "\<forall>c \<in> set cs. \<exists>oid tid. c = planClose E u (pc_p c)
       (case slice_of E s meth ic (pc_p c) of Some sl \<Rightarrow> sl | None \<Rightarrow> abs_d (pv_szi (pc_p c))) meth oid tid"
proof -
  have "(s' = s\<lparr>seqOid := seqOid s', seqTid := seqTid s'\<rparr> \<and> seqOid s \<le> seqOid s') \<and> map pc_p cs = ps \<and>
    (\<forall>c \<in> set cs. \<exists>oid tid. c = planClose E u (pc_p c)
       (case slice_of E s meth ic (pc_p c) of Some sl \<Rightarrow> sl | None \<Rightarrow> abs_d (pv_szi (pc_p c))) meth oid tid)"
    using assms
  proof (induction ps arbitrary: s cs)
    case Nil
    then show ?case by auto
  next
    case (Cons p ps)
    let ?t = "s\<lparr>seqOid := Suc (seqOid s), seqTid := Suc (seqTid s)\<rparr>"
    obtain cs' where r: "plan_closes E u meth ic ps ?t = (cs', s')"
      and cs: "cs = planClose E u p (case slice_of E s meth ic p of Some sl \<Rightarrow> sl | None \<Rightarrow> abs_d (pv_szi p)) meth
        (Suc (seqOid s)) (Suc (seqTid s)) # cs'"
      using Cons.prems by (auto simp: Let_def split: prod.splits)
    have sl: "slice_of E ?t meth ic q = slice_of E s meth ic q" for q
      by (simp add: slice_of_def szDecimalsFor_def market_cong(3) [of ?t s] market.defs)
    have p: "pc_p (planClose E u p x meth oid tid) = p" for x oid tid by (simp add: planClose_def Let_def)
    from Cons.IH [OF r] have "s' = s\<lparr>seqOid := seqOid s', seqTid := seqTid s'\<rparr>" by (metis state_seq_twice)
    moreover have "seqOid s \<le> seqOid s'" using Cons.IH [OF r] by simp
    moreover have "map pc_p cs = p # ps" using Cons.IH [OF r] by (simp add: cs p)
    moreover have "\<exists>oid tid. c = planClose E u (pc_p c)
       (case slice_of E s meth ic (pc_p c) of Some sl \<Rightarrow> sl | None \<Rightarrow> abs_d (pv_szi (pc_p c))) meth oid tid"
      if "c \<in> set cs" for c
    proof (cases "c \<in> set cs'")
      case True
      then show ?thesis using Cons.IH [OF r] by (simp only: sl)
    next
      case False
      with that have "c = planClose E u p (case slice_of E s meth ic p of Some sl \<Rightarrow> sl | None \<Rightarrow> abs_d (pv_szi p)) meth
        (Suc (seqOid s)) (Suc (seqTid s))" by (simp add: cs)
      with p show ?thesis by metis
    qed
    ultimately show ?case by blast
  qed
  then show "s' = s\<lparr>seqOid := seqOid s', seqTid := seqTid s'\<rparr> \<and> seqOid s \<le> seqOid s'" "map pc_p cs = ps"
    "\<forall>c \<in> set cs. \<exists>oid tid. c = planClose E u (pc_p c)
       (case slice_of E s meth ic (pc_p c) of Some sl \<Rightarrow> sl | None \<Rightarrow> abs_d (pv_szi (pc_p c))) meth oid tid"
    by blast+
qed

lemma emit_all_fields [simp]:
  "ledger.truncate (emit_all evs s) = ledger.truncate s" "book.truncate (emit_all evs s) = book.truncate s"
  "trailSet (emit_all evs s) = trailSet s" "liqCooldown (emit_all evs s) = liqCooldown s" "vault (emit_all evs s) = vault s"
  by (simp_all add: emit_all_def ledger.defs book.defs)

lemma getBalance_cong: "balance s = balance t \<Longrightarrow> getBalance s u sc = getBalance t u sc"
  by (simp add: getBalance_def)

lemma getBalance_incr:
  "getBalance (incr_balance E u sc d s) v sc' = (if v = u \<and> sc' = sc then incrf E (getBalance s u sc) d else getBalance s v sc')"
  by (simp add: getBalance_def incr_balance_def)

text \<open>The balance after a sequence of HINCRBYFLOAT credits, the zero ones of which are skipped.\<close>

definition credit :: "env \<Rightarrow> rat \<Rightarrow> rat \<Rightarrow> rat" where
  "credit E b x = (if x = 0 then b else incrf E b x)"

fun credit_pairs :: "rat \<Rightarrow> rat list \<Rightarrow> (rat \<times> rat) set" where
  \<comment> \<open>the sums HINCRBYFLOAT computes, when it computes them exactly\<close>
  "credit_pairs b [] = {}"
| "credit_pairs b (x # xs) = insert (b, x) (credit_pairs (b + x) xs)"

lemma credit_exact: "incr_exact E (credit_pairs b xs) \<Longrightarrow> foldl (credit E) b xs = b + sum_list xs"
proof (induction xs arbitrary: b)
  case (Cons x xs)
  from Cons.prems have "incr_exact E (credit_pairs (b + x) xs)" and "credit E b x = b + x"
    by (auto simp: incr_exact_def credit_def)
  with Cons.IH show ?case by (simp add: algebra_simps)
qed simp

definition close_credits :: "PlannedClose list \<Rightarrow> rat list" where
  "close_credits closes = concat (map (\<lambda>c. [f_closedPnl (pc_fill c), - f_fee (pc_fill c)]) closes)"

lemma fill_balance_get:
  "getBalance (fill_balance E u scope pnl fee s) u scope = credit E (credit E (getBalance s u scope) pnl) (- fee)"
  by (simp add: getBalance_def fill_balance_value credit_def Let_def)

lemma fill_balance_other:
  "(v, sc) \<noteq> (u, scope) \<Longrightarrow> balance (fill_balance E u scope pnl fee s) v sc = balance s v sc"
  by (auto simp: fill_balance_value)

lemma queueClose_balance:
  "getBalance (queueClose E u scope c s) u scope =
    credit E (credit E (getBalance s u scope) (f_closedPnl (pc_fill c))) (- f_fee (pc_fill c))"
  "(v, sc) \<noteq> (u, scope) \<Longrightarrow> balance (queueClose E u scope c s) v sc = balance s v sc"
proof -
  let ?s1 = "if isZero_d (pc_remaining c)
           then s\<lparr>pos := (pos s)(u := (pos s u)(pv_asset (pc_p c) := None)),
                  posSet := (posSet s)(u := (\<lambda>sc. if sc = scope \<or> sc = '''' then srem (pv_asset (pc_p c)) (posSet s u sc)
                                             else posSet s u sc))\<rparr>
           else s\<lparr>pos := (pos s)(u := (pos s u)(pv_asset (pc_p c) := map_option (reduced_hash (lib E) c) (pos s u (pv_asset (pc_p c)))))\<rparr>"
  have b: "balance ?s1 = balance s" by simp
  have q: "balance (queueClose E u scope c s) = balance (fill_balance E u scope (f_closedPnl (pc_fill c)) (f_fee (pc_fill c)) ?s1)"
    by (simp only: queueClose_def Let_def) simp
  show "getBalance (queueClose E u scope c s) u scope =
      credit E (credit E (getBalance s u scope) (f_closedPnl (pc_fill c))) (- f_fee (pc_fill c))"
    by (simp only: getBalance_cong [OF q] fill_balance_get getBalance_cong [OF b])
  show "(v, sc) \<noteq> (u, scope) \<Longrightarrow> balance (queueClose E u scope c s) v sc = balance s v sc"
    by (simp only: q fill_balance_other b not_False_eq_True)
qed

lemma queueClose_pos:
  "pos (queueClose E u scope c s) v b =
    (if v = u \<and> b = pv_asset (pc_p c)
     then if pc_remaining c = 0 then None else map_option (reduced_hash (lib E) c) (pos s v b)
     else pos s v b)"
  by (simp add: queueClose_def Let_def fill_balance_def incr_balance_def)

lemma queueClose_frame:
  "queueClose E u scope c s = s\<lparr>balance := balance (queueClose E u scope c s), pos := pos (queueClose E u scope c s),
    posSet := posSet (queueClose E u scope c s), fills := fills (queueClose E u scope c s)\<rparr>"
  by (simp add: queueClose_def Let_def fill_balance_def incr_balance_def)

lemma terminate_extra:
  "terminateTrailingStop E oid st em af s = (b, s') \<Longrightarrow> liqCooldown s' = liqCooldown s \<and> vault s' = vault s"
  by (auto simp: terminateTrailingStop_def Let_def upd_hash_def drop_from_sets_def emit_def emitTrailingHistory_def
      split: option.splits if_splits)

lemma reconcile_extra:
  "reconcile_loop E u a n oids s = (ups, s') \<Longrightarrow> liqCooldown s' = liqCooldown s \<and> vault s' = vault s"
  by (induction oids arbitrary: s ups)
    (auto split: option.splits if_splits prod.splits dest!: terminate_extra)

lemma reconcile_close_frame:
  "ledger.truncate (reconcile_close E u s c) = ledger.truncate s \<and>
   liqCooldown (reconcile_close E u s c) = liqCooldown s \<and> vault (reconcile_close E u s c) = vault s"
proof -
  obtain ups s' where r: "reconcile_loop E u (pv_asset (pc_p c)) (signed_remaining c) (trailSet s) s = (ups, s')" by force
  show ?thesis
    using reconcile_frame [OF r] reconcile_extra [OF r]
    by (auto simp: reconcile_close_def reconcileReduceOnlyStops_def r emit_def)
qed

lemma reconcile_closes_frame:
  "ledger.truncate (foldl (reconcile_close E u) s cs) = ledger.truncate s \<and>
   liqCooldown (foldl (reconcile_close E u) s cs) = liqCooldown s \<and> vault (foldl (reconcile_close E u) s cs) = vault s"
  by (induction cs arbitrary: s) (simp_all add: reconcile_close_frame)

lemma runLiquidation_eq:
  assumes "as_targets a = first # rest" and ic: "ic = in_cooldown E s (cooldown_key u scope first)"
    and p: "plan_closes E u (as_method a) ic (as_targets a) s = (closes, s1)"
    and r: "runLiquidation E u scope a s = (did, s')"
  defines "t \<equiv> liq_transaction E u scope a closes (list_ex (\<lambda>p. slice_of E s (as_method a) ic p \<noteq> None) (as_targets a)) s1"
  shows "did" "ledger.truncate s' = ledger.truncate t" "liqCooldown s' = liqCooldown t" "vault s' = vault t"
proof -
  define s4 where "s4 = emit_all (backstop_events E u a closes)
    (emit_all (concat (map (\<lambda>c. [LiquidationOrder (pc_order c), FillEvent u (pc_fill c)]) closes)) t)"
  define s5 where "s5 = (if trailSet s4 = [] then s4 else foldl (reconcile_close E u) s4 closes)"
  have eq: "(did, s') = (True, emit (AccountUpdate u) (emit_all (map (liquidation_log u a
      (if as_method a = Backstop then as_equity a else 0)) (enumerate 0 closes)) s5))"
    unfolding r [symmetric] runLiquidation_def assms(1) list.case ic [symmetric] Let_def
      p [unfolded assms(1)] prod.case s5_def s4_def t_def by (simp only: assms(1))
  have s5: "ledger.truncate s5 = ledger.truncate t \<and> liqCooldown s5 = liqCooldown t \<and> vault s5 = vault t"
    using reconcile_closes_frame [of E u s4 closes] by (simp add: s5_def s4_def)
  with eq show "did" "ledger.truncate s' = ledger.truncate t" "liqCooldown s' = liqCooldown t" "vault s' = vault t"
    by (simp_all add: emit_def)
qed

lemma queueVaultCredit_frame:
  "snd (queueVaultCredit E x s) = s\<lparr>vault := vault (snd (queueVaultCredit E x s))\<rparr>"
  by (simp add: queueVaultCredit_def)

lemma queueClose_fields:
  "orders (queueClose E u scope c s) = orders s \<and> liqCooldown (queueClose E u scope c s) = liqCooldown s \<and>
   vault (queueClose E u scope c s) = vault s \<and> market.truncate (queueClose E u scope c s) = market.truncate s \<and>
   openSet (queueClose E u scope c s) = openSet s \<and> trigSet (queueClose E u scope c s) = trigSet s \<and>
   trailSet (queueClose E u scope c s) = trailSet s \<and> bracket (queueClose E u scope c s) = bracket s \<and>
   children (queueClose E u scope c s) = children s \<and> parentOf (queueClose E u scope c s) = parentOf s \<and>
   seqOid (queueClose E u scope c s) = seqOid s"
  by (simp add: queueClose_def Let_def fill_balance_def incr_balance_def)

abbreviation closes_booked :: "env \<Rightarrow> user \<Rightarrow> dex_name \<Rightarrow> PlannedClose list \<Rightarrow> state \<Rightarrow> state" where
  "closes_booked E u scope closes s \<equiv> foldl (\<lambda>acc c. queueClose E u scope c acc) s closes"

lemma closes_booked_fields:
  assumes "f = closes_booked E u scope closes s"
  shows "orders f = orders s" "liqCooldown f = liqCooldown s" "vault f = vault s"
    "market.truncate f = market.truncate s" "openSet f = openSet s" "trigSet f = trigSet s" "trailSet f = trailSet s"
    "bracket f = bracket s" "children f = children s" "parentOf f = parentOf s" "seqOid f = seqOid s"
  unfolding assms by (induction closes arbitrary: s) (simp_all add: queueClose_fields)

lemma closes_booked_balance:
  assumes "f = closes_booked E u scope closes s"
  shows "getBalance f u scope = foldl (credit E) (getBalance s u scope) (close_credits closes)"
    "(v, sc) \<noteq> (u, scope) \<Longrightarrow> balance f v sc = balance s v sc"
  unfolding assms by (induction closes arbitrary: s) (simp_all add: queueClose_balance close_credits_def)

lemma liq_transaction_fields:
  assumes t: "t = liq_transaction E u scope a closes partial s" and f: "f = closes_booked E u scope closes s"
  shows "pos t = pos f" "posSet t = posSet f"
    "getBalance t u scope = credit E (foldl (credit E) (getBalance s u scope) (close_credits closes))
       (if as_method a = Backstop then - as_equity a else 0)"
    "(v, sc) \<noteq> (u, scope) \<Longrightarrow> balance t v sc = balance s v sc"
    "liqCooldown t = (if partial then (liqCooldown s)(cooldown_key u scope (hd (as_targets a)) \<mapsto> now E + PARTIAL_LIQ_COOLDOWN_MS)
       else liqCooldown s)"
    "vault_total t = (if as_method a = Backstop \<and> 0 < as_equity a \<and> LIQUIDATOR_VAULT_ADDRESS E \<noteq> ''''
       then incrf E (vault_total s) (as_equity a) else vault_total s)"
    "orders t = orders s" "market.truncate t = market.truncate s" "openSet t = openSet s" "trigSet t = trigSet s"
    "trailSet t = trailSet s" "bracket t = bracket s" "children t = children s" "parentOf t = parentOf s"
    "seqOid t = seqOid s"
proof -
  note ff = closes_booked_fields [OF f] and fb = closes_booked_balance [OF f]
  define x where "x = (if as_method a = Backstop then as_equity a else 0)"
  define s2 where "s2 = (if isZero_d x then f else incr_balance E u scope (neg_d x) f)"
  define s3 where "s3 = snd (queueVaultCredit E x s2)"
  have t: "t = (if partial
      then s3\<lparr>liqCooldown := (liqCooldown s3)(cooldown_key u scope (hd (as_targets a)) \<mapsto> now E + PARTIAL_LIQ_COOLDOWN_MS)\<rparr>
      else s3)"
    by (simp only: t liq_transaction_def Let_def f s2_def s3_def x_def)
  have s2: "s2 = f\<lparr>balance := balance s2\<rparr>" by (simp add: s2_def incr_balance_def)
  have s3: "s3 = f\<lparr>balance := balance s2, vault := vault s3\<rparr>"
    unfolding s3_def by (subst queueVaultCredit_frame) (subst s2, simp)
  have fields: "pos s3 = pos f" "posSet s3 = posSet f" "balance s3 = balance s2" "liqCooldown s3 = liqCooldown f"
    "orders s3 = orders f" "market.truncate s3 = market.truncate f" "openSet s3 = openSet f" "trigSet s3 = trigSet f"
    "trailSet s3 = trailSet f" "bracket s3 = bracket f" "children s3 = children f" "parentOf s3 = parentOf f"
    "seqOid s3 = seqOid f"
    by (subst s3, simp add: market.defs)+
  show "pos t = pos f" "posSet t = posSet f" using fields by (simp_all add: t)
  show "liqCooldown t = (if partial then (liqCooldown s)(cooldown_key u scope (hd (as_targets a)) \<mapsto> now E + PARTIAL_LIQ_COOLDOWN_MS)
       else liqCooldown s)" using fields ff by (simp add: t)
  have b: "balance t = balance s2" using fields by (simp add: t)
  show "getBalance t u scope = credit E (foldl (credit E) (getBalance s u scope) (close_credits closes))
       (if as_method a = Backstop then - as_equity a else 0)"
    using fb(1) by (simp add: getBalance_cong [OF b]) (simp add: s2_def x_def getBalance_incr credit_def)
  show "(v, sc) \<noteq> (u, scope) \<Longrightarrow> balance t v sc = balance s v sc"
    using fb(2) by (simp add: b) (auto simp: s2_def incr_balance_def)
  have "vault s2 = vault f" by (subst s2) simp
  then have v: "vault_total s2 = vault_total s" using ff by (simp add: vault_total_def)
  have "vault t = vault s3" by (simp add: t)
  then have "vault_total t = vault_total s3" by (simp add: vault_total_def)
  also have "\<dots> = (if as_method a = Backstop \<and> 0 < as_equity a \<and> LIQUIDATOR_VAULT_ADDRESS E \<noteq> ''''
       then incrf E (vault_total s) (as_equity a) else vault_total s)"
    by (auto simp: s3_def x_def queueVaultCredit_def v) (auto simp: vault_total_def v [unfolded vault_total_def])
  finally show "vault_total t = (if as_method a = Backstop \<and> 0 < as_equity a \<and> LIQUIDATOR_VAULT_ADDRESS E \<noteq> ''''
       then incrf E (vault_total s) (as_equity a) else vault_total s)" .
  show "orders t = orders s" "market.truncate t = market.truncate s" "openSet t = openSet s" "trigSet t = trigSet s"
    "trailSet t = trailSet s" "bracket t = bracket s" "children t = children s" "parentOf t = parentOf s"
    "seqOid t = seqOid s"
    using fields ff by (simp_all add: t market.defs)
qed

subsection \<open>What a liquidation does to positions\<close>

definition reduces :: "rat \<Rightarrow> rat \<Rightarrow> bool" where
  \<comment> \<open>the second size is the first one, a smaller one on the same side, or zero\<close>
  "reduces x y \<longleftrightarrow> (0 \<le> y \<and> y \<le> x) \<or> (x \<le> y \<and> y \<le> 0)"

lemma reduces_refl [simp]: "reduces x x" and reduces_0 [simp]: "reduces x 0"
  by (auto simp: reduces_def)

definition view_ok :: "declib \<Rightarrow> PositionView \<Rightarrow> bool" where
  "view_ok L p \<longleftrightarrow> pv_szi p \<noteq> 0 \<and> pv_pnl p = calculatePositionUnrealizedPnl L (pv_szi p) (pv_entryPx p) (pv_px p)"

lemma view_of_ok:
  assumes "view_of E s u scope a = Some p"
  shows "view_ok (lib E) p" "pv_asset p = a" "pos s u a = Some (pv_raw p)" "pv_szi p = p_szi (pv_raw p)"
    "pv_isCross p = lev_isCross (getLeverageSetting s u a)"
  using assms by (auto simp: view_of_def view_ok_def Let_def split: option.splits if_splits)

lemma loadPositions_ok:
  assumes "p \<in> set (loadPositions E s u scope)"
  shows "view_ok (lib E) p" "pos s u (pv_asset p) = Some (pv_raw p)" "pv_szi p = p_szi (pv_raw p)"
    "pv_asset p \<in> set (posSet s u scope)"
proof -
  from assms obtain b where "b \<in> set (posSet s u scope)" "view_of E s u scope b = Some p"
    by (auto simp: loadPositions_def set_map_filter)
  with view_of_ok [OF this(2)] show "view_ok (lib E) p" "pos s u (pv_asset p) = Some (pv_raw p)"
    "pv_szi p = p_szi (pv_raw p)" "pv_asset p \<in> set (posSet s u scope)" by simp_all
qed

lemma assess_asset_cases:
  assumes "assess_asset E s u scope a = Some r"
  obtains (isolated) p where "p \<in> set (loadPositions E s u scope)" "pv_asset p = a" "\<not> pv_isCross p" "r = assessIsolated (lib E) p"
  | (cross) p where "p \<in> set (loadPositions E s u scope)" "pv_asset p = a" "pv_isCross p"
    "r = assessCross (lib E) (getBalance s u scope) (loadPositions E s u scope)"
proof -
  from assms obtain p where "List.find (\<lambda>p. pv_asset p = a) (loadPositions E s u scope) = Some p"
    and r: "r = (if pv_isCross p then assessCross (lib E) (getBalance s u scope) (loadPositions E s u scope)
      else assessIsolated (lib E) p)"
    by (auto simp: assess_asset_def Let_def split: option.splits)
  then have "p \<in> set (loadPositions E s u scope)" "pv_asset p = a" by (auto simp: find_Some_iff)
  with r that show ?thesis by (cases "pv_isCross p") auto
qed

lemma assess_targets:
  "as_targets (assessIsolated L p) = [p]" "as_targets (assessCross L b ps) = filter pv_isCross ps"
  by (simp_all add: assessIsolated_def assessCross_def assess_def Let_def)

lemma assess_asset_targets:
  assumes "assess_asset E s u scope a = Some r"
  shows "set (as_targets r) \<subseteq> set (loadPositions E s u scope)" "a \<in> pv_asset ` set (as_targets r)"
  using assms by (auto simp: assess_targets elim!: assess_asset_cases)

lemma booked_pos_other:
  "v \<noteq> u \<or> b \<notin> (\<lambda>c. pv_asset (pc_p c)) ` set closes \<Longrightarrow> pos (closes_booked E u scope closes s) v b = pos s v b"
  by (induction closes arbitrary: s) (auto simp: queueClose_pos)

lemma booked_pos_closed:
  "\<forall>c \<in> set closes. pc_remaining c = 0 \<Longrightarrow> b \<in> (\<lambda>c. pv_asset (pc_p c)) ` set closes \<Longrightarrow>
    pos (closes_booked E u scope closes s) u b = None"
proof (induction closes arbitrary: s)
  case (Cons c cs)
  show ?case
  proof (cases "b \<in> (\<lambda>c. pv_asset (pc_p c)) ` set cs")
    case True
    with Cons show ?thesis by simp
  next
    case False
    with Cons.prems show ?thesis
      using booked_pos_other [of u u b cs E scope "queueClose E u scope c s"] by (simp add: queueClose_pos)
  qed
qed simp

lemma booked_reduces:
  assumes "\<forall>b. reduces (z b) (p_szi (pos_of s u b))"
    and "\<forall>c \<in> set closes. reduces (z (pv_asset (pc_p c))) (signed_remaining c)"
  shows "reduces (z b) (p_szi (pos_of (closes_booked E u scope closes s) u b))"
  using assms
proof (induction closes arbitrary: s)
  case (Cons c cs)
  have "reduces (z d) (p_szi (pos_of (queueClose E u scope c s) u d))" for d
    using Cons.prems(1) [rule_format, of d] Cons.prems(2)
    by (cases "pos s u d") (auto simp: pos_of_def queueClose_pos no_pos_def reduced_hash_def Let_def)
  with Cons show ?case by simp
qed simp

lemma planned_remaining:
  assumes "decimal_js (lib E)" "rnd (lib E) (pv_szi p) = pv_szi p"
    and c: "c = planClose E u p (case slice_of E s meth ic p of Some sl \<Rightarrow> sl | None \<Rightarrow> abs_d (pv_szi p)) meth oid tid"
  shows "reduces (pv_szi p) (signed_remaining c)"
    "slice_of E s meth ic p = None \<Longrightarrow> pc_remaining c = 0"
proof -
  let ?L = "lib E"
  have L: "rnd ?L 0 = 0" "\<And>x y. x \<le> y \<Longrightarrow> rnd ?L x \<le> rnd ?L y" "rnd ?L \<bar>pv_szi p\<bar> = \<bar>pv_szi p\<bar>"
    using decimal_js.rnd_0 [OF assms(1)] decimal_js.rnd_mono [OF assms(1)] decimal_js.rnd_uminus [OF assms(1), of "pv_szi p"]
      assms(2) by (auto simp: abs_if)
  define sz where "sz = (if gt_d (case slice_of E s meth ic p of Some sl \<Rightarrow> sl | None \<Rightarrow> abs_d (pv_szi p)) (abs_d (pv_szi p))
    then abs_d (pv_szi p) else (case slice_of E s meth ic p of Some sl \<Rightarrow> sl | None \<Rightarrow> abs_d (pv_szi p)))"
  have rem: "pc_remaining c = rnd ?L (\<bar>pv_szi p\<bar> - sz)" and p: "pc_p c = p"
    by (simp_all add: c planClose_def Let_def sz_def sub_d_def)
  have "0 \<le> sz" "sz \<le> \<bar>pv_szi p\<bar>"
    by (auto simp: sz_def slice_of_def Let_def split: option.splits if_splits)
  then have "0 \<le> pc_remaining c" "pc_remaining c \<le> \<bar>pv_szi p\<bar>"
    using L(2) [of 0 "\<bar>pv_szi p\<bar> - sz"] L(2) [of "\<bar>pv_szi p\<bar> - sz" "\<bar>pv_szi p\<bar>"] L(1,3) by (simp_all add: rem)
  then show "reduces (pv_szi p) (signed_remaining c)" by (auto simp: signed_remaining_def p reduces_def)
  show "slice_of E s meth ic p = None \<Longrightarrow> pc_remaining c = 0" using L(1) by (simp add: rem sz_def)
qed

lemma runLiquidation_state:
  assumes dec: "decimal_js (lib E)" and ne: "as_targets a \<noteq> []"
    and ok: "\<forall>p \<in> set (as_targets a). rnd (lib E) (pv_szi p) = pv_szi p"
    and r: "runLiquidation E u scope a s = (did, s')"
  obtains closes s1 where "did" "map pc_p closes = as_targets a"
    "plan_closes E u (as_method a) (in_cooldown E s (cooldown_key u scope (hd (as_targets a)))) (as_targets a) s = (closes, s1)"
    "pos s' = pos (closes_booked E u scope closes s)" "posSet s' = posSet (closes_booked E u scope closes s1)"
    "\<And>c. c \<in> set closes \<Longrightarrow> reduces (pv_szi (pc_p c)) (signed_remaining c)"
    "\<And>c. c \<in> set closes \<Longrightarrow>
      slice_of E s (as_method a) (in_cooldown E s (cooldown_key u scope (hd (as_targets a)))) (pc_p c) = None \<Longrightarrow>
      pc_remaining c = 0"
    "getBalance s' u scope = credit E (foldl (credit E) (getBalance s u scope) (close_credits closes))
       (if as_method a = Backstop then - as_equity a else 0)"
    "\<And>v sc. (v, sc) \<noteq> (u, scope) \<Longrightarrow> balance s' v sc = balance s v sc"
    "vault_total s' = (if as_method a = Backstop \<and> 0 < as_equity a \<and> LIQUIDATOR_VAULT_ADDRESS E \<noteq> ''''
       then incrf E (vault_total s) (as_equity a) else vault_total s)"
    "liqCooldown s' = (if \<exists>p \<in> set (as_targets a).
         slice_of E s (as_method a) (in_cooldown E s (cooldown_key u scope (hd (as_targets a)))) p \<noteq> None
       then (liqCooldown s)(cooldown_key u scope (hd (as_targets a)) \<mapsto> now E + PARTIAL_LIQ_COOLDOWN_MS) else liqCooldown s)"
proof -
  obtain first rest where t: "as_targets a = first # rest" using ne by (cases "as_targets a") auto
  define ic where "ic = in_cooldown E s (cooldown_key u scope first)"
  have h: "hd (as_targets a) = first" by (simp add: t)
  obtain closes s1 where p: "plan_closes E u (as_method a) ic (as_targets a) s = (closes, s1)" by force
  note pf = plan_closes_frame [OF p] and eq = runLiquidation_eq [OF t ic_def p r]
  let ?part = "list_ex (\<lambda>p. slice_of E s (as_method a) ic p \<noteq> None) (as_targets a)"
  note tr = liq_transaction_fields [OF refl refl, where E = E and u = u and scope = scope and a = a and
      closes = closes and partial = ?part and s = s1]
  have s1: "pos s1 = pos s" "balance s1 = balance s" "vault s1 = vault s" "liqCooldown s1 = liqCooldown s"
    by (subst pf(1) [THEN conjunct1], simp)+
  have b1: "pos (closes_booked E u scope cs t1) = pos (closes_booked E u scope cs t2)" if "pos t1 = pos t2" for cs t1 t2
    using that by (induction cs arbitrary: t1 t2) (simp_all add: queueClose_pos fun_eq_iff)
  have c: "reduces (pv_szi (pc_p c)) (signed_remaining c) \<and>
      (slice_of E s (as_method a) ic (pc_p c) = None \<longrightarrow> pc_remaining c = 0)" if "c \<in> set closes" for c
  proof -
    have "pc_p c \<in> set (as_targets a)" using that pf(2) by (metis imageI set_map)
    with ok planned_remaining [OF dec] pf(3) that show ?thesis by (metis (no_types))
  qed
  note led = ledger_eqD [OF eq(2)]
  have vt: "vault_total s1 = vault_total s" using s1 by (simp add: vault_total_def)
  have gb: "getBalance s1 u scope = getBalance s u scope" using s1 by (simp add: getBalance_def)
  show thesis
  proof (rule that)
    show did by (rule eq)
    show "map pc_p closes = as_targets a" by (rule pf)
    show "plan_closes E u (as_method a) (in_cooldown E s (cooldown_key u scope (hd (as_targets a)))) (as_targets a) s = (closes, s1)"
      using p by (simp add: h ic_def)
    show "pos s' = pos (closes_booked E u scope closes s)" using led(8) tr(1) b1 [OF s1(1)] by simp
    show "posSet s' = posSet (closes_booked E u scope closes s1)" using led(9) tr(2) by simp
    show "getBalance s' u scope = credit E (foldl (credit E) (getBalance s u scope) (close_credits closes))
       (if as_method a = Backstop then - as_equity a else 0)"
      unfolding getBalance_cong [OF led(7)] tr(3) gb by (rule refl)
    show "vault_total s' = (if as_method a = Backstop \<and> 0 < as_equity a \<and> LIQUIDATOR_VAULT_ADDRESS E \<noteq> ''''
       then incrf E (vault_total s) (as_equity a) else vault_total s)"
      using tr(6) eq(4) vt by (simp add: vault_total_def)
    show "liqCooldown s' = (if \<exists>p \<in> set (as_targets a).
         slice_of E s (as_method a) (in_cooldown E s (cooldown_key u scope (hd (as_targets a)))) p \<noteq> None
       then (liqCooldown s)(cooldown_key u scope (hd (as_targets a)) \<mapsto> now E + PARTIAL_LIQ_COOLDOWN_MS) else liqCooldown s)"
      using tr(5) unfolding eq(3) h ic_def [symmetric] list_ex_iff s1 .
  next
    fix c assume cs: "c \<in> set closes"
    then show "reduces (pv_szi (pc_p c)) (signed_remaining c)" using c by blast
    show "slice_of E s (as_method a) (in_cooldown E s (cooldown_key u scope (hd (as_targets a)))) (pc_p c) = None \<Longrightarrow>
      pc_remaining c = 0" using c [OF cs] by (simp add: h ic_def)
  next
    fix v sc assume "(v, sc) \<noteq> (u, scope)"
    then show "balance s' v sc = balance s v sc" using led(7) tr(4) s1 by simp
  qed
qed

text \<open>
  C17. A liquidation only reduces positions. Every position of the liquidated user keeps its side
  and never grows, whatever the method, the cooldown and the book are; positions and balances of
  everybody else, and the user's balances in the other dexs, do not change. A liquidation runs
  exactly when the account of the asset is below its maintenance margin, as checkLiquidation
  reports; otherwise nothing changes.
\<close>

theorem liquidation_only_reduces:
  assumes "decimal_js (lib E)" "executeLiquidation E u a scope s = (did, s')"
    and sizes: "\<forall>b p. pos s u b = Some p \<longrightarrow> rnd (lib E) (p_szi p) = p_szi p"
  shows "did = lc_shouldLiquidate (checkLiquidation E s u a scope) \<and> (\<not> did \<longrightarrow> s' = s) \<and>
    (did \<longrightarrow> (\<exists>r. assess_asset E s u scope a = Some r \<and> as_equity r < as_maintenanceMargin r)) \<and>
    (\<forall>b. reduces (p_szi (pos_of s u b)) (p_szi (pos_of s' u b))) \<and>
    (\<forall>v b. v \<noteq> u \<longrightarrow> pos s' v b = pos s v b) \<and> (\<forall>v sc. (v, sc) \<noteq> (u, scope) \<longrightarrow> balance s' v sc = balance s v sc)"
proof (cases "\<exists>r. assess_asset E s u scope a = Some r \<and> as_shouldLiquidate r")
  case False
  then have "did = False \<and> s' = s" using assms(2) by (auto simp: executeLiquidation_def split: option.splits if_splits)
  with False show ?thesis by (auto simp: checkLiquidation_def split: option.split)
next
  case True
  then obtain r where r: "assess_asset E s u scope a = Some r" "as_shouldLiquidate r" by blast
  note tg = assess_asset_targets [OF r(1)]
  have run: "runLiquidation E u scope r s = (did, s')" using assms(2) r by (simp add: executeLiquidation_def)
  have ok: "\<forall>p \<in> set (as_targets r). rnd (lib E) (pv_szi p) = pv_szi p"
    using tg(1) loadPositions_ok(2,3) sizes by (metis subsetD)
  have ne: "as_targets r \<noteq> []" using tg(2) by auto
  obtain closes s1 where d: did and m: "map pc_p closes = as_targets r"
    and p: "pos s' = pos (closes_booked E u scope closes s)"
    and c: "\<And>c. c \<in> set closes \<Longrightarrow> reduces (pv_szi (pc_p c)) (signed_remaining c)"
    and b: "\<And>v sc. (v, sc) \<noteq> (u, scope) \<Longrightarrow> balance s' v sc = balance s v sc"
    by (rule runLiquidation_state [OF assms(1) ne ok run]) (rule that, assumption+)
  have "p_szi (pos_of s u (pv_asset (pc_p c))) = pv_szi (pc_p c)" if "c \<in> set closes" for c
  proof -
    have "pc_p c \<in> set (loadPositions E s u scope)" using that m tg(1) by (metis imageI set_map subsetD)
    from loadPositions_ok [OF this] show ?thesis by (simp add: pos_of_def)
  qed
  with c have "reduces (p_szi (pos_of s u b)) (p_szi (pos_of s' u b))" for b
    using booked_reduces [where z = "\<lambda>b. p_szi (pos_of s u b)" and s = s and u = u and closes = closes and b = b
        and E = E and scope = scope] by (simp add: pos_of_def p)
  moreover have "pos s' v b = pos s v b" if "v \<noteq> u" for v b
    using that booked_pos_other [where v = v and u = u and b = b and closes = closes and E = E and scope = scope and s = s]
    by (simp add: p)
  moreover have "as_equity r < as_maintenanceMargin r"
    using r by (auto simp: assessIsolated_def assessCross_def assess_def Let_def elim!: assess_asset_cases)
  ultimately show ?thesis using d r b by (auto simp: checkLiquidation_def)
qed

lemma sample_views:
  fixes s :: state
  defines "s \<equiv> sample_state (Some (sample_pos 100 (2199 / 20))) []"
  shows "loadPositions sample_env s ''u'' '''' =
    [\<lparr>pv_asset = 0, pv_coin = ''BTC'', pv_szi = 100, pv_entryPx = 2199 / 20, pv_px = 100, pv_leverage = 20,
      pv_isCross = True, pv_notional = 10000, pv_pnl = - 995, pv_maintenanceMargin = 125, pv_isolatedMargin = 0,
      pv_raw = sample_pos 100 (2199 / 20)\<rparr>]"
proof -
  have p: "posSet s ''u'' '''' = [0]" "pos s ''u'' 0 = Some (sample_pos 100 (2199 / 20))" "lev s ''u'' 0 = None"
    by (simp_all add: s_def sample_state_def empty_state_def)
  have m: "cachedMaxLeverage s 0 = Some 40"
    by (simp add: cachedMaxLeverage_def isSpotAsset_def loadUniverseEntry_def offsets s_def sample_state_def)
  have c: "p_coin (sample_pos 100 (2199 / 20)) = ''BTC''" by (simp add: sample_pos_def)
  have px: "priceFor sample_env s ''BTC'' = Some 100"
    by (simp add: priceFor_def getFreshMark_def getMark_def midPx_def s_def sample_state_def empty_state_def)
  have L: "lib sample_env = decimal30" by (simp add: sample_env_def)
  have t: "getMarginTiersForCoin (meta s) ''BTC'' = Some [\<lparr>mt_lowerBound = 0, mt_maxLeverage = 40\<rparr>]"
    by (simp add: getMarginTiersForCoin_def s_def sample_state_def)
  show ?thesis
    by (simp add: loadPositions_def p view_of_def c px L t getLeverageSetting_def m map_filter_simps
        computeMaintenanceMargin_def hasTiers_def maintenanceMarginRateForNotional_def tierForNotional_def
        maintenanceMarginForNotional_def rateForTier_def calculatePositionUnrealizedPnl_def
        dec_defs rnd30_scaled HL_DEFAULT_LEVERAGE_def Let_def)
qed

lemma sample_assessed:
  fixes s :: state
  defines "s \<equiv> sample_state (Some (sample_pos 100 (2199 / 20))) []"
  obtains r where "assess_asset sample_env s ''u'' '''' 0 = Some r" "as_shouldLiquidate r" "as_method r = Backstop"
    "as_equity r = 5" "r = assessCross decimal30 1000 (loadPositions sample_env s ''u'' '''')"
proof -
  note v = sample_views [folded s_def]
  have L: "lib sample_env = decimal30" by (simp add: sample_env_def)
  have b: "getBalance s ''u'' '''' = 1000" by (simp add: getBalance_def s_def sample_state_def)
  define r where "r = assessCross decimal30 1000 (loadPositions sample_env s ''u'' '''')"
  have "assess_asset sample_env s ''u'' '''' 0 = Some r" by (simp add: assess_asset_def v b L r_def)
  moreover have eq: "as_equity r = 5" "as_maintenanceMargin r = 125"
    by (simp_all add: r_def v assessCross_def assess_def crossAccountValue_def dec_defs rnd30_scaled)
  have "(6 / 10 :: rat) \<le> rnd decimal30 (2 / 3)"
    using decimal_js.rnd_mono [OF decimal30_js, of "6 / 10" "2 / 3"] by (simp add: rnd30_scaled)
  then have "(75 :: rat) \<le> rnd decimal30 (125 * rnd decimal30 (2 / 3))"
    using decimal_js.rnd_mono [OF decimal30_js, of 75 "125 * rnd decimal30 (2 / 3)"] by (simp add: rnd30_scaled)
  then have "as_method r = Backstop"
    using eq by (simp add: r_def v assessCross_def assess_def BACKSTOP_FRACTION_def Let_def) (simp add: dec_defs)
  moreover have "as_shouldLiquidate r"
    using eq by (simp add: r_def v assessCross_def assess_def Let_def)
  ultimately show thesis using that eq r_def by blast
qed

theorem liquidation_only_reduces_witness:
  "\<exists>s'. executeLiquidation sample_env ''u'' 0 '''' (sample_state (Some (sample_pos 100 (2199 / 20))) []) = (True, s') \<and>
    reduces 100 (p_szi (pos_of s' ''u'' 0))"
proof -
  let ?s = "sample_state (Some (sample_pos 100 (2199 / 20))) []"
  obtain r where r: "assess_asset sample_env ?s ''u'' '''' 0 = Some r" "as_shouldLiquidate r"
    by (rule sample_assessed)
  obtain did s' where x: "executeLiquidation sample_env ''u'' 0 '''' ?s = (did, s')" by force
  have L: "lib sample_env = decimal30" by (simp add: sample_env_def)
  have sz: "\<forall>b p. pos ?s ''u'' b = Some p \<longrightarrow> rnd (lib sample_env) (p_szi p) = p_szi p"
    by (auto simp: L sample_state_def rnd30_scaled split: if_splits)
  have d: "decimal_js (lib sample_env)" by (simp add: L decimal30_js)
  have "reduces (p_szi (pos_of ?s ''u'' 0)) (p_szi (pos_of s' ''u'' 0))" and "did"
    using liquidation_only_reduces [OF d x sz] r by (auto simp: checkLiquidation_def)
  moreover have "p_szi (pos_of ?s ''u'' 0) = 100" by (simp add: pos_of_def sample_state_def)
  ultimately show ?thesis using x by auto
qed

subsection \<open>The backstop\<close>

lemma planClose_backstop:
  assumes "view_ok (lib E) p"
    and "c = planClose E u p (case slice_of E s Backstop ic p of Some sl \<Rightarrow> sl | None \<Rightarrow> abs_d (pv_szi p)) Backstop oid tid"
  shows "f_closedPnl (pc_fill c) = pv_pnl p" "f_fee (pc_fill c) = 0"
  using assms(1)
  by (auto simp: assms(2) slice_of_def planClose_def liquidationFillPx_def view_ok_def Let_def abs_if not_less)

lemma backstop_credits:
  assumes "plan_closes E u Backstop ic ps s = (closes, s1)" "\<forall>p \<in> set ps. view_ok (lib E) p"
  shows "close_credits closes = concat (map (\<lambda>p. [pv_pnl p, 0]) ps)"
proof -
  note pf = plan_closes_frame [OF assms(1)]
  have "[f_closedPnl (pc_fill c), - f_fee (pc_fill c)] = [pv_pnl (pc_p c), 0]" if "c \<in> set closes" for c
  proof -
    have "pc_p c \<in> set ps" using that pf(2) by (metis imageI set_map)
    with assms(2) pf(3) that planClose_backstop [of E "pc_p c" c u s ic] show ?thesis by auto
  qed
  then have "close_credits closes = concat (map (\<lambda>c. [pv_pnl (pc_p c), 0]) closes)"
    by (simp add: close_credits_def cong: map_cong)
  also have "\<dots> = concat (map (\<lambda>p. [pv_pnl p, 0]) (map pc_p closes))" by (simp add: comp_def)
  finally show ?thesis by (simp only: pf(2))
qed

lemma backstop_books:
  assumes dec: "decimal_js (lib E)" and tg: "as_targets r \<noteq> []" "set (as_targets r) \<subseteq> set (loadPositions E s u scope)"
    and m: "as_method r = Backstop" and sz: "\<forall>p \<in> set (as_targets r). rnd (lib E) (pv_szi p) = pv_szi p"
    and ex: "incr_exact E (credit_pairs (getBalance s u scope)
        (concat (map (\<lambda>p. [pv_pnl p, 0]) (as_targets r)) @ [- as_equity r]))"
      "incr_exact E {(vault_total s, as_equity r)}" and va: "LIQUIDATOR_VAULT_ADDRESS E \<noteq> ''''"
    and run: "runLiquidation E u scope r s = (did, s')"
  shows "did" "getBalance s' u scope = getBalance s u scope + sum_list (map pv_pnl (as_targets r)) - as_equity r"
    "\<And>p. p \<in> set (as_targets r) \<Longrightarrow> pos s' u (pv_asset p) = None"
    "vault_total s' = vault_total s + max 0 (as_equity r)"
proof -
  let ?ic = "in_cooldown E s (cooldown_key u scope (hd (as_targets r)))"
  obtain closes s1 where d: did and mp: "map pc_p closes = as_targets r"
    and pl: "plan_closes E u (as_method r) ?ic (as_targets r) s = (closes, s1)"
    and ps: "pos s' = pos (closes_booked E u scope closes s)"
    and rem: "\<And>c. c \<in> set closes \<Longrightarrow> slice_of E s (as_method r) ?ic (pc_p c) = None \<Longrightarrow> pc_remaining c = 0"
    and bal: "getBalance s' u scope = credit E (foldl (credit E) (getBalance s u scope) (close_credits closes))
       (if as_method r = Backstop then - as_equity r else 0)"
    and va': "vault_total s' = (if as_method r = Backstop \<and> 0 < as_equity r \<and> LIQUIDATOR_VAULT_ADDRESS E \<noteq> ''''
       then incrf E (vault_total s) (as_equity r) else vault_total s)"
    by (rule runLiquidation_state [OF dec tg(1) sz run]) (rule that, assumption+)
  show did by (rule d)
  have "\<forall>p \<in> set (as_targets r). view_ok (lib E) p" using tg(2) loadPositions_ok(1) by blast
  note cr = backstop_credits [OF pl [unfolded m] this]
  have "getBalance s' u scope = foldl (credit E) (getBalance s u scope)
      (concat (map (\<lambda>p. [pv_pnl p, 0]) (as_targets r)) @ [- as_equity r])"
    by (simp add: bal m cr)
  also have "\<dots> = getBalance s u scope + (sum_list (concat (map (\<lambda>p. [pv_pnl p, 0]) (as_targets r))) - as_equity r)"
    by (subst credit_exact [OF ex(1)]) simp
  also have "sum_list (concat (map (\<lambda>p. [pv_pnl p, 0]) ps)) = sum_list (map pv_pnl ps)" for ps
    by (induction ps) simp_all
  finally show "getBalance s' u scope = getBalance s u scope + sum_list (map pv_pnl (as_targets r)) - as_equity r" by simp
  show "vault_total s' = vault_total s + max 0 (as_equity r)"
    using ex(2) by (auto simp: va' m va incr_exact_def max_def)
  have z: "\<forall>c \<in> set closes. pc_remaining c = 0" using rem by (auto simp: m slice_of_def)
  show "pos s' u (pv_asset p) = None" if "p \<in> set (as_targets r)" for p
  proof -
    have "pv_asset p \<in> (\<lambda>c. pv_asset (pc_p c)) ` set closes" using that mp by (metis image_image image_eqI set_map)
    then show ?thesis unfolding ps by (rule booked_pos_closed [OF z])
  qed
qed

text \<open>
  The backstop of an isolated position takes exactly its margin. When decimal.js and
  HINCRBYFLOAT round nothing, the position is gone, the balance falls by the margin that was
  dedicated to the position (no more, whatever the loss was), and the vault gains the equity
  that was left, or nothing when it was negative.
\<close>

theorem isolated_backstop_takes_margin:
  assumes "decimal_js (lib E)"
    and p: "List.find (\<lambda>p. pv_asset p = a) (loadPositions E s u scope) = Some p" "\<not> pv_isCross p"
    and r: "as_shouldLiquidate (assessIsolated (lib E) p)" "as_method (assessIsolated (lib E) p) = Backstop"
    and ex: "exact_on (lib E) {pv_szi p, pv_isolatedMargin p + pv_pnl p}"
      "incr_exact E (insert (vault_total s, pv_isolatedMargin p + pv_pnl p)
        (credit_pairs (getBalance s u scope) [pv_pnl p, 0, - (pv_isolatedMargin p + pv_pnl p)]))"
    and "LIQUIDATOR_VAULT_ADDRESS E \<noteq> ''''"
  shows "\<exists>s'. executeLiquidation E u a scope s = (True, s') \<and> pos s' u a = None \<and>
    getBalance s' u scope = getBalance s u scope - pv_isolatedMargin p \<and>
    vault_total s' = vault_total s + max 0 (pv_isolatedMargin p + pv_pnl p)"
proof -
  let ?r = "assessIsolated (lib E) p"
  have mem: "p \<in> set (loadPositions E s u scope)" and a: "pv_asset p = a" using p(1) by (auto simp: find_Some_iff)
  have eq: "as_equity ?r = pv_isolatedMargin p + pv_pnl p" "as_targets ?r = [p]"
    using ex(1) by (simp_all add: assessIsolated_def assess_def add_d_def)
  have as: "assess_asset E s u scope a = Some ?r" using p by (simp add: assess_asset_def Let_def)
  obtain did s' where run: "runLiquidation E u scope ?r s = (did, s')" by force
  have "executeLiquidation E u a scope s = (did, s')" using as r(1) run by (simp add: executeLiquidation_def)
  moreover have "incr_exact E {(vault_total s, as_equity ?r)}" "incr_exact E (credit_pairs (getBalance s u scope)
      (concat (map (\<lambda>p. [pv_pnl p, 0]) (as_targets ?r)) @ [- as_equity ?r]))"
    using ex(2) by (auto simp: eq incr_exact_def)
  note backstop_books [OF assms(1) _ _ r(2) _ this(2,1) assms(8) run]
  ultimately show ?thesis using mem a ex(1) by (simp add: eq)
qed

text \<open>
  The backstop of a cross account leaves no cross equity. Under the same exactness every
  cross position is closed, and what remains of the balance is exactly the margin dedicated to
  the isolated positions of the dex; the vault gains the account value if it was positive.
\<close>

theorem cross_backstop_leaves_no_equity:
  fixes E :: env and s :: state and u :: user and scope :: dex_name
  defines "ps \<equiv> loadPositions E s u scope" and "bal \<equiv> getBalance s u scope"
  defines "r \<equiv> assessCross (lib E) bal ps"
  defines "av \<equiv> bal + sum_list (map (\<lambda>p. if pv_isCross p then pv_pnl p else - pv_isolatedMargin p) ps)"
  assumes "decimal_js (lib E)" and p: "List.find (\<lambda>p. pv_asset p = a) ps = Some p" "pv_isCross p"
    and r: "as_shouldLiquidate r" "as_method r = Backstop"
    and ex: "exact_on (lib E) (pv_szi ` set ps \<union> (\<lambda>(x, y). x + y) `
        credit_pairs bal (map (\<lambda>p. if pv_isCross p then pv_pnl p else - pv_isolatedMargin p) ps))"
      "incr_exact E (insert (vault_total s, av)
        (credit_pairs bal (concat (map (\<lambda>p. [pv_pnl p, 0]) (filter pv_isCross ps)) @ [- av])))"
    and va: "LIQUIDATOR_VAULT_ADDRESS E \<noteq> ''''"
  shows "\<exists>s'. executeLiquidation E u a scope s = (True, s') \<and>
    (\<forall>q \<in> set ps. pv_isCross q \<longrightarrow> pos s' u (pv_asset q) = None) \<and>
    getBalance s' u scope = sum_list (map pv_isolatedMargin (filter (\<lambda>q. \<not> pv_isCross q) ps)) \<and>
    vault_total s' = vault_total s + max 0 av"
proof -
  let ?L = "lib E"
  have cav: "exact_on ?L ((\<lambda>(x, y). x + y) `
      credit_pairs b (map (\<lambda>p. if pv_isCross p then pv_pnl p else - pv_isolatedMargin p) qs)) \<Longrightarrow>
    crossAccountValue ?L b qs =
      b + sum_list (map (\<lambda>p. if pv_isCross p then pv_pnl p else - pv_isolatedMargin p) qs)" for b qs
  proof (induction qs arbitrary: b)
    case (Cons q qs)
    define x where "x = (if pv_isCross q then pv_pnl q else - pv_isolatedMargin q)"
    have x: "rnd ?L (b + x) = b + x" using Cons.prems by (simp add: x_def)
    have "crossAccountValue ?L b (q # qs) = crossAccountValue ?L (rnd ?L (b + x)) qs"
      by (cases "pv_isCross q") (simp_all add: crossAccountValue_def add_d_def sub_d_def x_def)
    also have "\<dots> = crossAccountValue ?L (b + x) qs" by (simp only: x)
    also have "\<dots> = b + x + sum_list (map (\<lambda>p. if pv_isCross p then pv_pnl p else - pv_isolatedMargin p) qs)"
      using Cons.prems by (intro Cons.IH) (simp add: x_def)
    finally show ?case by (simp add: x_def)
  qed (simp add: crossAccountValue_def)
  have eq: "as_equity r = av" "as_targets r = filter pv_isCross ps"
    using cav [of bal ps] ex(1) by (simp_all add: r_def assessCross_def assess_def Let_def av_def)
  have as: "assess_asset E s u scope a = Some r" using p by (simp add: assess_asset_def Let_def ps_def r_def bal_def)
  have mem: "p \<in> set ps" using p(1) by (auto simp: find_Some_iff)
  obtain did s' where run: "runLiquidation E u scope r s = (did, s')" by force
  have x: "executeLiquidation E u a scope s = (did, s')" using as r(1) run by (simp add: executeLiquidation_def)
  have inc: "incr_exact E {(vault_total s, as_equity r)}" "incr_exact E (credit_pairs (getBalance s u scope)
      (concat (map (\<lambda>p. [pv_pnl p, 0]) (as_targets r)) @ [- as_equity r]))"
    using ex(2) unfolding eq bal_def by (auto simp: incr_exact_def)
  have tg: "as_targets r \<noteq> []" "set (as_targets r) \<subseteq> set (loadPositions E s u scope)"
    using mem p(2) by (auto simp: eq ps_def filter_empty_conv)
  have sz: "\<forall>p \<in> set (as_targets r). rnd ?L (pv_szi p) = pv_szi p" using ex(1) by (auto simp: eq exact_on_def)
  note b = backstop_books [OF assms(5) tg r(2) sz inc(2,1) va run]
  have "sum_list (map (\<lambda>p. if pv_isCross p then pv_pnl p else - pv_isolatedMargin p) qs) =
      sum_list (map pv_pnl (filter pv_isCross qs)) - sum_list (map pv_isolatedMargin (filter (\<lambda>q. \<not> pv_isCross q) qs))" for qs
    by (induction qs) simp_all
  from this [of ps] have "getBalance s' u scope = sum_list (map pv_isolatedMargin (filter (\<lambda>q. \<not> pv_isCross q) ps))"
    using b(2) by (simp add: eq av_def bal_def)
  with x b(1,3,4) show ?thesis by (auto simp: eq)
qed

theorem cross_backstop_leaves_no_equity_witness:
  "\<exists>s'. executeLiquidation sample_env ''u'' 0 '''' (sample_state (Some (sample_pos 100 (2199 / 20))) []) = (True, s') \<and>
    pos s' ''u'' 0 = None \<and> getBalance s' ''u'' '''' = 0 \<and> vault_total s' = 5"
proof -
  let ?s = "sample_state (Some (sample_pos 100 (2199 / 20))) []"
  let ?ps = "loadPositions sample_env ?s ''u'' ''''"
  obtain r where r: "as_shouldLiquidate r" "as_method r = Backstop" "r = assessCross decimal30 1000 ?ps"
    by (rule sample_assessed)
  have L: "lib sample_env = decimal30" and i: "incr_exact sample_env X" and va: "LIQUIDATOR_VAULT_ADDRESS sample_env \<noteq> ''''" for X
    by (auto simp: sample_env_def incr_exact_def)
  have b: "getBalance ?s ''u'' '''' = 1000" and v: "vault_total ?s = 0"
    by (simp_all add: getBalance_def vault_total_def sample_state_def empty_state_def)
  have d: "decimal_js (lib sample_env)" by (simp add: L decimal30_js)
  have f: "List.find (\<lambda>p. pv_asset p = 0) ?ps = Some (hd ?ps)" "pv_isCross (hd ?ps)" by (simp_all add: sample_views)
  have e: "exact_on (lib sample_env) (pv_szi ` set ?ps \<union> (\<lambda>(x, y). x + y) ` credit_pairs 1000
      (map (\<lambda>p. if pv_isCross p then pv_pnl p else - pv_isolatedMargin p) ?ps))"
    by (simp add: sample_views L rnd30_scaled)
  from cross_backstop_leaves_no_equity [where s = ?s and E = sample_env and u = "''u''" and scope = "''''" and a = 0
      and p = "hd ?ps", OF d f _ _ _ i va, unfolded b L, OF _ _ e [unfolded L]] r
  show ?thesis by (auto simp: sample_views v)
qed

theorem isolated_backstop_takes_margin_witness:
  "\<exists>s s'. executeLiquidation sample_env ''u'' 0 '''' s = (True, s') \<and> getBalance s ''u'' '''' = 1000 \<and>
    getBalance s' ''u'' '''' = 475 \<and> vault_total s' = 25"
proof -
  define s where "s = sample_state (Some (sample_pos 100 105)) []\<lparr>lev := (\<lambda>_ _. Some \<lparr>lev_leverage = 20, lev_isCross = False\<rparr>)\<rparr>"
  define p where "p = \<lparr>pv_asset = 0, pv_coin = ''BTC'', pv_szi = 100, pv_entryPx = 105, pv_px = 100, pv_leverage = 20,
      pv_isCross = False, pv_notional = 10000, pv_pnl = - 500, pv_maintenanceMargin = 125, pv_isolatedMargin = 525,
      pv_raw = sample_pos 100 105\<rparr>"
  have q: "posSet s ''u'' '''' = [0]" "pos s ''u'' 0 = Some (sample_pos 100 105)"
    "lev s ''u'' 0 = Some \<lparr>lev_leverage = 20, lev_isCross = False\<rparr>"
    by (simp_all add: s_def sample_state_def empty_state_def)
  have c: "p_coin (sample_pos 100 105) = ''BTC''" "p_marginAlloc (sample_pos 100 105) = None"
    "p_rawUsd (sample_pos 100 105) = None" by (simp_all add: sample_pos_def)
  have px: "priceFor sample_env s ''BTC'' = Some 100"
    by (simp add: priceFor_def getFreshMark_def getMark_def midPx_def s_def sample_state_def empty_state_def)
  have L: "lib sample_env = decimal30" and i: "incr_exact sample_env X" and va: "LIQUIDATOR_VAULT_ADDRESS sample_env \<noteq> ''''" for X
    by (auto simp: sample_env_def incr_exact_def)
  have t: "getMarginTiersForCoin (meta s) ''BTC'' = Some [\<lparr>mt_lowerBound = 0, mt_maxLeverage = 40\<rparr>]"
    by (simp add: getMarginTiersForCoin_def s_def sample_state_def)
  have ps: "loadPositions sample_env s ''u'' '''' = [p]"
    by (simp add: loadPositions_def q view_of_def c px L t getLeverageSetting_def map_filter_simps p_def
        computeMaintenanceMargin_def hasTiers_def maintenanceMarginRateForNotional_def tierForNotional_def
        maintenanceMarginForNotional_def rateForTier_def calculatePositionUnrealizedPnl_def isolatedMarginOf_def
        dec_defs rnd30_scaled Let_def)
  have pf: "pv_asset p = 0" "pv_isolatedMargin p = 525" "pv_pnl p = - 500" "pv_szi p = 100"
    "pv_maintenanceMargin p = 125" "\<not> pv_isCross p" by (simp_all add: p_def)
  have "(6 / 10 :: rat) \<le> rnd decimal30 (2 / 3)"
    using decimal_js.rnd_mono [OF decimal30_js, of "6 / 10" "2 / 3"] by (simp add: rnd30_scaled)
  then have "(75 :: rat) \<le> rnd decimal30 (125 * rnd decimal30 (2 / 3))"
    using decimal_js.rnd_mono [OF decimal30_js, of 75 "125 * rnd decimal30 (2 / 3)"] by (simp add: rnd30_scaled)
  then have r: "as_method (assessIsolated (lib sample_env) p) = Backstop" "as_shouldLiquidate (assessIsolated (lib sample_env) p)"
    by (simp_all add: assessIsolated_def assess_def BACKSTOP_FRACTION_def L pf) (simp_all add: dec_defs rnd30_scaled)
  have f: "List.find (\<lambda>p. pv_asset p = 0) (loadPositions sample_env s ''u'' '''') = Some p" by (simp add: ps pf)
  have e: "exact_on (lib sample_env) {pv_szi p, pv_isolatedMargin p + pv_pnl p}" by (simp add: pf L rnd30_scaled)
  have d: "decimal_js (lib sample_env)" by (simp add: L decimal30_js)
  have b: "getBalance s ''u'' '''' = 1000" and v: "vault_total s = 0"
    by (simp_all add: getBalance_def vault_total_def s_def sample_state_def empty_state_def)
  from isolated_backstop_takes_margin [OF d f pf(6) r(2,1) e i va] obtain s' where
    "executeLiquidation sample_env ''u'' 0 '''' s = (True, s')" "getBalance s' ''u'' '''' = 475" "vault_total s' = 25"
    by (auto simp: pf b v)
  with b show ?thesis by (intro exI [of _ s] exI [of _ s']) simp
qed

subsection \<open>Partial liquidations\<close>

text \<open>
  The 20 percent slice and its cooldown. A market liquidation of a large account closes a
  slice and starts a cooldown of 30 seconds; any liquidation of the same account in that time
  closes every target position entirely and starts no new cooldown.
\<close>

theorem partial_then_full:
  assumes dec: "decimal_js (lib E)" "decimal_js (lib E2)"
    and run: "runLiquidation E u scope a s = (True, s')"
      "\<exists>p \<in> set (as_targets a). slice_of E s (as_method a) (in_cooldown E s (cooldown_key u scope (hd (as_targets a)))) p \<noteq> None"
    and sizes: "\<forall>p \<in> set (as_targets a) \<union> set (as_targets a2). rnd (lib E) (pv_szi p) = pv_szi p \<and> rnd (lib E2) (pv_szi p) = pv_szi p"
    and later: "now E \<le> now E2" "now E2 < now E + 30000" "liqCooldown s2 = liqCooldown s'"
    and again: "as_targets a2 \<noteq> []" "cooldown_key u scope (hd (as_targets a2)) = cooldown_key u scope (hd (as_targets a))"
  shows "\<exists>s3. runLiquidation E2 u scope a2 s2 = (True, s3) \<and> liqCooldown s3 = liqCooldown s2 \<and>
    (\<forall>p \<in> set (as_targets a2). pos s3 u (pv_asset p) = None)"
proof -
  let ?key = "cooldown_key u scope (hd (as_targets a))"
  have ne: "as_targets a \<noteq> []" using run(2) by auto
  have sz: "\<forall>p \<in> set (as_targets a). rnd (lib E) (pv_szi p) = pv_szi p"
    "\<forall>p \<in> set (as_targets a2). rnd (lib E2) (pv_szi p) = pv_szi p" using sizes by auto
  have "liqCooldown s' = (liqCooldown s)(?key \<mapsto> now E + PARTIAL_LIQ_COOLDOWN_MS)"
    by (rule runLiquidation_state [OF dec(1) ne sz(1) run(1)]) (simp only: run(2) if_True)
  then have ic: "in_cooldown E2 s2 (cooldown_key u scope (hd (as_targets a2)))"
    using later by (simp add: in_cooldown_def again(2) PARTIAL_LIQ_COOLDOWN_MS_def)
  obtain did s3 where r3: "runLiquidation E2 u scope a2 s2 = (did, s3)" by force
  have none: "slice_of E2 s2 (as_method a2) (in_cooldown E2 s2 (cooldown_key u scope (hd (as_targets a2)))) p = None" for p
    using ic by (simp add: slice_of_def)
  obtain closes where "did" and mp: "map pc_p closes = as_targets a2"
    and ps: "pos s3 = pos (closes_booked E2 u scope closes s2)"
    and rem: "\<And>c. c \<in> set closes \<Longrightarrow>
      slice_of E2 s2 (as_method a2) (in_cooldown E2 s2 (cooldown_key u scope (hd (as_targets a2)))) (pc_p c) = None \<Longrightarrow>
      pc_remaining c = 0"
    and cd: "liqCooldown s3 = (if \<exists>p \<in> set (as_targets a2).
         slice_of E2 s2 (as_method a2) (in_cooldown E2 s2 (cooldown_key u scope (hd (as_targets a2)))) p \<noteq> None
       then (liqCooldown s2)(cooldown_key u scope (hd (as_targets a2)) \<mapsto> now E2 + PARTIAL_LIQ_COOLDOWN_MS) else liqCooldown s2)"
    by (rule runLiquidation_state [OF dec(2) again(1) sz(2) r3]) (rule that, assumption+)
  have "pos s3 u (pv_asset p) = None" if "p \<in> set (as_targets a2)" for p
  proof -
    have "pv_asset p \<in> (\<lambda>c. pv_asset (pc_p c)) ` set closes" using that mp by (metis image_image image_eqI set_map)
    then show ?thesis unfolding ps using rem none by (intro booked_pos_closed) simp_all
  qed
  moreover have "liqCooldown s3 = liqCooldown s2" using cd none by simp
  ultimately show ?thesis using r3 \<open>did\<close> by auto
qed

theorem partial_then_full_witness:
  "\<exists>s' s3. let p = \<lparr>pv_asset = 0, pv_coin = ''BTC'', pv_szi = 2000, pv_entryPx = 105, pv_px = 100, pv_leverage = 20,
        pv_isCross = True, pv_notional = 200000, pv_pnl = - 10000, pv_maintenanceMargin = 2500, pv_isolatedMargin = 0,
        pv_raw = sample_pos 2000 105\<rparr>;
      a = \<lparr>as_shouldLiquidate = True, as_equity = 2000, as_maintenanceMargin = 2500, as_method = Market, as_targets = [p]\<rparr>
    in runLiquidation sample_env ''u'' '''' a (sample_state (Some (sample_pos 2000 105)) []) = (True, s') \<and>
       runLiquidation (sample_env\<lparr>now := 1010000\<rparr>) ''u'' '''' a s' = (True, s3) \<and> pos s3 ''u'' 0 = None"
proof -
  define p where "p = \<lparr>pv_asset = 0, pv_coin = ''BTC'', pv_szi = 2000, pv_entryPx = 105, pv_px = 100, pv_leverage = 20,
        pv_isCross = True, pv_notional = 200000, pv_pnl = - 10000, pv_maintenanceMargin = 2500, pv_isolatedMargin = 0,
        pv_raw = sample_pos 2000 105\<rparr>"
  define a where "a = \<lparr>as_shouldLiquidate = True, as_equity = 2000, as_maintenanceMargin = 2500, as_method = Market, as_targets = [p]\<rparr>"
  define s where "s = sample_state (Some (sample_pos 2000 105)) []"
  let ?E2 = "sample_env\<lparr>now := 1010000\<rparr>"
  have pf: "pv_szi p = 2000" "pv_notional p = 200000" "pv_asset p = 0" by (simp_all add: p_def)
  have af: "as_targets a = [p]" "as_method a = Market" by (simp_all add: a_def)
  have L: "lib sample_env = decimal30" "lib ?E2 = decimal30" "now sample_env = 1000000" "now ?E2 = 1010000"
    by (simp_all add: sample_env_def)
  have d: "decimal_js (lib sample_env)" "decimal_js (lib ?E2)" by (simp_all add: L decimal30_js)
  obtain did s' where r: "runLiquidation sample_env ''u'' '''' a s = (did, s')" by force
  obtain closes s1 where "plan_closes sample_env ''u'' (as_method a)
      (in_cooldown sample_env s (cooldown_key ''u'' '''' p)) (as_targets a) s = (closes, s1)" by force
  from runLiquidation_eq(1) [OF af(1) refl this r] have "did" .
  with r have r: "runLiquidation sample_env ''u'' '''' a s = (True, s')" by simp
  have "\<not> in_cooldown sample_env s k" for k by (simp add: in_cooldown_def s_def sample_state_def empty_state_def)
  moreover have "roundToDecimals decimal30 (rnd decimal30 400) n = 400" for n
    using decimal_js.toDP_down [OF decimal30_js, of n 400]
    by (simp add: roundToDecimals_def rnd30_scaled trunc_dp_def) 
  ultimately have sl: "\<exists>q \<in> set (as_targets a). slice_of sample_env s (as_method a)
      (in_cooldown sample_env s (cooldown_key ''u'' '''' (hd (as_targets a)))) q \<noteq> None"
    by (simp add: af slice_of_def pf L PARTIAL_LIQ_THRESHOLD_USDC_def PARTIAL_LIQ_PCT_def Let_def mul_d_def)
  have sz: "\<forall>q \<in> set (as_targets a) \<union> set (as_targets a). rnd (lib sample_env) (pv_szi q) = pv_szi q \<and>
      rnd (lib ?E2) (pv_szi q) = pv_szi q"
    by (simp add: af pf L rnd30_scaled)
  from partial_then_full [OF d r sl sz _ _ refl _ refl] obtain s3 where
    "runLiquidation ?E2 ''u'' '''' a s' = (True, s3)" "pos s3 ''u'' 0 = None"
    by (auto simp: L af pf)
  with r show ?thesis by (auto simp: Let_def p_def [symmetric] a_def [symmetric] s_def [symmetric])
qed

end
