(* ===== verification/Funding.thy ===== *)
theory Funding
  imports Liquidation
begin

text \<open>
  The hourly funding payments: applyFunding of worker/funding-worker.ts. The funding rates are
  the field \<open>funding\<close> of the market contexts, a function of the coin; only positions on the
  native exchange are charged.
\<close>

record Charge =
  ch_asset :: asset
  ch_pos :: PosHash
  ch_amount :: rat
  ch_rate :: rat

definition fundingCharge :: "declib \<Rightarrow> rat \<Rightarrow> rat \<Rightarrow> rat \<Rightarrow> rat" where
  "fundingCharge L szi markPx rate = mul_d L (mul_d L szi markPx) rate"

definition charge_of :: "env \<Rightarrow> (coin \<Rightarrow> rat option) \<Rightarrow> state \<Rightarrow> user \<Rightarrow> asset \<Rightarrow> Charge option" where
  \<comment> \<open>\<open>None\<close> for the positions the loop skips\<close>
  "charge_of E rates s u a =
    (case pos s u a of None \<Rightarrow> None
     | Some p \<Rightarrow>
        if isZero_d (p_szi p) \<or> p_coin p = '''' then None
        else case rates (p_coin p) of None \<Rightarrow> None
        | Some rate \<Rightarrow>
            if isZero_d rate then None
            else case ctx_mark s (p_coin p) of None \<Rightarrow> None
            | Some (markPx, ts) \<Rightarrow>
                if isZero_d markPx then None
                else Some \<lparr>ch_asset = a, ch_pos = p, ch_amount = fundingCharge (lib E) (p_szi p) markPx rate,
                           ch_rate = rate\<rparr>)"

definition book_charge :: "env \<Rightarrow> user \<Rightarrow> Charge \<Rightarrow> state \<Rightarrow> state" where
  \<comment> \<open>the two commands of the pipeline and the row for userFunding\<close>
  "book_charge E u c s =
    (let p = ch_pos c; L = lib E;
         p' = p\<lparr>p_cumFunding := add_d L (p_cumFunding p) (ch_amount c),
                p_cumFundingSinceOpen := add_d L (p_cumFundingSinceOpen p) (ch_amount c),
                p_cumFundingSinceChange := add_d L (p_cumFundingSinceChange p) (ch_amount c)\<rparr>;
         s1 = incr_balance E u '''' (neg_d (ch_amount c)) s;
         s2 = s1\<lparr>pos := (pos s1)(u := (pos s1 u)(ch_asset c := Some p'))\<rparr>
     in emit (FundingRow u (p_coin p) (neg_d (ch_amount c)) (p_szi p) (ch_rate c) (now E)) s2)"

definition fund_user :: "env \<Rightarrow> (coin \<Rightarrow> rat option) \<Rightarrow> user \<Rightarrow> state \<Rightarrow> state" where
  "fund_user E rates u s =
    (let assets = posSet s u ''''
     in if assets = [] then s\<lparr>usersActive := srem u (usersActive s)\<rparr>
        else foldl (\<lambda>acc c. book_charge E u c acc) s (List.map_filter (charge_of E rates s u) assets))"

definition applyFunding :: "env \<Rightarrow> bool \<Rightarrow> (coin \<Rightarrow> rat option) \<Rightarrow> state \<Rightarrow> state" where
  \<comment> \<open>the flag is FUNDING_ENABLED\<close>
  "applyFunding E enabled rates s =
    (if \<not> enabled then s else foldl (\<lambda>acc u. fund_user E rates u acc) s (usersActive s))"

subsection \<open>What funding moves\<close>

definition charges :: "env \<Rightarrow> (coin \<Rightarrow> rat option) \<Rightarrow> state \<Rightarrow> user \<Rightarrow> Charge list" where
  "charges E rates s u = List.map_filter (charge_of E rates s u) (posSet s u '''')"

definition charged_pos :: "env \<Rightarrow> Charge \<Rightarrow> PosHash" where
  "charged_pos E c = (ch_pos c)
    \<lparr>p_cumFunding := add_d (lib E) (p_cumFunding (ch_pos c)) (ch_amount c),
     p_cumFundingSinceOpen := add_d (lib E) (p_cumFundingSinceOpen (ch_pos c)) (ch_amount c),
     p_cumFundingSinceChange := add_d (lib E) (p_cumFundingSinceChange (ch_pos c)) (ch_amount c)\<rparr>"

lemma book_charge_frame:
  "book_charge E u c s = s\<lparr>balance := balance (book_charge E u c s), pos := pos (book_charge E u c s),
    bus := bus (book_charge E u c s)\<rparr>"
  by (simp add: book_charge_def incr_balance_def emit_def Let_def)

lemma book_charge_pos:
  "pos (book_charge E u c s) = (pos s)(u := (pos s u)(ch_asset c := Some (charged_pos E c)))"
  by (simp add: book_charge_def incr_balance_def emit_def charged_pos_def Let_def)

lemma book_charge_balance:
  "incrf E = (+) \<Longrightarrow> getBalance (book_charge E u c s) v scope =
    getBalance s v scope - (if v = u \<and> scope = '''' then ch_amount c else 0)"
  by (simp add: book_charge_def incr_balance_def emit_def getBalance_def neg_d_def Let_def split: option.split)

lemma book_all_frame:
  "\<exists>b p ev. foldl (\<lambda>acc c. book_charge E u c acc) s cs = s\<lparr>balance := b, pos := p, bus := ev\<rparr>"
proof (induction cs arbitrary: s)
  case (Cons c cs)
  from Cons [of "book_charge E u c s"] show ?case
    by (simp, subst (asm) book_charge_frame) fastforce
next
  case Nil
  show ?case
    by (simp, rule exI [of _ "balance s"], rule exI [of _ "pos s"], rule exI [of _ "bus s"]) simp
qed

lemma book_all_balance:
  "incrf E = (+) \<Longrightarrow> getBalance (foldl (\<lambda>acc c. book_charge E u c acc) s cs) v scope =
    getBalance s v scope - (if v = u \<and> scope = '''' then sum_list (map ch_amount cs) else 0)"
  by (induction cs arbitrary: s) (simp_all add: book_charge_balance)

lemma book_all_pos:
  "distinct (map ch_asset cs) \<Longrightarrow>
    pos (foldl (\<lambda>acc c. book_charge E u c acc) s cs) v a =
      (if v = u then case List.find (\<lambda>c. ch_asset c = a) cs of None \<Rightarrow> pos s v a | Some c \<Rightarrow> Some (charged_pos E c)
       else pos s v a)"
proof (induction cs arbitrary: s)
  case (Cons c cs)
  have "List.find (\<lambda>d. ch_asset d = ch_asset c) cs = None"
    using Cons.prems by (auto simp: find_None_iff image_iff)
  with Cons show ?case by (auto simp: book_charge_pos split: option.split)
qed simp

lemma charge_of_fields:
  "charge_of E rates s u a = Some c \<Longrightarrow> ch_asset c = a \<and> pos s u a = Some (ch_pos c)"
  by (auto simp: charge_of_def split: option.splits if_splits)

lemma charges_assets:
  assumes "distinct (posSet s u '''')"
  shows "distinct (map ch_asset (charges E rates s u))"
    "List.find (\<lambda>c. ch_asset c = a) (charges E rates s u) =
      (if a \<in> set (posSet s u '''') then charge_of E rates s u a else None)"
proof -
  let ?m = "\<lambda>as. List.map_filter (charge_of E rates s u) as"
  have sub: "ch_asset ` set (?m as) \<subseteq> set as" for as
    by (induction as) (auto simp: map_filter_simps split: option.split dest: charge_of_fields)
  have "distinct (map ch_asset (?m as)) \<and>
      List.find (\<lambda>c. ch_asset c = a) (?m as) = (if a \<in> set as then charge_of E rates s u a else None)"
    if "distinct as" for as
    using that
  proof (induction as)
    case (Cons b as)
    with sub [of as] show ?case
      by (cases "charge_of E rates s u b") (auto simp: map_filter_simps dest: charge_of_fields)
  qed (simp add: map_filter_simps)
  with assms show "distinct (map ch_asset (charges E rates s u))"
    "List.find (\<lambda>c. ch_asset c = a) (charges E rates s u) =
      (if a \<in> set (posSet s u '''') then charge_of E rates s u a else None)"
    by (simp_all add: charges_def)
qed

lemma fund_user_frame:
  "ledger.truncate (fund_user E rates u s) = ledger.truncate (s\<lparr>balance := balance (fund_user E rates u s),
     pos := pos (fund_user E rates u s), usersActive := usersActive (fund_user E rates u s)\<rparr>)"
  "posSet (fund_user E rates u s) = posSet s" "ctx_mark (fund_user E rates u s) = ctx_mark s"
  "market.truncate (fund_user E rates u s) = market.truncate s"
  "orders (fund_user E rates u s) = orders s" "seqOid (fund_user E rates u s) = seqOid s"
proof -
  obtain b p ev where f: "foldl (\<lambda>acc c. book_charge E u c acc) s (charges E rates s u) = s\<lparr>balance := b, pos := p, bus := ev\<rparr>"
    using book_all_frame by blast
  show "ledger.truncate (fund_user E rates u s) = ledger.truncate (s\<lparr>balance := balance (fund_user E rates u s),
     pos := pos (fund_user E rates u s), usersActive := usersActive (fund_user E rates u s)\<rparr>)"
    "posSet (fund_user E rates u s) = posSet s" "ctx_mark (fund_user E rates u s) = ctx_mark s"
    "market.truncate (fund_user E rates u s) = market.truncate s"
    "orders (fund_user E rates u s) = orders s" "seqOid (fund_user E rates u s) = seqOid s"
    using f by (simp_all add: fund_user_def charges_def Let_def ledger.defs market.defs)
qed

definition posSets_distinct :: "state \<Rightarrow> bool" where
  "posSets_distinct s \<longleftrightarrow> (\<forall>u. distinct (posSet s u ''''))"

definition paid :: "env \<Rightarrow> (coin \<Rightarrow> rat option) \<Rightarrow> state \<Rightarrow> user \<Rightarrow> rat" where
  \<comment> \<open>what a user pays in one round\<close>
  "paid E rates s u = sum_list (map ch_amount (charges E rates s u))"

definition pos_after :: "env \<Rightarrow> (coin \<Rightarrow> rat option) \<Rightarrow> state \<Rightarrow> user \<Rightarrow> asset \<Rightarrow> PosHash option" where
  "pos_after E rates s u a =
    (case (if a \<in> set (posSet s u '''') then charge_of E rates s u a else None) of
       None \<Rightarrow> pos s u a | Some c \<Rightarrow> Some (charged_pos E c))"

lemma fund_user_effect:
  assumes "incrf E = (+)" "distinct (posSet s u '''')"
  shows "getBalance (fund_user E rates u s) v scope =
      getBalance s v scope - (if v = u \<and> scope = '''' then paid E rates s u else 0)"
    "pos (fund_user E rates u s) v a = (if v = u then pos_after E rates s u a else pos s v a)"
proof -
  have e: "fund_user E rates u s = (if posSet s u '''' = [] then s\<lparr>usersActive := srem u (usersActive s)\<rparr>
      else foldl (\<lambda>acc c. book_charge E u c acc) s (charges E rates s u))"
    by (simp add: fund_user_def charges_def Let_def)
  have nil: "charges E rates s u = []" if "posSet s u '''' = []" using that by (simp add: charges_def map_filter_simps)
  show "getBalance (fund_user E rates u s) v scope =
      getBalance s v scope - (if v = u \<and> scope = '''' then paid E rates s u else 0)"
    using book_all_balance [OF assms(1), of u s "charges E rates s u" v scope] nil
    by (auto simp: e paid_def getBalance_def)
  show "pos (fund_user E rates u s) v a = (if v = u then pos_after E rates s u a else pos s v a)"
    using book_all_pos [OF charges_assets(1) [OF assms(2)], where E = E and u = u and s = s and v = v and a = a]
      charges_assets(2) [OF assms(2)] nil
    by (auto simp: e pos_after_def split: option.split)
qed

lemma charges_cong:
  assumes "pos t u = pos s u" "posSet t = posSet s" "ctx_mark t = ctx_mark s"
  shows "charges E rates t u = charges E rates s u" "pos_after E rates t u = pos_after E rates s u"
proof -
  have e: "charge_of E rates t u = charge_of E rates s u"
    by (intro ext, unfold charge_of_def assms(1,3)) (rule refl)
  then have c: "charge_of E rates t u a = charge_of E rates s u a" and p: "pos t u a = pos s u a" for a
    by (simp_all add: assms(1))
  show "charges E rates t u = charges E rates s u" by (simp add: charges_def assms(2) e)
  show "pos_after E rates t u = pos_after E rates s u"
    by (intro ext, unfold pos_after_def c p assms(2)) (rule refl)
qed

lemma fund_all_effect:
  assumes "incrf E = (+)" "posSets_distinct s" "distinct us"
  shows "getBalance (foldl (\<lambda>acc u. fund_user E rates u acc) s us) v scope =
      getBalance s v scope - (if v \<in> set us \<and> scope = '''' then paid E rates s v else 0) \<and>
    pos (foldl (\<lambda>acc u. fund_user E rates u acc) s us) v a =
      (if v \<in> set us then pos_after E rates s v a else pos s v a) \<and>
    market.truncate (foldl (\<lambda>acc u. fund_user E rates u acc) s us) = market.truncate s \<and>
    posSet (foldl (\<lambda>acc u. fund_user E rates u acc) s us) = posSet s \<and>
    orders (foldl (\<lambda>acc u. fund_user E rates u acc) s us) = orders s"
  using assms(2,3)
proof (induction us arbitrary: s)
  case (Cons u us)
  let ?s = "fund_user E rates u s"
  note fr = fund_user_frame [of E rates u s]
  have d: "distinct (posSet s u '''')" using Cons.prems by (simp add: posSets_distinct_def)
  note ef = fund_user_effect [OF assms(1) d, of rates]
  have "posSets_distinct ?s" using Cons.prems by (simp add: posSets_distinct_def fr(2))
  note ih = Cons.IH [OF this]
  have same: "paid E rates ?s v = paid E rates s v" "pos_after E rates ?s v = pos_after E rates s v" if "v \<noteq> u" for v
    using charges_cong [of ?s v s E rates] that ef(2) fr(2,3) by (simp_all add: paid_def fun_eq_iff)
  show ?case
  proof (cases "v = u")
    case True
    with Cons.prems ih same ef fr show ?thesis by simp
  next
    case False
    with Cons.prems ih same [OF False] ef fr show ?thesis by simp
  qed
qed simp



end
