(* ===== verification/TrailingPlace.thy ===== *)
theory TrailingPlace
  imports Orders
begin

text \<open>
  engine/trailingStop.ts: placing a trailing stop. The second argument of
  \<open>placeTrailingStop\<close> gives the answers to the HTTP requests of refreshMarks, which is only
  asked when the feed has no fresh mark of the coin.
\<close>

definition trailing_hash :: "env \<Rightarrow> user \<Rightarrow> coin \<Rightarrow> TrailingStopWire \<Rightarrow> TrailingParams \<Rightarrow> TrailingEval \<Rightarrow> oid \<Rightarrow> OrderHash" where
  \<comment> \<open>the fields written for a new stop, the frozen body included\<close>
  "trailing_hash E u c action params ev oid =
    (let ord = (buildOrder oid u (tw_asset action) c (tw_isBuy action) (dec_value (tw_sz action)) (te_limitPx ev)
           TrailingStop Gtc (tw_reduceOnly action) Na None (now E) None None)\<lparr>o_triggerPx := te_triggerPx ev\<rparr>;
         d = \<lparr>h_order = ord, h_expiresAfter = None, h_trail = fieldsFrom params (te_state ev), h_trSnap = None\<rparr>
     in d\<lparr>h_trSnap := Some (buildTrailingBody (lib E) d False)\<rparr>)"

definition mark_for ::
    "env \<Rightarrow> (dex_name \<Rightarrow> (coin \<times> rat option) list option) \<Rightarrow> coin \<Rightarrow> state \<Rightarrow> rat option \<times> state" where
  \<comment> \<open>the fresh mark, after one HTTP refresh when the feed has none\<close>
  "mark_for E resp c s =
    (case getFreshMark E s c of Some mark \<Rightarrow> (Some mark, s)
     | None \<Rightarrow> (let s1 = snd (refreshMarks (now E) resp [c] s) in (getFreshMark E s1 c, s1)))"

definition store_trailing :: "env \<Rightarrow> user \<Rightarrow> TrailingStopWire \<Rightarrow> OrderHash \<Rightarrow> state \<Rightarrow> state" where
  \<comment> \<open>the pipeline of writes and the events of a new stop, whose oid is already drawn\<close>
  "store_trailing E u action d s1 =
    (let oid = o_oid (h_order d);
         s2 = s1\<lparr>seqOid := oid, orders := (orders s1)(oid := Some d)\<rparr>;
         s3 = add_user_order u (scopeForAsset s1 (tw_asset action)) (now E) oid s2;
         s4 = s3\<lparr>trailSet := sadd oid (trailSet s3)\<rparr>;
         s5 = emitTrailingHistory d St_open (now E) (buildTrailingBody (lib E) d False) s4
     in emit (OrderUpdate u (paperOrderFromHash d St_open (now E)) St_open) s5)"

definition placeTrailingStop ::
    "env \<Rightarrow> (dex_name \<Rightarrow> (coin \<times> rat option) list option) \<Rightarrow> user \<Rightarrow> TrailingStopWire \<Rightarrow> state \<Rightarrow>
     (OrderError + oid) \<times> state" where
  "placeTrailingStop E resp u action s =
    (let L = lib E; a = tw_asset action
     in if isSpotAsset a then (Inl (UnknownAsset a), s)
     else case resolveAssetCoin s a of None \<Rightarrow> (Inl (UnknownAsset a), s)
     | Some c \<Rightarrow>
        if c = '''' then (Inl (UnknownAsset a), s)
        else
          let szDecimals = getAssetDecimals s a
          in case validateTrailingStop L action szDecimals of Some err \<Rightarrow> (Inl err, s)
          | None \<Rightarrow>
             (case (if tw_reduceOnly action then None else leverageErrorForOpen s u a (tw_isBuy action)) of
                Some err \<Rightarrow> (Inl err, s)
              | None \<Rightarrow>
                 (case mark_for E resp c (emit (MarkSub c) s) of
                    (None, s1) \<Rightarrow> (Inl NoMarketPrice, s1)
                  | (Some mark, s1) \<Rightarrow>
                     let params = paramsFromWire L action szDecimals
                     in case validatePxAgainstReference params mark of Some err \<Rightarrow> (Inl err, s1)
                     | None \<Rightarrow>
                        (case evaluateTrailing L params \<lparr>ts_activated = False, ts_best = None\<rparr> mark of
                           None \<Rightarrow> (Inl NoMarketPrice, s1) \<comment> \<open>unreachable: \<open>evaluate_fresh\<close>\<close>
                         | Some ev \<Rightarrow>
                            let oid = Suc (seqOid s1); d = trailing_hash E u c action params ev oid
                            in (Inr oid, store_trailing E u action d s1)))))"

subsection \<open>What the pieces guarantee\<close>

lemma evaluate_fresh: "\<exists>ev. evaluateTrailing L p \<lparr>ts_activated = False, ts_best = None\<rparr> mark = Some ev"
  by (auto simp: evaluateTrailing_def step_best_def reached_def Let_def split: option.split)

lemma ctx_mark_self [simp]: "\<exists>m. s = s\<lparr>ctx_mark := m\<rparr>"
  by (rule exI [of _ "ctx_mark s"]) simp

lemma store_marks_frame: "\<exists>m. snd (store_marks t wanted rows (n, s)) = s\<lparr>ctx_mark := m\<rparr>"
  by (induction t wanted rows "(n, s)" arbitrary: n s rule: store_marks.induct) auto

lemma refreshMarks_frame: "\<exists>m. snd (refreshMarks t resp coins s) = s\<lparr>ctx_mark := m\<rparr>"
proof -
  define f where "f = (\<lambda>stale acc dex. case resp dex of None \<Rightarrow> acc
    | Some rows \<Rightarrow> store_marks t (filter (\<lambda>c. coin_dex c = dex) stale) rows (acc :: nat \<times> 'a market_scheme))"
  have step: "\<exists>m. snd (f stale acc dex) = (snd acc)\<lparr>ctx_mark := m\<rparr>" for stale acc dex
  proof (cases acc)
    case (Pair n s')
    then show ?thesis
      using store_marks_frame [of t _ _ n s'] by (auto simp: f_def split: option.split intro: exI [of _ "ctx_mark s'"])
  qed
  have "\<exists>m. snd (foldl (f stale) acc dexs) = (snd acc)\<lparr>ctx_mark := m\<rparr>" for stale acc dexs
  proof (induction dexs arbitrary: acc)
    case Nil
    show ?case by (intro exI [of _ "ctx_mark (snd acc)"]) simp
  next
    case (Cons d ds)
    from Cons [of "f stale acc d"] step [of stale acc d] show ?case by auto
  qed
  then show ?thesis unfolding refreshMarks_def Let_def f_def by (metis snd_conv)
qed

lemma mark_for_frame:
  assumes "mark_for E resp c s = (m, s')"
  shows "\<exists>f. s' = s\<lparr>ctx_mark := f\<rparr>" "m = getFreshMark E s' c"
  using assms refreshMarks_frame [of "now E" resp "[c]" s]
  by (auto simp: mark_for_def Let_def eq_commute [of "snd _"] split: option.splits)

lemma scope_ctx_mark: "scopeForAsset (s\<lparr>ctx_mark := f\<rparr>) = scopeForAsset s"
  by (simp add: scopeForAsset_def dex_name_at_def fun_eq_iff)

lemma getFreshMark_ctx: "ctx_mark s = ctx_mark t \<Longrightarrow> getFreshMark E s = getFreshMark E t"
  by (simp add: getFreshMark_def getMark_def fun_eq_iff)

lemma readTrailing_trailing_hash:
  "readTrailing (trailing_hash E u c action (paramsFromWire L action n) ev oid) = (paramsFromWire L action n, te_state ev)"
  by (simp add: readTrailing_def trailing_hash_def Let_def buildOrder_def fieldsFrom_def paramsFromWire_def)

lemma trailing_hash_fields [simp]:
  "o_oid (h_order (trailing_hash E u c action p ev oid)) = oid"
  "o_status (h_order (trailing_hash E u c action p ev oid)) = St_open"
  "o_orderType (h_order (trailing_hash E u c action p ev oid)) = TrailingStop"
  "o_userId (h_order (trailing_hash E u c action p ev oid)) = u"
  "o_sz (h_order (trailing_hash E u c action p ev oid)) = dec_value (tw_sz action)"
  by (simp_all add: trailing_hash_def Let_def buildOrder_def)

lemma store_trailing_frame:
  assumes "s' = store_trailing E u action d s"
  shows "orders s' = (orders s)(o_oid (h_order d) \<mapsto> d)" "seqOid s' = o_oid (h_order d)"
    "trailSet s' = sadd (o_oid (h_order d)) (trailSet s)" "openSet s' = openSet s" "trigSet s' = trigSet s"
    "bracket s' = bracket s" "children s' = children s" "parentOf s' = parentOf s"
    "ledger.truncate s' = ledger.truncate s"
  by (simp_all add: assms store_trailing_def Let_def add_user_order_def emitTrailingHistory_def)

definition fresh_eval :: "env \<Rightarrow> TrailingParams \<Rightarrow> rat \<Rightarrow> TrailingEval option" where
  \<comment> \<open>the evaluation of a stop that has not seen a mark\<close>
  "fresh_eval E p mark = evaluateTrailing (lib E) p \<lparr>ts_activated = False, ts_best = None\<rparr> mark"

lemma placeTrailingStop_accepted:
  assumes "placeTrailingStop E resp u action s = (Inr oid, s')"
  defines "p \<equiv> paramsFromWire (lib E) action (getAssetDecimals s (tw_asset action))"
  obtains c mark ev s1 where "resolveAssetCoin s (tw_asset action) = Some c"
    "validateTrailingStop (lib E) action (getAssetDecimals s (tw_asset action)) = None"
    "mark_for E resp c (emit (MarkSub c) s) = (Some mark, s1)" "validatePxAgainstReference p mark = None"
    "fresh_eval E p mark = Some ev" "oid = Suc (seqOid s1)"
    "s' = store_trailing E u action (trailing_hash E u c action p ev oid) s1"
  using assms(1)
  by (auto simp: placeTrailingStop_def Let_def p_def fresh_eval_def split: if_splits option.splits prod.splits)

lemma placeTrailingStop_rejected:
  assumes "placeTrailingStop E resp u action s = (Inl err, s')"
  shows "\<exists>c r. s' = s \<or> s' = snd (mark_for E resp c (emit (MarkSub c) s))"
  using assms
  by (auto simp: placeTrailingStop_def Let_def split: if_splits option.splits prod.splits) (metis snd_conv)+



end
