(* ===== verification/Doubles.thy ===== *)
theory Doubles
  imports Decimal30
begin

text \<open>
  JavaScript numbers where the program computes with them: \<open>dbl\<close> rounds an exact result to
  the nearest double of 53 significant bits, ties to even. Overflow, subnormal numbers and
  the special values are out of range of every use in the model and are not part of it.
\<close>

fun blen :: "nat \<Rightarrow> nat" where
  \<comment> \<open>binary digits of a natural number\<close>
  "blen n = (if n < 2 then 1 else Suc (blen (n div 2)))"

declare blen.simps [simp del]

definition bmag :: "rat \<Rightarrow> int" where
  \<comment> \<open>the exponent of the leading bit\<close>
  "bmag x = (case quotient_of \<bar>x\<bar> of (a, b) \<Rightarrow>
     let e = int (blen (nat a)) - int (blen (nat b))
     in if 2 powi e \<le> \<bar>x\<bar> then e else e - 1)"

definition round_even :: "rat \<Rightarrow> int" where
  "round_even r =
    (let f = \<lfloor>r\<rfloor>; d = r - of_int f
     in if d < 1 / 2 then f else if 1 / 2 < d then f + 1 else if even f then f else f + 1)"

definition dbl :: "rat \<Rightarrow> rat" where
  "dbl x = (if x = 0 then 0
    else let u = 2 powi (bmag x - 52) in sgn x * of_int (round_even (\<bar>x\<bar> / u)) * u)"

text \<open>\<open>Number.prototype.toFixed\<close> and \<open>Math.round\<close> of a number that is not negative.\<close>

definition js_toFixed :: "nat \<Rightarrow> rat \<Rightarrow> rat" where
  "js_toFixed n x = half_up_dp n x"

definition js_round :: "rat \<Rightarrow> int" where
  "js_round x = \<lfloor>x + 1 / 2\<rfloor>"

lemma blen_pos: "0 < blen n"
  by (subst blen.simps) simp

lemma blen_upper: "n < 2 ^ blen n"
proof (induction n rule: blen.induct)
  case (1 n)
  show ?case
  proof (cases "n < 2")
    case False
    with 1 have "n div 2 < 2 ^ blen (n div 2)" by simp
    then have "n < 2 * 2 ^ blen (n div 2)" by linarith
    with False show ?thesis by (subst blen.simps) simp
  qed (subst blen.simps, simp)
qed

lemma blen_lower: "0 < n \<Longrightarrow> 2 ^ (blen n - 1) \<le> n"
proof (induction n rule: blen.induct)
  case (1 n)
  show ?case
  proof (cases "n < 2")
    case False
    with 1 have "2 ^ (blen (n div 2) - 1) \<le> n div 2" by simp
    then have "2 * 2 ^ (blen (n div 2) - 1) \<le> n" by linarith
    moreover have "2 * 2 ^ (blen (n div 2) - 1) = (2::nat) ^ blen (n div 2)"
      using blen_pos [of "n div 2"] by (cases "blen (n div 2)") simp_all
    ultimately show ?thesis using False by (subst blen.simps) simp
  qed (use 1 in \<open>subst blen.simps, simp\<close>)
qed

lemma bmag_lower:
  assumes x: "0 < x"
  shows "2 powi bmag x \<le> x"
proof -
  obtain a b where q: "quotient_of x = (a, b)" by (cases "quotient_of x")
  have b: "0 < b" using quotient_of_denom_pos [OF q] .
  have xab: "x = of_int a / of_int b" using quotient_of_div [OF q] .
  with x b have a: "0 < a" by (simp add: zero_less_divide_iff)
  define i where "i = int (blen (nat a))"
  define j where "j = int (blen (nat b))"
  have "(of_nat (2 ^ (blen (nat a) - 1)) :: rat) \<le> of_nat (nat a)"
    using blen_lower [of "nat a"] a by (simp only: of_nat_le_iff zero_less_nat_eq)
  moreover have "i - 1 = int (blen (nat a) - 1)" using blen_pos [of "nat a"] unfolding i_def by linarith
  ultimately have a1: "(2::rat) powi (i - 1) \<le> of_int a"
    using a by (simp add: power_int_of_nat)
  have "(of_nat (nat b) :: rat) < of_nat (2 ^ blen (nat b))"
    using blen_upper [of "nat b"] by (simp only: of_nat_less_iff)
  then have b2: "(of_int b :: rat) < 2 powi j" using b by (simp add: j_def power_int_of_nat)
  have e: "(2::rat) powi (i - j - 1) * 2 powi j = 2 powi (i - 1)"
    by (simp flip: power_int_add)
  have "2 powi (i - j - 1) * (of_int b :: rat) \<le> 2 powi (i - j - 1) * 2 powi j"
    by (rule mult_left_mono) (use b2 in \<open>simp_all add: less_imp_le\<close>)
  also have "\<dots> \<le> of_int a" using a1 by (simp only: e)
  finally have lo: "2 powi (i - j - 1) \<le> x" using b by (simp add: xab le_divide_eq)
  have "bmag x = (if 2 powi (i - j) \<le> x then i - j else i - j - 1)"
    using x by (simp add: bmag_def q Let_def i_def j_def)
  with lo show ?thesis by auto
qed

lemma round_even_err: "\<bar>of_int (round_even r) - r\<bar> \<le> (1 / 2 :: rat)"
proof -
  define f where "f = \<lfloor>r\<rfloor>"
  have "of_int f \<le> r" "r < of_int f + 1" using floor_correct [of r] by (simp_all add: f_def)
  then show ?thesis unfolding round_even_def Let_def f_def [symmetric] by (auto simp: abs_if)
qed

definition ulp :: rat where
  \<comment> \<open>the relative rounding error of a double\<close>
  "ulp = 1 / 2 ^ 53"

lemma dbl_err: "\<bar>dbl x - x\<bar> \<le> \<bar>x\<bar> * ulp"
proof (cases "x = 0")
  case False
  define u :: rat where "u = 2 powi (bmag x - 52)"
  have u: "0 < u" by (simp add: u_def)
  have b: "bmag \<bar>x\<bar> = bmag x" by (simp add: bmag_def)
  have "sgn x * (\<bar>x\<bar> / u) * u = x" using u by (simp add: sgn_mult_abs)
  moreover have "dbl x = sgn x * of_int (round_even (\<bar>x\<bar> / u)) * u"
    using False by (simp add: dbl_def u_def Let_def)
  ultimately have "dbl x - x = sgn x * (of_int (round_even (\<bar>x\<bar> / u)) - \<bar>x\<bar> / u) * u"
    by (metis left_diff_distrib right_diff_distrib)
  then have "\<bar>dbl x - x\<bar> = \<bar>of_int (round_even (\<bar>x\<bar> / u)) - \<bar>x\<bar> / u\<bar> * u"
    using False u by (simp add: abs_mult abs_sgn_eq)
  also have "\<dots> \<le> 1 / 2 * u" using round_even_err u by (intro mult_right_mono) simp_all
  also have "1 / 2 * u = 2 powi bmag x * ulp"
    by (simp add: u_def ulp_def power_int_diff)
  also have "\<dots> \<le> \<bar>x\<bar> * ulp"
    using bmag_lower [of "\<bar>x\<bar>"] False by (intro mult_right_mono) (simp_all add: b ulp_def)
  finally show ?thesis .
qed (simp add: dbl_def)

lemma dbl_0 [simp]: "dbl 0 = 0"
  by (simp add: dbl_def)

lemma dbl_near: "0 \<le> x \<Longrightarrow> x * (1 - ulp) \<le> dbl x \<and> dbl x \<le> x * (1 + ulp)"
  using dbl_err [of x] by (simp add: abs_le_iff algebra_simps)

lemma dbl_nonneg: "0 \<le> x \<Longrightarrow> 0 \<le> dbl x"
proof -
  assume x: "0 \<le> x"
  have "0 \<le> x * (1 - ulp)" using x by (simp add: ulp_def)
  with dbl_near [OF x] show ?thesis by linarith
qed

lemma dbl_pos: "0 < x \<Longrightarrow> 0 < dbl x"
proof -
  assume x: "0 < x"
  have "0 < x * (1 - ulp)" using x by (simp add: ulp_def)
  with dbl_near [of x] x show ?thesis by linarith
qed

lemma dbl_nonpos: "x \<le> 0 \<Longrightarrow> dbl x \<le> 0"
proof -
  assume x: "x \<le> 0"
  have "dbl x - x \<le> - x * ulp" using dbl_err [of x] x by (simp only: abs_le_iff abs_of_nonpos)
  moreover have "0 \<le> - x * (1 - ulp)" using x by (intro mult_nonneg_nonneg) (simp_all add: ulp_def)
  ultimately show ?thesis by (simp add: algebra_simps)
qed

lemma dbl_le: "x \<le> y \<Longrightarrow> 0 \<le> y \<Longrightarrow> dbl x \<le> y * (1 + ulp)"
proof (cases "0 \<le> x")
  case True
  assume "x \<le> y"
  then have "x * (1 + ulp) \<le> y * (1 + ulp)" by (intro mult_right_mono) (simp_all add: ulp_def)
  with dbl_near [OF True] show ?thesis by linarith
next
  case False
  assume "0 \<le> y"
  then have "0 \<le> y * (1 + ulp)" by (simp add: ulp_def)
  with dbl_nonpos [of x] False show ?thesis by linarith
qed

end
