(* ===== verification/Twap.thy ===== *)
theory Twap
  imports Doubles Matcher
begin

text \<open>
  TWAP orders: createTwapOrder and cancelTwapOrder of engine/order.ts, and matchTwaps of
  worker/order-matcher.ts, which submits the slices. The sizes are doubles (\<open>dbl\<close>); a random
  draw in the interval from 0 to 1 per TWAP jitters the schedule. The route passes a number of
  minutes between 5 and 1440, an integer in the model.
\<close>

definition TWAP_SLICE_INTERVAL_MS :: millis where "TWAP_SLICE_INTERVAL_MS = 30000"
definition TWAP_MAX_SLIPPAGE_PCT :: rat where "TWAP_MAX_SLIPPAGE_PCT = dbl (3 / 100)"
definition TWAP_MAX_CATCHUP_MULTIPLIER :: rat where "TWAP_MAX_CATCHUP_MULTIPLIER = 3"

subsection \<open>Creating and cancelling\<close>

definition createTwapOrder ::
    "env \<Rightarrow> user \<Rightarrow> asset \<Rightarrow> bool \<Rightarrow> rat option \<Rightarrow> bool \<Rightarrow> nat \<Rightarrow> bool \<Rightarrow> state \<Rightarrow> (OrderError + nat) \<times> state" where
  \<comment> \<open>the size is \<open>None\<close> when parseFloat reads no finite number\<close>
  "createTwapOrder E u a isBuy totalSz reduceOnly minutes randomize s =
    (case resolveAssetCoin s a of None \<Rightarrow> (Inl (UnknownAsset a), s)
     | Some c \<Rightarrow>
        if c = '''' then (Inl (UnknownAsset a), s)
        else case totalSz of None \<Rightarrow> (Inl InvalidTwapSize, s)
        | Some tot \<Rightarrow>
            if dbl tot \<le> 0 then (Inl InvalidTwapSize, s)
            else
              let numSlices = max 1 (minutes * 2);
                  small = (case midPx s c of None \<Rightarrow> False
                    | Some mid \<Rightarrow> dbl (dbl (dbl tot / of_nat numSlices) * dbl mid) < 10)
              in if small then (Inl TwapTooSmall, s)
                 else
                   let twapId = Suc (seqTwap s); t = now E;
                       h = \<lparr>twp_userId = u, twp_asset = a, twp_coin = c, twp_isBuy = isBuy, twp_reduceOnly = reduceOnly,
                         twp_totalSize = tot, twp_filledSize = 0, twp_startTime = t,
                         twp_endTime = t + int minutes * 60000, twp_minutes = minutes, twp_randomize = randomize,
                         twp_szDecimals = getAssetDecimals s a, twp_status = Tw_running,
                         twp_lastSubmittedAt = None, twp_nextSliceAt = None\<rparr>
                   in (Inr twapId, emit (TwapActivated twapId h)
                        (s\<lparr>seqTwap := twapId, twaps := (twaps s)(twapId := Some h),
                           twapsActive := sadd twapId (twapsActive s),
                           userTwaps := (userTwaps s)(u := zadd t twapId (userTwaps s u))\<rparr>)))"

definition set_twap :: "nat \<Rightarrow> (TwapHash \<Rightarrow> TwapHash) \<Rightarrow> state \<Rightarrow> state" where
  "set_twap i f s = s\<lparr>twaps := (twaps s)(i := map_option f (twaps s i))\<rparr>"

definition drop_twap :: "nat \<Rightarrow> state \<Rightarrow> state" where
  "drop_twap i s = s\<lparr>twapsActive := srem i (twapsActive s)\<rparr>"

definition cancelTwapOrder :: "env \<Rightarrow> user \<Rightarrow> nat \<Rightarrow> state \<Rightarrow> OrderError option \<times> state" where
  "cancelTwapOrder E u i s =
    (case twaps s i of None \<Rightarrow> (Some (TwapNotFound i), s)
     | Some h \<Rightarrow>
        if twp_userId h \<noteq> u then (Some (TwapNotFound i), s)
        else if twp_status h \<noteq> Tw_running then (Some (TwapNotRunning i), s)
        else (None, emit (TwapHistory i Tw_cancelled (twp_filledSize h) (now E))
                      (drop_twap i (set_twap i (\<lambda>h. h\<lparr>twp_status := Tw_cancelled\<rparr>) s))))"

subsection \<open>Sizing a slice\<close>

definition fmtPx5 :: "rat \<Rightarrow> rat" where
  \<comment> \<open>five significant digits; tiny prices keep eight decimals\<close>
  "fmtPx5 px = (let d = round_sig 5 px in if \<bar>dbl d\<bar> < dbl (1 / 10 ^ 6) then js_toFixed 8 (dbl d) else d)"

definition twap_waits :: "env \<Rightarrow> TwapHash \<Rightarrow> bool" where
  \<comment> \<open>the next slice is not due yet; a time of zero counts as absent\<close>
  "twap_waits E h =
    (let next = (case twp_nextSliceAt h of None \<Rightarrow> 0 | Some t \<Rightarrow> t);
         last = (case twp_lastSubmittedAt h of None \<Rightarrow> 0 | Some t \<Rightarrow> t)
     in (next \<noteq> 0 \<and> now E < next) \<or> (next = 0 \<and> last \<noteq> 0 \<and> now E - last < TWAP_SLICE_INTERVAL_MS))"

definition twap_remaining :: "TwapHash \<Rightarrow> rat" where
  "twap_remaining h = max 0 (dbl (dbl (twp_totalSize h) - twp_filledSize h))"

definition twap_base :: "TwapHash \<Rightarrow> rat" where
  "twap_base h =
    (let totalMs = of_int (twp_endTime h - twp_startTime h);
         numSlices = max 1 (js_round (dbl (totalMs / of_int TWAP_SLICE_INTERVAL_MS)))
     in dbl (dbl (twp_totalSize h) / of_int numSlices))"

definition twap_gap :: "env \<Rightarrow> TwapHash \<Rightarrow> rat" where
  "twap_gap E h =
    (let elapsedMs = of_int (now E - twp_startTime h); totalMs = of_int (twp_endTime h - twp_startTime h);
         targetFilled = dbl (dbl (twp_totalSize h) * dbl (elapsedMs / totalMs))
     in max 0 (dbl (targetFilled - twp_filledSize h)))"

definition twap_slice :: "env \<Rightarrow> TwapHash \<Rightarrow> rat" where
  "twap_slice E h =
    (let base = twap_base h; step = pow10neg E (twp_szDecimals h);
         raw = min (min (max (twap_gap E h) base) (dbl (base * TWAP_MAX_CATCHUP_MULTIPLIER))) (twap_remaining h)
     in dbl (of_int \<lfloor>dbl (dbl (raw + dbl (step * dbl (1 / 10 ^ 6))) / step)\<rfloor> * step))"

definition twap_wire :: "TwapHash \<Rightarrow> rat \<Rightarrow> rat \<Rightarrow> HlOrderWire" where
  \<comment> \<open>the IOC suborder of a slice at the given mid\<close>
  "twap_wire h slice mid =
    (let slip = (if twp_isBuy h then dbl (dbl mid * dbl (1 + TWAP_MAX_SLIPPAGE_PCT))
                 else dbl (dbl mid * dbl (1 - TWAP_MAX_SLIPPAGE_PCT)))
     in \<lparr>w_a = twp_asset h, w_b = twp_isBuy h, w_p = fmtPx5 slip,
         w_s = Some (js_toFixed (twp_szDecimals h) slice), w_r = twp_reduceOnly h, w_limit_tif = Some Ioc,
         w_trigger = None, w_c = None\<rparr>)"

definition slice_interval :: "TwapHash \<Rightarrow> rat \<Rightarrow> millis" where
  "slice_interval h rand =
    (if twp_randomize h then js_round (dbl (of_int TWAP_SLICE_INTERVAL_MS * dbl (1 / 2 + rand)))
     else TWAP_SLICE_INTERVAL_MS)"

definition add_filled :: "rat \<Rightarrow> rat \<Rightarrow> rat" where
  \<comment> \<open>the accumulator, rounded to nine decimals\<close>
  "add_filled filled sz = dbl (js_toFixed 9 (dbl (filled + dbl sz)))"

subsection \<open>The executor\<close>

definition finish_twap :: "env \<Rightarrow> nat \<Rightarrow> TwapHash \<Rightarrow> state \<Rightarrow> state" where
  "finish_twap E i h s =
    emit (TwapHistory i Tw_finished (twp_filledSize h) (now E)) (emit (TwapUpdate (twp_userId h) i Tw_finished None)
      (drop_twap i (set_twap i (\<lambda>h. h\<lparr>twp_status := Tw_finished, twp_lastSubmittedAt := Some (now E)\<rparr>) s)))"

definition submit_slice :: "env \<Rightarrow> rat \<Rightarrow> nat \<Rightarrow> TwapHash \<Rightarrow> rat \<Rightarrow> rat \<Rightarrow> state \<Rightarrow> state" where
  "submit_slice E rand i h slice mid s =
    (let next = now E + slice_interval h rand;
         (rs, s1) = placeOrders E (twp_userId h) [twap_wire h slice mid] Na (no_opts\<lparr>op_twapId := Some (show_nat i)\<rparr>) s
     in case rs of
          Filled sz px oid c # _ \<Rightarrow>
            let newFilled = add_filled (twp_filledSize h) sz
            in emit (TwapUpdate (twp_userId h) i Tw_running (Some newFilled))
                 (set_twap i (\<lambda>h. h\<lparr>twp_filledSize := newFilled, twp_lastSubmittedAt := Some (now E),
                                  twp_nextSliceAt := Some next\<rparr>) s1)
        | _ \<Rightarrow> set_twap i (\<lambda>h. h\<lparr>twp_lastSubmittedAt := Some (now E), twp_nextSliceAt := Some next\<rparr>) s1)"

definition match_twap_one :: "env \<Rightarrow> (nat \<Rightarrow> rat) \<Rightarrow> nat \<Rightarrow> state \<Rightarrow> state" where
  "match_twap_one E rand i s =
    (case twaps s i of None \<Rightarrow> drop_twap i s
     | Some h \<Rightarrow>
        if twp_status h \<noteq> Tw_running then
          (let s1 = drop_twap i s
           in if twp_status h = Tw_cancelled
              then emit (TwapHistory i Tw_cancelled (twp_filledSize h) (now E)) s1 else s1)
        else if twp_endTime h \<le> now E \<or> dbl (twp_totalSize h) \<le> twp_filledSize h then finish_twap E i h s
        else if twap_waits E h then s
        else if twap_remaining h < pow10neg E (twp_szDecimals h) then finish_twap E i h s
        else if twap_slice E h \<le> 0 then s
        else case midPx s (twp_coin h) of None \<Rightarrow> s
        | Some mid \<Rightarrow> submit_slice E (rand i) i h (twap_slice E h) mid s)"

definition matchTwaps :: "env \<Rightarrow> (nat \<Rightarrow> rat) \<Rightarrow> state \<Rightarrow> state" where
  "matchTwaps E rand s = foldl (\<lambda>acc i. match_twap_one E rand i acc) s (twapsActive s)"

definition matchAll :: "env \<Rightarrow> (nat \<Rightarrow> rat) \<Rightarrow> state \<Rightarrow> state" where
  "matchAll E rand s =
    sweepExpired E (matchTwaps E rand (matchTrailingStops E (matchTriggerOrders E (matchOpenOrders E s))))"

subsection \<open>Rounding to the grid of sizes\<close>

definition on_grid :: "nat \<Rightarrow> rat \<Rightarrow> bool" where
  "on_grid n x \<longleftrightarrow> (\<exists>k. x = of_int k / 10 ^ n)"

lemma on_grid_int: "on_grid n x \<Longrightarrow> of_int \<lfloor>x * 10 ^ n\<rfloor> = x * 10 ^ n"
  by (auto simp: on_grid_def)

lemma on_grid_diff: "on_grid n x \<Longrightarrow> on_grid n y \<Longrightarrow> on_grid n (x - y)"
  by (auto simp: on_grid_def simp flip: diff_divide_distrib of_int_diff)

lemma on_grid_add: "on_grid n x \<Longrightarrow> on_grid n y \<Longrightarrow> on_grid n (x + y)"
  by (auto simp: on_grid_def simp flip: add_divide_distrib of_int_add)

lemma on_grid_finer: "on_grid n x \<Longrightarrow> n \<le> m \<Longrightarrow> on_grid m x"
proof (unfold on_grid_def, elim exE)
  fix k assume x: "x = of_int k / 10 ^ n" and "n \<le> m"
  then have "(10::rat) ^ m = 10 ^ (m - n) * 10 ^ n" by (simp flip: power_add)
  then have "x = of_int (k * 10 ^ (m - n)) / 10 ^ m" by (simp add: x)
  then show "\<exists>k. x = of_int k / 10 ^ m" ..
qed

lemma toFixed_near:
  assumes "on_grid n x" "0 \<le> v" "\<bar>v - x\<bar> * 10 ^ n < 1 / 2"
  shows "js_toFixed n v = x"
proof -
  obtain k where k: "x = of_int k / 10 ^ n" using assms(1) by (auto simp: on_grid_def)
  have "\<bar>v * 10 ^ n - of_int k\<bar> = \<bar>v - x\<bar> * 10 ^ n"
    by (simp add: k abs_mult field_simps flip: abs_mult_pos)
  with assms(3) have b: "of_int k - 1 / 2 < v * 10 ^ n" "v * 10 ^ n < of_int k + 1 / 2"
    by (auto simp: abs_less_iff)
  then have f: "\<lfloor>v * 10 ^ n + 1 / 2\<rfloor> = k" by (intro floor_unique) simp_all
  show ?thesis
  proof (cases "v = 0")
    case True
    with b have "k = 0" by simp
    with True show ?thesis by (simp add: js_toFixed_def half_up_dp_def k)
  next
    case False
    with assms(2) f show ?thesis by (simp add: js_toFixed_def half_up_dp_def k)
  qed
qed

definition pow10_ok :: "env \<Rightarrow> nat \<Rightarrow> bool" where
  \<comment> \<open>the power is off by at most one unit in the last place\<close>
  "pow10_ok E n \<longleftrightarrow> \<bar>pow10neg E n - 1 / 10 ^ n\<bar> \<le> 1 / 10 ^ n * (2 * ulp)"

definition twap_ok :: "TwapHash \<Rightarrow> rat \<Rightarrow> bool" where
  \<comment> \<open>sizes on the asset's grid and in the range where nine decimals survive in a double;
    \<open>F\<close> is the decimal amount executed so far\<close>
  "twap_ok h F \<longleftrightarrow> twp_szDecimals h \<le> 9 \<and> on_grid (twp_szDecimals h) (twp_totalSize h) \<and>
    on_grid (twp_szDecimals h) F \<and> 0 \<le> F \<and> F \<le> twp_totalSize h \<and>
    twp_totalSize h * 10 ^ 9 \<le> 2 ^ 49 \<and> twp_filledSize h = dbl F"

lemma ten_power_le: "n \<le> 9 \<Longrightarrow> (10::rat) ^ n \<le> 10 ^ 9"
  by (rule power_increasing) simp_all

lemma remaining_bound:
  assumes "twap_ok h F"
  shows "twap_remaining h \<le> (twp_totalSize h - F) + 4 * ulp * twp_totalSize h" "0 \<le> twap_remaining h"
proof -
  let ?T = "twp_totalSize h"
  have T: "0 \<le> F" "F \<le> ?T" using assms by (simp_all add: twap_ok_def)
  have e: "0 < ulp" "ulp < 1 / 8" by (simp_all add: ulp_def)
  have "dbl ?T \<le> ?T * (1 + ulp)" "F * (1 - ulp) \<le> dbl F" using dbl_near [of ?T] dbl_near [of F] T by simp_all
  moreover have "F * ulp \<le> ?T * ulp" using T(2) e by (intro mult_right_mono) simp_all
  moreover have "?T * (1 + ulp) = ?T + ?T * ulp" "F * (1 - ulp) = F - F * ulp"
      "2 * ulp * ?T = 2 * (?T * ulp)"
    by (simp_all add: algebra_simps)
  ultimately have d: "dbl ?T - dbl F \<le> (?T - F) + 2 * ulp * ?T" by linarith
  let ?x = "dbl ?T - dbl F" and ?y = "(?T - F) + 2 * ulp * ?T"
  have "0 \<le> ulp * ?T" using T e by simp
  then have y: "0 \<le> ?y" "?y \<le> ?T * (1 + 2 * ulp)" using T by (simp_all add: algebra_simps)
  have "dbl ?x \<le> ?y + ?y * ulp" using dbl_le [OF d y(1)] by (simp add: algebra_simps)
  also have "?y * ulp \<le> 2 * ulp * ?T"
  proof -
    have "?y * ulp \<le> ?T * (1 + 2 * ulp) * ulp" using y e by (intro mult_right_mono) simp_all
    also have "\<dots> \<le> ?T * 2 * ulp" using T e by (intro mult_right_mono mult_left_mono) simp_all
    finally show ?thesis by (simp add: algebra_simps)
  qed
  finally have "dbl ?x \<le> (?T - F) + 4 * ulp * ?T" by (simp add: algebra_simps)
  moreover have "0 \<le> (?T - F) + 4 * ulp * ?T" using T e by simp
  ultimately show "twap_remaining h \<le> (?T - F) + 4 * ulp * ?T"
    using assms by (simp add: twap_remaining_def twap_ok_def)
  show "0 \<le> twap_remaining h" by (simp add: twap_remaining_def)
qed

lemma scaled_total:
  assumes "twap_ok h F"
  shows "twp_totalSize h * 10 ^ twp_szDecimals h \<le> 2 ^ 49" "0 \<le> twp_totalSize h"
proof -
  let ?T = "twp_totalSize h"
  show T: "0 \<le> ?T" using assms by (simp add: twap_ok_def)
  have "?T * 10 ^ twp_szDecimals h \<le> ?T * 10 ^ 9"
    using assms T by (intro mult_left_mono ten_power_le) (simp_all add: twap_ok_def)
  with assms show "?T * 10 ^ twp_szDecimals h \<le> 2 ^ 49" unfolding twap_ok_def by linarith
qed

lemma steps_bound:
  \<comment> \<open>the number of steps the code floors is below the steps that are left, plus one\<close>
  assumes p: "1 / g * (1 - 2 * ulp) \<le> p" "p \<le> 1 / g * (1 + 2 * ulp)" and g: "0 < g"
    and raw: "raw \<le> R + 4 * ulp * tot" and R: "0 \<le> R" "R \<le> tot" "tot * g \<le> 2 ^ 49"
  shows "dbl (dbl (raw + dbl (p * dbl (1 / 10 ^ 6))) / p) < R * g + 1"
proof -
  have e: "0 < ulp" "ulp < 1 / 10 ^ 15" by (simp_all add: ulp_def)
  have "0 < 1 / g * (1 - 2 * ulp)" using g e by (intro mult_pos_pos) simp_all
  with p(1) have p0: "0 < p" by linarith
  define c where "c = dbl (p * dbl (1 / 10 ^ 6))"
  define t where "t = R * g + 1 / 4 + 1 / 10 ^ 5"
  have "dbl (1 / 10 ^ 6) \<le> 1 / 10 ^ 6 * (1 + ulp)" by (rule dbl_le) simp_all
  also have "\<dots> \<le> 2 / 10 ^ 6" using e by simp
  finally have d6: "dbl (1 / 10 ^ 6) \<le> 2 / 10 ^ 6" .
  have "1 / g * (1 + 2 * ulp) \<le> 1 / g * 2" using g e by (intro mult_left_mono) simp_all
  with p(2) have "p \<le> 2 / g" by simp
  then have "p * dbl (1 / 10 ^ 6) \<le> 2 / g * (2 / 10 ^ 6)"
    using d6 p0 g by (intro mult_mono) (simp_all add: dbl_nonneg)
  then have "c \<le> 2 / g * (2 / 10 ^ 6) * (1 + ulp)" unfolding c_def using g by (intro dbl_le) simp_all
  also have "\<dots> \<le> 2 / g * (2 / 10 ^ 6) * 2" using g e by (intro mult_left_mono) simp_all
  finally have c: "c * g \<le> 1 / 10 ^ 5" using g by (simp add: field_simps)
  have "raw * g \<le> (R + 4 * ulp * tot) * g" using raw g by (intro mult_right_mono) simp_all
  then have "(raw + c) * g \<le> (R + 4 * ulp * tot) * g + c * g" by (simp only: distrib_right add_le_cancel_right)
  also have "(R + 4 * ulp * tot) * g = R * g + 4 * ulp * (tot * g)" by (simp add: algebra_simps)
  also have "4 * ulp * (tot * g) \<le> 4 * ulp * 2 ^ 49" using R(3) e by (intro mult_left_mono) simp_all
  also have "4 * ulp * 2 ^ 49 = 1 / 4" by (simp add: ulp_def)
  finally have "(raw + c) * g \<le> t" using c by (simp add: t_def)
  then have rc: "raw + c \<le> t / g" using g by (simp add: pos_le_divide_eq)
  have t0: "0 \<le> t" using R g by (simp add: t_def)
  have d2: "dbl (raw + c) \<le> t / g * (1 + ulp)" using rc t0 g by (intro dbl_le) simp_all
  have "dbl (raw + c) / p \<le> t * ((1 + ulp) * (1 + 4 * ulp))"
  proof -
    have "(1::rat) \<le> (1 - 2 * ulp) * (1 + 4 * ulp)" by (simp add: ulp_def)
    then have "t / g * (1 + ulp) \<le> t / g * (1 + ulp) * ((1 - 2 * ulp) * (1 + 4 * ulp))"
      using t0 g e mult_left_mono [of 1 "(1 - 2 * ulp) * (1 + 4 * ulp)" "t / g * (1 + ulp)"] by simp
    also have "\<dots> = t * ((1 + ulp) * (1 + 4 * ulp)) * (1 / g * (1 - 2 * ulp))" by (simp add: field_simps)
    also have "\<dots> \<le> t * ((1 + ulp) * (1 + 4 * ulp)) * p" using p(1) t0 e by (intro mult_left_mono) simp_all
    finally show ?thesis using d2 p0 by (simp add: pos_divide_le_eq)
  qed
  then have "dbl (dbl (raw + c) / p) \<le> t * ((1 + ulp) * (1 + 4 * ulp)) * (1 + ulp)"
    using t0 e by (intro dbl_le) simp_all
  also have "\<dots> = t * ((1 + ulp) * (1 + 4 * ulp) * (1 + ulp))" by (simp add: algebra_simps)
  also have "\<dots> \<le> t * (1 + 7 * ulp)" using t0 by (intro mult_left_mono) (simp_all add: ulp_def)
  also have "\<dots> < R * g + 1"
  proof -
    have "R * g \<le> tot * g" using R g by (intro mult_right_mono) simp_all
    then have "t \<le> 2 ^ 49 + 1" using R(3) by (simp add: t_def)
    then have "t * (7 * ulp) \<le> (2 ^ 49 + 1) * (7 * ulp)" using e by (intro mult_right_mono) simp_all
    also have "\<dots> < 1 / 2" by (simp add: ulp_def)
    finally have "t * (7 * ulp) < 1 / 2" .
    moreover have "t * (1 + 7 * ulp) = t + t * (7 * ulp)" by (simp add: algebra_simps)
    ultimately show ?thesis by (simp add: t_def)
  qed
  finally show ?thesis by (simp add: c_def)
qed

lemma near_bounds: "\<bar>x - a\<bar> \<le> a * u \<Longrightarrow> a * (1 - u) \<le> x \<and> x \<le> a * (1 + u)" for a :: rat
  by (simp add: abs_le_iff algebra_simps)

lemma pow10_ok_bounds:
  assumes "pow10_ok E n"
  shows "1 / 10 ^ n * (1 - 2 * ulp) \<le> pow10neg E n" "pow10neg E n \<le> 1 / 10 ^ n * (1 + 2 * ulp)" "0 < pow10neg E n"
proof -
  from near_bounds [OF assms [unfolded pow10_ok_def]]
  show b: "1 / 10 ^ n * (1 - 2 * ulp) \<le> pow10neg E n" "pow10neg E n \<le> 1 / 10 ^ n * (1 + 2 * ulp)" by blast+
  have "0 < (1::rat) / 10 ^ n * (1 - 2 * ulp)" by (simp add: ulp_def)
  with b(1) show "0 < pow10neg E n" by linarith
qed

lemma slice_exact:
  assumes h: "twap_ok h F" and E: "pow10_ok E (twp_szDecimals h)" and pos: "0 < twap_slice E h"
  shows "on_grid (twp_szDecimals h) (js_toFixed (twp_szDecimals h) (twap_slice E h))"
    "0 < js_toFixed (twp_szDecimals h) (twap_slice E h)"
    "js_toFixed (twp_szDecimals h) (twap_slice E h) \<le> twp_totalSize h - F"
proof -
  define n where "n = twp_szDecimals h"
  define g :: rat where "g = 10 ^ n"
  define p where "p = pow10neg E n"
  define raw where "raw = min (min (max (twap_gap E h) (twap_base h))
    (dbl (twap_base h * TWAP_MAX_CATCHUP_MULTIPLIER))) (twap_remaining h)"
  define k where "k = \<lfloor>dbl (dbl (raw + dbl (p * dbl (1 / 10 ^ 6))) / p)\<rfloor>"
  define sl where "sl = dbl (of_int k * p)"
  have e: "0 < ulp" "ulp < 1 / 10 ^ 15" by (simp_all add: ulp_def)
  have sl_eq: "twap_slice E h = sl" by (simp add: twap_slice_def Let_def sl_def k_def p_def raw_def n_def)
  have g: "0 < g" by (simp add: g_def)
  have p: "1 / g * (1 - 2 * ulp) \<le> p" "p \<le> 1 / g * (1 + 2 * ulp)" "0 < p"
    using pow10_ok_bounds [OF E] by (simp_all add: p_def g_def n_def)
  have T: "0 \<le> F" "F \<le> twp_totalSize h" "twp_totalSize h * g \<le> 2 ^ 49"
    using h scaled_total [OF h] by (simp_all add: twap_ok_def g_def n_def)
  have gr: "on_grid n (twp_totalSize h - F)" using h by (auto simp: twap_ok_def n_def intro: on_grid_diff)
  then obtain r where r: "(twp_totalSize h - F) * g = of_int r" by (auto simp: on_grid_def g_def)
  have "raw \<le> (twp_totalSize h - F) + 4 * ulp * twp_totalSize h"
    using remaining_bound(1) [OF h] by (simp add: raw_def)
  then have "dbl (dbl (raw + dbl (p * dbl (1 / 10 ^ 6))) / p) < (twp_totalSize h - F) * g + 1"
    using T by (intro steps_bound [OF p(1,2) g]) simp_all
  then have kr: "k \<le> r" unfolding k_def r by linarith
  have k0: "0 < k"
  proof (rule ccontr)
    assume "\<not> 0 < k"
    then have "of_int k * p \<le> 0" using p by (simp add: mult_nonpos_nonneg)
    with pos show False using dbl_nonpos sl_eq sl_def by fastforce
  qed
  have k49: "(of_int k :: rat) \<le> 2 ^ 49"
  proof -
    have "(twp_totalSize h - F) * g \<le> twp_totalSize h * g" using T g by (intro mult_right_mono) simp_all
    with T(3) r have "(of_int r :: rat) \<le> 2 ^ 49" by simp
    with kr show ?thesis by (meson of_int_le_iff order_trans)
  qed
  have kp: "of_int k / g * (1 - 2 * ulp) \<le> of_int k * p" "of_int k * p \<le> of_int k / g * (1 + 2 * ulp)"
    using mult_left_mono [OF p(1), of "of_int k"] mult_left_mono [OF p(2), of "of_int k"] k0 by simp_all
  have "\<bar>sl - of_int k * p\<bar> \<le> of_int k * p * ulp"
    using dbl_err [of "of_int k * p"] k0 p by (simp add: sl_def)
  also have "\<dots> \<le> of_int k / g * (1 + 2 * ulp) * ulp" using kp e by (intro mult_right_mono) simp_all
  also have "\<dots> \<le> of_int k / g * 2 * ulp" using k0 g e by (intro mult_right_mono mult_left_mono) simp_all
  finally have "\<bar>sl - of_int k * p\<bar> \<le> 2 * (of_int k / g * ulp)" by (simp only: mult_ac)
  moreover have "of_int k / g * (1 - 2 * ulp) = of_int k / g - 2 * (of_int k / g * ulp)"
      "of_int k / g * (1 + 2 * ulp) = of_int k / g + 2 * (of_int k / g * ulp)"
      "of_int k / g * (4 * ulp) = 4 * (of_int k / g * ulp)"
    by (simp_all only: right_diff_distrib distrib_left mult_1_right mult_ac)
  ultimately have "\<bar>sl - of_int k / g\<bar> \<le> of_int k / g * (4 * ulp)"
    using kp unfolding abs_le_iff by linarith
  then have "\<bar>sl - of_int k / g\<bar> * g \<le> of_int k / g * (4 * ulp) * g" using g by (intro mult_right_mono) simp_all
  also have "\<dots> = of_int k * (4 * ulp)" using g by simp
  also have "\<dots> \<le> 2 ^ 49 * (4 * ulp)" using k49 e by (intro mult_right_mono) simp_all
  also have "\<dots> < 1 / 2" by (simp add: ulp_def)
  finally have near: "\<bar>sl - of_int k / g\<bar> * g < 1 / 2" .
  have ok: "js_toFixed n sl = of_int k / g"
    by (rule toFixed_near) (use near pos in \<open>auto simp: g_def sl_eq on_grid_def\<close>)
  show "on_grid (twp_szDecimals h) (js_toFixed (twp_szDecimals h) (twap_slice E h))"
    by (simp only: ok sl_eq flip: n_def) (auto simp: on_grid_def g_def)
  show "0 < js_toFixed (twp_szDecimals h) (twap_slice E h)"
    using k0 g by (simp add: ok sl_eq flip: n_def)
  have "(of_int k :: rat) \<le> (twp_totalSize h - F) * g" using kr by (simp add: r)
  then have "of_int k / g \<le> twp_totalSize h - F" using g by (simp add: pos_divide_le_eq)
  then show "js_toFixed (twp_szDecimals h) (twap_slice E h) \<le> twp_totalSize h - F"
    by (simp only: ok sl_eq flip: n_def)
qed

lemma add_filled_exact:
  assumes h: "twap_ok h F" and s: "on_grid (twp_szDecimals h) x" "0 \<le> x" "x \<le> twp_totalSize h - F"
  shows "add_filled (twp_filledSize h) x = dbl (F + x)"
proof -
  have T: "0 \<le> F" "on_grid (twp_szDecimals h) F" "twp_szDecimals h \<le> 9" "twp_filledSize h = dbl F"
      "twp_totalSize h * 10 ^ 9 \<le> 2 ^ 49" using h by (simp_all add: twap_ok_def)
  have e: "0 < ulp" "ulp < 1 / 10 ^ 15" by (simp_all add: ulp_def)
  define v where "v = dbl F + dbl x"
  have "F * (1 - ulp) \<le> dbl F \<and> dbl F \<le> F * (1 + ulp)" "x * (1 - ulp) \<le> dbl x \<and> dbl x \<le> x * (1 + ulp)"
    using dbl_near T(1) s(2) by blast+
  then have v: "v \<le> (F + x) * (1 + ulp)" "(F + x) * (1 - ulp) \<le> v" by (simp_all add: v_def algebra_simps)
  have v0: "0 \<le> v" using T(1) s(2) by (simp add: v_def dbl_nonneg)
  have "\<bar>dbl v - v\<bar> \<le> v * ulp" using dbl_err [of v] v0 by simp
  also have "\<dots> \<le> (F + x) * (1 + ulp) * ulp" using v e by (intro mult_right_mono) simp_all
  also have "\<dots> \<le> (F + x) * 2 * ulp" using T(1) s(2) e by (intro mult_right_mono mult_left_mono) simp_all
  finally have "\<bar>dbl v - (F + x)\<bar> \<le> (F + x) * (3 * ulp)" using v by (simp add: abs_le_iff algebra_simps)
  also have "\<dots> \<le> twp_totalSize h * (3 * ulp)" using s(3) e by (intro mult_right_mono) simp_all
  finally have "\<bar>dbl v - (F + x)\<bar> * 10 ^ 9 \<le> twp_totalSize h * (3 * ulp) * 10 ^ 9" by (intro mult_right_mono) simp_all
  also have "\<dots> = twp_totalSize h * 10 ^ 9 * (3 * ulp)" by simp
  also have "\<dots> \<le> 2 ^ 49 * (3 * ulp)" using T(5) e by (intro mult_right_mono) simp_all
  also have "\<dots> < 1 / 2" by (simp add: ulp_def)
  finally have near: "\<bar>dbl v - (F + x)\<bar> * 10 ^ 9 < 1 / 2" .
  have "js_toFixed 9 (dbl v) = F + x"
    by (rule toFixed_near [OF on_grid_finer [OF on_grid_add [OF T(2) s(1)] T(3)] dbl_nonneg [OF v0] near])
  then show ?thesis by (simp add: add_filled_def T(4) v_def)
qed

subsection \<open>Placing and filling orders leave the TWAPs alone\<close>

definition twap_part :: "state \<Rightarrow> (nat \<Rightarrow> TwapHash option) \<times> nat list \<times> (user \<Rightarrow> (nat \<times> millis) list) \<times> nat" where
  "twap_part s = (twaps s, twapsActive s, userTwaps s, seqTwap s)"

lemma twap_part_updates [simp]:
  "twap_part (s\<lparr>balance := x0\<rparr>) = twap_part s" "twap_part (s\<lparr>pos := x1\<rparr>) = twap_part s"
  "twap_part (s\<lparr>posSet := x2\<rparr>) = twap_part s" "twap_part (s\<lparr>holders := x3\<rparr>) = twap_part s"
  "twap_part (s\<lparr>usersActive := x4\<rparr>) = twap_part s" "twap_part (s\<lparr>fills := x5\<rparr>) = twap_part s"
  "twap_part (s\<lparr>seqTid := x6\<rparr>) = twap_part s" "twap_part (s\<lparr>orders := x7\<rparr>) = twap_part s"
  "twap_part (s\<lparr>openSet := x8\<rparr>) = twap_part s" "twap_part (s\<lparr>trigSet := x9\<rparr>) = twap_part s"
  "twap_part (s\<lparr>trailSet := x10\<rparr>) = twap_part s" "twap_part (s\<lparr>bracket := x11\<rparr>) = twap_part s"
  "twap_part (s\<lparr>children := x12\<rparr>) = twap_part s" "twap_part (s\<lparr>parentOf := x13\<rparr>) = twap_part s"
  "twap_part (s\<lparr>expiry := x14\<rparr>) = twap_part s" "twap_part (s\<lparr>userOrders := x15\<rparr>) = twap_part s"
  "twap_part (s\<lparr>cloids := x16\<rparr>) = twap_part s" "twap_part (s\<lparr>seqOid := x17\<rparr>) = twap_part s"
  "twap_part (emit ev s) = twap_part s"
  by (simp_all add: twap_part_def emit_def)

lemma twap_part_fill:
  "twap_part (cancelOrderSiblings E oid u s) = twap_part s"
  "twap_part (emit_fill_updates E ord px orphans fill s) = twap_part s"
  "twap_part (fill_position E ord px sz szi entry newSzi s) = twap_part s"
  "twap_part (fill_balance E u scope pnl fee s) = twap_part s"
  "twap_part (upd_hash oid f s) = twap_part s" "twap_part (drop_from_sets oid s) = twap_part s"
proof -
  have sib: "twap_part (cancel_sibling E u p x s) = twap_part s" for p x s
    by (simp add: cancel_sibling_def upd_hash_def Let_def split: option.split)
  have "twap_part (cancel_siblings E u p s xs) = twap_part s" for p xs s
    by (induction xs arbitrary: s) (simp_all add: sib)
  then show "twap_part (cancelOrderSiblings E oid u s) = twap_part s"
    by (simp add: cancelOrderSiblings_def Let_def split: option.split)
qed (simp_all add: emit_fill_updates_def emitTrailingFire_def emitTrailingHistory_def fill_position_def
    fill_balance_def incr_balance_def upd_hash_def drop_from_sets_def Let_def split: option.split)

lemma twap_part_reconcile: "reconcile_loop E u a newSzi oids s = (ups, s') \<Longrightarrow> twap_part s' = twap_part s"
proof (induction oids arbitrary: s ups)
  case (Cons oid oids)
  have "twap_part s1 = twap_part s" if "terminateTrailingStop E oid st em af s = (b, s1)" for st em af b s1
    using that by (auto simp: terminateTrailingStop_def emitTrailingHistory_def twap_part_fill Let_def split: option.splits if_splits)
  with Cons show ?case by (auto split: option.splits if_splits prod.splits)
qed simp

lemma twap_part_executeFill [simp]: "twap_part (executeFill E ord px taker s) = twap_part s"
  by (auto simp: executeFill_def executeFillWithSize_def fill_pipeline_def reconcileReduceOnlyStops_def
      twap_part_fill Let_def dest: twap_part_reconcile split: option.split prod.split)

lemma twap_part_place:
  "placeSingleOrder E u grouping opts w s = (r, s') \<Longrightarrow> twap_part s' = twap_part s"
  by (auto simp: placeSingleOrder_def place_ioc_def place_alo_def place_gtc_def rest_new_def fill_at_once_def
      placeTriggeredOrder_def saveOrder_def restOrder_def add_user_order_def Let_def
      split: option.splits if_splits TimeInForce.splits)

lemma twap_part_placeOrders:
  "placeOrders E u ws grouping opts s = (rs, s') \<Longrightarrow> twap_part s' = twap_part s"
proof -
  have all: "place_all E u grouping opts ws s = (rs, s') \<Longrightarrow> twap_part s' = twap_part s" for ws rs s s'
    by (induction ws arbitrary: s rs) (auto dest!: twap_part_place split: prod.splits)
  have link: "twap_part (link_bracket grouping oids s) = twap_part s" for oids s
    by (simp add: link_bracket_def add_siblings_def Let_def split: list.split Grouping.split)
  assume "placeOrders E u ws grouping opts s = (rs, s')"
  then show ?thesis using all by (auto simp: placeOrders_def link split: prod.splits)
qed

subsection \<open>What one step of the executor does to the records\<close>

lemma filled_size: "placeSingleOrder E u grouping opts w s = (Filled sz px oid cl, s') \<Longrightarrow> w_s w = Some sz"
  by (auto simp: placeSingleOrder_def place_ioc_def place_alo_def place_gtc_def rest_new_def fill_at_once_def
      placeTriggeredOrder_def wire_order_def buildOrder_def Let_def
      split: option.splits if_splits TimeInForce.splits)

lemma placeOrders_single:
  assumes "placeOrders E u [w] Na opts s = (Filled sz px oid cl # rs, s')"
  shows "w_s w = Some sz"
  using assms by (auto simp: placeOrders_def dest: filled_size split: prod.splits)

lemma twap_part_fields:
  assumes "twap_part s' = twap_part s"
  shows "twaps s' = twaps s" "twapsActive s' = twapsActive s" "userTwaps s' = userTwaps s" "seqTwap s' = seqTwap s"
  using assms by (simp_all add: twap_part_def)

lemma emit_twaps [simp]:
  "twaps (emit ev s) = twaps s" "twapsActive (emit ev s) = twapsActive s" "userTwaps (emit ev s) = userTwaps s"
  by (simp_all add: emit_def)

lemma drop_set_twaps [simp]:
  "twaps (drop_twap i s) = twaps s" "twapsActive (drop_twap i s) = srem i (twapsActive s)"
  "twaps (set_twap i f s) = (twaps s)(i := map_option f (twaps s i))" "twapsActive (set_twap i f s) = twapsActive s"
  by (simp_all add: drop_twap_def set_twap_def)

lemma twap_ok_schedule [simp]:
  "twap_ok (h\<lparr>twp_lastSubmittedAt := a\<rparr>) F = twap_ok h F" "twap_ok (h\<lparr>twp_nextSliceAt := b\<rparr>) F = twap_ok h F"
  "twap_ok (h\<lparr>twp_status := st\<rparr>) F = twap_ok h F"
  by (simp_all add: twap_ok_def)

lemma twap_ok_add:
  assumes "twap_ok h F" "on_grid (twp_szDecimals h) x" "0 \<le> x" "x \<le> twp_totalSize h - F"
  shows "twap_ok (h\<lparr>twp_filledSize := dbl (F + x)\<rparr>) (F + x)"
  using assms by (simp add: twap_ok_def on_grid_add)

lemma submit_slice_twaps:
  assumes i: "twaps s i = Some h" and h: "twap_ok h F" and E: "pow10_ok E (twp_szDecimals h)"
    and pos: "0 < twap_slice E h"
  obtains F' h' where "twaps (submit_slice E rand i h (twap_slice E h) mid s) = (twaps s)(i := Some h')"
    "twapsActive (submit_slice E rand i h (twap_slice E h) mid s) = twapsActive s"
    "twap_ok h' F'" "F \<le> F'" "twp_totalSize h' = twp_totalSize h"
proof -
  let ?x = "js_toFixed (twp_szDecimals h) (twap_slice E h)"
  note x = slice_exact [OF h E pos]
  obtain rs s1 where p: "placeOrders E (twp_userId h) [twap_wire h (twap_slice E h) mid] Na
      (no_opts\<lparr>op_twapId := Some (show_nat i)\<rparr>) s = (rs, s1)" by force
  note f = twap_part_fields [OF twap_part_placeOrders [OF p]]
  show thesis
  proof (cases "\<exists>sz px oid c tl. rs = Filled sz px oid c # tl")
    case True
    then obtain sz px oid c tl where rs: "rs = Filled sz px oid c # tl" by blast
    have sz: "sz = ?x" using placeOrders_single [OF p [unfolded rs]] by (simp add: twap_wire_def Let_def)
    have add: "add_filled (twp_filledSize h) ?x = dbl (F + ?x)"
      using x by (intro add_filled_exact [OF h]) simp_all
    show thesis
      by (rule that [of "h\<lparr>twp_filledSize := dbl (F + ?x), twp_lastSubmittedAt := Some (now E),
              twp_nextSliceAt := Some (now E + slice_interval h rand)\<rparr>" "F + ?x"])
        (use twap_ok_add [OF h x(1) less_imp_le [OF x(2)] x(3)] x(2) in
          \<open>simp_all add: submit_slice_def p rs Let_def f i sz add\<close>)
  next
    case False
    then have "submit_slice E rand i h (twap_slice E h) mid s =
        set_twap i (\<lambda>g. g\<lparr>twp_lastSubmittedAt := Some (now E), twp_nextSliceAt := Some (now E + slice_interval h rand)\<rparr>) s1"
      by (auto simp: submit_slice_def p Let_def split: list.split HlOrderResponseStatus.split)
    with that [of "h\<lparr>twp_lastSubmittedAt := Some (now E),
        twp_nextSliceAt := Some (now E + slice_interval h rand)\<rparr>" F] h show thesis
      by (simp add: f i)
  qed
qed

lemma finish_twaps:
  "twaps s i = Some h \<Longrightarrow> twaps (finish_twap E i h s) =
    (twaps s)(i := Some (h\<lparr>twp_status := Tw_finished, twp_lastSubmittedAt := Some (now E)\<rparr>))"
  "twapsActive (finish_twap E i h s) = srem i (twapsActive s)"
  by (simp_all add: finish_twap_def)

lemma twap_step:
  assumes i: "twaps s i = Some h" and h: "twap_ok h F" and E: "\<And>n. n \<le> 9 \<Longrightarrow> pow10_ok E n"
  obtains F' h' where "twaps (match_twap_one E rand i s) = (twaps s)(i := Some h')" "twap_ok h' F'" "F \<le> F'"
    "twp_totalSize h' = twp_totalSize h"
proof -
  have n: "twp_szDecimals h \<le> 9" using h by (simp add: twap_ok_def)
  show thesis
  proof (cases "twaps (match_twap_one E rand i s) = twaps s")
    case True
    show thesis by (rule that [of h F]) (simp_all add: True i h fun_upd_idem)
  next
    case False
    then consider "match_twap_one E rand i s = finish_twap E i h s"
      | mid where "match_twap_one E rand i s = submit_slice E (rand i) i h (twap_slice E h) mid s" "0 < twap_slice E h"
      by (auto simp: match_twap_one_def i Let_def split: if_splits option.splits)
    then show thesis
    proof cases
      case 1
      show thesis
        by (rule that [of "h\<lparr>twp_status := Tw_finished, twp_lastSubmittedAt := Some (now E)\<rparr>" F])
          (simp_all add: 1 finish_twaps(1) [OF i] h)
    next
      case 2
      show thesis
        by (rule submit_slice_twaps [OF i h E [OF n] 2(2), where rand = "rand i" and mid = mid],
            rule that) (unfold 2(1), assumption+)
    qed
  qed
qed

lemma twap_step_none: "twaps s i = None \<Longrightarrow> twaps (match_twap_one E rand i s) = twaps s"
  by (simp add: match_twap_one_def)

lemma twaps_progress:
  assumes E: "\<And>n. n \<le> 9 \<Longrightarrow> pow10_ok E n"
    and ok: "\<forall>i h. twaps s i = Some h \<longrightarrow> (\<exists>F. twap_ok h F)"
    and h: "twaps s i = Some h" "twap_ok h F"
  shows "\<exists>h' F'. twaps (foldl (\<lambda>acc i. match_twap_one E rand i acc) s ids) i = Some h' \<and> twap_ok h' F' \<and> F \<le> F' \<and>
    twp_totalSize h' = twp_totalSize h"
  using ok h
proof (induction ids arbitrary: s h F)
  case (Cons x ids)
  let ?s = "match_twap_one E rand x s"
  show ?case
  proof (cases "twaps s x")
    case None
    note eq = twap_step_none [OF this, of E rand]
    from Cons.IH [of ?s h F] Cons.prems show ?thesis by (simp add: eq)
  next
    case (Some hx)
    obtain Fx where Fx: "twap_ok hx Fx" "x = i \<Longrightarrow> Fx = F"
      using Cons.prems Some by (cases "x = i") auto
    obtain F1 h1 where s1: "twaps ?s = (twaps s)(x := Some h1)" "twap_ok h1 F1" "Fx \<le> F1"
        "twp_totalSize h1 = twp_totalSize hx"
      using twap_step [OF Some Fx(1) E] by metis
    have ok': "\<forall>j g. twaps ?s j = Some g \<longrightarrow> (\<exists>F. twap_ok g F)"
      using Cons.prems(1) s1 by auto
    show ?thesis
    proof (cases "x = i")
      case True
      from Cons.IH [OF ok', of h1 F1] s1 True Fx(2) [OF True] Some Cons.prems(2) show ?thesis
        by (fastforce intro: order_trans)
    next
      case False
      then have "twaps ?s i = Some h" using Cons.prems(2) by (simp add: s1)
      from Cons.IH [OF ok' this Cons.prems(3)] show ?thesis by simp
    qed
  qed
qed auto


definition sample_twap :: "rat \<Rightarrow> rat \<Rightarrow> TwapHash" where
  \<comment> \<open>user u buys BTC for five minutes from time 900000\<close>
  "sample_twap tot filled =
    \<lparr>twp_userId = ''u'', twp_asset = 0, twp_coin = ''BTC'', twp_isBuy = True, twp_reduceOnly = False,
     twp_totalSize = tot, twp_filledSize = filled, twp_startTime = 900000, twp_endTime = 1200000,
     twp_minutes = 5, twp_randomize = False, twp_szDecimals = 5, twp_status = Tw_running,
     twp_lastSubmittedAt = None, twp_nextSliceAt = None\<rparr>"

definition twap_state :: "TwapHash \<Rightarrow> state" where
  "twap_state h = (sample_state None [])\<lparr>twaps := [1 \<mapsto> h], twapsActive := [1]\<rparr>"


subsection \<open>Every TWAP ends\<close>

lemma submit_slice_other:
  "i \<noteq> j \<Longrightarrow> twaps (submit_slice E rand j h sl mid s) i = twaps s i"
  "twapsActive (submit_slice E rand j h sl mid s) = twapsActive s"
proof -
  obtain rs s1 where p: "placeOrders E (twp_userId h) [twap_wire h sl mid] Na
      (no_opts\<lparr>op_twapId := Some (show_nat j)\<rparr>) s = (rs, s1)" by force
  note f = twap_part_fields [OF twap_part_placeOrders [OF p]]
  show "i \<noteq> j \<Longrightarrow> twaps (submit_slice E rand j h sl mid s) i = twaps s i"
    by (simp add: submit_slice_def p Let_def f split: list.split HlOrderResponseStatus.split)
  show "twapsActive (submit_slice E rand j h sl mid s) = twapsActive s"
    by (simp add: submit_slice_def p Let_def f split: list.split HlOrderResponseStatus.split)
qed

lemma match_other:
  assumes "i \<noteq> j"
  shows "twaps (match_twap_one E rand j s) i = twaps s i"
    "i \<in> set (twapsActive (match_twap_one E rand j s)) \<longleftrightarrow> i \<in> set (twapsActive s)"
  using assms
  by (simp_all add: match_twap_one_def finish_twap_def submit_slice_other Let_def split: option.split)

definition twap_over :: "env \<Rightarrow> TwapHash \<Rightarrow> state \<Rightarrow> nat \<Rightarrow> bool" where
  \<comment> \<open>due to end, or already ended, with the amount of \<open>h\<close>\<close>
  "twap_over E h s i \<longleftrightarrow> (\<exists>g. twaps s i = Some g \<and> (twp_status g \<noteq> Tw_running \<or> twp_endTime g \<le> now E) \<and>
     twp_filledSize g = twp_filledSize h)"

lemma match_over:
  assumes "twap_over E h s i"
  shows "\<exists>g. twaps (match_twap_one E rand i s) i = Some g \<and> twp_status g \<noteq> Tw_running \<and>
      twp_filledSize g = twp_filledSize h"
    "i \<notin> set (twapsActive (match_twap_one E rand i s))"
  using assms by (auto simp: twap_over_def match_twap_one_def finish_twap_def Let_def split: if_splits)

lemma match_all_over:
  assumes "twap_over E h s i"
  shows "\<exists>s'. foldl (\<lambda>acc i. match_twap_one E rand i acc) s ids = s' \<and> twap_over E h s' i \<and>
    (i \<in> set ids \<or> i \<notin> set (twapsActive s) \<and> (\<exists>g. twaps s i = Some g \<and> twp_status g \<noteq> Tw_running) \<longrightarrow>
     i \<notin> set (twapsActive s') \<and> (\<exists>g. twaps s' i = Some g \<and> twp_status g \<noteq> Tw_running))"
  using assms
proof (induction ids arbitrary: s)
  case (Cons x ids)
  show ?case
  proof (cases "x = i")
    case True
    from match_over [OF Cons.prems, of rand] have "twap_over E h (match_twap_one E rand i s) i"
      by (auto simp: twap_over_def)
    from Cons.IH [OF this] match_over [OF Cons.prems, of rand] True show ?thesis by auto
  next
    case False
    then have "twap_over E h (match_twap_one E rand x s) i"
      using Cons.prems by (simp add: twap_over_def match_other)
    from Cons.IH [OF this] False show ?thesis by (auto simp: match_other)
  qed
qed simp

text \<open>
  Every TWAP ends: the first pass at or after its end time takes it out of the active set
  and leaves it not running, with the amount it had executed, whatever the other TWAPs of the
  pass do.
\<close>

theorem twap_ends:
  assumes "i \<in> set (twapsActive s)" "twaps s i = Some h" "twp_endTime h \<le> now E"
  shows "i \<notin> set (twapsActive (matchTwaps E rand s)) \<and>
    (\<exists>g. twaps (matchTwaps E rand s) i = Some g \<and> twp_status g \<noteq> Tw_running \<and>
      twp_filledSize g = twp_filledSize h)"
proof -
  have "twap_over E h s i" using assms by (simp add: twap_over_def)
  from match_all_over [OF this, of rand "twapsActive s"] assms(1) show ?thesis
    unfolding matchTwaps_def by (auto simp: twap_over_def)
qed

theorem twap_ends_witness:
  "1 \<notin> set (twapsActive (matchTwaps (sample_env\<lparr>now := 1200000\<rparr>) (\<lambda>_. 0) (twap_state (sample_twap 3 2))))"
proof -
  let ?s = "twap_state (sample_twap 3 2)"
  have "twaps ?s 1 = Some (sample_twap 3 2)" "1 \<in> set (twapsActive ?s)"
    "twp_endTime (sample_twap 3 2) \<le> now (sample_env\<lparr>now := 1200000\<rparr>)"
    by (simp_all add: twap_state_def sample_twap_def)
  with twap_ends [of 1 ?s "sample_twap 3 2" "sample_env\<lparr>now := 1200000\<rparr>" "\<lambda>_. 0"] show ?thesis by blast
qed

subsection \<open>Cancelling and creating\<close>

text \<open>
  Cancelling a TWAP, on every branch. An unknown id and another user's id are answered with
  the same error, a TWAP that has ended with another, and neither changes anything. Otherwise the
  record is cancelled with its amount kept, leaves the active set, its end is recorded, and no
  later pass changes the record or submits a slice for it.
\<close>

theorem cancel_twap_outcome:
  assumes "cancelTwapOrder E u i s = (r, s')"
  shows "case r of
      Some err \<Rightarrow> s' = s \<and>
        (err = TwapNotFound i \<and> (\<forall>h. twaps s i = Some h \<longrightarrow> twp_userId h \<noteq> u) \<or>
         err = TwapNotRunning i \<and> (\<exists>h. twaps s i = Some h \<and> twp_userId h = u \<and> twp_status h \<noteq> Tw_running))
    | None \<Rightarrow> \<exists>h. twaps s i = Some h \<and> twp_userId h = u \<and> twp_status h = Tw_running \<and>
        twaps s' = (twaps s)(i := Some (h\<lparr>twp_status := Tw_cancelled\<rparr>)) \<and>
        set (twapsActive s') = set (twapsActive s) - {i} \<and>
        bus s' = bus s @ [TwapHistory i Tw_cancelled (twp_filledSize h) (now E)] \<and>
        book.truncate s' = book.truncate s \<and>
        (\<forall>E2 rand. twaps (matchTwaps E2 rand s') i = Some (h\<lparr>twp_status := Tw_cancelled\<rparr>))"
proof (cases r)
  case (Some err)
  with assms show ?thesis by (auto simp: cancelTwapOrder_def split: option.splits if_splits)
next
  case None
  with assms obtain h where h: "twaps s i = Some h" "twp_userId h = u" "twp_status h = Tw_running"
      and s': "s' = emit (TwapHistory i Tw_cancelled (twp_filledSize h) (now E))
                      (drop_twap i (set_twap i (\<lambda>h. h\<lparr>twp_status := Tw_cancelled\<rparr>) s))"
    by (auto simp: cancelTwapOrder_def split: option.splits if_splits)
  have "twaps (foldl (\<lambda>acc i. match_twap_one E2 rand i acc) t ids) i = Some g"
    if "twaps t i = Some g" "twp_status g = Tw_cancelled" for E2 rand t ids g
    using that
  proof (induction ids arbitrary: t)
    case (Cons x ids)
    have "twaps (match_twap_one E2 rand x t) i = Some g"
    proof (cases "x = i")
      case True
      with Cons.prems show ?thesis by (simp add: match_twap_one_def Let_def)
    next
      case False
      with Cons.prems show ?thesis by (simp add: match_other(1))
    qed
    with Cons show ?case by simp
  qed simp
  moreover have "twaps s' i = Some (h\<lparr>twp_status := Tw_cancelled\<rparr>)" by (simp add: s' h)
  ultimately have "\<forall>E2 rand. twaps (matchTwaps E2 rand s') i = Some (h\<lparr>twp_status := Tw_cancelled\<rparr>)"
    by (simp add: matchTwaps_def)
  moreover have "bus (drop_twap i (set_twap i f s)) = bus s"
      "book.truncate (drop_twap i (set_twap i f s)) = book.truncate s" for f
    by (simp_all add: drop_twap_def set_twap_def book.defs)
  ultimately show ?thesis using None h by (auto simp: s')
qed

theorem cancel_twap_outcome_witness:
  "set (twapsActive (snd (cancelTwapOrder sample_env ''u'' 1 (twap_state (sample_twap 3 2))))) = {}"
proof -
  obtain r s' where p: "cancelTwapOrder sample_env ''u'' 1 (twap_state (sample_twap 3 2)) = (r, s')" by force
  then have "r = None" by (auto simp: cancelTwapOrder_def twap_state_def sample_twap_def)
  with cancel_twap_outcome [OF p] have "set (twapsActive s') = {}" by (simp add: twap_state_def)
  then show ?thesis by (simp only: p snd_conv)
qed

text \<open>
  Creating a TWAP: an answer with an error leaves the state as it was; an accepted TWAP has a
  coin and a positive size, is stored running with nothing executed under an id that was never
  used, is active, ends after the requested minutes, and, when its size is on the asset's grid,
  satisfies the shape that the executor keeps.
\<close>

theorem create_twap_outcome:
  assumes "createTwapOrder E u a isBuy (Some sz) ro minutes randomize s = (r, s')"
  shows "case r of
      Inl err \<Rightarrow> s' = s
    | Inr i \<Rightarrow> i = Suc (seqTwap s) \<and> seqTwap s' = i \<and> 0 < dbl sz \<and> set (twapsActive s') = insert i (set (twapsActive s)) \<and>
        (\<forall>j. j \<noteq> i \<longrightarrow> twaps s' j = twaps s j) \<and>
        (\<exists>h. twaps s' i = Some h \<and> twp_userId h = u \<and> twp_status h = Tw_running \<and> twp_filledSize h = 0 \<and>
           twp_totalSize h = sz \<and> twp_endTime h = now E + int minutes * 60000 \<and>
           resolveAssetCoin s a = Some (twp_coin h) \<and>
           (getAssetDecimals s a \<le> 9 \<and> on_grid (getAssetDecimals s a) sz \<and> sz * 10 ^ 9 \<le> 2 ^ 49 \<longrightarrow> twap_ok h 0)) \<and>
        book.truncate s' = book.truncate s"
proof -
  have pos: "0 \<le> sz" if "0 < dbl sz" using that dbl_nonpos [of sz] by linarith
  have bk: "book.truncate (s\<lparr>seqTwap := x, twaps := y, twapsActive := z, userTwaps := w\<rparr>) = book.truncate s" for x y z w
    by (simp add: book.defs)
  have g: "on_grid n 0" for n by (auto simp: on_grid_def intro: exI [of _ 0])
  show ?thesis
    using assms pos
    by (auto simp: createTwapOrder_def Let_def bk twap_ok_def g emit_def book.defs split: option.splits if_splits)
qed

theorem create_twap_outcome_witness:
  "\<exists>h. twaps (snd (createTwapOrder (sample_env\<lparr>now := 0\<rparr>) ''u'' 0 True (Some 300) False 5 False (sample_state None []))) 1 = Some h \<and>
    twap_ok h 0"
proof -
  let ?s = "sample_state None []"
  have c: "resolveAssetCoin ?s 0 = Some ''BTC''" "midPx ?s ''BTC'' = Some 100"
    by (simp_all add: sample_coin sample_mid)
  have d: "getAssetDecimals ?s 0 = 5"
    by (simp add: getAssetDecimals_def isSpotAsset_def loadUniverseEntry_def offsets sample_state_def)
  have sz: "on_grid 5 (300::rat)" by (auto simp: on_grid_def intro: exI [of _ 30000000])
  obtain r s' where p: "createTwapOrder (sample_env\<lparr>now := 0\<rparr>) ''u'' 0 True (Some 300) False 5 False ?s = (r, s')" by force
  moreover have pos: "0 < dbl 300" by (rule dbl_pos) simp
  moreover have "\<not> dbl (dbl (dbl 300 / 10) * dbl 100) < 10"
  proof -
    have half: "x / 2 \<le> dbl x" if "0 \<le> x" for x
      using dbl_near [OF that] mult_left_mono [of "1 / 2" "1 - ulp" x] that by (simp add: ulp_def)
    have a: "7 \<le> dbl (dbl 300 / 10)" using half [of 300] half [of "dbl 300 / 10"] by simp
    have b: "50 \<le> dbl 100" using half [of 100] by simp
    have "7 * 50 \<le> dbl (dbl 300 / 10) * dbl 100" using a b by (intro mult_mono) simp_all
    with half [of "dbl (dbl 300 / 10) * dbl 100"] show ?thesis by simp
  qed
  ultimately have "\<exists>i. r = Inr i" by (auto simp: createTwapOrder_def c Let_def)
  then obtain i where "r = Inr i" ..
  with create_twap_outcome [OF p] d sz have "\<exists>h. twaps s' 1 = Some h \<and> twap_ok h 0"
    by (auto simp: sample_state_def empty_state_def)
  then show ?thesis by (simp only: p snd_conv)
qed

end
