(* ===== verification/Schedule.thy ===== *)
theory Schedule
  imports Matcher
begin

text \<open>
  The dead man's switch: ScheduleCancelWorker of worker/index.ts, which ends the orders of
  every user whose deadline has passed. The list of users is the result of the SCAN over the
  deadline keys; the order of the entries of an order list with the same time only orders
  the events.
\<close>

definition due_orders :: "state \<Rightarrow> user \<Rightarrow> oid list" where
  \<comment> \<open>the open orders in the list of the native exchange; the lists of builder exchanges are not read\<close>
  "due_orders s u =
    filter (\<lambda>x. status_of s x = Some St_open) (map fst (sort_key snd (userOrders s u '''')))"

definition end_scheduled :: "env \<Rightarrow> oid \<Rightarrow> state \<Rightarrow> state" where
  "end_scheduled E oid s =
    (let s1 = drop_from_sets oid (upd_hash oid (set_status St_cancelled (now E)) s)
     in s1\<lparr>expiry := zrem oid (expiry s1)\<rparr>)"

definition announce_cancelled :: "env \<Rightarrow> user \<Rightarrow> oid \<Rightarrow> state \<Rightarrow> state" where
  "announce_cancelled E u oid s =
    (case orders s oid of None \<Rightarrow> s
     | Some d \<Rightarrow>
        let s1 = (if o_orderType (h_order d) = TrailingStop
          then emitTrailingHistory d St_cancelled (now E) (buildTrailingBody (lib E) d False) s else s)
        in emit (OrderUpdate u (cancelled_row u d (now E)) St_cancelled) s1)"

definition run_scheduled :: "env \<Rightarrow> user \<Rightarrow> state \<Rightarrow> state" where
  "run_scheduled E u s =
    (let due = due_orders s u;
         s1 = foldl (\<lambda>acc oid. end_scheduled E oid acc) s due;
         s2 = foldl (\<lambda>acc oid. announce_cancelled E u oid acc) s1 due
     in s2\<lparr>schedule_cancel := (schedule_cancel s2)(u := None)\<rparr>)"

definition schedule_one :: "env \<Rightarrow> user \<Rightarrow> state \<Rightarrow> state" where
  "schedule_one E u s =
    (case schedule_cancel s u of None \<Rightarrow> s | Some t \<Rightarrow> if now E < t then s else run_scheduled E u s)"

definition scheduleTick :: "env \<Rightarrow> user list \<Rightarrow> state \<Rightarrow> state" where
  "scheduleTick E scanned s = foldl (\<lambda>acc u. schedule_one E u acc) s scanned"

subsection \<open>What a deadline does\<close>

lemma announce_book: "book.truncate (foldl (\<lambda>acc oid. announce_cancelled E u oid acc) s xs) = book.truncate s \<and>
    schedule_cancel (foldl (\<lambda>acc oid. announce_cancelled E u oid acc) s xs) = schedule_cancel s"
proof (induction xs arbitrary: s)
  case (Cons x xs)
  have "book.truncate (announce_cancelled E u x s) = book.truncate s \<and>
      schedule_cancel (announce_cancelled E u x s) = schedule_cancel s"
    by (simp add: announce_cancelled_def emitTrailingHistory_def emit_def book.defs Let_def split: option.split)
  with Cons show ?case by simp
qed simp

lemma end_scheduled_fields:
  "ledger.truncate (end_scheduled E oid s) = ledger.truncate s" "seqOid (end_scheduled E oid s) = seqOid s"
  "orders (end_scheduled E oid s) = (orders s)(oid := map_option (set_status St_cancelled (now E)) (orders s oid))"
  "set (openSet (end_scheduled E oid s)) = set (openSet s) - {oid}"
  "set (trigSet (end_scheduled E oid s)) = set (trigSet s) - {oid}"
  "set (trailSet (end_scheduled E oid s)) = set (trailSet s) - {oid}"
  "bracket (end_scheduled E oid s) = bracket s" "children (end_scheduled E oid s) = children s"
  "parentOf (end_scheduled E oid s) = parentOf s" "userOrders (end_scheduled E oid s) = userOrders s"
  "schedule_cancel (end_scheduled E oid s) = schedule_cancel s"
  by (simp_all add: end_scheduled_def upd_hash_def drop_from_sets_def Let_def)

lemma end_all_fields:
  "ledger.truncate (foldl (\<lambda>acc oid. end_scheduled E oid acc) s xs) = ledger.truncate s \<and>
   schedule_cancel (foldl (\<lambda>acc oid. end_scheduled E oid acc) s xs) = schedule_cancel s \<and>
   userOrders (foldl (\<lambda>acc oid. end_scheduled E oid acc) s xs) = userOrders s \<and>
   listed (foldl (\<lambda>acc oid. end_scheduled E oid acc) s xs) = listed s - set xs \<and>
   (\<forall>x. status_of (foldl (\<lambda>acc oid. end_scheduled E oid acc) s xs) x =
      (if x \<in> set xs \<and> orders s x \<noteq> None then Some St_cancelled else status_of s x))"
proof (induction xs arbitrary: s)
  case (Cons y xs)
  have "listed (end_scheduled E y s) = listed s - {y}" by (auto simp: listed_def end_scheduled_fields)
  moreover have "status_of (end_scheduled E y s) x =
      (if x = y \<and> orders s x \<noteq> None then Some St_cancelled else status_of s x)" for x
    by (auto simp: status_of_def end_scheduled_fields)
  ultimately show ?case using Cons [of "end_scheduled E y s"]
    by (auto simp: end_scheduled_fields)
qed simp

lemma run_scheduled_fields:
  "ledger.truncate (run_scheduled E u s) = ledger.truncate s"
  "schedule_cancel (run_scheduled E u s) = (schedule_cancel s)(u := None)"
  "userOrders (run_scheduled E u s) = userOrders s"
  "listed (run_scheduled E u s) = listed s - set (due_orders s u)"
  "status_of (run_scheduled E u s) x = (if x \<in> set (due_orders s u) then Some St_cancelled else status_of s x)"
proof -
  let ?s1 = "foldl (\<lambda>acc oid. end_scheduled E oid acc) s (due_orders s u)"
  note f = end_all_fields [of E s "due_orders s u"]
    and b = announce_book [of E u ?s1 "due_orders s u"]
  note e = book_eqD [OF conjunct1 [OF b]]
  show "ledger.truncate (run_scheduled E u s) = ledger.truncate s"
    "schedule_cancel (run_scheduled E u s) = (schedule_cancel s)(u := None)"
    "userOrders (run_scheduled E u s) = userOrders s"
    "listed (run_scheduled E u s) = listed s - set (due_orders s u)"
    using f b e by (simp_all add: run_scheduled_def Let_def listed_def)
  have "orders s x \<noteq> None" if "x \<in> set (due_orders s u)" using that by (auto simp: due_orders_def status_of_def)
  with f have "status_of ?s1 x = (if x \<in> set (due_orders s u) then Some St_cancelled else status_of s x)" by auto
  moreover have "status_of (run_scheduled E u s) x = status_of ?s1 x"
    using e by (simp add: run_scheduled_def Let_def status_of_def)
  ultimately show "status_of (run_scheduled E u s) x = (if x \<in> set (due_orders s u) then Some St_cancelled else status_of s x)"
    by simp
qed

definition due :: "env \<Rightarrow> state \<Rightarrow> user \<Rightarrow> bool" where
  "due E s u \<longleftrightarrow> (\<exists>t. schedule_cancel s u = Some t \<and> t \<le> now E)"

lemma schedule_loop:
  "ledger.truncate (scheduleTick E us s) = ledger.truncate s \<and>
   userOrders (scheduleTick E us s) = userOrders s \<and>
   (\<forall>u. schedule_cancel (scheduleTick E us s) u =
      (if u \<in> set us \<and> due E s u then None else schedule_cancel s u)) \<and>
   listed (scheduleTick E us s) = listed s - {x. \<exists>u \<in> set us. due E s u \<and> x \<in> set (due_orders s u)} \<and>
   (\<forall>x. status_of (scheduleTick E us s) x =
      (if \<exists>u \<in> set us. due E s u \<and> x \<in> set (due_orders s u) then Some St_cancelled else status_of s x))"
proof (induction us arbitrary: s)
  case (Cons v us)
  let ?s = "schedule_one E v s"
  have tick: "scheduleTick E (v # us) s = scheduleTick E us ?s" by (simp add: scheduleTick_def)
  show ?case
  proof (cases "due E s v")
    case False
    then have "?s = s" by (auto simp: schedule_one_def due_def split: option.splits)
    with Cons [of s] False show ?thesis by (auto simp: tick)
  next
    case True
    then have s: "?s = run_scheduled E v s" by (auto simp: schedule_one_def due_def)
    note f = run_scheduled_fields [of E v s]
    have d: "due E ?s u \<longleftrightarrow> u \<noteq> v \<and> due E s u" for u by (simp add: s due_def f)
    have o: "set (due_orders ?s u) = set (due_orders s u) - set (due_orders s v)" for u
      by (auto simp: s due_orders_def f)
    let ?hit = "\<lambda>t us x. \<exists>u \<in> set us. due E t u \<and> x \<in> set (due_orders t u)"
    have hit: "?hit s (v # us) x \<longleftrightarrow> ?hit ?s us x \<or> x \<in> set (due_orders s v)" for x
      using True by (auto simp: d o)
    have "ledger.truncate (scheduleTick E (v # us) s) = ledger.truncate s"
      "userOrders (scheduleTick E (v # us) s) = userOrders s"
      using Cons [of ?s] f unfolding tick s by simp_all
    moreover have "schedule_cancel (scheduleTick E (v # us) s) u =
        (if u \<in> set (v # us) \<and> due E s u then None else schedule_cancel s u)" for u
      using Cons [of ?s] True unfolding tick by (simp add: d) (simp add: s f)
    moreover have "listed (scheduleTick E (v # us) s) = listed s - {x. ?hit s (v # us) x}"
      unfolding hit using Cons [of ?s] f(4) unfolding tick s by (simp only: Diff_eq) blast
    moreover have "status_of (scheduleTick E (v # us) s) x =
        (if ?hit s (v # us) x then Some St_cancelled else status_of s x)" for x
      unfolding hit using Cons [of ?s] f(5) [of x] unfolding tick s by presburger
    ultimately show ?thesis by blast
  qed
qed (simp add: scheduleTick_def)

text \<open>
  The dead man's switch: when the SCAN sees a user whose deadline has passed, every open
  order in the user's native list ends cancelled and leaves the matcher's lists, and the deadline
  is consumed. Nothing else changes: other orders, in particular the orders of the same user on
  builder exchanges, keep their status and their place, later deadlines stay, and no balance,
  position or fill is touched.
\<close>

theorem deadline_cancels:
  assumes "u \<in> set scanned" "due E s u"
  shows "(\<forall>x. status_of s x = Some St_open \<and> x \<in> fst ` set (userOrders s u '''') \<longrightarrow>
      status_of (scheduleTick E scanned s) x = Some St_cancelled \<and> x \<notin> listed (scheduleTick E scanned s)) \<and>
    schedule_cancel (scheduleTick E scanned s) u = None \<and>
    (\<forall>v. \<not> due E s v \<longrightarrow> schedule_cancel (scheduleTick E scanned s) v = schedule_cancel s v) \<and>
    (\<forall>x. (\<forall>v. due E s v \<longrightarrow> x \<notin> fst ` set (userOrders s v '''')) \<longrightarrow>
      status_of (scheduleTick E scanned s) x = status_of s x \<and>
      (x \<in> listed (scheduleTick E scanned s) \<longleftrightarrow> x \<in> listed s)) \<and>
    ledger.truncate (scheduleTick E scanned s) = ledger.truncate s"
proof -
  have o: "x \<in> set (due_orders s v) \<longleftrightarrow> status_of s x = Some St_open \<and> x \<in> fst ` set (userOrders s v '''')" for x v
    by (auto simp: due_orders_def)
  note l = schedule_loop [of E scanned s]
  have st: "status_of (scheduleTick E scanned s) x = (if \<exists>v \<in> set scanned. due E s v \<and> x \<in> set (due_orders s v)
      then Some St_cancelled else status_of s x)" for x using l by blast
  have ls: "listed (scheduleTick E scanned s) = listed s - {x. \<exists>v \<in> set scanned. due E s v \<and> x \<in> set (due_orders s v)}"
    using l by blast
  have "status_of (scheduleTick E scanned s) x = Some St_cancelled \<and> x \<notin> listed (scheduleTick E scanned s)"
    if "status_of s x = Some St_open" "x \<in> fst ` set (userOrders s u '''')" for x
    using that assms unfolding st ls o by auto
  moreover have "status_of (scheduleTick E scanned s) x = status_of s x \<and>
      (x \<in> listed (scheduleTick E scanned s) \<longleftrightarrow> x \<in> listed s)"
    if "\<forall>v. due E s v \<longrightarrow> x \<notin> fst ` set (userOrders s v '''')" for x
    using that unfolding st ls o by auto
  moreover have "schedule_cancel (scheduleTick E scanned s) u = None"
      "\<forall>v. \<not> due E s v \<longrightarrow> schedule_cancel (scheduleTick E scanned s) v = schedule_cancel s v"
    using l assms by simp_all
  ultimately show ?thesis using l by blast
qed

theorem deadline_cancels_witness:
  "status_of (scheduleTick sample_env [''u'']
      ((sample_state None [sample_hash (sample_order 1 True 2 90 False)])
        \<lparr>schedule_cancel := [''u'' \<mapsto> 999000], userOrders := (\<lambda>u scope. if scope = '''' then [(1, 0)] else [])\<rparr>)) 1
    = Some St_cancelled"
proof -
  let ?s = "(sample_state None [sample_hash (sample_order 1 True 2 90 False)])
        \<lparr>schedule_cancel := [''u'' \<mapsto> 999000], userOrders := (\<lambda>u scope. if scope = '''' then [(1, 0)] else [])\<rparr>"
  have "due sample_env ?s ''u''" by (simp add: due_def sample_env_def)
  moreover have "status_of ?s 1 = Some St_open" "1 \<in> fst ` set (userOrders ?s ''u'' '''')"
    by (simp_all add: status_of_def sample_state_def sample_hash_def sample_order_def)
  ultimately show ?thesis using deadline_cancels [of "''u''" "[''u'']" sample_env ?s] by simp
qed

end
