(* ===== verification/Engine.thy ===== *)
theory Engine
  imports Funding TrailingPlace Twap Schedule
begin

text \<open>
  The invariants of the engine's state, proved for every operation. \<open>good\<close> says that the stored data fit
  together; \<open>hist\<close> relates a state to a later one: orders never disappear, keep their
  identity, and a finished order keeps its final status for ever.
\<close>

subsection \<open>A vocabulary for operations that keep an invariant\<close>

locale safe_steps =
  fixes good :: "'s \<Rightarrow> bool" and hist :: "'s \<Rightarrow> 's \<Rightarrow> bool"
  assumes hist_refl: "hist s s"
    and hist_trans: "hist s t \<Longrightarrow> hist t u \<Longrightarrow> hist s u"
begin

definition safe :: "'s \<Rightarrow> 's \<Rightarrow> bool" where
  "safe s s' \<longleftrightarrow> (good s \<longrightarrow> good s' \<and> hist s s')"

lemma safeI: "(good s \<Longrightarrow> good s') \<Longrightarrow> (good s \<Longrightarrow> hist s s') \<Longrightarrow> safe s s'"
  by (simp add: safe_def)

lemma safe_good: "safe s s' \<Longrightarrow> good s \<Longrightarrow> good s'"
  by (simp add: safe_def)

lemma safe_hist: "safe s s' \<Longrightarrow> good s \<Longrightarrow> hist s s'"
  by (simp add: safe_def)

lemma safe_refl: "safe s s"
  by (simp add: safe_def hist_refl)

lemma safe_trans: "safe s t \<Longrightarrow> safe t u \<Longrightarrow> safe s u"
  by (auto simp: safe_def intro: hist_trans)

lemma safe_foldl: "(\<And>x s. safe s (f x s)) \<Longrightarrow> safe s (foldl (\<lambda>acc x. f x acc) s xs)"
  by (induction xs arbitrary: s) (auto intro: safe_refl safe_trans)

lemma safe_star: "r\<^sup>*\<^sup>* s s' \<Longrightarrow> (\<And>t t'. r t t' \<Longrightarrow> safe t t') \<Longrightarrow> safe s s'"
  by (induction rule: rtranclp_induct) (auto intro: safe_refl safe_trans)

end

subsection \<open>The invariants\<close>

definition same_identity :: "OrderHash \<Rightarrow> OrderHash \<Rightarrow> bool" where
  "same_identity h h' \<longleftrightarrow>
    o_oid (h_order h') = o_oid (h_order h) \<and> o_userId (h_order h') = o_userId (h_order h) \<and>
    o_asset (h_order h') = o_asset (h_order h) \<and> o_coin (h_order h') = o_coin (h_order h) \<and>
    o_isBuy (h_order h') = o_isBuy (h_order h) \<and> o_sz (h_order h') = o_sz (h_order h) \<and>
    o_reduceOnly (h_order h') = o_reduceOnly (h_order h) \<and> o_orderType (h_order h') = o_orderType (h_order h)"

definition kept :: "OrderHash \<Rightarrow> OrderHash \<Rightarrow> bool" where
  "kept h h' \<longleftrightarrow> same_identity h h' \<and>
    (o_status (h_order h) \<noteq> St_open \<longrightarrow>
       o_status (h_order h') = o_status (h_order h) \<and> o_filledSz (h_order h') = o_filledSz (h_order h) \<and>
       o_avgPx (h_order h') = o_avgPx (h_order h))"

definition hist :: "state \<Rightarrow> state \<Rightarrow> bool" where
  "hist s s' \<longleftrightarrow> seqOid s \<le> seqOid s' \<and>
    (\<forall>x h. orders s x = Some h \<longrightarrow> (\<exists>h'. orders s' x = Some h' \<and> kept h h'))"

definition book_ok :: "state \<Rightarrow> bool" where
  "book_ok s \<longleftrightarrow> oids_ok s \<and>
    (\<forall>x h. orders s x = Some h \<longrightarrow> o_oid (h_order h) = x) \<and>
    (\<forall>x \<in> listed s. status_of s x = Some St_open) \<and>
    (\<forall>x \<in> set (trailSet s). \<forall>h. orders s x = Some h \<longrightarrow> o_orderType (h_order h) = TrailingStop) \<and>
    (\<forall>x \<in> set (openSet s) \<union> set (trigSet s). \<forall>h. orders s x = Some h \<longrightarrow> o_orderType (h_order h) \<noteq> TrailingStop)"

definition ledger_ok :: "state \<Rightarrow> bool" where
  \<comment> \<open>the positions sets list exactly the stored positions, each under its dex, none of size zero\<close>
  "ledger_ok s \<longleftrightarrow> (\<forall>u a.
    (\<forall>scope. a \<in> set (posSet s u scope) \<longleftrightarrow> pos s u a \<noteq> None \<and> scope = scopeForAsset s a) \<and>
    (\<forall>p. pos s u a = Some p \<longrightarrow> p_szi p \<noteq> 0))"

definition plain :: "state \<Rightarrow> oid \<Rightarrow> bool" where
  \<comment> \<open>an order that exists and is no trailing stop\<close>
  "plain s x \<longleftrightarrow> (\<exists>h. orders s x = Some h \<and> o_orderType (h_order h) \<noteq> TrailingStop)"

definition links_ok :: "state \<Rightarrow> bool" where
  \<comment> \<open>bracket links connect stored orders, and no trailing stop is anyone's sibling\<close>
  "links_ok s \<longleftrightarrow> (\<forall>x. (\<forall>y \<in> set (bracket s x). plain s y) \<and>
    (bracket s x \<noteq> [] \<or> children s x \<noteq> [] \<longrightarrow> orders s x \<noteq> None) \<and>
    (\<forall>p. parentOf s x = Some p \<longrightarrow> orders s p \<noteq> None))"

definition good :: "state \<Rightarrow> bool" where
  "good s \<longleftrightarrow> book_ok s \<and> ledger_ok s \<and> links_ok s"

lemma same_identity_refl [simp]: "same_identity h h"
  by (simp add: same_identity_def)

lemma kept_refl [simp]: "kept h h"
  by (simp add: kept_def)

lemma kept_trans: "kept h i \<Longrightarrow> kept i j \<Longrightarrow> kept h j"
  by (simp add: kept_def same_identity_def)

lemma hist_refl [simp]: "hist s s"
  by (simp add: hist_def)

lemma hist_trans: "hist s t \<Longrightarrow> hist t u \<Longrightarrow> hist s u"
  unfolding hist_def by (meson kept_trans le_trans)

interpretation eng: safe_steps good hist
  by unfold_locales (auto intro: hist_trans)

lemma ledger_ok_cong:
  assumes "ledger.truncate s = ledger.truncate t"
  shows "ledger_ok s = ledger_ok t"
  using ledger_eqD [OF assms] market_cong(1) [OF market_of_ledger [OF assms]]
  by (simp add: ledger_ok_def)

lemma book_ok_cong:
  "orders s = orders t \<Longrightarrow> seqOid s = seqOid t \<Longrightarrow> set (openSet s) = set (openSet t) \<Longrightarrow>
   set (trigSet s) = set (trigSet t) \<Longrightarrow> set (trailSet s) = set (trailSet t) \<Longrightarrow> book_ok s = book_ok t"
  by (simp add: book_ok_def oids_ok_def listed_def status_of_def)

lemma hist_cong: "orders s' = orders s \<Longrightarrow> seqOid s' = seqOid s \<Longrightarrow> hist s s'"
  by (simp add: hist_def)

lemma hist_orders: "hist s s' \<Longrightarrow> orders s x \<noteq> None \<Longrightarrow> orders s' x \<noteq> None"
  by (auto simp: hist_def)

lemma hist_plain: "hist s s' \<Longrightarrow> plain s x \<Longrightarrow> plain s' x"
  by (auto simp: hist_def plain_def kept_def same_identity_def) force

lemma links_ok_shrink:
  assumes "links_ok s" "links_shrink s s'" "hist s s'"
  shows "links_ok s'"
  using assms(1,2) hist_orders [OF assms(3)] hist_plain [OF assms(3)]
  unfolding links_ok_def links_shrink_def by (metis option.distinct(1) set_empty subset_empty subset_iff)

subsection \<open>Updates of existing orders\<close>

lemma good_update:
  assumes "good s" "ledger_ok s'" "seqOid s' = seqOid s"
    and ord: "\<And>x. orders s' x = map_option (f x) (orders s x)"
    and kept: "\<And>x h. orders s x = Some h \<Longrightarrow> kept h (f x h)"
    and sets: "set (openSet s') \<subseteq> set (openSet s)" "set (trigSet s') \<subseteq> set (trigSet s)"
      "set (trailSet s') \<subseteq> set (trailSet s)"
    and listed: "\<And>x h. x \<in> listed s' \<Longrightarrow> orders s x = Some h \<Longrightarrow> o_status (h_order h) = St_open \<Longrightarrow>
      o_status (h_order (f x h)) = St_open"
    and links: "links_shrink s s'"
  shows "good s' \<and> hist s s'"
proof -
  have b: "book_ok s" and l: "links_ok s" using assms(1) by (simp_all add: good_def)
  have id: "o_oid (h_order (f x h)) = o_oid (h_order h)" "o_orderType (h_order (f x h)) = o_orderType (h_order h)"
    if "orders s x = Some h" for x h
    using kept [OF that] by (simp_all add: kept_def same_identity_def)
  have sub: "listed s' \<subseteq> listed s" using sets by (auto simp: listed_def)
  have opn: "status_of s' x = Some St_open" if "x \<in> listed s'" for x
  proof -
    from that sub b have "status_of s x = Some St_open" by (auto simp: book_ok_def)
    then obtain h where "orders s x = Some h" "o_status (h_order h) = St_open" by (auto simp: status_of_def)
    with listed [OF that] show ?thesis by (simp add: status_of_def ord)
  qed
  have "oids_ok s'" using b by (simp add: book_ok_def oids_ok_def ord assms(3))
  moreover have "o_oid (h_order h) = x" if "orders s' x = Some h" for x h
    using that b id by (auto simp: book_ok_def ord)
  moreover have "o_orderType (h_order h) = TrailingStop" if "x \<in> set (trailSet s')" "orders s' x = Some h" for x h
    using that b id sets(3) by (auto simp: book_ok_def ord)
  moreover have "o_orderType (h_order h) \<noteq> TrailingStop"
    if "x \<in> set (openSet s') \<union> set (trigSet s')" "orders s' x = Some h" for x h
    using that b id sets(1,2) unfolding book_ok_def ord map_option_eq_Some by fastforce
  ultimately have "book_ok s'" using opn unfolding book_ok_def by blast
  moreover have "hist s s'" using kept by (auto simp: hist_def ord assms(3))
  ultimately show ?thesis using assms(2) links_ok_shrink [OF l links] by (simp add: good_def)
qed

lemma safe_book_eq:
  \<comment> \<open>operations that drop links and change indexes, lists and events only\<close>
  assumes "ledger.truncate s' = ledger.truncate s" "orders s' = orders s" "seqOid s' = seqOid s"
    "set (openSet s') \<subseteq> set (openSet s)" "set (trigSet s') \<subseteq> set (trigSet s)" "set (trailSet s') \<subseteq> set (trailSet s)"
    "links_shrink s s'"
  shows "eng.safe s s'"
proof -
  have "good s' \<and> hist s s'" if "good s"
    using that assms ledger_ok_cong [OF assms(1)]
    by (intro good_update [OF that, where f = "\<lambda>_ h. h"]) (simp_all add: good_def option.map_ident)
  then show ?thesis by (auto intro: eng.safeI)
qed

lemma kept_open:
  "o_status (h_order h) = St_open \<Longrightarrow> kept h (filled_hash ord px t h)"
  "o_status (h_order h) = St_open \<Longrightarrow> kept h (ended_hash E st h)"
  "o_status (h_order h) = St_open \<Longrightarrow> kept h (set_status st t h)"
  "kept h (h\<lparr>h_trSnap := b\<rparr>)" "kept h (apply_eval ev h)"
  by (simp_all add: kept_def same_identity_def filled_hash_def ended_hash_def set_status_def apply_eval_def)

lemma posSet_fill:
  "a \<in> set (posSet (fill_position E ord px sz szi e n s) u sc) \<longleftrightarrow>
    (if u = o_userId ord \<and> a = o_asset ord \<and> sc = scopeForAsset s a then n \<noteq> 0 else a \<in> set (posSet s u sc))"
  by (simp add: fill_position_def Let_def)

lemma ledger_ok_fill:
  assumes "ledger_ok s"
  shows "ledger_ok (executeFillWithSize E ord px sz szi e tk s)"
proof -
  let ?s' = "executeFillWithSize E ord px sz szi e tk s" and ?f = "filled_state E ord px sz szi e tk s"
  let ?n = "add_d (lib E) szi (signed_fill (o_isBuy ord) sz)" and ?s0 = "s\<lparr>seqTid := Suc (seqTid s)\<rparr>"
  let ?p = "fill_position E ord px sz szi e ?n ?s0"
  have m: "market.truncate ?f = market.truncate s" by (rule filled_state_ledger)
  have ps: "posSet ?f = posSet ?p"
    by (simp add: filled_state_def fill_pipeline_def fill_balance_def incr_balance_def drop_from_sets_def upd_hash_def Let_def)
  have sc: "scopeForAsset ?s0 = scopeForAsset s" by (rule market_cong) (simp add: market.defs)
  have p: "pos ?f = pos ?p" by (simp add: filled_state_ledger)
  have own: "map_option p_szi (pos ?p (o_userId ord) (o_asset ord)) = (if ?n = 0 then None else Some ?n)"
    by (rule fill_position_szi)
  have "ledger_ok ?f"
    unfolding ledger_ok_def
  proof (intro allI conjI impI)
    fix u a scope
    show "a \<in> set (posSet ?f u scope) \<longleftrightarrow> pos ?f u a \<noteq> None \<and> scope = scopeForAsset ?f a"
    proof (cases "u = o_userId ord \<and> a = o_asset ord")
      case True
      with assms own show ?thesis
        by (auto simp: ps p posSet_fill sc market_cong(1) [OF m] ledger_ok_def split: if_splits)
    next
      case False
      then have "pos ?p u a = pos s u a"
        using fill_position_other [of u ord a E px sz szi e ?n ?s0] by auto
      with False assms show ?thesis
        by (auto simp: ps p posSet_fill sc market_cong(1) [OF m] ledger_ok_def)
    qed
  next
    fix u a q
    assume "pos ?f u a = Some q"
    then show "p_szi q \<noteq> 0"
      using assms own fill_position_other [of u ord a E px sz szi e ?n ?s0]
      by (cases "u = o_userId ord \<and> a = o_asset ord") (auto simp: p ledger_ok_def split: if_splits)
  qed
  then show ?thesis using ledger_ok_cong [OF executeFillWithSize_ledger] by blast
qed

lemma safe_executeFill:
  assumes "status_of s (o_oid ord) = Some St_open"
  shows "eng.safe s (executeFill E ord px tk s)"
proof (rule eng.safeI)
  assume g: "good s"
  have "good (executeFill E ord px tk s) \<and> hist s (executeFill E ord px tk s)"
  proof (cases "fill_size (lib E) ord (p_szi (pos_of s (o_userId ord) (o_asset ord)))")
    case (Some sz)
    let ?szi = "p_szi (pos_of s (o_userId ord) (o_asset ord))" and ?e = "p_entryPx (pos_of s (o_userId ord) (o_asset ord))"
    let ?n = "add_d (lib E) ?szi (signed_fill (o_isBuy ord) sz)"
    define s' where "s' = executeFillWithSize E ord px sz ?szi ?e tk s"
    note ef = executeFillWithSize_orders [OF s'_def]
    let ?g = "\<lambda>x h. if x = o_oid ord then filled_hash ord px (now E) h
      else if x \<in> fill_orphans E ord ?n s then ended_hash E St_reduceOnlyCanceled h
      else if x \<in> oco_targets s (o_oid ord) then set_status St_cancelled (now E) h else h"
    have "good s' \<and> hist s s'"
    proof (rule good_update [OF g, where f = ?g])
      show "ledger_ok s'" using g by (simp add: good_def s'_def ledger_ok_fill)
      show "seqOid s' = seqOid s" by (rule ef)
      show "orders s' x = map_option (?g x) (orders s x)" for x
        by (simp add: ef(1) option.map_id0 [unfolded id_def])
      show "kept h (?g x h)" if "orders s x = Some h" for x h
        using that assms by (auto intro!: kept_open simp: status_of_def fill_orphans_def orphan_of_def orphaned_def
            oco_targets_def split: if_splits)
      show "set (openSet s') \<subseteq> set (openSet s)" "set (trigSet s') \<subseteq> set (trigSet s)"
        "set (trailSet s') \<subseteq> set (trailSet s)"
        using ef by auto
      show "o_status (h_order (?g x h)) = St_open" if "x \<in> listed s'" "orders s x = Some h" "o_status (h_order h) = St_open" for x h
      proof -
        have "x \<noteq> o_oid ord" "x \<notin> fill_orphans E ord ?n s" using that(1) by (auto simp: listed_def ef)
        moreover have "x \<notin> oco_targets s (o_oid ord)"
        proof (cases "x \<in> set (trailSet s)")
          case True
          with g that(2) have "\<not> plain s x" by (auto simp: good_def book_ok_def plain_def)
          with g show ?thesis by (auto simp: good_def links_ok_def oco_targets_def)
        next
          case False
          with that(1) show ?thesis by (auto simp: listed_def ef)
        qed
        ultimately show ?thesis using that(3) by simp
      qed
      show "links_shrink s s'"
        using executeFill_links [of s E ord px tk] Some by (simp add: executeFill_def Let_def s'_def)
    qed
    with Some show ?thesis by (simp add: executeFill_def Let_def s'_def)
  qed (use g in \<open>simp add: executeFill_def Let_def\<close>)
  then show "good (executeFill E ord px tk s)" "hist s (executeFill E ord px tk s)" by blast+
qed

subsection \<open>Placing orders\<close>

lemma fresh_oid: "book_ok s \<Longrightarrow> orders s (Suc (seqOid s)) = None"
  unfolding book_ok_def oids_ok_def by (metis Suc_n_not_le_n)

lemma good_new:
  assumes "good s" and led: "ledger.truncate s' = ledger.truncate s"
    and ord: "seqOid s' = Suc (seqOid s)" "orders s' = (orders s)(Suc (seqOid s) \<mapsto> h)"
    and h: "o_oid (h_order h) = Suc (seqOid s)" "o_status (h_order h) = St_open"
    and sets: "set (openSet s') \<union> set (trigSet s') \<subseteq> set (openSet s) \<union> set (trigSet s) \<union>
        (if o_orderType (h_order h) = TrailingStop then {} else {Suc (seqOid s)})"
      "set (trailSet s') \<subseteq> set (trailSet s) \<union>
        (if o_orderType (h_order h) = TrailingStop then {Suc (seqOid s)} else {})"
    and links: "links_shrink s s'"
  shows "good s' \<and> hist s s'"
proof -
  let ?n = "Suc (seqOid s)"
  have b: "book_ok s" and l: "links_ok s" using assms(1) by (simp_all add: good_def)
  note fresh = fresh_oid [OF b]
  have sub: "listed s' \<subseteq> insert ?n (listed s)" using sets by (auto simp: listed_def split: if_splits)
  have n: "?n \<notin> listed s" using b fresh by (auto simp: book_ok_def status_of_def)
  have "oids_ok s'" using b by (auto simp: book_ok_def oids_ok_def ord le_Suc_eq)
  moreover have "\<forall>x i. orders s' x = Some i \<longrightarrow> o_oid (h_order i) = x"
    using b h(1) by (auto simp: book_ok_def ord)
  moreover have "status_of s' x = Some St_open" if "x \<in> listed s'" for x
    using that sub b h(2) n by (auto simp: book_ok_def status_of_def ord)
  moreover have "o_orderType (h_order i) = TrailingStop" if "x \<in> set (trailSet s')" "orders s' x = Some i" for x i
    using that sets(2) b n by (auto simp: book_ok_def ord listed_def split: if_splits)
  moreover have "o_orderType (h_order i) \<noteq> TrailingStop"
    if "x \<in> set (openSet s') \<union> set (trigSet s')" "orders s' x = Some i" for x i
    using that(2) set_mp [OF sets(1) that(1)] b n by (auto simp: book_ok_def ord listed_def split: if_splits)
  ultimately have "book_ok s'" unfolding book_ok_def by blast
  moreover have "hist s s'" using fresh by (auto simp: hist_def ord)
  ultimately show ?thesis
    using assms(1) links_ok_shrink [OF l links] ledger_ok_cong [OF led] by (simp add: good_def)
qed

lemma links_shrink_eq:
  "bracket s' = bracket s \<Longrightarrow> children s' = children s \<Longrightarrow> parentOf s' = parentOf s \<Longrightarrow> links_shrink s s'"
  by (simp add: links_shrink_def)

lemma safe_save:
  \<comment> \<open>storing a new open order under the next oid, listed nowhere yet\<close>
  assumes "o_oid ord = Suc (seqOid s)" "o_status ord = St_open"
  shows "eng.safe s (saveOrder ord ea (s\<lparr>seqOid := Suc (seqOid s)\<rparr>))"
proof -
  have "good (saveOrder ord ea (s\<lparr>seqOid := Suc (seqOid s)\<rparr>)) \<and> hist s (saveOrder ord ea (s\<lparr>seqOid := Suc (seqOid s)\<rparr>))"
    if "good s"
    using assms by (intro good_new [OF that]) ((simp_all add: saveOrder_orders links_shrink_eq)+)
  then show ?thesis by (auto intro: eng.safeI)
qed

lemma safe_place:
  assumes "placeSingleOrder E u grouping opts w s = (r, s')"
  shows "eng.safe s s'"
proof -
  have rest: "eng.safe s t" if "rest_new E u c sz grouping opts w tif s = (q, t)" for c sz tif q t
  proof -
    have "good t \<and> hist s t" if "good s" "t \<noteq> s"
      using \<open>rest_new E u c sz grouping opts w tif s = (q, t)\<close> that(2)
      by (intro good_new [OF that(1)])
        (auto simp: rest_new_def Let_def saveOrder_orders wire_order_def buildOrder_def links_shrink_eq split: if_splits)
    then show ?thesis by (metis eng.safeI eng.safe_refl)
  qed
  have trig: "eng.safe s t" if "placeTriggeredOrder E u c sz tg grouping bld w s = (q, t)" for c sz tg bld q t
  proof -
    have "good t \<and> hist s t" if "good s"
      using \<open>placeTriggeredOrder E u c sz tg grouping bld w s = (q, t)\<close>
      by (intro good_new [OF that])
        (auto simp: placeTriggeredOrder_def Let_def saveOrder_orders buildOrder_def add_user_order_def links_shrink_eq)
    then show ?thesis by (auto intro: eng.safeI)
  qed
  have now: "eng.safe s t"
    if "fill_at_once E ord mid w s1 = (q, t)" "eng.safe s s1" "status_of s1 (o_oid ord) = Some St_open" for ord mid s1 q t
    using that safe_executeFill [OF that(3)] by (auto simp: fill_at_once_def Let_def intro: eng.safe_trans)
  have emit: "eng.safe s (emit ev t)" if "eng.safe s t" for ev t
    using that by (rule eng.safe_trans) (rule safe_book_eq, simp_all add: links_shrink_eq)
  from assms show ?thesis
    by (auto simp: placeSingleOrder_def place_ioc_def place_alo_def place_gtc_def Let_def eng.safe_refl
        wire_order_def buildOrder_def status_of_def saveOrder_orders
        intro!: emit safe_save elim!: now
        split: option.splits if_splits TimeInForce.splits dest: rest trig)
qed

lemma executeFill_plain:
  assumes "plain s x"
  shows "plain (executeFill E ord px tk s) x"
proof (cases "fill_size (lib E) ord (p_szi (pos_of s (o_userId ord) (o_asset ord)))")
  case (Some sz)
  then show ?thesis
    using assms executeFillWithSize_orders(1) [OF refl, of E ord px sz _ _ tk s x]
    by (auto simp: executeFill_def Let_def plain_def filled_hash_def ended_hash_def)
qed (simp add: executeFill_def Let_def assms)

lemma plain_emit [simp]: "plain (emit ev s) = plain s"
  by (simp add: plain_def fun_eq_iff)

lemma place_plain:
  assumes "placeSingleOrder E u grouping opts w s = (r, s')" "placed_oid r = Some x"
  shows "plain s' x"
proof -
  have rest: "plain t x" if "rest_new E u c sz grouping opts w tif s = (r, t)" for c sz tif t
    using that assms(2)
    by (auto simp: rest_new_def Let_def plain_def saveOrder_orders wire_order_def buildOrder_def split: if_splits)
  have trig: "plain t x" if "placeTriggeredOrder E u c sz tg grouping bld w s = (r, t)" for c sz tg bld t
    using that assms(2)
    by (auto simp: placeTriggeredOrder_def Let_def plain_def saveOrder_orders buildOrder_def add_user_order_def)
  have now: "plain t x" if "fill_at_once E ord mid w s1 = (r, t)" "plain s1 (o_oid ord)" for ord mid s1 t
    using that assms(2) by (auto simp: fill_at_once_def Let_def intro: executeFill_plain)
  from assms show ?thesis
    by (auto simp: placeSingleOrder_def place_ioc_def place_alo_def place_gtc_def Let_def
        wire_order_def buildOrder_def saveOrder_orders plain_def [of "saveOrder _ _ _"]
        elim!: now split: option.splits if_splits TimeInForce.splits dest: rest trig)
qed

lemma safe_links:
  \<comment> \<open>changing nothing but the bracket links\<close>
  assumes "ledger.truncate s' = ledger.truncate s" "orders s' = orders s" "seqOid s' = seqOid s"
    "openSet s' = openSet s" "trigSet s' = trigSet s" "trailSet s' = trailSet s"
    "links_ok s \<Longrightarrow> links_ok s'"
  shows "eng.safe s s'"
  using assms book_ok_cong [of s' s] ledger_ok_cong [OF assms(1)] hist_cong [of s' s]
  by (simp add: eng.safe_def good_def)

lemma safe_place_all:
  assumes "place_all E u grouping opts ws s = (rs, s')"
  shows "eng.safe s s' \<and> (good s \<longrightarrow> (\<forall>x \<in> set (List.map_filter placed_oid rs). plain s' x))"
  using assms
proof (induction ws arbitrary: s rs)
  case (Cons w ws)
  obtain r s1 where p: "placeSingleOrder E u grouping opts w s = (r, s1)" by force
  obtain rs' where q: "place_all E u grouping opts ws s1 = (rs', s')" "rs = r # rs'"
    using Cons.prems p by (auto split: prod.splits)
  note ih = Cons.IH [OF q(1)] and sp = safe_place [OF p]
  have "plain s' x" if "good s" "placed_oid r = Some x" for x
    using hist_plain [OF eng.safe_hist [OF conjunct1 [OF ih] eng.safe_good [OF sp that(1)]] place_plain [OF p that(2)]] .
  with ih sp show ?case
    by (auto simp: q(2) map_filter_simps intro: eng.safe_trans dest: eng.safe_good split: option.splits)
qed (simp add: map_filter_simps eng.safe_refl)

lemma safe_link_bracket:
  assumes "\<forall>x \<in> set oids. plain s x"
  shows "eng.safe s (link_bracket grouping oids s)"
proof -
  have ex: "orders s x \<noteq> None" if "x \<in> set oids" for x using assms that by (auto simp: plain_def)
  show ?thesis
    using assms ex
    by (intro safe_links)
      (auto simp: link_bracket_def add_siblings_def Let_def links_ok_def plain_def sset.add_all
        split: list.splits Grouping.splits)
qed

lemma safe_placeOrders:
  assumes "placeOrders E u ws grouping opts s = (rs, s')"
  shows "eng.safe s s'"
proof -
  obtain s1 where p: "place_all E u grouping opts ws s = (rs, s1)"
    and s': "s' = link_bracket grouping (List.map_filter placed_oid rs) s1"
    using assms by (auto simp: placeOrders_def split: prod.splits)
  from safe_place_all [OF p] safe_link_bracket show ?thesis
    unfolding s' eng.safe_def by (blast intro: hist_trans)
qed

subsection \<open>Ending and changing orders\<close>

lemma good_end_one:
  \<comment> \<open>one open order gets a final status and leaves every set\<close>
  assumes "good s" "status_of s oid = Some St_open" "ledger.truncate s' = ledger.truncate s" "seqOid s' = seqOid s"
    "orders s' = (orders s)(oid := map_option f (orders s oid))"
    "\<And>h. o_status (h_order h) = St_open \<Longrightarrow> kept h (f h)"
    "set (openSet s') = set (openSet s) - {oid}" "set (trigSet s') = set (trigSet s) - {oid}"
    "set (trailSet s') = set (trailSet s) - {oid}" "links_shrink s s'"
  shows "good s' \<and> hist s s'"
  using assms ledger_ok_cong [OF assms(3)]
  by (intro good_update [OF assms(1), where f = "\<lambda>x h. if x = oid then f h else h"])
    (auto simp: good_def status_of_def listed_def option.map_id0 [unfolded id_def] split: if_splits)

lemma kept_cancelled: "o_status (h_order h) = St_open \<Longrightarrow> kept h ((set_status st t h)\<lparr>h_trSnap := b\<rparr>)"
  by (simp add: kept_def same_identity_def set_status_def)

lemma safe_emit: "eng.safe s (emit ev s)"
  by (rule safe_book_eq) (simp_all add: links_shrink_eq)

lemma safe_drop_links:
  "eng.safe s (drop_child_links kids s)" "eng.safe s (s\<lparr>children := (children s)(oid := [])\<rparr>)"
  "eng.safe s (s\<lparr>bracket := (bracket s)(oid := []), parentOf := (parentOf s)(oid := None)\<rparr>)"
  by (rule safe_book_eq; simp add: drop_child_links_def links_shrink_def)+

lemma safe_cancel_pipeline:
  assumes "cancel_error s u a oid = None"
  shows "eng.safe s (cancel_pipeline E d oid s)"
proof -
  have st: "status_of s oid = Some St_open" using cancel_error_open [OF assms] by (simp add: opens_def)
  let ?tr = "o_orderType (h_order d) = TrailingStop"
  let ?f = "\<lambda>h. if ?tr then (set_status St_cancelled (now E) h)\<lparr>h_trSnap := Some (buildTrailingBody (lib E) d False)\<rparr>
    else set_status St_cancelled (now E) h"
  have "good (cancel_pipeline E d oid s) \<and> hist s (cancel_pipeline E d oid s)" if "good s"
    by (rule good_end_one [OF that st, where f = ?f])
      (simp_all add: cancel_pipeline_def drop_from_sets_def upd_hash_def emitTrailingHistory_def Let_def
        kept_cancelled kept_open links_shrink_eq option.map_comp comp_def)
  then show ?thesis by (auto intro: eng.safeI)
qed

lemma safe_cancel_loop:
  "cancel_loop fuel E u cs s = Some (rs, s') \<Longrightarrow> eng.safe s s'"
proof (induction fuel E u cs s arbitrary: rs s' rule: cancel_loop.induct)
  case (2 fuel E u a oid cs s)
  show ?case
  proof (cases "cancel_error s u a oid")
    case (Some err)
    with 2 show ?thesis by auto
  next
    case None
    define s1 where "s1 = cancel_pipeline E (the (orders s oid)) oid s"
    have s1: "eng.safe s s1" unfolding s1_def by (rule safe_cancel_pipeline [OF None])
    let ?kids = "children s1 oid" and ?ev = "OrderUpdate u (cancelled_row u (the (orders s oid)) (now E)) St_cancelled"
    let ?ccs = "child_cancels u s1 ?kids"
    define s2 where "s2 = drop_child_links ?kids (s1\<lparr>children := (children s1)(oid := [])\<rparr>)"
    have s2: "eng.safe s s2"
      unfolding s2_def using s1 safe_drop_links by (blast intro: eng.safe_trans)
    define after where "after =
      (if ?kids \<noteq> []
       then if ?ccs = [] then Some s2
            else case fuel of 0 \<Rightarrow> None | Suc n \<Rightarrow> map_option snd (cancel_loop n E u ?ccs s2)
       else Some (s1\<lparr>bracket := (bracket s1)(oid := []), parentOf := (parentOf s1)(oid := None)\<rparr>))"
    have eq: "cancel_loop fuel E u ((a, oid) # cs) s = (case after of None \<Rightarrow> None
        | Some s3 \<Rightarrow> map_option (\<lambda>(rs, s'). (Success # rs, s')) (cancel_loop fuel E u cs (emit ?ev s3)))"
      by (simp only: cancel_loop.simps None option.case Let_def after_def s2_def s1_def)
    from "2.prems" [unfolded eq] obtain s3 rs' where a: "after = Some s3"
      and r: "cancel_loop fuel E u cs (emit ?ev s3) = Some (rs', s')"
      by (cases after) auto
    have "eng.safe s s3"
    proof (cases "?kids \<noteq> [] \<and> ?ccs \<noteq> []")
      case True
      with a obtain n rs'' where n: "fuel = Suc n" and c: "cancel_loop n E u ?ccs s2 = Some (rs'', s3)"
        by (cases fuel) (auto simp: after_def)
      have "eng.safe s2 s3"
        by (rule "2.IH"(1) [OF None refl s1_def refl]) (use True n c in \<open>simp_all add: s2_def\<close>)
      with s2 show ?thesis by (rule eng.safe_trans)
    next
      case False
      with a s1 s2 safe_drop_links(3) show ?thesis by (auto simp: after_def intro: eng.safe_trans split: if_splits)
    qed
    moreover have "eng.safe (emit ?ev s3) s'"
      using r a by (intro "2.IH"(2) [OF None refl s1_def refl, of after]) (simp_all only: after_def s2_def Let_def)
    ultimately show ?thesis using safe_emit by (blast intro: eng.safe_trans)
  qed
qed (simp add: eng.safe_refl)

lemma safe_cancelOrders: "cancelOrders E u cs s = (rs, s') \<Longrightarrow> eng.safe s s'"
  using safe_cancel_loop [of "seqOid s" E u cs s]
  by (auto simp: cancelOrders_def eng.safe_refl split: option.splits)

lemma safe_cancelByCloid: "cancelByCloid E u cs s = (rs, s') \<Longrightarrow> eng.safe s s'"
  by (induction E u cs s arbitrary: rs s' rule: cancelByCloid.induct)
    (auto simp: Let_def eng.safe_refl split: option.splits prod.splits
      intro: eng.safe_trans dest: safe_cancelOrders)

lemma links_okD:
  assumes "links_ok s"
  shows "y \<in> set (bracket s x) \<Longrightarrow> plain s y" "children s x \<noteq> [] \<Longrightarrow> orders s x \<noteq> None"
    "parentOf s x = Some p \<Longrightarrow> orders s p \<noteq> None" "bracket s x \<noteq> [] \<Longrightarrow> orders s x \<noteq> None"
  using assms unfolding links_ok_def by blast+

definition carry_links :: "oid \<Rightarrow> oid option \<Rightarrow> oid option \<Rightarrow> oid list \<Rightarrow> state \<Rightarrow> state" where
  \<comment> \<open>the part of carryBracketLinks after the cascade over the children, which moves links only\<close>
  "carry_links oldOid newOid parent siblings s1 =
    (let s2 = s1\<lparr>bracket := (bracket s1)(oldOid := []), parentOf := (parentOf s1)(oldOid := None)\<rparr>;
         s3 = (case parent of None \<Rightarrow> s2
           | Some p \<Rightarrow>
              let s2' = s2\<lparr>children := (children s2)(p := srem oldOid (children s2 p))\<rparr>
              in case newOid of None \<Rightarrow> s2'
                 | Some n \<Rightarrow> s2'\<lparr>children := (children s2')(p := sadd n (children s2' p)),
                               parentOf := (parentOf s2')(n := Some p)\<rparr>);
         s4 = s3\<lparr>bracket := (\<lambda>x. if x \<in> set siblings
           then (case newOid of None \<Rightarrow> srem oldOid (bracket s3 x) | Some n \<Rightarrow> sadd n (srem oldOid (bracket s3 x)))
           else bracket s3 x)\<rparr>
     in case newOid of None \<Rightarrow> s4
        | Some n \<Rightarrow> s4\<lparr>bracket := (bracket s4)(n := foldr sadd siblings (bracket s4 n))\<rparr>)"

lemma carry_links_frame:
  assumes "t = carry_links oldOid newOid parent siblings s"
  shows "ledger.truncate t = ledger.truncate s" "orders t = orders s" "seqOid t = seqOid s"
    "openSet t = openSet s" "trigSet t = trigSet s" "trailSet t = trailSet s"
  by (simp_all add: assms carry_links_def Let_def split: option.split)

lemma carry_links_links:
  assumes "t = carry_links oldOid newOid parent siblings s"
  shows "set (bracket t x) \<subseteq> set (bracket s x) \<union> set siblings \<union> set_option newOid"
    "bracket t x \<noteq> [] \<Longrightarrow> bracket s x \<noteq> [] \<or> x \<in> set siblings \<or> newOid = Some x"
    "children t x \<noteq> [] \<Longrightarrow> children s x \<noteq> [] \<or> parent = Some x"
    "parentOf t x = Some p \<Longrightarrow> parentOf s x = Some p \<or> parent = Some p"
  by (auto simp: assms carry_links_def Let_def sset.add_all srem_def split: option.splits if_splits)

lemma safe_carry:
  assumes "\<And>n cl. replacement = Resting n cl \<Longrightarrow> plain s n"
  shows "eng.safe s (carryBracketLinks E u oldOid replacement s)"
proof -
  let ?kids = "children s oldOid" and ?new = "case replacement of Resting oid _ \<Rightarrow> Some oid | _ \<Rightarrow> None"
  let ?s0 = "s\<lparr>children := (children s)(oldOid := [])\<rparr>"
  define s1 where "s1 = (if ?kids \<noteq> []
    then let ccs = child_cancels u ?s0 ?kids; s0' = drop_child_links ?kids ?s0
         in if ccs = [] then s0' else snd (cancelOrders E u ccs s0')
    else s)"
  have s0: "eng.safe s (drop_child_links ?kids ?s0)" using safe_drop_links by (blast intro: eng.safe_trans)
  have "eng.safe s (snd (cancelOrders E u ccs (drop_child_links ?kids ?s0)))" for ccs
    using eng.safe_trans [OF s0 safe_cancelOrders] by (metis prod.collapse)
  with s0 have s1: "eng.safe s s1" by (simp add: s1_def Let_def eng.safe_refl)
  define t where "t = carry_links oldOid ?new (parentOf s oldOid) (bracket s oldOid) s1"
  have eq: "carryBracketLinks E u oldOid replacement s = t"
    unfolding t_def s1_def carryBracketLinks_def carry_links_def Let_def by (rule refl)
  show ?thesis
    unfolding eq
  proof (rule eng.safeI)
    assume g: "good s"
    note h = eng.safe_hist [OF s1 g] and g1 = eng.safe_good [OF s1 g]
    have l: "links_ok s" "links_ok s1" using g g1 by (simp_all add: good_def)
    have new: "?new = Some n \<Longrightarrow> plain s1 n" for n
      using hist_plain [OF h] assms by (cases replacement) auto
    have sib: "y \<in> set (bracket s oldOid) \<Longrightarrow> plain s1 y" for y
      using hist_plain [OF h] links_okD(1) [OF l(1)] by blast
    have par: "parentOf s oldOid = Some p \<Longrightarrow> orders s1 p \<noteq> None" for p
      using hist_orders [OF h] links_okD(3) [OF l(1)] by blast
    note fr = carry_links_frame [OF t_def] and ln = carry_links_links [OF t_def]
    have pl: "plain t = plain s1" by (simp add: plain_def fr fun_eq_iff)
    have ex: "plain s1 x \<Longrightarrow> orders s1 x \<noteq> None" for x by (auto simp: plain_def)
    have "links_ok t"
      unfolding links_ok_def pl fr(2)
    proof (intro allI conjI ballI impI)
      fix x y assume "y \<in> set (bracket t x)"
      with ln(1) [of x] show "plain s1 y" using new sib links_okD(1) [OF l(2)] unfolding subset_iff Un_iff elem_set by blast
    next
      fix x assume "bracket t x \<noteq> [] \<or> children t x \<noteq> []"
      with ln(2,3) [of x] show "orders s1 x \<noteq> None"
        using links_okD(2,4) [OF l(2)] new sib par ex by blast
    next
      fix x p assume "parentOf t x = Some p"
      with ln(4) [of x p] show "orders s1 p \<noteq> None" using links_okD(3) [OF l(2)] par by blast
    qed
    then have "eng.safe s1 t" using fr by (intro safe_links) simp_all
    with s1 have "eng.safe s t" by (rule eng.safe_trans)
    with g show "good t" "hist s t" by (simp_all add: eng.safe_def)
  qed
qed

lemma safe_replace:
  assumes "modify_error s u oid = None" "replace_order E u oid w s = (r, s')"
  shows "eng.safe s s'"
proof -
  obtain d where d: "orders s oid = Some d" "o_orderType (h_order d) \<noteq> TrailingStop" "o_status (h_order d) = St_open"
    using assms(1) by (auto simp: modify_error_def split: option.splits if_splits)
  define s3 where "s3 = emit (OrderUpdate u (cancelled_row u d (now E)) St_cancelled)
    (let s1 = upd_hash oid (set_status St_cancelled (now E)) s
     in s1\<lparr>openSet := srem oid (openSet s1), trigSet := srem oid (trigSet s1), expiry := zrem oid (expiry s1)\<rparr>)"
  obtain s4 where p: "placeSingleOrder E u (o_grouping (h_order d)) no_opts w s3 = (r, s4)"
    and s': "s' = carryBracketLinks E u oid r s4"
    using assms(2) d by (auto simp: replace_order_def s3_def Let_def split: prod.splits)
  have "good s3 \<and> hist s s3" if "good s"
  proof (rule good_end_one [OF that, where f = "set_status St_cancelled (now E)"])
    show "status_of s oid = Some St_open" using d by (simp add: status_of_def)
    have "oid \<notin> set (trailSet s)" using that d by (auto simp: good_def book_ok_def)
    then show "set (trailSet s3) = set (trailSet s) - {oid}" by (simp add: s3_def Let_def upd_hash_def)
  qed (simp_all add: s3_def Let_def upd_hash_def links_shrink_eq kept_open)
  then have "eng.safe s s3" by (simp add: eng.safe_def)
  moreover have "eng.safe s4 s'"
    unfolding s' using place_plain [OF p] by (intro safe_carry) auto
  ultimately show ?thesis using safe_place [OF p] by (blast intro: eng.safe_trans)
qed

lemma safe_modifyOrder: "modifyOrder E u oid w s = (r, s') \<Longrightarrow> eng.safe s s'"
  by (auto simp: modifyOrder_def eng.safe_refl split: option.splits intro: safe_replace [OF _ prod.collapse [symmetric]])

lemma safe_batchModify: "batchModifyOrders E u ms s = (rs, s') \<Longrightarrow> eng.safe s s'"
  by (induction E u ms s arbitrary: rs s' rule: batchModifyOrders.induct)
    (auto simp: eng.safe_refl split: prod.splits option.splits intro: eng.safe_trans [OF safe_replace])

subsection \<open>Settings and market data\<close>

lemma safe_ledger:
  \<comment> \<open>operations on balances, positions and market data\<close>
  assumes "orders s' = orders s" "seqOid s' = seqOid s" "openSet s' = openSet s" "trigSet s' = trigSet s"
    "trailSet s' = trailSet s" "bracket s' = bracket s" "children s' = children s" "parentOf s' = parentOf s"
    "ledger_ok s \<Longrightarrow> ledger_ok s'"
  shows "eng.safe s s'"
  using assms book_ok_cong [of s' s] hist_cong [of s' s]
  by (simp add: eng.safe_def good_def links_ok_def plain_def)

lemma scopeForAsset_perpDexs: "perpDexs (s'::state) = perpDexs (s::state) \<Longrightarrow> scopeForAsset s' a = scopeForAsset s a"
  by (simp add: scopeForAsset_def dex_name_at_def)

lemma ledger_ok_keep:
  assumes "\<And>u a. map_option p_szi (pos s' u a) = map_option p_szi (pos s u a)" "posSet s' = posSet s"
    "perpDexs s' = perpDexs s" "ledger_ok s"
  shows "ledger_ok s'"
  unfolding ledger_ok_def
proof (intro allI conjI impI)
  fix u a scope
  show "a \<in> set (posSet s' u scope) \<longleftrightarrow> pos s' u a \<noteq> None \<and> scope = scopeForAsset s' a"
    using assms(1) [of u a] assms(4) scopeForAsset_perpDexs [OF assms(3)]
    by (cases "pos s u a"; cases "pos s' u a") (auto simp: ledger_ok_def assms(2))
next
  fix u a p
  assume "pos s' u a = Some p"
  then show "p_szi p \<noteq> 0"
    using assms(1) [of u a] assms(4) by (cases "pos s u a") (auto simp: ledger_ok_def)
qed

lemma fetchMaxLeverage_frame:
  assumes "fetchMaxLeverage fetched a (s::state) = (m, s1)"
  shows "orders s1 = orders s" "seqOid s1 = seqOid s" "openSet s1 = openSet s" "trigSet s1 = trigSet s"
    "trailSet s1 = trailSet s" "bracket s1 = bracket s" "children s1 = children s" "parentOf s1 = parentOf s"
    "pos s1 = pos s" "posSet s1 = posSet s" "perpDexs s1 = perpDexs s"
  using assms by (auto simp: fetchMaxLeverage_def Let_def split: if_splits option.splits)

lemma safe_updateLeverage:
  assumes "updateLeverage fetched u a isCross l s = (r, s')"
  shows "eng.safe s s'"
proof -
  obtain m s1 where f: "fetchMaxLeverage fetched a s = (m, s1)" by force
  note fr = fetchMaxLeverage_frame [OF f]
  have "s' = s1 \<or> (\<exists>f. s' = s1\<lparr>lev := f\<rparr>)"
    using assms by (auto simp: updateLeverage_def f split: option.splits if_splits)
  then show ?thesis
    using fr by (intro safe_ledger) (auto elim!: ledger_ok_keep [rotated 3])
qed

lemma safe_updateIsolatedMargin: "updateIsolatedMargin u a isBuy n s = (r, s') \<Longrightarrow> eng.safe s s'"
  by (cases "pos s u a")
    (auto simp: updateIsolatedMargin_def Let_def eng.safe_refl emit_def intro!: safe_ledger elim!: ledger_ok_keep [rotated 3])

lemma safe_scheduleCancel: "scheduleCancel E u t s = (r, s') \<Longrightarrow> eng.safe s s'"
  by (auto simp: scheduleCancel_def eng.safe_refl ledger.defs intro!: safe_book_eq links_shrink_eq
      split: option.splits if_splits)

subsection \<open>The matcher\<close>

lemma safe_drop_listed:
  "eng.safe s (s\<lparr>openSet := srem x (openSet s)\<rparr>)" "eng.safe s (s\<lparr>trigSet := srem x (trigSet s)\<rparr>)"
  "eng.safe s (s\<lparr>trailSet := srem x (trailSet s)\<rparr>)" "eng.safe s (s\<lparr>expiry := z\<rparr>)"
  by (rule safe_book_eq; auto simp: links_shrink_eq)+

lemma status_parse:
  "good s \<Longrightarrow> orders s x = Some d \<Longrightarrow> o_status (parseOrder d) = St_open \<Longrightarrow>
    status_of s (o_oid (parseOrder d)) = Some St_open"
  by (auto simp: good_def book_ok_def status_of_def parseOrder_def)

lemma safe_good_then: "(good s \<Longrightarrow> eng.safe s s') \<Longrightarrow> eng.safe s s'"
  by (auto simp: eng.safe_def)

lemma safe_match_open_one: "eng.safe s (match_open_one E ms oid s)"
proof (rule safe_good_then)
  assume "good s"
  note st = status_parse [OF this]
  show ?thesis
    by (auto simp: match_open_one_def Let_def eng.safe_refl safe_drop_listed intro: safe_executeFill st
        split: option.split)
qed

lemma safe_matchOpenOrders: "eng.safe s (matchOpenOrders E s)"
  by (simp add: matchOpenOrders_def eng.safe_refl eng.safe_foldl safe_match_open_one)

lemma safe_match_trigger_one: "eng.safe s (match_trigger_one E ms oid s)"
proof (rule safe_good_then)
  assume "good s"
  note st = status_parse [OF this]
  show ?thesis
    by (auto simp: match_trigger_one_def Let_def eng.safe_refl safe_drop_listed
        intro: eng.safe_trans [OF safe_executeFill safe_drop_listed(2)] st split: option.split)
qed

lemma safe_matchTriggerOrders: "eng.safe s (matchTriggerOrders E s)"
  by (simp add: matchTriggerOrders_def eng.safe_refl eng.safe_foldl safe_match_trigger_one)

lemma safe_upd:
  \<comment> \<open>a change of one hash that keeps its identity, status and fill\<close>
  assumes "\<And>h. kept h (f h)" "\<And>h. o_status (h_order (f h)) = o_status (h_order h)"
  shows "eng.safe s (upd_hash oid f s)"
proof -
  have "good (upd_hash oid f s) \<and> hist s (upd_hash oid f s)" if "good s"
    using assms ledger_ok_cong [of "upd_hash oid f s" s] that
    by (intro good_update [OF that, where f = "\<lambda>x h. if x = oid then f h else h"])
      (auto simp: good_def upd_hash_def links_shrink_eq option.map_id0 [unfolded id_def])
  then show ?thesis by (auto intro: eng.safeI)
qed

lemma safe_persist: "persistTrailingEvaluation oid d ev s = (b, d', s') \<Longrightarrow> eng.safe s s'"
  by (auto simp: persistTrailingEvaluation_def eng.safe_refl apply_eval_def kept_open [unfolded apply_eval_def]
      intro!: safe_upd split: if_splits)

lemma safe_freeze: "eng.safe s (freezeTrailingSnapshot E oid d s)"
  by (auto simp: freezeTrailingSnapshot_def kept_open intro!: safe_upd)

lemma safe_terminate:
  assumes "terminateTrailingStop E oid st em af s = (b, s')"
  shows "eng.safe s s'"
proof (cases b)
  case True
  note o = terminate_orders [OF assms] and fr = terminate_frame [OF assms]
  have "good s' \<and> hist s s'" if "good s"
    using o fr True
    by (intro good_end_one [OF that, where f = "ended_hash E st"])
      (auto simp: ended_hash_def [abs_def] links_shrink_eq kept_open [unfolded ended_hash_def])
  then show ?thesis by (auto intro: eng.safeI)
next
  case False
  then have "s' = s" using assms by (auto simp: terminateTrailingStop_def Let_def split: option.splits if_splits)
  then show ?thesis by (simp add: eng.safe_refl)
qed

lemma safe_fireTrailingStop: "eng.safe s (fireTrailingStop E oid d mark s)"
proof (rule safe_good_then)
  assume g: "good s"
  let ?s1 = "freezeTrailingSnapshot E oid d s"
  note s1 = safe_freeze [of s E oid d]
  have "eng.safe s (snd (terminateTrailingStop E oid St_marginCanceled True True ?s1))"
    using eng.safe_trans [OF s1 safe_terminate [OF prod.collapse [symmetric]]] .
  moreover have "eng.safe s (executeFill E ord px tk ?s1)"
    if st: "status_of s oid = Some St_open" and "o_oid ord = o_oid (parseOrder (the (orders ?s1 oid)))" for ord px tk
  proof -
    obtain h where h: "orders s oid = Some h" using st by (auto simp: status_of_def)
    with g have "o_oid (h_order h) = oid" by (simp add: good_def book_ok_def)
    with h have "status_of ?s1 (o_oid ord) = Some St_open"
      using that by (simp add: freezeTrailingSnapshot_def upd_hash_def status_of_def parseOrder_def)
    with s1 show ?thesis by (blast intro: eng.safe_trans safe_executeFill)
  qed
  ultimately show ?thesis by (simp add: fireTrailingStop_def Let_def eng.safe_refl)
qed

lemma safe_match_trailing_one: "eng.safe s (match_trailing_one E oid s)"
  by (auto simp: match_trailing_one_def eng.safe_refl safe_drop_listed Let_def
      intro: safe_persist eng.safe_trans [OF safe_persist safe_fireTrailingStop] split: option.split prod.split)

lemma safe_matchTrailingStops: "eng.safe s (matchTrailingStops E s)"
  by (simp add: matchTrailingStops_def eng.safe_foldl safe_match_trailing_one)

lemma safe_sweep_one: "eng.safe s (sweep_one E oid s)"
proof (cases "status_of s oid = Some St_open")
  case True
  then obtain d where d: "orders s oid = Some d" "o_status (h_order d) = St_open" by (auto simp: status_of_def)
  have "good (sweep_one E oid s) \<and> hist s (sweep_one E oid s)" if "good s"
    using d
    by (intro good_end_one [OF that True, where f = "set_status St_cancelled (now E)"])
      (auto simp: sweep_one_def Let_def drop_from_sets_def upd_hash_def emitTrailingHistory_def kept_open links_shrink_eq)
  then show ?thesis by (auto intro: eng.safeI)
next
  case False
  then have "sweep_one E oid s = s\<lparr>expiry := zrem oid (expiry s)\<rparr>"
    by (cases "orders s oid") (simp_all add: sweep_one_def Let_def status_of_def)
  then show ?thesis by (simp add: safe_drop_listed)
qed

lemma safe_sweepExpired: "eng.safe s (sweepExpired E s)"
  by (simp add: sweepExpired_def eng.safe_foldl safe_sweep_one)

subsection \<open>TWAP orders\<close>

lemma safe_off_book:
  assumes "book.truncate s' = book.truncate s"
  shows "eng.safe s s'"
  using book_eqD [OF assms] by (intro safe_book_eq) (simp_all add: links_shrink_def)

lemma safe_set_twap: "eng.safe s (set_twap i f s)" "eng.safe s (drop_twap i s)"
  by (rule safe_off_book, simp add: set_twap_def drop_twap_def book.defs)+

lemma safe_createTwapOrder: "createTwapOrder E u a isBuy sz ro minutes randomize s = (r, s') \<Longrightarrow> eng.safe s s'"
  by (auto simp: createTwapOrder_def Let_def eng.safe_refl book.defs split: option.splits if_splits
      intro!: eng.safe_trans [OF safe_off_book safe_emit])

lemma safe_cancelTwapOrder: "cancelTwapOrder E u i s = (r, s') \<Longrightarrow> eng.safe s s'"
  by (auto simp: cancelTwapOrder_def eng.safe_refl split: option.splits if_splits
      intro!: eng.safe_trans [OF eng.safe_trans [OF safe_set_twap] safe_emit])

lemma safe_submit_slice: "eng.safe s (submit_slice E rand i h slice mid s)"
proof -
  obtain rs s1 where p: "placeOrders E (twp_userId h) [twap_wire h slice mid] Na
      (no_opts\<lparr>op_twapId := Some (show_nat i)\<rparr>) s = (rs, s1)" by force
  show ?thesis
    by (auto simp: submit_slice_def p Let_def split: list.split HlOrderResponseStatus.split
        intro!: eng.safe_trans [OF safe_placeOrders [OF p]] safe_set_twap eng.safe_trans [OF safe_set_twap(1) safe_emit])
qed

lemma safe_match_twap_one: "eng.safe s (match_twap_one E rand i s)"
proof -
  have fin: "eng.safe s (finish_twap E i h s)" for h
    unfolding finish_twap_def by (intro eng.safe_trans [OF _ safe_emit] eng.safe_trans [OF safe_set_twap])
  show ?thesis
    by (auto simp: match_twap_one_def Let_def eng.safe_refl safe_set_twap fin safe_submit_slice split: option.split
        intro: eng.safe_trans [OF safe_set_twap(2) safe_emit])
qed

lemma safe_matchAll: "eng.safe s (matchAll E rand s)"
proof -
  have t: "eng.safe t (matchTwaps E rand t)" for t by (simp add: matchTwaps_def eng.safe_foldl safe_match_twap_one)
  show ?thesis
    unfolding matchAll_def
    by (rule eng.safe_trans [OF eng.safe_trans [OF eng.safe_trans [OF eng.safe_trans [OF safe_matchOpenOrders
        safe_matchTriggerOrders] safe_matchTrailingStops] t] safe_sweepExpired])
qed

lemma safe_reconcile:
  "reconcile_loop E u a n oids s = (ups, s') \<Longrightarrow> eng.safe s s'"
  by (induction oids arbitrary: s ups)
    (auto simp: eng.safe_refl split: option.splits if_splits prod.splits dest: safe_terminate intro: eng.safe_trans)

subsection \<open>Trailing stop placement\<close>

lemma safe_ctx_mark: "eng.safe s (s\<lparr>ctx_mark := f\<rparr>)"
  by (rule safe_ledger) (auto elim!: ledger_ok_keep [rotated 3])

lemma safe_mark_for: "mark_for E resp c s = (m, s') \<Longrightarrow> eng.safe s s'"
  using mark_for_frame safe_ctx_mark by metis

lemma safe_store_trailing:
  assumes "o_oid (h_order d) = Suc (seqOid s)" "o_status (h_order d) = St_open" "o_orderType (h_order d) = TrailingStop"
  shows "eng.safe s (store_trailing E u action d s)"
proof -
  define t where "t = store_trailing E u action d s"
  note fr = store_trailing_frame [OF t_def]
  have "good t \<and> hist s t" if "good s"
    using fr assms by (intro good_new [OF that, where h = d]) (simp_all add: links_shrink_eq)
  then show ?thesis by (auto simp: t_def intro: eng.safeI)
qed

lemma safe_placeTrailingStop:
  assumes "placeTrailingStop E resp u action s = (r, s')"
  shows "eng.safe s s'"
proof (cases r)
  case (Inl err)
  from placeTrailingStop_rejected [OF assms [unfolded Inl]] show ?thesis
    using eng.safe_trans [OF safe_emit safe_mark_for [OF prod.collapse [symmetric]]] by (auto simp: eng.safe_refl)
next
  case (Inr oid)
  obtain c mark ev s1 p where m: "mark_for E resp c (emit (MarkSub c) s) = (Some mark, s1)" and o: "oid = Suc (seqOid s1)"
    and s': "s' = store_trailing E u action (trailing_hash E u c action p ev oid) s1"
    by (rule placeTrailingStop_accepted [OF assms [unfolded Inr]])
  have "eng.safe s1 s'" unfolding s' by (rule safe_store_trailing) (simp_all add: o)
  with m show ?thesis by (blast intro: eng.safe_trans safe_emit safe_mark_for)
qed

subsection \<open>Liquidation\<close>

lemma queueClose_posSet:
  "b \<in> set (posSet (queueClose E u scope c s) v sc) \<longleftrightarrow> b \<in> set (posSet s v sc) \<and>
    \<not> (pc_remaining c = 0 \<and> v = u \<and> (sc = scope \<or> sc = '''') \<and> b = pv_asset (pc_p c))"
  by (auto simp: queueClose_def Let_def fill_balance_def incr_balance_def split: if_splits)

lemma ledger_ok_queueClose:
  assumes "ledger_ok s" "scope = scopeForAsset s (pv_asset (pc_p c))"
  shows "ledger_ok (queueClose E u scope c s)"
  unfolding ledger_ok_def
proof (intro allI conjI impI)
  fix v b sc
  have "scopeForAsset (queueClose E u scope c s) b = scopeForAsset s b"
    using queueClose_fields [of E u scope c s] market_cong(1) by metis
  then show "b \<in> set (posSet (queueClose E u scope c s) v sc) \<longleftrightarrow>
      pos (queueClose E u scope c s) v b \<noteq> None \<and> sc = scopeForAsset (queueClose E u scope c s) b"
    using assms by (auto simp: queueClose_posSet queueClose_pos ledger_ok_def)
next
  fix v b q
  assume "pos (queueClose E u scope c s) v b = Some q"
  then show "p_szi q \<noteq> 0"
    using assms(1)
    by (auto simp: queueClose_pos ledger_ok_def reduced_hash_def signed_remaining_def Let_def split: if_splits)
qed

lemma ledger_ok_booked:
  assumes "ledger_ok s" "\<forall>c \<in> set closes. scope = scopeForAsset s (pv_asset (pc_p c))"
  shows "ledger_ok (closes_booked E u scope closes s)"
  using assms
proof (induction closes arbitrary: s)
  case (Cons c cs)
  have "scopeForAsset (queueClose E u scope c s) b = scopeForAsset s b" for b
    using queueClose_fields [of E u scope c s] market_cong(1) by metis
  then have "\<forall>d \<in> set cs. scope = scopeForAsset (queueClose E u scope c s) (pv_asset (pc_p d))"
    using Cons.prems(2) by (metis list.set_intros(2))
  moreover have "ledger_ok (queueClose E u scope c s)" using Cons.prems by (intro ledger_ok_queueClose) simp_all
  ultimately show ?case using Cons.IH by simp
qed simp

lemma safe_seq: "seqOid s \<le> n \<Longrightarrow> eng.safe s (s\<lparr>seqOid := n, seqTid := k\<rparr>)"
proof -
  assume n: "seqOid s \<le> n"
  let ?t = "s\<lparr>seqOid := n, seqTid := k\<rparr>"
  have "good ?t \<and> hist s ?t" if "good s"
  proof -
    have "book_ok ?t"
      using that n unfolding good_def book_ok_def oids_ok_def listed_def status_of_def by (simp add: ) (meson le_trans)
    moreover have "ledger_ok ?t" using that by (auto simp: good_def elim!: ledger_ok_keep [rotated 3])
    ultimately show ?thesis using that n by (simp add: good_def hist_def links_ok_def plain_def)
  qed
  then show ?thesis by (auto intro: eng.safeI)
qed

lemma safe_emit_all: "eng.safe s (emit_all evs s)"
  by (rule safe_book_eq) (simp_all add: emit_all_def links_shrink_eq)

lemma safe_reconcile_closes: "eng.safe s (foldl (reconcile_close E u) s closes)"
proof (induction closes arbitrary: s)
  case (Cons c cs)
  obtain ups s' where r: "reconcile_loop E u (pv_asset (pc_p c)) (signed_remaining c) (trailSet s) s = (ups, s')" by force
  have "eng.safe s (reconcile_close E u s c)"
    using eng.safe_trans [OF safe_reconcile [OF r] safe_emit] safe_reconcile [OF r]
    by (simp add: reconcile_close_def reconcileReduceOnlyStops_def r)
  with Cons show ?case by (auto intro: eng.safe_trans)
qed (simp add: eng.safe_refl)

lemma safe_liq_transaction:
  assumes "\<forall>c \<in> set closes. scope = scopeForAsset s (pv_asset (pc_p c))"
  shows "eng.safe s (liq_transaction E u scope a closes partial s)"
proof -
  define t where "t = liq_transaction E u scope a closes partial s"
  note f = liq_transaction_fields [OF t_def refl]
  have m: "market.truncate t = market.truncate (closes_booked E u scope closes s)"
    using f(8) closes_booked_fields(4) [OF refl] by metis
  have "ledger_ok t" if "ledger_ok s"
    using ledger_ok_booked [OF that assms] f(1,2) market_cong(1) [OF m] by (simp add: ledger_ok_def)
  then have "eng.safe s t" using f by (intro safe_ledger) simp_all
  then show ?thesis by (simp add: t_def)
qed

lemma runLiquidation_market:
  assumes "runLiquidation E u scope a s = (did, s')"
  shows "market.truncate s' = market.truncate s"
proof (cases "as_targets a")
  case (Cons first rest)
  define ic where "ic = in_cooldown E s (cooldown_key u scope first)"
  obtain closes s1 where p: "plan_closes E u (as_method a) ic (as_targets a) s = (closes, s1)" by force
  have "market.truncate s1 = market.truncate s"
    by (subst plan_closes_frame(1) [OF p, THEN conjunct1]) (simp add: market.defs)
  with market_of_ledger [OF runLiquidation_eq(2) [OF Cons ic_def p assms]] liq_transaction_fields(8) [OF refl refl]
  show ?thesis by metis
qed (use assms in \<open>simp add: runLiquidation_def\<close>)

lemma safe_runLiquidation:
  assumes "\<forall>p \<in> set (as_targets a). scope = scopeForAsset s (pv_asset p)" "runLiquidation E u scope a s = (did, s')"
  shows "eng.safe s s'"
proof (cases "as_targets a")
  case (Cons first rest)
  define ic where "ic = in_cooldown E s (cooldown_key u scope first)"
  obtain closes s1 where p: "plan_closes E u (as_method a) ic (as_targets a) s = (closes, s1)" by force
  note pf = plan_closes_frame [OF p]
  have "eng.safe s (s\<lparr>seqOid := seqOid s1, seqTid := seqTid s1\<rparr>)" using pf(1) by (intro safe_seq) simp
  then have a: "eng.safe s s1" using pf(1) by metis
  have "scopeForAsset s1 b = scopeForAsset s b" for b
    by (subst pf(1) [THEN conjunct1]) (rule scopeForAsset_perpDexs, simp)
  moreover have "pc_p ` set closes = set (as_targets a)" using pf(2) by (metis set_map)
  ultimately have "\<forall>c \<in> set closes. scope = scopeForAsset s1 (pv_asset (pc_p c))" using assms(1) by auto
  note b = safe_liq_transaction [OF this]
  let ?t = "liq_transaction E u scope a closes (list_ex (\<lambda>p. slice_of E s (as_method a) ic p \<noteq> None) (as_targets a)) s1"
  define s4 where "s4 = emit_all (backstop_events E u a closes)
    (emit_all (concat (map (\<lambda>c. [LiquidationOrder (pc_order c), FillEvent u (pc_fill c)]) closes)) ?t)"
  have eq: "s' = emit (AccountUpdate u) (emit_all (map (liquidation_log u a
      (if as_method a = Backstop then as_equity a else 0)) (enumerate 0 closes))
      (if trailSet s4 = [] then s4 else foldl (reconcile_close E u) s4 closes))"
    using assms(2) unfolding runLiquidation_def Cons list.case ic_def [symmetric] Let_def
      p [unfolded Cons] prod.case s4_def by simp
  have "eng.safe s1 s4" unfolding s4_def using b by (blast intro: eng.safe_trans safe_emit_all)
  then have "eng.safe s1 (if trailSet s4 = [] then s4 else foldl (reconcile_close E u) s4 closes)"
    using safe_reconcile_closes by (simp add: eng.safe_trans)
  with a show ?thesis unfolding eq by (blast intro: eng.safe_trans safe_emit_all safe_emit)
qed (use assms in \<open>simp add: runLiquidation_def eng.safe_refl\<close>)

lemma views_in_scope:
  "ledger_ok s \<Longrightarrow> p \<in> set (loadPositions E s u scope) \<Longrightarrow> scope = scopeForAsset s (pv_asset p)"
  using loadPositions_ok(4) [of p E s u scope] by (simp add: ledger_ok_def)

lemma safe_executeLiquidation:
  assumes "executeLiquidation E u a scope s = (did, s')"
  shows "eng.safe s s'"
proof (rule safe_good_then)
  assume g: "good s"
  show ?thesis
  proof (cases "\<exists>r. assess_asset E s u scope a = Some r \<and> as_shouldLiquidate r")
    case True
    then obtain r where r: "assess_asset E s u scope a = Some r" "as_shouldLiquidate r" by blast
    have "\<forall>p \<in> set (as_targets r). scope = scopeForAsset s (pv_asset p)"
      using assess_asset_targets(1) [OF r(1)] views_in_scope g by (auto simp: good_def)
    with assms r show ?thesis by (auto simp: executeLiquidation_def intro: safe_runLiquidation)
  qed (use assms in \<open>auto simp: executeLiquidation_def eng.safe_refl split: option.splits if_splits\<close>)
qed

lemma safe_liquidate_isolated_loop:
  "\<forall>p \<in> set ps. scope = scopeForAsset s (pv_asset p) \<Longrightarrow>
    eng.safe s (foldl (liquidate_isolated E u scope) s ps) \<and>
    market.truncate (foldl (liquidate_isolated E u scope) s ps) = market.truncate s"
proof (induction ps arbitrary: s)
  case (Cons p ps)
  let ?t = "liquidate_isolated E u scope s p" and ?r = "assessIsolated (lib E) p"
  have "?t = s \<or> ?t = snd (runLiquidation E u scope ?r s)" by (simp add: liquidate_isolated_def Let_def)
  moreover have "\<forall>q \<in> set (as_targets ?r). scope = scopeForAsset s (pv_asset q)" using Cons.prems by (simp add: assess_targets)
  ultimately have t: "eng.safe s ?t" "market.truncate ?t = market.truncate s"
    using safe_runLiquidation runLiquidation_market eng.safe_refl by (metis prod.collapse)+
  with Cons.prems Cons.IH [of ?t] market_cong(1) [OF t(2)] show ?case by (auto intro: eng.safe_trans)
qed (simp add: eng.safe_refl)

lemma safe_checkAndLiquidateUser: "eng.safe s (checkAndLiquidateUser E u scope s)"
proof (rule safe_good_then)
  assume g: "good s"
  define s1 where "s1 = foldl (liquidate_isolated E u scope) s (loadPositions E s u scope)"
  have s1: "eng.safe s s1"
    unfolding s1_def using safe_liquidate_isolated_loop views_in_scope g by (metis good_def)
  then have g1: "ledger_ok s1" using g eng.safe_good by (auto simp: good_def)
  let ?r = "assessCross (lib E) (getBalance s1 u scope) (loadPositions E s1 u scope)"
  have "\<forall>p \<in> set (as_targets ?r). scope = scopeForAsset s1 (pv_asset p)"
    using views_in_scope [OF g1] by (auto simp: assess_targets)
  then have "eng.safe s1 (snd (runLiquidation E u scope ?r s1))"
    by (rule safe_runLiquidation) (rule prod.collapse [symmetric])
  with s1 show ?thesis by (auto simp: checkAndLiquidateUser_def s1_def [symmetric] Let_def intro: eng.safe_trans)
qed

lemma safe_holders: "eng.safe s (s\<lparr>holders := h\<rparr>)"
  by (rule safe_ledger) (auto elim!: ledger_ok_keep [rotated 3])

lemma safe_checkAndLiquidateAll: "eng.safe s (checkAndLiquidateAll E s)"
proof -
  have "eng.safe t (foldl (\<lambda>acc (u, scope). checkAndLiquidateUser E u scope acc) t xs)" for t xs
    by (induction xs arbitrary: t) (auto simp: eng.safe_refl intro: eng.safe_trans safe_checkAndLiquidateUser)
  from eng.safe_trans [OF safe_holders this] show ?thesis
    by (simp add: checkAndLiquidateAll_def positionHolders_def)
qed

lemma safe_keepMarks: "eng.safe s (keepMarks E resp s)"
proof -
  obtain cs s1 where p: "positionCoins s = (cs, s1)" by force
  have "eng.safe s s1" using p safe_holders by (auto simp: positionCoins_def positionHolders_def)
  moreover have "eng.safe t (snd (refreshMarks (now E) resp cs t))" for t
    using refreshMarks_frame [of "now E" resp cs t] safe_ctx_mark by metis
  ultimately show ?thesis
    by (simp add: keepMarks_def p Let_def) (blast intro: eng.safe_trans safe_emit_all)
qed

subsection \<open>The dead man's switch\<close>

lemma safe_end_scheduled:
  assumes "status_of s oid \<in> {Some St_open, Some St_cancelled}"
  shows "eng.safe s (end_scheduled E oid s)"
proof -
  let ?f = "\<lambda>x h. if x = oid then set_status St_cancelled (now E) h else h"
  note e = end_scheduled_fields [of E oid s]
  have "good (end_scheduled E oid s) \<and> hist s (end_scheduled E oid s)" if g: "good s"
  proof (rule good_update [OF g, where f = ?f])
    show "ledger_ok (end_scheduled E oid s)" using g ledger_ok_cong [OF e(1)] by (simp add: good_def)
    show "kept h (?f x h)" if "orders s x = Some h" for x h
      using that assms by (auto simp: kept_def same_identity_def status_of_def set_status_def)
    show "o_status (h_order (?f x h)) = St_open"
      if "x \<in> listed (end_scheduled E oid s)" "o_status (h_order h) = St_open" for x h
      using that by (auto simp: listed_def e)
  qed (auto simp: e links_shrink_eq option.map_id0 [unfolded id_def])
  then show ?thesis by (auto intro: eng.safeI)
qed

lemma safe_scheduleTick: "eng.safe s (scheduleTick E scanned s)"
proof -
  have ends: "eng.safe t (foldl (\<lambda>acc oid. end_scheduled E oid acc) t xs)"
    if "\<forall>x \<in> set xs. status_of t x \<in> {Some St_open, Some St_cancelled}" for xs t
    using that
  proof (induction xs arbitrary: t)
    case (Cons x xs)
    have "eng.safe t (end_scheduled E x t)" using Cons.prems by (intro safe_end_scheduled) simp
    moreover have "\<forall>y \<in> set xs. status_of (end_scheduled E x t) y \<in> {Some St_open, Some St_cancelled}"
      using Cons.prems by (auto simp: status_of_def end_scheduled_fields)
    ultimately show ?case using Cons.IH by (auto intro: eng.safe_trans)
  qed (simp add: eng.safe_refl)
  have run: "eng.safe t (run_scheduled E u t)" for t u
  proof -
    let ?t1 = "foldl (\<lambda>acc oid. end_scheduled E oid acc) t (due_orders t u)"
    have "eng.safe t ?t1" by (rule ends) (simp add: due_orders_def)
    moreover have "book.truncate (run_scheduled E u t) = book.truncate ?t1"
      using announce_book [of E u ?t1 "due_orders t u", THEN conjunct1]
      by (simp add: run_scheduled_def Let_def) (simp add: book.defs)
    ultimately show ?thesis using safe_off_book eng.safe_trans by blast
  qed
  have "eng.safe t (schedule_one E u t)" for t u by (simp add: schedule_one_def eng.safe_refl run split: option.split)
  then show ?thesis by (simp add: scheduleTick_def eng.safe_foldl)
qed

subsection \<open>Funding\<close>

lemma safe_book_charge:
  assumes "map_option p_szi (pos s u (ch_asset c)) = Some (p_szi (ch_pos c))"
  shows "eng.safe s (book_charge E u c s)"
    "map_option p_szi (pos (book_charge E u c s) v a) = map_option p_szi (pos s v a)"
proof -
  show szi: "map_option p_szi (pos (book_charge E u c s) v a) = map_option p_szi (pos s v a)" for v a
    using assms by (auto simp: book_charge_pos charged_pos_def)
  have f: "\<exists>b p ev. book_charge E u c s = s\<lparr>balance := b, pos := p, bus := ev\<rparr>" using book_charge_frame by blast
  then have "ledger_ok s \<Longrightarrow> ledger_ok (book_charge E u c s)" using szi by (auto elim!: ledger_ok_keep [rotated 3])
  with f show "eng.safe s (book_charge E u c s)" by (auto intro: safe_ledger)
qed

lemma safe_applyFunding: "eng.safe s (applyFunding E enabled rates s)"
proof -
  have all: "eng.safe t (foldl (\<lambda>acc c. book_charge E u c acc) t cs)"
    if "\<forall>c \<in> set cs. map_option p_szi (pos t u (ch_asset c)) = Some (p_szi (ch_pos c))" for t u cs
    using that
  proof (induction cs arbitrary: t)
    case (Cons c cs)
    then have c: "map_option p_szi (pos t u (ch_asset c)) = Some (p_szi (ch_pos c))" by simp
    have "eng.safe (book_charge E u c t) (foldl (\<lambda>acc c. book_charge E u c acc) (book_charge E u c t) cs)"
      using Cons.prems by (intro Cons.IH ballI, subst safe_book_charge(2) [OF c]) simp
    from eng.safe_trans [OF safe_book_charge(1) [OF c] this] show ?case by simp
  qed (simp add: eng.safe_refl)
  have "eng.safe t (fund_user E rates u t)" for t u
  proof -
    have "\<forall>c \<in> set (List.map_filter (charge_of E rates t u) (posSet t u '''')).
        map_option p_szi (pos t u (ch_asset c)) = Some (p_szi (ch_pos c))"
      by (auto simp: set_map_filter dest: charge_of_fields)
    moreover have "eng.safe t (t\<lparr>usersActive := x\<rparr>)" for x
      by (rule safe_ledger) (auto elim!: ledger_ok_keep [rotated 3])
    ultimately show ?thesis using all by (simp add: fund_user_def Let_def)
  qed
  then show ?thesis by (simp add: applyFunding_def eng.safe_refl eng.safe_foldl)
qed

end
