(* ===== verification/Recorded.thy ===== *)
theory Recorded
  imports Engine
begin

text \<open>
  What the engine's events say about its fills. Every operation appends to the bus, and among what
  it appends each fill comes after an event with the row of its order, the fill numbers are fresh
  and grow, and a user's fill list in Redis is exactly the fills that were announced. The Postgres
  sink relies on the first two: fills refer to their order, and their number is the key.
\<close>

subsection \<open>Fills and order rows of events\<close>

fun fills_of :: "event \<Rightarrow> (user \<times> PaperFill) list" where
  "fills_of (FillEvent u f) = [(u, f)]"
| "fills_of _ = []"

fun rows_of :: "event \<Rightarrow> PaperOrder list" where
  "rows_of (OrderUpdate u ord st) = [ord]"
| "rows_of (LiquidationOrder ord) = [ord]"
| "rows_of (OrderUpdateBatch u ups) = map fst ups"
| "rows_of _ = []"

fun backed :: "oid set \<Rightarrow> event list \<Rightarrow> bool" where
  \<comment> \<open>every fill comes after a row of its order\<close>
  "backed S [] = True"
| "backed S (ev # evs) \<longleftrightarrow> (\<forall>x \<in> set (fills_of ev). f_oid (snd x) \<in> S) \<and> backed (S \<union> o_oid ` set (rows_of ev)) evs"

definition all_fills :: "event list \<Rightarrow> (user \<times> PaperFill) list" where
  "all_fills evs = concat (map fills_of evs)"

lemma all_fills_simps [simp]:
  "all_fills [] = []" "all_fills (ev # evs) = fills_of ev @ all_fills evs" "all_fills (xs @ ys) = all_fills xs @ all_fills ys"
  by (simp_all add: all_fills_def)

abbreviation tids_of :: "event list \<Rightarrow> nat list" where
  "tids_of evs \<equiv> map (\<lambda>x. f_tid (snd x)) (all_fills evs)"

definition fills_for :: "user \<Rightarrow> event list \<Rightarrow> PaperFill list" where
  \<comment> \<open>newest first, as the list of Redis\<close>
  "fills_for u evs = map snd (rev (filter (\<lambda>x. fst x = u) (all_fills evs)))"

definition logged :: "state \<Rightarrow> event list \<Rightarrow> state \<Rightarrow> bool" where
  "logged s evs s' \<longleftrightarrow> bus s' = bus s @ evs \<and> backed {} evs \<and> seqTid s \<le> seqTid s' \<and>
    sorted_wrt (<) (seqTid s # tids_of evs) \<and> (\<forall>t \<in> set (tids_of evs). t \<le> seqTid s') \<and>
    (\<forall>u. fills s' u = fills_for u evs @ fills s u)"

definition grows :: "state \<Rightarrow> state \<Rightarrow> bool" where
  "grows s s' \<longleftrightarrow> (\<exists>evs. logged s evs s')"

lemma backed_mono: "backed S evs \<Longrightarrow> S \<subseteq> T \<Longrightarrow> backed T evs"
proof (induction evs arbitrary: S T)
  case (Cons ev evs)
  then have "S \<union> o_oid ` set (rows_of ev) \<subseteq> T \<union> o_oid ` set (rows_of ev)" by blast
  with Cons show ?case by (auto intro: Cons.IH)
qed simp

lemma backed_append: "backed S (xs @ ys) \<longleftrightarrow> backed S xs \<and> backed (S \<union> o_oid ` set (concat (map rows_of xs))) ys"
  by (induction xs arbitrary: S) (simp_all add: Un_assoc image_Un)

lemma fills_for_append: "fills_for u (xs @ ys) = fills_for u ys @ fills_for u xs"
  by (simp add: fills_for_def)

lemma logged_trans:
  assumes "logged s xs t" "logged t ys u"
  shows "logged s (xs @ ys) u"
proof -
  have "x < y" if "x \<in> set (tids_of xs)" "y \<in> set (tids_of ys)" for x y
    using assms that unfolding logged_def sorted_wrt.simps by (meson order.strict_trans1)
  moreover have "seqTid s < y" if "y \<in> set (tids_of ys)" for y
    using assms that unfolding logged_def sorted_wrt.simps by (meson order.strict_trans1)
  moreover have "x \<le> seqTid u" if "x \<in> set (tids_of xs)" for x
    using assms that unfolding logged_def by (meson order_trans)
  moreover have "backed (o_oid ` set (concat (map rows_of xs))) ys"
    using assms(2) by (auto simp: logged_def intro: backed_mono)
  ultimately show ?thesis
    using assms unfolding logged_def by (auto simp: backed_append fills_for_append sorted_wrt_append simp del: set_concat)
qed

lemma logged_quiet:
  assumes "bus s' = bus s @ evs" "all_fills evs = []" "seqTid s \<le> seqTid s'" "fills s' = fills s"
  shows "logged s evs s'"
proof -
  have "backed S evs" for S using assms(2) by (induction evs arbitrary: S) simp_all
  with assms show ?thesis by (simp add: logged_def fills_for_def)
qed

lemma grows_refl [simp]: "grows s s"
  using logged_quiet [of s s "[]"] by (auto simp: grows_def)

lemma grows_trans: "grows s t \<Longrightarrow> grows t u \<Longrightarrow> grows s u"
  unfolding grows_def by (blast intro: logged_trans)

interpretation rec: safe_steps good grows
  by unfold_locales (auto intro: grows_trans)

lemma rec_safe: "eng.safe s s' \<Longrightarrow> (good s \<Longrightarrow> grows s s') \<Longrightarrow> rec.safe s s'"
  using eng.safe_good by (auto intro: rec.safeI)

lemma grows_quiet:
  "bus s' = bus s @ evs \<Longrightarrow> all_fills evs = [] \<Longrightarrow> seqTid s \<le> seqTid s' \<Longrightarrow> fills s' = fills s \<Longrightarrow> grows s s'"
  unfolding grows_def by (blast intro: logged_quiet)

lemma grows_same: "bus t' = bus t \<Longrightarrow> seqTid t' = seqTid t \<Longrightarrow> fills t' = fills t \<Longrightarrow> grows s t' = grows s t"
  by (simp add: grows_def logged_def)

lemma grows_emit [simp]: "fills_of ev = [] \<Longrightarrow> grows s t \<Longrightarrow> grows s (emit ev t)"
  by (rule grows_trans, assumption, rule grows_quiet [where evs = "[ev]"]) (simp_all add: emit_def)

lemma grows_fold: "(\<And>x t. grows t (f x t)) \<Longrightarrow> grows s (foldl (\<lambda>acc x. f x acc) s xs)"
proof (induction xs arbitrary: s)
  case (Cons x xs)
  then show ?case using grows_trans [of s "f x s"] by simp
qed simp

lemma grows_fields [simp]:
  "grows s (t\<lparr>mids := x1\<rparr>) = grows s t" "grows s (t\<lparr>ctx_mark := x2\<rparr>) = grows s t" "grows s (t\<lparr>meta := x3\<rparr>) = grows s t"
  "grows s (t\<lparr>balance := x4\<rparr>) = grows s t" "grows s (t\<lparr>pos := x5\<rparr>) = grows s t" "grows s (t\<lparr>posSet := x6\<rparr>) = grows s t"
  "grows s (t\<lparr>lev := x7\<rparr>) = grows s t" "grows s (t\<lparr>holders := x8\<rparr>) = grows s t" "grows s (t\<lparr>usersActive := x9\<rparr>) = grows s t"
  "grows s (t\<lparr>orders := y1\<rparr>) = grows s t" "grows s (t\<lparr>openSet := y2\<rparr>) = grows s t" "grows s (t\<lparr>trigSet := y3\<rparr>) = grows s t"
  "grows s (t\<lparr>trailSet := y4\<rparr>) = grows s t" "grows s (t\<lparr>bracket := y5\<rparr>) = grows s t" "grows s (t\<lparr>children := y6\<rparr>) = grows s t"
  "grows s (t\<lparr>parentOf := y7\<rparr>) = grows s t" "grows s (t\<lparr>expiry := y8\<rparr>) = grows s t" "grows s (t\<lparr>userOrders := y9\<rparr>) = grows s t"
  "grows s (t\<lparr>cloids := z1\<rparr>) = grows s t" "grows s (t\<lparr>seqOid := z2\<rparr>) = grows s t" "grows s (t\<lparr>schedule_cancel := z3\<rparr>) = grows s t"
  "grows s (t\<lparr>liqCooldown := z4\<rparr>) = grows s t" "grows s (t\<lparr>vault := z5\<rparr>) = grows s t" "grows s (t\<lparr>twaps := z6\<rparr>) = grows s t"
  "grows s (t\<lparr>twapsActive := z7\<rparr>) = grows s t" "grows s (t\<lparr>userTwaps := z8\<rparr>) = grows s t" "grows s (t\<lparr>seqTwap := z9\<rparr>) = grows s t"
  "grows s (t\<lparr>meta_dex := x10\<rparr>) = grows s t" "grows s (t\<lparr>spotMeta := x11\<rparr>) = grows s t"
  by (rule grows_same; simp)+

lemma grows_helpers [simp]:
  "grows s (upd_hash x f t) = grows s t" "grows s (drop_from_sets x t) = grows s t"
  "grows s (add_user_order u sc n x t) = grows s t" "grows s (incr_balance E u sc d t) = grows s t"
  "grows s (fill_balance E u sc p q t) = grows s t"
  "grows s (drop_child_links kids t) = grows s t" "grows s (add_siblings xs t) = grows s t"
  by (simp_all add: upd_hash_def drop_from_sets_def add_user_order_def incr_balance_def fill_balance_def drop_child_links_def
      add_siblings_def Let_def)

subsection \<open>Trailing stops in the store\<close>

lemma grows_history [simp]: "grows s (emitTrailingHistory d st t b s') = grows s (emit (TrailingHistory (o_userId (h_order d)) (o_oid (h_order d)) st t b) s')"
  by (simp add: emitTrailingHistory_def)

lemma grows_terminate: "terminateTrailingStop E oid st em af s = (b, s') \<Longrightarrow> grows s s'"
  by (auto simp: terminateTrailingStop_def Let_def split: option.splits if_splits)

lemma grows_persist: "persistTrailingEvaluation oid d ev s = (b, d', s') \<Longrightarrow> grows s s'"
  by (auto simp: persistTrailingEvaluation_def split: if_splits)

lemma grows_freeze: "grows s (freezeTrailingSnapshot E oid d s)"
  by (simp add: freezeTrailingSnapshot_def)

lemma quiet_terminate:
  "terminateTrailingStop E oid st em af s = (b, s') \<Longrightarrow> \<exists>q. bus s' = bus s @ q \<and> all_fills q = []"
  by (auto simp: terminateTrailingStop_def emitTrailingHistory_def upd_hash_def drop_from_sets_def Let_def
      split: option.splits if_splits)

lemma quiet_reconcile:
  "reconcile_loop E u a n oids s = (ups, s') \<Longrightarrow> \<exists>q. bus s' = bus s @ q \<and> all_fills q = []"
proof (induction oids arbitrary: s ups)
  case (Cons oid oids)
  show ?case
  proof (cases "orphan_of u a n s oid")
    case False
    with Cons.prems have "reconcile_loop E u a n oids s = (ups, s')" by (auto simp: orphan_of_def split: option.splits)
    then show ?thesis by (rule Cons.IH)
  next
    case True
    obtain b s1 where t: "terminateTrailingStop E oid St_reduceOnlyCanceled False False s = (b, s1)" by force
    from True Cons.prems t obtain ups' where "reconcile_loop E u a n oids s1 = (ups', s')"
      by (auto simp: orphan_of_def split: option.splits prod.splits if_splits)
    from Cons.IH [OF this] quiet_terminate [OF t] show ?thesis by force
  qed
qed simp

lemma grows_reconcile:
  assumes "reconcileReduceOnlyStops E u a n s = (ups, s')"
  shows "grows s s'"
proof -
  note r = assms [unfolded reconcileReduceOnlyStops_def]
  from quiet_reconcile [OF r] obtain q where "bus s' = bus s @ q" "all_fills q = []" by blast
  moreover have "seqTid s' = seqTid s" "fills s' = fills s"
    using reconcile_frame [OF r] by (simp_all add: ledger.defs)
  ultimately show ?thesis by (intro grows_quiet) simp_all
qed

subsection \<open>A fill\<close>

lemma row_from_hash [simp]: "o_oid (paperOrderFromHash d st t) = o_oid (h_order d)"
  by (simp add: paperOrderFromHash_def)

lemma fill_updates_log:
  assumes "o_orderType ord = TrailingStop \<Longrightarrow> \<exists>d. orders s (o_oid ord) = Some d \<and> o_oid (h_order d) = o_oid ord"
  obtains q where "bus (emit_fill_updates E ord px orphans fill s) = bus s @ q @ [FillEvent (o_userId ord) fill]"
    "all_fills q = []" "o_oid ord \<in> o_oid ` set (concat (map rows_of q))"
proof (cases "o_orderType ord = TrailingStop")
  case True
  with assms obtain d where "orders s (o_oid ord) = Some d" "o_oid (h_order d) = o_oid ord" by blast
  with True show ?thesis
    by (intro that) (auto simp: emit_fill_updates_def emitTrailingFire_def emitTrailingHistory_def Let_def)
next
  case False
  define q where "q = [if orphans \<noteq> [] then OrderUpdateBatch (o_userId ord) ((filled_order ord px (now E), St_filled) # orphans)
    else OrderUpdate (o_userId ord) (filled_order ord px (now E)) St_filled]"
  show ?thesis
    by (rule that [of q]) (use False in \<open>auto simp: q_def emit_fill_updates_def filled_order_def Let_def\<close>)
qed

lemma sibling_grows: "grows t (cancel_sibling E u p sib t)"
  by (simp add: cancel_sibling_def Let_def split: option.split)

lemma siblings_grow: "grows s (cancelOrderSiblings E oid u s)"
proof -
  have all: "grows s (cancel_siblings E u p t sibs)" if "grows s t" for p t sibs
    by (rule grows_trans [OF that grows_fold]) (rule sibling_grows)
  show ?thesis by (auto simp: cancelOrderSiblings_def Let_def intro!: all split: option.split)
qed

definition own_hash :: "PaperOrder \<Rightarrow> state \<Rightarrow> bool" where
  \<comment> \<open>the hash under the order's oid carries that oid\<close>
  "own_hash ord s \<longleftrightarrow> (\<exists>d. orders s (o_oid ord) = Some d \<and> o_oid (h_order d) = o_oid ord)"

lemma filled_state_bus: "bus (filled_state E ord px sz szi e tk s) = bus s"
  by (simp add: filled_state_def fill_pipeline_def fill_position_def fill_balance_def incr_balance_def drop_from_sets_def
      upd_hash_def Let_def)

lemma own_hash_filled: "own_hash ord s \<Longrightarrow> own_hash ord (filled_state E ord px sz szi e tk s)"
  by (auto simp: own_hash_def filled_state_book filled_hash_def)

lemma own_hash_reconcile: "reconcile_loop E u a n oids s = (ups, s') \<Longrightarrow> own_hash ord s \<Longrightarrow> own_hash ord s'"
  using reconcile_orders [of E u a n oids s ups s'] by (auto simp: own_hash_def ended_hash_def set_status_def)

lemma grows_fill_sized:
  assumes "o_orderType ord = TrailingStop \<Longrightarrow> own_hash ord s"
  shows "grows s (executeFillWithSize E ord px sz szi e tk s)"
proof -
  let ?F = "filled_state E ord px sz szi e tk s" and ?fill = "make_fill E ord px sz szi e tk (Suc (seqTid s))"
  obtain orphans s2 where
    r: "reconcileReduceOnlyStops E (o_userId ord) (o_asset ord) (add_d (lib E) szi (signed_fill (o_isBuy ord) sz)) ?F = (orphans, s2)"
    and e: "executeFillWithSize E ord px sz szi e tk s = cancelOrderSiblings E (o_oid ord) (o_userId ord)
       (emit_fill_updates E ord px orphans ?fill s2)"
    by (rule executeFillWithSize_eq)
  note r = r [unfolded reconcileReduceOnlyStops_def]
  let ?t = "emit_fill_updates E ord px orphans ?fill s2"
  obtain q0 where q0: "bus s2 = bus s @ q0" "all_fills q0 = []"
    using quiet_reconcile [OF r] unfolding filled_state_bus by blast
  have "\<exists>d. orders s2 (o_oid ord) = Some d \<and> o_oid (h_order d) = o_oid ord" if "o_orderType ord = TrailingStop"
    using own_hash_reconcile [OF r own_hash_filled [OF assms [OF that]]] by (simp add: own_hash_def)
  from fill_updates_log [OF this, of E px orphans ?fill] obtain q where
    q: "bus ?t = bus s2 @ q @ [FillEvent (o_userId ord) ?fill]" "all_fills q = []"
      "o_oid ord \<in> o_oid ` set (concat (map rows_of q))" by blast
  have led: "ledger.truncate ?t = ledger.truncate ?F"
    using reconcile_frame [OF r] book_eqD(1) [OF emit_fill_updates_book] by simp
  then have t: "seqTid ?t = Suc (seqTid s)" "fills ?t = (fills s)(o_userId ord := ?fill # fills s (o_userId ord))"
    using filled_state_ledger [of E ord px sz szi e tk s] by (simp_all add: ledger.defs)
  have "backed {} (q0 @ q @ [FillEvent (o_userId ord) ?fill])"
  proof -
    have "backed S xs" if "all_fills xs = []" for S xs using that by (induction xs arbitrary: S) simp_all
    then show ?thesis using q0(2) q(2,3) by (simp add: backed_append make_fill_def)
  qed
  then have "logged s (q0 @ q @ [FillEvent (o_userId ord) ?fill]) ?t"
    using q0 q t by (simp add: logged_def fills_for_def make_fill_def)
  then have "grows s ?t" unfolding grows_def by blast
  then show ?thesis unfolding e using siblings_grow by (rule grows_trans)
qed

lemma grows_fill: "(o_orderType ord = TrailingStop \<Longrightarrow> own_hash ord s) \<Longrightarrow> grows s (executeFill E ord px tk s)"
  using grows_fill_sized by (auto simp: executeFill_def Let_def split: option.split)

subsection \<open>Placing and ending orders\<close>

lemma grows_save [simp]: "grows s (saveOrder ord ea t) = grows s t"
  by (simp add: saveOrder_def Let_def split: option.split)

lemma grows_place:
  assumes "placeSingleOrder E u grouping opts w s = (r, s')"
  shows "grows s s'"
proof -
  have now: "grows s t" if "fill_at_once E ord mid w s1 = (q, t)" "o_orderType ord \<noteq> TrailingStop" "grows s s1" for ord mid s1 q t
    using that grows_trans [OF that(3) grows_fill] by (auto simp: fill_at_once_def Let_def)
  have rest: "grows s t" if "rest_new E u c sz grouping opts w tif s = (q, t)" for c sz tif q t
    using that by (auto simp: rest_new_def restOrder_def Let_def split: if_splits)
  have trig: "grows s t" if "placeTriggeredOrder E u c sz tg grouping bld w s = (q, t)" for c sz tg bld q t
    using that by (auto simp: placeTriggeredOrder_def Let_def)
  from assms show ?thesis
    by (auto simp: placeSingleOrder_def place_ioc_def place_alo_def place_gtc_def Let_def wire_order_def buildOrder_def
        elim!: now split: option.splits if_splits TimeInForce.splits dest: rest trig)
qed

lemma grows_place_all: "place_all E u grouping opts ws s = (rs, s') \<Longrightarrow> grows s s'"
proof (induction ws arbitrary: s rs)
  case (Cons w ws)
  then show ?case by (auto split: prod.splits intro: grows_trans [OF grows_place])
qed simp

lemma grows_link [simp]: "grows s (link_bracket grouping oids t) = grows s t"
  by (simp add: link_bracket_def Let_def split: list.split Grouping.split)

lemma grows_placeOrders: "placeOrders E u ws grouping opts s = (rs, s') \<Longrightarrow> grows s s'"
  by (auto simp: placeOrders_def split: prod.splits dest: grows_place_all)

lemma grows_cancel_pipeline: "grows s (cancel_pipeline E d oid s)"
  by (simp add: cancel_pipeline_def Let_def)

lemma grows_cancel_loop: "cancel_loop fuel E u cs s = Some (rs, s') \<Longrightarrow> grows s s'"
proof (induction fuel E u cs s arbitrary: rs s' rule: cancel_loop.induct)
  case (2 fuel E u a oid cs s)
  show ?case
  proof (cases "cancel_error s u a oid")
    case (Some err)
    with 2 show ?thesis by auto
  next
    case None
    define s1 where "s1 = cancel_pipeline E (the (orders s oid)) oid s"
    have s1: "grows s s1" unfolding s1_def by (rule grows_cancel_pipeline)
    let ?kids = "children s1 oid" and ?ev = "OrderUpdate u (cancelled_row u (the (orders s oid)) (now E)) St_cancelled"
    let ?ccs = "child_cancels u s1 ?kids"
    define s2 where "s2 = drop_child_links ?kids (s1\<lparr>children := (children s1)(oid := [])\<rparr>)"
    have s2: "grows s s2" unfolding s2_def using s1 by simp
    define after where "after =
      (if ?kids \<noteq> []
       then if ?ccs = [] then Some s2
            else case fuel of 0 \<Rightarrow> None | Suc n \<Rightarrow> map_option snd (cancel_loop n E u ?ccs s2)
       else Some (s1\<lparr>bracket := (bracket s1)(oid := []), parentOf := (parentOf s1)(oid := None)\<rparr>))"
    have eq: "cancel_loop fuel E u ((a, oid) # cs) s = (case after of None \<Rightarrow> None
        | Some s3 \<Rightarrow> map_option (\<lambda>(rs, s'). (Success # rs, s')) (cancel_loop fuel E u cs (emit ?ev s3)))"
      by (simp only: cancel_loop.simps None option.case Let_def after_def s2_def s1_def)
    from "2.prems" [unfolded eq] obtain s3 rs' where a: "after = Some s3"
      and r: "cancel_loop fuel E u cs (emit ?ev s3) = Some (rs', s')"
      by (cases after) auto
    have "grows s s3"
    proof (cases "?kids \<noteq> [] \<and> ?ccs \<noteq> []")
      case True
      with a obtain n rs'' where n: "fuel = Suc n" and c: "cancel_loop n E u ?ccs s2 = Some (rs'', s3)"
        by (cases fuel) (auto simp: after_def)
      have "grows s2 s3"
        by (rule "2.IH"(1) [OF None refl s1_def refl]) (use True n c in \<open>simp_all add: s2_def\<close>)
      with s2 show ?thesis by (rule grows_trans)
    next
      case False
      with a s1 s2 show ?thesis by (auto simp: after_def split: if_splits)
    qed
    moreover have "grows (emit ?ev s3) s'"
      using r a by (intro "2.IH"(2) [OF None refl s1_def refl, of after]) (simp_all only: after_def s2_def Let_def)
    ultimately show ?thesis by (meson grows_emit grows_trans fills_of.simps(2))
  qed
qed simp

lemma grows_cancelOrders: "cancelOrders E u cs s = (rs, s') \<Longrightarrow> grows s s'"
  using grows_cancel_loop [of "seqOid s" E u cs s] by (auto simp: cancelOrders_def split: option.splits)

lemma grows_cancelByCloid: "cancelByCloid E u cs s = (rs, s') \<Longrightarrow> grows s s'"
  by (induction E u cs s arbitrary: rs s' rule: cancelByCloid.induct)
    (auto simp: Let_def split: option.splits prod.splits intro: grows_trans dest: grows_cancelOrders)

lemma grows_carry: "grows s (carryBracketLinks E u old r s)"
proof -
  have c: "grows s (snd (cancelOrders E u ccs t))" if "grows s t" for ccs t
    using grows_trans [OF that grows_cancelOrders [OF surjective_pairing]] .
  show ?thesis unfolding carryBracketLinks_def Let_def by (auto intro!: c split: option.split HlOrderResponseStatus.split)
qed

lemma grows_replace: "replace_order E u oid w s = (r, s') \<Longrightarrow> grows s s'"
proof -
  assume "replace_order E u oid w s = (r, s')"
  then obtain s3 s4 where "grows s s3" and p: "placeSingleOrder E u (o_grouping (h_order (the (orders s oid)))) no_opts w s3 = (r, s4)"
    and s': "s' = carryBracketLinks E u oid r s4"
    unfolding replace_order_def Let_def by (auto split: prod.splits) (metis grows_emit grows_fields(11,12,17) grows_helpers(1) grows_refl fills_of.simps(2))
  then show ?thesis using grows_carry grows_place [OF p] by (metis grows_trans)
qed

lemma grows_modifyOrder: "modifyOrder E u oid w s = (r, s') \<Longrightarrow> grows s s'"
  by (cases "replace_order E u oid w s") (auto simp: modifyOrder_def split: option.splits dest: grows_replace)

lemma grows_batchModify: "batchModifyOrders E u ms s = (rs, s') \<Longrightarrow> grows s s'"
  by (induction E u ms s arbitrary: rs s' rule: batchModifyOrders.induct)
    (auto split: prod.splits option.splits intro: grows_trans dest: grows_replace)

lemma grows_fetch: "fetchMaxLeverage fetched a s = (m, s') \<Longrightarrow> grows s s'"
  by (auto simp: fetchMaxLeverage_def Let_def split: option.splits if_splits)

lemma grows_updateLeverage: "updateLeverage fetched u a isCross l s = (r, s') \<Longrightarrow> grows s s'"
  by (auto simp: updateLeverage_def split: prod.splits option.splits if_splits dest: grows_fetch)

lemma grows_settings:
  "updateIsolatedMargin u a isBuy n s = (r, s') \<Longrightarrow> grows s s'" "scheduleCancel E u t s = (r, s') \<Longrightarrow> grows s s'"
  by (auto simp: updateIsolatedMargin_def scheduleCancel_def Let_def split: option.splits if_splits)

subsection \<open>The matcher\<close>

lemma rec_plain: "eng.safe s s' \<Longrightarrow> grows s s' \<Longrightarrow> rec.safe s s'"
  by (auto intro: rec_safe)

lemma rec_fill: "status_of s (o_oid ord) = Some St_open \<Longrightarrow> rec.safe s (executeFill E ord px tk s)"
proof (rule rec_safe)
  assume st: "status_of s (o_oid ord) = Some St_open"
  then show "eng.safe s (executeFill E ord px tk s)" by (rule safe_executeFill)
  assume "good s"
  with st have "own_hash ord s" by (auto simp: status_of_def own_hash_def good_def book_ok_def)
  then show "grows s (executeFill E ord px tk s)" by (rule grows_fill)
qed

lemma rec_drop_listed:
  "rec.safe s (s\<lparr>openSet := srem x (openSet s)\<rparr>)" "rec.safe s (s\<lparr>trigSet := srem x (trigSet s)\<rparr>)"
  "rec.safe s (s\<lparr>trailSet := srem x (trailSet s)\<rparr>)" "rec.safe s (s\<lparr>expiry := z\<rparr>)"
  by (rule rec_plain, rule safe_drop_listed, simp)+

lemma rec_emit: "fills_of ev = [] \<Longrightarrow> rec.safe s (emit ev s)"
  by (simp add: rec_plain safe_emit)

lemma rec_good_then: "(good s \<Longrightarrow> rec.safe s s') \<Longrightarrow> rec.safe s s'"
  by (auto simp: rec.safe_def)

lemma rec_match_open_one: "rec.safe s (match_open_one E ms oid s)"
proof (rule rec_good_then)
  assume "good s"
  note st = status_parse [OF this]
  show ?thesis
    by (auto simp: match_open_one_def Let_def rec.safe_refl rec_drop_listed intro: rec_fill st split: option.split)
qed

lemma rec_match_trigger_one: "rec.safe s (match_trigger_one E ms oid s)"
proof (rule rec_good_then)
  assume "good s"
  note st = status_parse [OF this]
  show ?thesis
    by (auto simp: match_trigger_one_def Let_def rec.safe_refl rec_drop_listed
        intro: rec.safe_trans [OF rec_fill rec_drop_listed(2)] st split: option.split)
qed

lemma rec_persist: "persistTrailingEvaluation oid d ev s = (b, d', s') \<Longrightarrow> rec.safe s s'"
  by (rule rec_plain, erule safe_persist, erule grows_persist)

lemma rec_freeze: "rec.safe s (freezeTrailingSnapshot E oid d s)"
  by (rule rec_plain [OF safe_freeze grows_freeze])

lemma rec_terminate: "terminateTrailingStop E oid st em af s = (b, s') \<Longrightarrow> rec.safe s s'"
  by (rule rec_plain, erule safe_terminate, erule grows_terminate)

lemma rec_fireTrailingStop: "rec.safe s (fireTrailingStop E oid d mark s)"
proof (rule rec_good_then)
  assume g: "good s"
  let ?s1 = "freezeTrailingSnapshot E oid d s"
  note s1 = rec_freeze [of s E oid d]
  have "rec.safe s (snd (terminateTrailingStop E oid St_marginCanceled True True ?s1))"
    using rec.safe_trans [OF s1 rec_terminate [OF prod.collapse [symmetric]]] .
  moreover have "rec.safe s (executeFill E ord px tk ?s1)"
    if st: "status_of s oid = Some St_open" and "o_oid ord = o_oid (parseOrder (the (orders ?s1 oid)))" for ord px tk
  proof -
    obtain h where h: "orders s oid = Some h" using st by (auto simp: status_of_def)
    with g have "o_oid (h_order h) = oid" by (simp add: good_def book_ok_def)
    with h have "status_of ?s1 (o_oid ord) = Some St_open"
      using that by (simp add: freezeTrailingSnapshot_def upd_hash_def status_of_def parseOrder_def)
    with s1 show ?thesis by (blast intro: rec.safe_trans rec_fill)
  qed
  ultimately show ?thesis by (simp add: fireTrailingStop_def Let_def rec.safe_refl)
qed

lemma rec_match_trailing_one: "rec.safe s (match_trailing_one E oid s)"
  by (auto simp: match_trailing_one_def rec.safe_refl rec_drop_listed Let_def
      intro: rec_persist rec.safe_trans [OF rec_persist rec_fireTrailingStop] split: option.split prod.split)

lemma rec_sweep_one: "rec.safe s (sweep_one E oid s)"
  by (rule rec_plain [OF safe_sweep_one]) (simp add: sweep_one_def Let_def split: option.split)

subsection \<open>TWAP orders\<close>

lemma grows_twap [simp]: "grows s (set_twap i f t) = grows s t" "grows s (drop_twap i t) = grows s t"
  by (simp_all add: set_twap_def drop_twap_def)

lemma rec_createTwapOrder: "createTwapOrder E u a isBuy sz ro minutes randomize s = (r, s') \<Longrightarrow> rec.safe s s'"
  by (rule rec_plain, erule safe_createTwapOrder) (auto simp: createTwapOrder_def Let_def split: option.splits if_splits)

lemma rec_cancelTwapOrder: "cancelTwapOrder E u i s = (r, s') \<Longrightarrow> rec.safe s s'"
  by (rule rec_plain, erule safe_cancelTwapOrder) (auto simp: cancelTwapOrder_def split: option.splits if_splits)

lemma grows_submit_slice: "grows s (submit_slice E rand i h slice mid s)"
proof -
  obtain rs s1 where p: "placeOrders E (twp_userId h) [twap_wire h slice mid] Na
      (no_opts\<lparr>op_twapId := Some (show_nat i)\<rparr>) s = (rs, s1)" by force
  show ?thesis
    using grows_placeOrders [OF p]
    by (auto simp: submit_slice_def p Let_def split: list.split HlOrderResponseStatus.split)
qed

lemma rec_match_twap_one: "rec.safe s (match_twap_one E rand i s)"
  by (rule rec_plain [OF safe_match_twap_one])
    (auto simp: match_twap_one_def finish_twap_def Let_def grows_submit_slice split: option.split)

lemma rec_matchAll: "rec.safe s (matchAll E rand s)"
proof -
  have "rec.safe t (matchOpenOrders E t)" "rec.safe t (matchTriggerOrders E t)" "rec.safe t (matchTrailingStops E t)"
    "rec.safe t (matchTwaps E rand t)" "rec.safe t (sweepExpired E t)" for t
    by (simp_all add: matchOpenOrders_def matchTriggerOrders_def matchTrailingStops_def matchTwaps_def sweepExpired_def
        rec.safe_refl rec.safe_foldl rec_match_open_one rec_match_trigger_one rec_match_trailing_one rec_match_twap_one
        rec_sweep_one)
  then show ?thesis unfolding matchAll_def by (meson rec.safe_trans)
qed

subsection \<open>Trailing stop placement and marks\<close>

lemma grows_ctx: "\<exists>f. t = (s::state)\<lparr>ctx_mark := f\<rparr> \<Longrightarrow> grows s t"
  by auto

lemma rec_placeTrailingStop: "placeTrailingStop E resp u action s = (r, s') \<Longrightarrow> rec.safe s s'"
proof (rule rec_plain, erule safe_placeTrailingStop)
  assume p: "placeTrailingStop E resp u action s = (r, s')"
  have mark: "grows s t" if "mark_for E resp c (emit (MarkSub c) s) = (m, t)" for c m t
    using grows_trans [OF grows_emit grows_ctx [OF mark_for_frame(1) [OF that]]] by simp
  have store: "grows s (store_trailing E u action d t)" if "grows s t" for d t
    using that by (simp add: store_trailing_def Let_def)
  show "grows s s'"
  proof (cases r)
    case (Inl err)
    from placeTrailingStop_rejected [OF p [unfolded Inl]] show ?thesis using mark [OF prod.collapse [symmetric]] by auto
  next
    case (Inr oid)
    obtain c mk ev s1 q where m: "mark_for E resp c (emit (MarkSub c) s) = (Some mk, s1)"
      and s': "s' = store_trailing E u action (trailing_hash E u c action q ev oid) s1"
      by (rule placeTrailingStop_accepted [OF p [unfolded Inr]])
    show ?thesis unfolding s' by (rule store [OF mark [OF m]])
  qed
qed

subsection \<open>Liquidation\<close>

abbreviation close_events :: "user \<Rightarrow> PlannedClose list \<Rightarrow> event list" where
  "close_events u cs \<equiv> concat (map (\<lambda>c. [LiquidationOrder (pc_order c), FillEvent u (pc_fill c)]) cs)"

lemma planned_log:
  assumes "plan_closes E u meth ic ps s = (cs, s')"
  shows "backed S (close_events u cs) \<and> seqTid s \<le> seqTid s' \<and> sorted_wrt (<) (seqTid s # tids_of (close_events u cs)) \<and>
    (\<forall>t \<in> set (tids_of (close_events u cs)). t \<le> seqTid s')"
  using assms
proof (induction ps arbitrary: s cs S)
  case (Cons p ps)
  let ?t = "s\<lparr>seqOid := Suc (seqOid s), seqTid := Suc (seqTid s)\<rparr>"
  obtain cs' where r: "plan_closes E u meth ic ps ?t = (cs', s')"
    and cs: "cs = planClose E u p (case slice_of E s meth ic p of Some sl \<Rightarrow> sl | None \<Rightarrow> abs_d (pv_szi p)) meth
      (Suc (seqOid s)) (Suc (seqTid s)) # cs'"
    using Cons.prems by (auto simp: Let_def split: prod.splits)
  have "f_oid (pc_fill (planClose E u p x meth y z)) = y" "o_oid (pc_order (planClose E u p x meth y z)) = y"
    "f_tid (pc_fill (planClose E u p x meth y z)) = z" for x y z
    by (simp_all add: planClose_def Let_def)
  with Cons.IH [OF r, of "S \<union> {Suc (seqOid s)}"] show ?case by (auto simp: cs dest: Suc_lessD Suc_leD)
qed auto

lemma booked_log:
  "bus (closes_booked E u scope cs s) = bus s" "seqTid (closes_booked E u scope cs s) = seqTid s"
  "fills (closes_booked E u scope cs s) v = fills_for v (close_events u cs) @ fills s v"
  by (induction cs arbitrary: s)
    (simp_all add: queueClose_def fill_balance_def incr_balance_def fills_for_def Let_def)

lemma transaction_log:
  "bus (liq_transaction E u scope a cs part s) = bus s" "seqTid (liq_transaction E u scope a cs part s) = seqTid s"
  "fills (liq_transaction E u scope a cs part s) v = fills_for v (close_events u cs) @ fills s v"
  by (simp_all add: liq_transaction_def queueVaultCredit_def incr_balance_def booked_log Let_def)

lemma grows_emit_all: "all_fills evs = [] \<Longrightarrow> grows s t \<Longrightarrow> grows s (emit_all evs t)"
  by (rule grows_trans, assumption, rule grows_quiet [where evs = evs]) (simp_all add: emit_all_def)

lemma grows_reconcile_closes: "grows s (foldl (reconcile_close E u) s closes)"
  by (rule grows_fold [where f = "\<lambda>c t. reconcile_close E u t c"])
    (auto simp: reconcile_close_def split: prod.split dest: grows_reconcile)

lemma no_fills_logged: "all_fills (backstop_events E u a cs) = []" "all_fills (map (liquidation_log u a x) ics) = []"
proof -
  have "fills_of (liquidation_log u a x ic) = []" for ic by (simp add: liquidation_log_def Let_def split: prod.split)
  then show "all_fills (map (liquidation_log u a x) ics) = []" by (induction ics) simp_all
qed (simp add: backstop_events_def Let_def)

lemma grows_runLiquidation:
  assumes "runLiquidation E u scope a s = (did, s')"
  shows "grows s s'"
proof (cases "as_targets a")
  case (Cons first rest)
  define ic where "ic = in_cooldown E s (cooldown_key u scope first)"
  obtain closes s1 where p: "plan_closes E u (as_method a) ic (as_targets a) s = (closes, s1)" by force
  let ?t = "liq_transaction E u scope a closes (list_ex (\<lambda>p. slice_of E s (as_method a) ic p \<noteq> None) (as_targets a)) s1"
  define s3 where "s3 = emit_all (close_events u closes) ?t"
  define s4 where "s4 = emit_all (backstop_events E u a closes) s3"
  have eq: "s' = emit (AccountUpdate u) (emit_all (map (liquidation_log u a
      (if as_method a = Backstop then as_equity a else 0)) (enumerate 0 closes))
      (if trailSet s4 = [] then s4 else foldl (reconcile_close E u) s4 closes))"
    using assms unfolding runLiquidation_def Cons list.case ic_def [symmetric] Let_def
      p [unfolded Cons] prod.case s4_def s3_def by simp
  have s1: "bus s1 = bus s" "fills s1 = fills s" by (subst plan_closes_frame(1) [OF p, THEN conjunct1], simp)+
  have "logged s (close_events u closes) s3"
    using planned_log [OF p, of "{}"] by (auto simp: s3_def logged_def emit_all_def transaction_log s1)
  then have "grows s s3" unfolding grows_def by blast
  then have "grows s s4" unfolding s4_def by (rule grows_emit_all [OF no_fills_logged(1)])
  then have "grows s (if trailSet s4 = [] then s4 else foldl (reconcile_close E u) s4 closes)"
    using grows_reconcile_closes by (auto intro: grows_trans)
  then show ?thesis unfolding eq using grows_emit_all [OF no_fills_logged(2)] by simp
qed (use assms in \<open>simp add: runLiquidation_def\<close>)

lemma rec_executeLiquidation: "executeLiquidation E u a scope s = (did, s') \<Longrightarrow> rec.safe s s'"
  by (rule rec_plain, erule safe_executeLiquidation)
    (auto simp: executeLiquidation_def split: option.splits if_splits dest: grows_runLiquidation)

lemma grows_checkAndLiquidateUser: "grows s (checkAndLiquidateUser E u scope s)"
proof -
  have run: "grows t (snd (runLiquidation E u scope r t))" for r t by (rule grows_runLiquidation [OF prod.collapse [symmetric]])
  then have "grows t (liquidate_isolated E u scope t p)" for p t by (simp add: liquidate_isolated_def Let_def)
  from grows_fold [where f = "\<lambda>p t. liquidate_isolated E u scope t p", OF this]
  have "grows t (foldl (liquidate_isolated E u scope) t ps)" for t ps .
  then show ?thesis using grows_trans [OF _ run] by (auto simp: checkAndLiquidateUser_def Let_def)
qed

lemma rec_checkAndLiquidateAll: "rec.safe s (checkAndLiquidateAll E s)"
proof (rule rec_plain [OF safe_checkAndLiquidateAll])
  have "grows t (foldl (\<lambda>acc (u, scope). checkAndLiquidateUser E u scope acc) t xs)" for t xs
    by (induction xs arbitrary: t) (auto intro: grows_trans grows_checkAndLiquidateUser)
  then show "grows s (checkAndLiquidateAll E s)"
    using grows_trans [of s "snd (positionHolders s)"] by (auto simp: checkAndLiquidateAll_def positionHolders_def)
qed

lemma rec_keepMarks: "rec.safe s (keepMarks E resp s)"
proof (rule rec_plain [OF safe_keepMarks])
  obtain cs s1 where p: "positionCoins s = (cs, s1)" by force
  then have "grows s s1" by (auto simp: positionCoins_def positionHolders_def)
  moreover have "all_fills (map MarkSub cs) = []" by (induction cs) simp_all
  ultimately have "grows s (emit_all (map MarkSub cs) s1)" by (blast intro: grows_emit_all)
  then show "grows s (keepMarks E resp s)"
    using grows_ctx [OF refreshMarks_frame] by (auto simp: keepMarks_def p Let_def intro: grows_trans)
qed

subsection \<open>The dead man's switch and funding\<close>

lemma rec_scheduleTick: "rec.safe s (scheduleTick E scanned s)"
proof (rule rec_plain [OF safe_scheduleTick])
  have "grows t (end_scheduled E oid t)" "grows t (announce_cancelled E u oid t)" for u oid t
    by (auto simp: end_scheduled_def announce_cancelled_def Let_def split: option.split)
  then have "grows t (foldl (\<lambda>acc oid. end_scheduled E oid acc) t xs)"
    "grows t (foldl (\<lambda>acc oid. announce_cancelled E u oid acc) t xs)" for u t xs
    by (simp_all add: grows_fold)
  then have "grows t (run_scheduled E u t)" for t u
    by (simp add: run_scheduled_def Let_def) (meson grows_trans)
  then show "grows s (scheduleTick E scanned s)"
    unfolding scheduleTick_def by (intro grows_fold) (simp add: schedule_one_def split: option.split)
qed

lemma rec_applyFunding: "rec.safe s (applyFunding E enabled rates s)"
proof (rule rec_plain [OF safe_applyFunding])
  have charge: "grows t (book_charge E u c t)" for u c t by (simp add: book_charge_def Let_def)
  have "grows t (fund_user E rates u t)" for t u
    unfolding fund_user_def Let_def by (simp add: grows_fold charge)
  then show "grows s (applyFunding E enabled rates s)" by (simp add: applyFunding_def grows_fold)
qed

end
