(* ===== verification/Steps.thy ===== *)
theory Steps
  imports Recorded
begin

text \<open>
  The engine as a state machine: one rule per operation that the exchange route, the matcher,
  the liquidation, funding and scheduled-cancel workers and the mark feed run on the store,
  each as one step. Market data and balances may also change from outside (price messages, seeding,
  transfers), which announces no fill; the list of perp exchanges is fixed after the start.
  Environments, requests and random draws are free.
\<close>

inductive engine_step :: "state \<Rightarrow> state \<Rightarrow> bool" where
  place: "placeOrders E u ws grouping opts s = (rs, s') \<Longrightarrow> engine_step s s'"
| place_trailing: "placeTrailingStop E resp u action s = (tr, s') \<Longrightarrow> engine_step s s'"
| cancel: "cancelOrders E u cs s = (rs, s') \<Longrightarrow> engine_step s s'"
| cancel_cloid: "cancelByCloid E u ccs s = (rs, s') \<Longrightarrow> engine_step s s'"
| modify: "modifyOrder E u oid w s = (r, s') \<Longrightarrow> engine_step s s'"
| batch_modify: "batchModifyOrders E u ms s = (rs, s') \<Longrightarrow> engine_step s s'"
| leverage: "updateLeverage fetched u a isCross l s = (r, s') \<Longrightarrow> engine_step s s'"
| isolated_margin: "updateIsolatedMargin u a isBuy ntli s = (r, s') \<Longrightarrow> engine_step s s'"
| schedule: "scheduleCancel E u t s = (r, s') \<Longrightarrow> engine_step s s'"
| twap_create: "createTwapOrder E u a isBuy sz ro minutes randomize s = (tw, s') \<Longrightarrow> engine_step s s'"
| twap_cancel: "cancelTwapOrder E u i s = (r, s') \<Longrightarrow> engine_step s s'"
| match: "engine_step s (matchAll E draws s)"
| liquidate: "executeLiquidation E u a scope s = (did, s') \<Longrightarrow> engine_step s s'"
| liquidate_all: "engine_step s (checkAndLiquidateAll E s)"
| deadline: "engine_step s (scheduleTick E scanned s)"
| funding: "engine_step s (applyFunding E enabled rates s)"
| keep_marks: "engine_step s (keepMarks E resp s)"
| market_data: "engine_step s (s\<lparr>mids := m, ctx_mark := c, meta := md, meta_dex := mx, spotMeta := sm\<rparr>)"
| balances: "\<forall>ev \<in> set evs. fills_of ev = [] \<Longrightarrow> engine_step s (s\<lparr>balance := b, bus := bus s @ evs\<rparr>)"

inductive_cases engine_stepE: "engine_step s s'"

inductive reachable :: "state \<Rightarrow> bool" where
  start: "reachable (empty_state\<lparr>perpDexs := d\<rparr>)"
| step: "reachable s \<Longrightarrow> engine_step s s' \<Longrightarrow> reachable s'"

lemma safe_outside:
  "eng.safe s (s\<lparr>mids := m, ctx_mark := c, meta := md, meta_dex := mx, spotMeta := sm\<rparr>)"
  "eng.safe s (s\<lparr>balance := b, bus := ev\<rparr>)"
  by (rule safe_ledger; auto elim!: ledger_ok_keep [rotated 3])+

lemmas safe_operations = safe_placeOrders safe_placeTrailingStop safe_cancelOrders safe_cancelByCloid safe_modifyOrder
  safe_batchModify safe_updateLeverage safe_updateIsolatedMargin safe_scheduleCancel safe_createTwapOrder
  safe_cancelTwapOrder safe_matchAll safe_executeLiquidation safe_checkAndLiquidateAll safe_scheduleTick
  safe_applyFunding safe_keepMarks safe_outside

lemma safe_step: "engine_step s s' \<Longrightarrow> eng.safe s s'"
  by (erule engine_step.cases) (auto intro: safe_operations)

lemma grows_balances: "\<forall>ev \<in> set evs. fills_of ev = [] \<Longrightarrow> grows s (s\<lparr>balance := b, bus := bus s @ evs\<rparr>)"
  by (rule grows_quiet) (auto simp: all_fills_def)

lemma grows_market: "grows s (s\<lparr>mids := m, ctx_mark := c, meta := md, meta_dex := mx, spotMeta := sm\<rparr>)"
  by simp

lemma rec_step: "engine_step s s' \<Longrightarrow> rec.safe s s'"
proof (rule rec_safe, erule safe_step)
  assume "engine_step s s'" "good s"
  then show "grows s s'"
    by cases (auto intro: grows_placeOrders grows_cancelOrders grows_cancelByCloid grows_modifyOrder grows_batchModify
      grows_updateLeverage grows_settings grows_market grows_balances rec.safe_hist rec_placeTrailingStop
      rec_createTwapOrder rec_cancelTwapOrder rec_matchAll rec_executeLiquidation rec_checkAndLiquidateAll
      rec_scheduleTick rec_applyFunding rec_keepMarks simp del: grows_fields)
qed

lemma good_start: "good (empty_state\<lparr>perpDexs := d\<rparr>)"
  by (simp add: good_def book_ok_def ledger_ok_def links_ok_def oids_ok_def listed_def status_of_def empty_state_def)

lemma reachable_is_good: "reachable s \<Longrightarrow> good s"
  by (induction rule: reachable.induct) (auto intro: good_start eng.safe_good safe_step)

lemma steps_hist: "engine_step\<^sup>*\<^sup>* s s' \<Longrightarrow> good s \<Longrightarrow> hist s s'"
  by (rule eng.safe_hist [OF eng.safe_star [where r = engine_step]]) (auto intro: safe_step)

lemma recorded: "reachable s \<Longrightarrow> logged (empty_state\<lparr>perpDexs := perpDexs s\<rparr>) (bus s) s"
proof -
  have "good s \<and> (\<exists>d. grows (empty_state\<lparr>perpDexs := d\<rparr>) s)" if "reachable s"
    using that
  proof (induction rule: reachable.induct)
    case (start d)
    then show ?case using good_start grows_refl by blast
  next
    case (step s s')
    then show ?case using rec_step [OF step(2)] grows_trans by (auto simp: rec.safe_def)
  qed
  moreover have "logged (empty_state\<lparr>perpDexs := d'\<rparr>) (bus s) s" if "grows (empty_state\<lparr>perpDexs := d\<rparr>) s" for d d'
    using that by (auto simp: grows_def logged_def empty_state_def)
  ultimately show "reachable s \<Longrightarrow> logged (empty_state\<lparr>perpDexs := perpDexs s\<rparr>) (bus s) s" by blast
qed

subsection \<open>The life of an order\<close>

type_synonym OrderView = "(user \<times> asset \<times> bool \<times> rat \<times> bool \<times> OrderType) \<times> OrderStatus"

definition order_view :: "OrderHash \<Rightarrow> OrderView" where
  \<comment> \<open>owner, asset, side, size, reduce-only flag, type; status\<close>
  "order_view h = (let ord = h_order h in
    ((o_userId ord, o_asset ord, o_isBuy ord, o_sz ord, o_reduceOnly ord, o_orderType ord), o_status ord))"

definition orders_view :: "state \<Rightarrow> oid \<Rightarrow> OrderView option" where
  "orders_view s x = map_option order_view (orders s x)"

inductive lifecycle :: "(oid \<Rightarrow> OrderView option) \<Rightarrow> (oid \<Rightarrow> OrderView option) \<Rightarrow> bool" where
  \<comment> \<open>the specification: orders are created open and end once\<close>
  create: "f x = None \<Longrightarrow> lifecycle f (f(x \<mapsto> (i, St_open)))"
| finish: "f x = Some (i, St_open) \<Longrightarrow> st \<noteq> St_open \<Longrightarrow> lifecycle f (f(x \<mapsto> (i, st)))"

inductive_simps lifecycle_at: "lifecycle f g"

lemma lifecycle_one:
  assumes "f x = None \<and> g x = Some (i, st) \<or> f x = Some (i, St_open) \<and> g x = Some (i, st) \<or> f x = g x"
  shows "lifecycle\<^sup>*\<^sup>* f (f(x := g x))"
proof -
  have open_to: "lifecycle\<^sup>*\<^sup>* f' (f'(x \<mapsto> (i, st)))" if "f' x = Some (i, St_open)" for f'
  proof (cases "st = St_open")
    case True
    with that have "f'(x \<mapsto> (i, st)) = f'" by (intro fun_upd_idem) simp
    then show ?thesis by simp
  next
    case False
    then show ?thesis using lifecycle.finish [of f' x i st] that by blast
  qed
  from assms show ?thesis
  proof (elim disjE conjE)
    assume "f x = None" "g x = Some (i, st)"
    then show ?thesis
      using open_to [of "f(x \<mapsto> (i, St_open))"] converse_rtranclp_into_rtranclp [of lifecycle f "f(x \<mapsto> (i, St_open))"]
        lifecycle.create [of f x i] by simp
  next
    assume "f x = Some (i, St_open)" "g x = Some (i, st)"
    then show ?thesis using open_to [of f] by simp
  next
    assume "f x = g x"
    then show ?thesis by (simp add: fun_upd_idem)
  qed
qed

lemma lifecycle_all:
  assumes "finite D" "\<And>x. x \<notin> D \<Longrightarrow> f x = g x"
    and "\<And>x. x \<in> D \<Longrightarrow> \<exists>i st. f x = None \<and> g x = Some (i, st) \<or> f x = Some (i, St_open) \<and> g x = Some (i, st) \<or> f x = g x"
  shows "lifecycle\<^sup>*\<^sup>* f g"
  using assms
proof (induction D arbitrary: f rule: finite_induct)
  case empty
  then have "f = g" by (intro ext) simp
  then show ?case by simp
next
  case (insert x D)
  let ?f = "f(x := g x)"
  from insert.prems(2) [of x] have a: "lifecycle\<^sup>*\<^sup>* f ?f" by (auto intro: lifecycle_one)
  have "lifecycle\<^sup>*\<^sup>* ?f g"
  proof (rule insert.IH)
    show "?f y = g y" if "y \<notin> D" for y using that insert.prems(1) [of y] by auto
    show "\<exists>i st. ?f y = None \<and> g y = Some (i, st) \<or> ?f y = Some (i, St_open) \<and> g y = Some (i, st) \<or> ?f y = g y"
      if "y \<in> D" for y using insert.prems(2) [of y] that insert.hyps(2) by auto
  qed
  with a show ?case by (rule rtranclp_trans)
qed

lemma kept_view:
  assumes "kept h h'"
  shows "\<exists>i st. order_view h = (i, St_open) \<and> order_view h' = (i, st) \<or> order_view h = order_view h'"
  using assms by (auto simp: kept_def same_identity_def order_view_def Let_def)

lemma hist_lifecycle:
  assumes "good s'" "hist s s'"
  shows "lifecycle\<^sup>*\<^sup>* (orders_view s) (orders_view s')"
proof (rule lifecycle_all)
  let ?D = "{x. orders s' x \<noteq> None}"
  have "?D \<subseteq> {..seqOid s'}" using assms(1) by (auto simp: good_def book_ok_def oids_ok_def)
  then show "finite ?D" by (rule finite_subset) simp
  show "orders_view s x = orders_view s' x" if "x \<notin> ?D" for x
    using that hist_orders [OF assms(2), of x] by (cases "orders s x") (auto simp: orders_view_def)
  show "\<exists>i st. orders_view s x = None \<and> orders_view s' x = Some (i, st) \<or>
      orders_view s x = Some (i, St_open) \<and> orders_view s' x = Some (i, st) \<or> orders_view s x = orders_view s' x"
    if "x \<in> ?D" for x
  proof (cases "orders s x")
    case None
    with that show ?thesis by (fastforce simp: orders_view_def order_view_def Let_def)
  next
    case (Some h)
    with assms(2) obtain h' where "orders s' x = Some h'" "kept h h'" by (auto simp: hist_def)
    with Some kept_view show ?thesis by (fastforce simp: orders_view_def)
  qed
qed

end
