(* ===== verification/JsStrings.thy ===== *)
theory JsStrings
  imports Doubles
begin

text \<open>
  The JavaScript string functions of the account modules, on strings of code units below 256:
  trim, toLowerCase, indexOf, slice, startsWith, includes, padStart, padEnd, toString(16) and
  parseFloat. A result of parseFloat that is not finite is \<open>None\<close>: every caller refuses it.
\<close>

definition js_space :: "char \<Rightarrow> bool" where
  "js_space c = (let n = of_char c :: nat in 9 \<le> n \<and> n \<le> 13 \<or> n = 32 \<or> n = 160)"

definition js_trim :: "string \<Rightarrow> string" where
  "js_trim s = rev (dropWhile js_space (rev (dropWhile js_space s)))"

definition lower_char :: "char \<Rightarrow> char" where
  "lower_char c =
    (let n = of_char c :: nat
     in if 65 \<le> n \<and> n \<le> 90 \<or> 192 \<le> n \<and> n \<le> 222 \<and> n \<noteq> 215 then char_of (n + 32) else c)"

definition lower :: "string \<Rightarrow> string" where
  "lower s = map lower_char s"

fun starts_with :: "string \<Rightarrow> string \<Rightarrow> bool" where
  "starts_with [] s = True"
| "starts_with (p # ps) [] = False"
| "starts_with (p # ps) (c # s) = (p = c \<and> starts_with ps s)"

fun split_at :: "string \<Rightarrow> string \<Rightarrow> (string \<times> string) option" where
  \<comment> \<open>what is before and after the first occurrence, \<open>None\<close> when there is none\<close>
  "split_at pat [] = (if pat = [] then Some ([], []) else None)"
| "split_at pat (c # s) =
    (if starts_with pat (c # s) then Some ([], drop (length pat) (c # s))
     else map_option (\<lambda>(a, b). (c # a, b)) (split_at pat s))"

definition pad_start :: "nat \<Rightarrow> char \<Rightarrow> string \<Rightarrow> string" where
  "pad_start n c s = replicate (n - length s) c @ s"

definition pad_end :: "nat \<Rightarrow> char \<Rightarrow> string \<Rightarrow> string" where
  "pad_end n c s = s @ replicate (n - length s) c"

definition hex_char :: "nat \<Rightarrow> char" where
  "hex_char d = (if d < 10 then char_of (48 + d) else char_of (87 + d))"

fun show_hex :: "nat \<Rightarrow> string" where
  "show_hex n = (if n < 16 then [hex_char n] else show_hex (n div 16) @ [hex_char (n mod 16)])"

declare show_hex.simps [simp del]

subsection \<open>parseFloat\<close>

definition js_digit :: "char \<Rightarrow> bool" where
  "js_digit c = (let n = of_char c :: nat in 48 \<le> n \<and> n \<le> 57)"

definition digits_value :: "string \<Rightarrow> nat" where
  "digits_value s = foldl (\<lambda>acc c. acc * 10 + (of_char c - 48)) 0 s"

definition take_sign :: "string \<Rightarrow> bool \<times> string" where
  \<comment> \<open>whether a minus sign is in front, and the rest\<close>
  "take_sign s =
    (case s of c # r \<Rightarrow> if c = CHR ''-'' then (True, r) else if c = CHR ''+'' then (False, r) else (False, s)
     | [] \<Rightarrow> (False, s))"

definition exponent_value :: "string \<Rightarrow> int" where
  \<comment> \<open>an exponent part without digits is not part of the number\<close>
  "exponent_value s =
    (case s of c # r \<Rightarrow>
       if c = CHR ''e'' \<or> c = CHR ''E''
       then let (neg, r1) = take_sign r; ds = takeWhile js_digit r1; v = int (digits_value ds)
            in if neg then - v else v
       else 0
     | [] \<Rightarrow> 0)"

definition decimal_prefix :: "string \<Rightarrow> rat option" where
  \<comment> \<open>the exact value of the longest decimal literal in front\<close>
  "decimal_prefix s =
    (let (neg, s1) = take_sign (dropWhile js_space s);
         ip = takeWhile js_digit s1; r1 = dropWhile js_digit s1;
         (fp, r2) = (case r1 of c # r \<Rightarrow> if c = CHR ''.'' then (takeWhile js_digit r, dropWhile js_digit r) else ([], r1)
                     | [] \<Rightarrow> ([], []));
         v = of_nat (digits_value (ip @ fp)) * 10 powi (exponent_value r2 - int (length fp))
     in if ip = [] \<and> fp = [] then None else Some (if neg then - v else v))"

definition parse_finite :: "string \<Rightarrow> rat option" where
  "parse_finite s =
    (case decimal_prefix s of None \<Rightarrow> None
     | Some v \<Rightarrow> if 2 ^ 1024 - 2 ^ 970 \<le> \<bar>v\<bar> then None else Some (dbl v))"

lemma lower_char_idem [simp]: "lower_char (lower_char c) = lower_char c"
proof -
  let ?n = "of_char c :: nat"
  have "?n < 256" by simp
  then have "(of_char (char_of (?n + 32) :: char) :: nat) = ?n + 32" if "?n \<le> 222" using that by simp
  then show ?thesis by (auto simp: lower_char_def Let_def)
qed

lemma lower_idem [simp]: "lower (lower s) = lower s"
  by (simp add: lower_def)

lemma length_lower [simp]: "length (lower s) = length s"
  by (simp add: lower_def)

lemma starts_with_append [simp]: "starts_with p (p @ s)"
  by (induction p) simp_all

lemma split_at_found: "split_at pat s = Some (a, b) \<Longrightarrow> s = a @ pat @ b"
proof (induction pat s arbitrary: a rule: split_at.induct)
  case (2 pat c s)
  have "starts_with p t \<Longrightarrow> t = p @ drop (length p) t" for p t
    by (induction p t rule: starts_with.induct) auto
  with 2 show ?case by (auto split: if_splits)
qed (auto split: if_splits)

end
