(* ===== verification/Accounts.thy ===== *)
theory Accounts
  imports JsStrings Funding Twap
begin

text \<open>
  The accounts around the engine: what api/middleware/auth.ts, the transfer, sub-account,
  staking and agent modules keep in Redis besides the engine's state, which is the field
  \<open>core\<close>. The balance fields of an account hash are buckets: a perp exchange, the native one
  with the empty name, or spot. Amounts are doubles; a stored balance is the decimal that
  \<open>toFixed(6)\<close> prints.
\<close>

subsection \<open>State\<close>

record SubMeta =
  sm_name :: string
  sm_master :: user
  sm_createdAt :: millis

record VaultMeta =
  vm_leader :: user
  vm_createdAt :: millis

record Delegation =
  dg_validator :: string
  dg_wei :: int
  dg_lockedUntil :: millis
  dg_delegatedAt :: millis

record QueueEntry =
  qe_wei :: int
  qe_unlockTime :: millis
  qe_queuedAt :: millis

datatype StakingKind = CDeposit | CWithdraw | Delegate | Undelegate | WithdrawalComplete

record StakingEvent =
  se_kind :: StakingKind
  se_wei :: int
  se_validator :: "string option"
  se_timestamp :: millis

record Agent =
  ag_address :: string
  ag_name :: string
  ag_approvedAt :: millis

record sys =
  core :: state
  spotBal :: "user \<Rightarrow> rat option"
  accountSince :: "user \<Rightarrow> millis option"
  seeded :: "user \<Rightarrow> dex_name list"
  nonceMax :: "user \<Rightarrow> int option"
  subAccounts :: "user \<Rightarrow> (user \<times> millis) list"
  subMeta :: "user \<Rightarrow> SubMeta option"
  subMaster :: "user \<Rightarrow> user option"
  vaultEquities :: "user \<Rightarrow> user \<Rightarrow> rat option"
  vaultMeta :: "user \<Rightarrow> VaultMeta option"
  agents :: "user \<Rightarrow> (string \<times> Agent) list"
  builderFees :: "user \<Rightarrow> string \<Rightarrow> string option"
  referrer :: "user \<Rightarrow> string option"
  stakingBalance :: "user \<Rightarrow> int option"
  delegations :: "user \<Rightarrow> (Delegation \<times> millis) list"
  stakingQueue :: "user \<Rightarrow> (QueueEntry \<times> millis) list"
  stakingEvents :: "user \<Rightarrow> StakingEvent list"

definition empty_sys :: sys where
  "empty_sys = \<lparr>core = empty_state, spotBal = \<lambda>_. None, accountSince = \<lambda>_. None, seeded = \<lambda>_. [],
    nonceMax = \<lambda>_. None, subAccounts = \<lambda>_. [], subMeta = \<lambda>_. None, subMaster = \<lambda>_. None,
    vaultEquities = \<lambda>_ _. None, vaultMeta = \<lambda>_. None, agents = \<lambda>_. [], builderFees = \<lambda>_ _. None,
    referrer = \<lambda>_. None, stakingBalance = \<lambda>_. None, delegations = \<lambda>_. [], stakingQueue = \<lambda>_. [],
    stakingEvents = \<lambda>_. []\<rparr>"

datatype AccountError =
    AmountNotPositive
  | InsufficientFunds
  | InvalidTokenFormat
  | InvalidSend
  | UnknownSubAccount
  | NameEmpty
  | NameTooLong
  | NameTaken
  | WeiInvalid
  | ValidatorMissing
  | NoDelegation
  | InsufficientDelegation
  | DelegationLocked
  | AgentLimit
  | FeeRateEmpty
  | CodeEmpty

subsection \<open>Buckets\<close>

datatype bucket = Perp dex_name | Spot

definition bucket_of :: "dex_name \<Rightarrow> bucket" where
  \<comment> \<open>the field of the account hash that an exchange name selects\<close>
  "bucket_of dex = (if dex = ''spot'' then Spot else Perp dex)"

fun stored :: "sys \<Rightarrow> user \<times> bucket \<Rightarrow> rat option" where
  "stored w (u, Perp dex) = balance (core w) u dex"
| "stored w (u, Spot) = spotBal w u"

fun store_bal :: "user \<times> bucket \<Rightarrow> rat \<Rightarrow> sys \<Rightarrow> sys" where
  "store_bal (u, Perp dex) v w =
    w\<lparr>core := (core w)\<lparr>balance := (balance (core w))(u := (balance (core w) u)(dex := Some v))\<rparr>\<rparr>"
| "store_bal (u, Spot) v w = w\<lparr>spotBal := (spotBal w)(u := Some v)\<rparr>"

definition amount_in :: "sys \<Rightarrow> user \<times> bucket \<Rightarrow> rat" where
  "amount_in w k = (case stored w k of None \<Rightarrow> 0 | Some b \<Rightarrow> b)"

definition read_bal :: "sys \<Rightarrow> user \<times> bucket \<Rightarrow> rat" where
  \<comment> \<open>parseFloat of the field, of 0 when it is missing\<close>
  "read_bal w k = dbl (amount_in w k)"

definition fix6 :: "rat \<Rightarrow> rat" where
  "fix6 x = js_toFixed 6 (dbl x)"

definition move_funds :: "user \<times> bucket \<Rightarrow> user \<times> bucket \<Rightarrow> rat \<Rightarrow> sys \<Rightarrow> sys" where
  \<comment> \<open>both balances are read before the first is written\<close>
  "move_funds src dst amt w =
    store_bal dst (fix6 (read_bal w dst + amt)) (store_bal src (fix6 (read_bal w src - amt)) w)"

definition debit :: "user \<times> bucket \<Rightarrow> rat \<Rightarrow> sys \<Rightarrow> sys" where
  "debit src amt w = store_bal src (fix6 (read_bal w src - amt)) w"

definition emit_core :: "event \<Rightarrow> sys \<Rightarrow> sys" where
  "emit_core ev w = w\<lparr>core := emit ev (core w)\<rparr>"

lemma stored_store [simp]: "stored (store_bal k v w) k' = (if k' = k then Some v else stored w k')"
  by (cases k; cases k'; cases "snd k"; cases "snd k'") auto

lemma store_frame [simp]:
  "nonceMax (store_bal k v w) = nonceMax w" "subAccounts (store_bal k v w) = subAccounts w"
  "subMeta (store_bal k v w) = subMeta w" "subMaster (store_bal k v w) = subMaster w"
  "vaultEquities (store_bal k v w) = vaultEquities w" "vaultMeta (store_bal k v w) = vaultMeta w"
  "agents (store_bal k v w) = agents w" "stakingBalance (store_bal k v w) = stakingBalance w"
  "delegations (store_bal k v w) = delegations w" "stakingQueue (store_bal k v w) = stakingQueue w"
  "stakingEvents (store_bal k v w) = stakingEvents w"
  by (cases k; cases "snd k"; auto)+

lemma stored_emit [simp]: "stored (emit_core ev w) k = stored w k"
  by (cases k; cases "snd k") (simp_all add: emit_core_def emit_def)

lemma amount_emit [simp]: "amount_in (emit_core ev w) k = amount_in w k"
  by (simp add: amount_in_def)

subsection \<open>Creating, resetting and setting an account\<close>

definition account_exists :: "sys \<Rightarrow> user \<Rightarrow> bool" where
  \<comment> \<open>every writer of an account hash writes one of these fields first\<close>
  "account_exists w u \<longleftrightarrow> accountSince w u \<noteq> None \<or> stored w (u, Perp '''') \<noteq> None \<or> stored w (u, Spot) \<noteq> None"

definition seed_dex :: "user \<Rightarrow> sys \<Rightarrow> dex_name option \<Rightarrow> sys" where
  "seed_dex u w d =
    (case d of None \<Rightarrow> w
     | Some dex \<Rightarrow>
        if dex = '''' \<or> dex \<in> set (seeded w u) then w
        else (store_bal (u, Perp dex) 0 w)\<lparr>seeded := (seeded w)(u := dex # seeded w u)\<rparr>)"

definition ensureAccount :: "env \<Rightarrow> rat \<Rightarrow> user \<Rightarrow> sys \<Rightarrow> sys" where
  \<comment> \<open>the second argument is DEFAULT_BALANCE\<close>
  "ensureAccount E defaultBalance u w =
    (let ex = account_exists w u; isSub = (\<not> ex \<and> subMaster w u \<noteq> None);
         w1 = (if ex then w
               else (store_bal (u, Spot) 0 (store_bal (u, Perp '''') (if isSub then 0 else defaultBalance) w))
                 \<lparr>accountSince := (accountSince w)(u := Some (now E))\<rparr>);
         w2 = (if \<not> ex \<and> \<not> isSub then emit_core (LedgerRow u (now E) ''deposit'' defaultBalance) w1 else w1)
     in case perpDexs (core w2) of None \<Rightarrow> w2 | Some ds \<Rightarrow> foldl (seed_dex u) w2 ds)"

definition reset_order :: "env \<Rightarrow> oid \<Rightarrow> state \<Rightarrow> state" where
  \<comment> \<open>whatever the status of the order was\<close>
  "reset_order E oid s = drop_from_sets oid (upd_hash oid (set_status St_cancelled (now E)) s)"

definition resetAccount :: "env \<Rightarrow> rat \<Rightarrow> user \<Rightarrow> sys \<Rightarrow> sys" where
  "resetAccount E defaultBalance u w =
    (let s = core w;
         s1 = s\<lparr>pos := (pos s)(u := (\<lambda>a. if a \<in> set (posSet s u '''') then None else pos s u a)),
                posSet := (posSet s)(u := (posSet s u)('''' := []))\<rparr>;
         s2 = foldl (\<lambda>acc oid. reset_order E oid acc) s1 (map fst (userOrders s u ''''));
         s3 = s2\<lparr>userOrders := (userOrders s2)(u := (userOrders s2 u)('''' := [])),
                 cloids := (cloids s2)(u := (\<lambda>_. None)), fills := (fills s2)(u := [])\<rparr>
     in store_bal (u, Perp '''') defaultBalance (w\<lparr>core := s3\<rparr>))"

definition setBalance :: "env \<Rightarrow> user \<Rightarrow> rat \<Rightarrow> sys \<Rightarrow> sys option" where
  \<comment> \<open>\<open>None\<close> is the refusal of a negative balance\<close>
  "setBalance E u b w =
    (if b < 0 then None
     else
       let prev = amount_in w (u, Perp ''''); delta = sub_d (lib E) b prev;
           w1 = store_bal (u, Perp '''') b w
       in Some (if isZero_d delta then w1
                else emit_core (LedgerRow u (now E) (if gt_d delta 0 then ''deposit'' else ''withdraw'') (abs_d delta)) w1))"

subsection \<open>Exact amounts\<close>

text \<open>
  Balances and amounts with six decimals, up to 2 ^ 48 micro-dollars, come through the double
  arithmetic unharmed.
\<close>

definition micro :: "rat \<Rightarrow> bool" where
  "micro x \<longleftrightarrow> on_grid 6 x \<and> 0 \<le> x \<and> x * 10 ^ 6 \<le> 2 ^ 48"

lemma fix6_near:
  assumes "on_grid 6 x" "\<bar>y - x\<bar> * 10 ^ 6 \<le> 1 / 4" "0 \<le> y" "y * 10 ^ 6 \<le> 2 ^ 50"
  shows "fix6 y = x"
proof -
  have e: "0 < ulp" by (simp add: ulp_def)
  have "\<bar>dbl y - y\<bar> \<le> y * ulp" using dbl_err [of y] assms(3) by simp
  then have "\<bar>dbl y - y\<bar> * 10 ^ 6 \<le> y * ulp * 10 ^ 6" by (intro mult_right_mono) simp_all
  also have "\<dots> = y * 10 ^ 6 * ulp" by simp
  also have "\<dots> \<le> 2 ^ 50 * ulp" using assms(4) e by (intro mult_right_mono) simp_all
  also have "\<dots> = 1 / 8" by (simp add: ulp_def)
  finally have "\<bar>dbl y - y\<bar> * 10 ^ 6 \<le> 1 / 8" .
  moreover have "\<bar>dbl y - x\<bar> * 10 ^ 6 \<le> \<bar>dbl y - y\<bar> * 10 ^ 6 + \<bar>y - x\<bar> * 10 ^ 6"
    by (simp add: abs_if algebra_simps)
  ultimately have "\<bar>dbl y - x\<bar> * 10 ^ 6 < 1 / 2" using assms(2) by linarith
  then show ?thesis
    unfolding fix6_def by (intro toFixed_near assms(1) dbl_nonneg assms(3))
qed

lemma micro_near:
  assumes "micro x"
  shows "\<bar>dbl x - x\<bar> * 10 ^ 6 \<le> 1 / 16" "0 \<le> dbl x"
proof -
  have e: "0 < ulp" by (simp add: ulp_def)
  have x: "0 \<le> x" "x * 10 ^ 6 \<le> 2 ^ 49" using assms by (simp_all add: micro_def order_trans)
  have "\<bar>dbl x - x\<bar> * 10 ^ 6 \<le> x * ulp * 10 ^ 6"
    using dbl_err [of x] x by (intro mult_right_mono) simp_all
  also have "\<dots> = x * 10 ^ 6 * ulp" by simp
  also have "\<dots> \<le> 2 ^ 49 * ulp" using x e by (intro mult_right_mono) simp_all
  also have "\<dots> = 1 / 16" by (simp add: ulp_def)
  finally show "\<bar>dbl x - x\<bar> * 10 ^ 6 \<le> 1 / 16" .
  show "0 \<le> dbl x" by (rule dbl_nonneg) (rule x)
qed

lemma fix6_add:
  assumes "micro x" "micro a"
  shows "fix6 (dbl x + dbl a) = x + a"
proof (rule fix6_near)
  note n = micro_near [OF assms(1)] micro_near [OF assms(2)]
  have x: "on_grid 6 x" "on_grid 6 a" "x * 10 ^ 6 \<le> 2 ^ 48" "a * 10 ^ 6 \<le> 2 ^ 48"
    using assms by (simp_all add: micro_def)
  show "on_grid 6 (x + a)" using x by (intro on_grid_add)
  have "\<bar>dbl x + dbl a - (x + a)\<bar> * 10 ^ 6 \<le> \<bar>dbl x - x\<bar> * 10 ^ 6 + \<bar>dbl a - a\<bar> * 10 ^ 6"
    by (simp add: abs_if algebra_simps)
  then show "\<bar>dbl x + dbl a - (x + a)\<bar> * 10 ^ 6 \<le> 1 / 4" using n by linarith
  show "0 \<le> dbl x + dbl a" using n by simp
  have "dbl x * 10 ^ 6 \<le> x * 10 ^ 6 + 1 / 16" "dbl a * 10 ^ 6 \<le> a * 10 ^ 6 + 1 / 16"
    using n(1,3) by (simp_all add: abs_if algebra_simps split: if_splits)
  then have "dbl x * 10 ^ 6 + dbl a * 10 ^ 6 \<le> 2 ^ 50" using x(3,4) by simp
  then show "(dbl x + dbl a) * 10 ^ 6 \<le> 2 ^ 50" by (simp only: distrib_right)
qed

lemma fix6_sub:
  assumes "micro x" "micro a" "a \<le> x" "dbl a \<le> dbl x"
  shows "fix6 (dbl x - dbl a) = x - a"
proof (rule fix6_near)
  note n = micro_near [OF assms(1)] micro_near [OF assms(2)]
  have x: "on_grid 6 x" "on_grid 6 a" "x * 10 ^ 6 \<le> 2 ^ 48"
    using assms by (simp_all add: micro_def)
  show "on_grid 6 (x - a)" using x by (intro on_grid_diff)
  have "\<bar>dbl x - dbl a - (x - a)\<bar> * 10 ^ 6 \<le> \<bar>dbl x - x\<bar> * 10 ^ 6 + \<bar>dbl a - a\<bar> * 10 ^ 6"
    by (simp add: abs_if algebra_simps)
  then show "\<bar>dbl x - dbl a - (x - a)\<bar> * 10 ^ 6 \<le> 1 / 4" using n by linarith
  show "0 \<le> dbl x - dbl a" using assms(4) by simp
  have "dbl x * 10 ^ 6 \<le> x * 10 ^ 6 + 1 / 16"
    using n(1) by (simp add: abs_if algebra_simps split: if_splits)
  moreover have "(dbl x - dbl a) * 10 ^ 6 \<le> dbl x * 10 ^ 6" using n(4) by (intro mult_right_mono) simp_all
  ultimately show "(dbl x - dbl a) * 10 ^ 6 \<le> 2 ^ 50" using x(3) by simp
qed

text \<open>The comparison of the two doubles is the comparison of the decimals.\<close>

lemma micro_compare:
  assumes "micro x" "micro a"
  shows "dbl x < dbl a \<longleftrightarrow> x < a"
proof -
  obtain k l where k: "x = of_int k / 10 ^ 6" and l: "a = of_int l / 10 ^ 6"
    using assms by (auto simp: micro_def on_grid_def)
  have b: "\<bar>dbl x * 10 ^ 6 - of_int k\<bar> \<le> 1 / 16" "\<bar>dbl a * 10 ^ 6 - of_int l\<bar> \<le> 1 / 16"
    using micro_near(1) [OF assms(1)] micro_near(1) [OF assms(2)]
    by (simp_all add: k l abs_if algebra_simps split: if_splits)
  have xa: "x < a \<longleftrightarrow> k < l" "x = a \<longleftrightarrow> k = l" by (simp_all add: k l divide_less_cancel)
  have sc: "dbl x < dbl a \<longleftrightarrow> dbl x * 10 ^ 6 < dbl a * 10 ^ 6" by simp
  show ?thesis
  proof (cases k l rule: linorder_cases)
    case less
    then have "(of_int k :: rat) + 1 \<le> of_int l" by (metis add1_zle_eq of_int_1 of_int_add of_int_le_iff)
    with b have "dbl x * 10 ^ 6 < dbl a * 10 ^ 6" unfolding abs_le_iff by linarith
    with less show ?thesis unfolding xa sc by simp
  next
    case equal
    then have "x = a" by (simp add: k l)
    then show ?thesis by simp
  next
    case greater
    then have "(of_int l :: rat) + 1 \<le> of_int k" by (metis add1_zle_eq of_int_1 of_int_add of_int_le_iff)
    with b have "dbl a * 10 ^ 6 < dbl x * 10 ^ 6" unfolding abs_le_iff by linarith
    with greater show ?thesis unfolding xa sc by simp
  qed
qed

lemma move_funds_exact:
  assumes "src \<noteq> dst" "micro (amount_in w src)" "micro (amount_in w dst)" "micro a" "\<not> read_bal w src < dbl a"
  shows "amount_in (move_funds src dst (dbl a) w) k =
    (if k = src then amount_in w src - a else if k = dst then amount_in w dst + a else amount_in w k)"
    "a \<le> amount_in w src"
proof -
  have le: "a \<le> amount_in w src" "dbl a \<le> dbl (amount_in w src)"
    using assms(5) micro_compare [OF assms(2,4)] by (auto simp: read_bal_def)
  show "a \<le> amount_in w src" by (rule le)
  show "amount_in (move_funds src dst (dbl a) w) k =
    (if k = src then amount_in w src - a else if k = dst then amount_in w dst + a else amount_in w k)"
    using assms(1) fix6_sub [OF assms(2,4) le] fix6_add [OF assms(3,4)]
    by (simp add: move_funds_def amount_in_def read_bal_def)
qed

lemma move_funds_self:
  \<comment> \<open>source and destination alias: the second write wins\<close>
  assumes "micro (amount_in w k)" "micro a"
  shows "amount_in (move_funds k k (dbl a) w) k = amount_in w k + a"
  using fix6_add [OF assms] by (simp add: move_funds_def amount_in_def read_bal_def)

end
