(* ===== verification/Transfers.thy ===== *)
theory Transfers
  imports Accounts
begin

text \<open>
  engine/transfers.ts: moving dollars between the buckets of accounts. Amounts arrive as
  strings. Every function reads the balances, refuses an amount the source does not hold, and
  writes the new balances in one pipeline.
\<close>

definition uniq :: "'a list \<Rightarrow> 'a list" where
  \<comment> \<open>a JavaScript Set keeps the first occurrences\<close>
  "uniq xs = rev (remdups (rev xs))"

definition emitAccountUpdate :: "user list \<Rightarrow> dex_name list \<Rightarrow> sys \<Rightarrow> sys" where
  "emitAccountUpdate users dexes w =
    (let us = uniq (map lower (filter (\<lambda>u. u \<noteq> '''') users));
         venues = uniq (filter (\<lambda>d. d \<noteq> '''' \<and> d \<noteq> ''spot'' \<and> d \<noteq> ''evm'') dexes)
     in foldl (\<lambda>acc u. emit_core (AccountUpdateVenues u venues) acc) w us)"

definition parseAmountWithSubaccount :: "string \<Rightarrow> rat option \<times> user option" where
  "parseAmountWithSubaccount raw =
    (let t = js_trim raw
     in case split_at '' subaccount:'' t of
          None \<Rightarrow> (parse_finite t, None)
        | Some (a, b) \<Rightarrow>
            let addr = lower (js_trim b) in (parse_finite (js_trim a), if addr = '''' then None else Some addr))"

definition pos_amount :: "rat option \<Rightarrow> rat option" where
  \<comment> \<open>a finite amount above zero\<close>
  "pos_amount a = (case a of None \<Rightarrow> None | Some x \<Rightarrow> if x \<le> 0 then None else Some x)"

definition usdClassTransfer :: "user \<Rightarrow> string \<Rightarrow> bool \<Rightarrow> sys \<Rightarrow> AccountError option \<times> sys" where
  "usdClassTransfer u amount toPerp w =
    (let (amountNum, subAccount) = parseAmountWithSubaccount amount
     in case pos_amount amountNum of None \<Rightarrow> (Some AmountNotPositive, w)
        | Some amt \<Rightarrow>
           (case subAccount of
              Some sa \<Rightarrow>
                let src = (if toPerp then (sa, Perp '''') else (u, Perp ''''));
                    dst = (if toPerp then (u, Perp '''') else (sa, Perp ''''))
                in if read_bal w src < amt then (Some InsufficientFunds, w)
                   else (None, emitAccountUpdate [u, sa] [] (move_funds src dst amt w))
            | None \<Rightarrow>
                let src = (u, if toPerp then Spot else Perp ''''); dst = (u, if toPerp then Perp '''' else Spot)
                in if read_bal w src < amt then (Some InsufficientFunds, w)
                   else (None, emitAccountUpdate [u] [] (move_funds src dst amt w))))"

definition send_known :: "user \<times> bucket \<Rightarrow> user \<times> bucket \<Rightarrow> rat \<Rightarrow> sys \<Rightarrow> sys" where
  \<comment> \<open>credits the recipient if the field exists, otherwise debits only\<close>
  "send_known src dst amt w = (if stored w dst = None then debit src amt w else move_funds src dst amt w)"

definition usdSend :: "user \<Rightarrow> string \<Rightarrow> string \<Rightarrow> sys \<Rightarrow> AccountError option \<times> sys" where
  "usdSend u destination amount w =
    (case pos_amount (parse_finite amount) of None \<Rightarrow> (Some AmountNotPositive, w)
     | Some amt \<Rightarrow>
        let dest = lower destination; src = (u, Perp '''')
        in if read_bal w src < amt then (Some InsufficientFunds, w)
           else (None, emitAccountUpdate [u, dest] [] (send_known src (dest, Perp '''') amt w)))"

definition spotSend :: "user \<Rightarrow> string \<Rightarrow> string \<Rightarrow> string \<Rightarrow> sys \<Rightarrow> AccountError option \<times> sys" where
  "spotSend u destination token amount w =
    (case pos_amount (parse_finite amount) of None \<Rightarrow> (Some AmountNotPositive, w)
     | Some amt \<Rightarrow>
        if token = '''' \<or> CHR '':'' \<notin> set token then (Some InvalidTokenFormat, w)
        else if starts_with ''usdc:'' (lower token)
        then if read_bal w (u, Spot) < amt then (Some InsufficientFunds, w)
             else (None, emitAccountUpdate [u, destination] [] (send_known (u, Spot) (lower destination, Spot) amt w))
        else (None, emitAccountUpdate [u, destination] [] w))"

definition sendAsset ::
    "user \<Rightarrow> string \<Rightarrow> dex_name \<Rightarrow> dex_name \<Rightarrow> string \<Rightarrow> string \<Rightarrow> string \<Rightarrow> sys \<Rightarrow> AccountError option \<times> sys" where
  "sendAsset u destination sourceDex destinationDex token amount fromSubAccount w =
    (case pos_amount (parse_finite amount) of None \<Rightarrow> (Some AmountNotPositive, w)
     | Some amt \<Rightarrow>
        let dest = lower destination
        in if dest = lower u \<and> sourceDex = destinationDex then (Some InvalidSend, w)
           else
             let src = (if fromSubAccount \<noteq> '''' then lower fromSubAccount else u, bucket_of sourceDex);
                 dst = (dest, bucket_of destinationDex)
             in if read_bal w src < amt then (Some InsufficientFunds, w)
                else if destinationDex = ''evm''
                then (None, emitAccountUpdate [u, fromSubAccount] [sourceDex] (debit src amt w))
                else if dest = lower u \<or> stored w dst \<noteq> None
                then (None, emitAccountUpdate [u, fromSubAccount, dest] [sourceDex, destinationDex]
                              (move_funds src dst amt w))
                else (None, emitAccountUpdate [u, fromSubAccount, dest] [sourceDex, destinationDex] (debit src amt w)))"

definition agentSendAsset ::
    "user \<Rightarrow> string \<Rightarrow> dex_name \<Rightarrow> dex_name \<Rightarrow> string \<Rightarrow> string \<Rightarrow> string \<Rightarrow> sys \<Rightarrow> AccountError option \<times> sys" where
  "agentSendAsset u destination sourceDex destinationDex token amount fromSubAccount w =
    sendAsset u destination sourceDex destinationDex token amount fromSubAccount w"

definition sendToEvmWithData :: "user \<Rightarrow> string \<Rightarrow> sys \<Rightarrow> AccountError option \<times> sys" where
  \<comment> \<open>the token, the source exchange and the call data play no part\<close>
  "sendToEvmWithData u amount w =
    (case pos_amount (parse_finite amount) of None \<Rightarrow> (Some AmountNotPositive, w)
     | Some amt \<Rightarrow>
        if read_bal w (u, Perp '''') < amt then (Some InsufficientFunds, w)
        else (None, emitAccountUpdate [u] [] (debit (u, Perp '''') amt w)))"

subsection \<open>What a transfer moves\<close>

lemma amount_update [simp]: "amount_in (emitAccountUpdate us ds w) k = amount_in w k"
proof -
  have "amount_in (foldl (\<lambda>acc u. emit_core (AccountUpdateVenues u vs) acc) w xs) k = amount_in w k" for vs xs
    by (induction xs arbitrary: w) simp_all
  then show ?thesis by (simp add: emitAccountUpdate_def Let_def)
qed

definition moved :: "sys \<Rightarrow> user \<times> bucket \<Rightarrow> user \<times> bucket \<Rightarrow> bool \<Rightarrow> rat \<Rightarrow> sys \<Rightarrow> bool" where
  \<comment> \<open>the source held the amount and lost exactly it, the destination gained it if credited,
    nothing else changed\<close>
  "moved w src dst credited a w' \<longleftrightarrow> a \<le> amount_in w src \<and>
    (\<forall>k. amount_in w' k = (if k = src then amount_in w k - a
       else if credited \<and> k = dst then amount_in w k + a else amount_in w k))"

lemma moved_move:
  assumes "src \<noteq> dst" "micro (amount_in w src)" "micro (amount_in w dst)" "micro a" "\<not> read_bal w src < dbl a"
  shows "moved w src dst True a (move_funds src dst (dbl a) w)"
  using move_funds_exact [OF assms] by (auto simp: moved_def)

lemma moved_debit:
  assumes "micro (amount_in w src)" "micro a" "\<not> read_bal w src < dbl a"
  shows "moved w src dst False a (debit src (dbl a) w)"
proof -
  have le: "a \<le> amount_in w src" "dbl a \<le> dbl (amount_in w src)"
    using assms(3) micro_compare [OF assms(1,2)] by (auto simp: read_bal_def)
  then show ?thesis
    using fix6_sub [OF assms(1,2) le] by (simp add: moved_def debit_def amount_in_def read_bal_def)
qed

lemma moved_update [simp]: "moved w src dst c a (emitAccountUpdate us ds w') = moved w src dst c a w'"
  by (simp add: moved_def)

lemma moved_send_known:
  assumes "src \<noteq> dst" "micro (amount_in w src)" "micro (amount_in w dst)" "micro a" "\<not> read_bal w src < dbl a"
  shows "moved w src dst (stored w dst \<noteq> None) a (send_known src dst (dbl a) w)"
  using moved_move [OF assms] moved_debit [OF assms(2,4,5)] by (auto simp: send_known_def)

lemma pos_amount_dbl: "0 < a \<Longrightarrow> pos_amount (Some (dbl a)) = Some (dbl a)"
  using dbl_pos by (fastforce simp: pos_amount_def)

lemma exact_compare:
  assumes "\<And>k. micro (amount_in w k)" "micro a"
  shows "read_bal w k < dbl a \<longleftrightarrow> amount_in w k < a"
  unfolding read_bal_def by (rule micro_compare [OF assms])

lemma usdSend_outcome:
  assumes "\<And>k. micro (amount_in w k)" "micro a" "0 < a" "parse_finite amount = Some (dbl a)"
    and "u \<noteq> lower dest" "usdSend u dest amount w = (r, w')"
  shows "if r = None then moved w (u, Perp '''') (lower dest, Perp '''') (stored w (lower dest, Perp '''') \<noteq> None) a w'
    else r = Some InsufficientFunds \<and> amount_in w (u, Perp '''') < a \<and> w' = w"
  using assms(6) moved_send_known [OF _ assms(1) assms(1) assms(2), of "(u, Perp '''')" "(lower dest, Perp '''')"] assms(5)
  unfolding usdSend_def assms(4) pos_amount_dbl [OF assms(3)] option.case Let_def exact_compare [OF assms(1,2)]
  by (auto simp del: stored.simps split: if_splits)

lemma spotSend_outcome:
  assumes "\<And>k. micro (amount_in w k)" "micro a" "0 < a" "parse_finite amount = Some (dbl a)"
    and "u \<noteq> lower dest" "starts_with ''usdc:'' (lower token)" "CHR '':'' \<in> set token"
    and "spotSend u dest token amount w = (r, w')"
  shows "if r = None then moved w (u, Spot) (lower dest, Spot) (stored w (lower dest, Spot) \<noteq> None) a w'
    else r = Some InsufficientFunds \<and> amount_in w (u, Spot) < a \<and> w' = w"
  using assms(8) moved_send_known [OF _ assms(1) assms(1) assms(2), of "(u, Spot)" "(lower dest, Spot)"] assms(5-7)
  unfolding spotSend_def assms(4) pos_amount_dbl [OF assms(3)] option.case Let_def exact_compare [OF assms(1,2)]
  by (auto simp del: stored.simps split: if_splits)

lemma sendAsset_outcome:
  assumes "\<And>k. micro (amount_in w k)" "micro a" "0 < a" "parse_finite amount = Some (dbl a)"
    and "src = (if sub \<noteq> '''' then lower sub else u, bucket_of sd)" "dst = (lower dest, bucket_of dd)" "src \<noteq> dst"
    and "sendAsset u dest sd dd token amount sub w = (r, w')"
  shows "if r = None then moved w src dst (dd \<noteq> ''evm'' \<and> (lower dest = lower u \<or> stored w dst \<noteq> None)) a w'
    else (r = Some InvalidSend \<or> r = Some InsufficientFunds \<and> amount_in w src < a) \<and> w' = w"
  using assms(8) moved_move [OF assms(7) assms(1) assms(1) assms(2)] moved_debit [OF assms(1,2), of src dst]
  unfolding sendAsset_def assms(4) pos_amount_dbl [OF assms(3)] option.case Let_def
    assms(5,6) [symmetric] exact_compare [OF assms(1,2)]
  by (auto simp del: stored.simps split: if_splits)


definition rich :: sys where
  \<comment> \<open>user u holds 1000 dollars on the native exchange, user v holds 5\<close>
  "rich = empty_sys\<lparr>core := empty_state\<lparr>balance :=
     (\<lambda>x scope. if scope = '''' then (if x = ''u'' then Some 1000 else if x = ''v'' then Some 5 else None) else None)\<rparr>\<rparr>"

lemma rich_amounts: "amount_in rich (x, b) =
    (if b = Perp '''' then (if x = ''u'' then 1000 else if x = ''v'' then 5 else 0) else 0)"
  by (cases b) (simp_all add: amount_in_def rich_def empty_sys_def empty_state_def)

lemma micro_nat: "n \<le> 1000 \<Longrightarrow> micro (of_nat n)"
proof -
  assume "n \<le> 1000"
  then have "(of_nat n :: rat) \<le> 1000" by (metis of_nat_le_iff of_nat_numeral)
  moreover have "on_grid 6 (of_nat n)" by (auto simp: on_grid_def intro: exI [of _ "int n * 10 ^ 6"])
  ultimately show ?thesis by (simp add: micro_def)
qed

lemma rich_micro: "micro (amount_in rich k)"
  using micro_nat [of 1000] micro_nat [of 5] micro_nat [of 0] by (cases k) (auto simp: rich_amounts)

lemma dbl_of_300: "parse_finite ''300'' = Some (dbl 300)"
proof -
  have "decimal_prefix ''300'' = Some 300"
    by code_simp
  then show ?thesis by (simp add: parse_finite_def)
qed


subsection \<open>Aliasing and foreign accounts\<close>

lemma usdSend_to_self_mints:
  \<comment> \<open>the destination is not compared with the sender: both writes hit one balance\<close>
  assumes "\<And>k. micro (amount_in w k)" "micro a" "0 < a" "parse_finite amount = Some (dbl a)"
    and "lower dest = u" "stored w (u, Perp '''') \<noteq> None" "a \<le> amount_in w (u, Perp '''')"
  shows "amount_in (snd (usdSend u dest amount w)) (u, Perp '''') = amount_in w (u, Perp '''') + a"
  using assms(5-7) move_funds_self [OF assms(1,2), of "(u, Perp '''')"]
  unfolding usdSend_def assms(4) pos_amount_dbl [OF assms(3)] option.case Let_def exact_compare [OF assms(1,2)]
  by (auto simp: send_known_def simp del: stored.simps)

lemma sendAsset_takes_from_any_account:
  \<comment> \<open>the owner of the account named as the sub-account is not checked\<close>
  assumes "\<And>k. micro (amount_in w k)" "micro a" "0 < a" "parse_finite amount = Some (dbl a)"
    and "victim \<noteq> ''''" "lower victim \<noteq> lower u" "a \<le> amount_in w (lower victim, Perp '''')"
  shows "moved w (lower victim, Perp '''') (lower u, Spot) True a (snd (sendAsset u u '''' ''spot'' token amount victim w))"
proof -
  obtain r w' where s: "sendAsset u u '''' ''spot'' token amount victim w = (r, w')" by force
  have "r \<noteq> Some InvalidSend"
    using s by (auto simp: sendAsset_def assms(4) pos_amount_dbl [OF assms(3)] Let_def split: if_splits)
  with sendAsset_outcome [OF assms(1-4) refl refl _ s] assms(5-7) show ?thesis
    by (simp add: s bucket_of_def split: if_splits)
qed

lemma usdClassTransfer_takes_from_any_account:
  \<comment> \<open>nor is the owner of the account in the suffix of the amount\<close>
  assumes "\<And>k. micro (amount_in w k)" "micro a" "0 < a" "parseAmountWithSubaccount amount = (Some (dbl a), Some victim)"
    and "victim \<noteq> u" "a \<le> amount_in w (victim, Perp '''')"
  shows "moved w (victim, Perp '''') (u, Perp '''') True a (snd (usdClassTransfer u amount True w))"
  using assms(5,6) moved_move [OF _ assms(1) assms(1) assms(2), of "(victim, Perp '''')" "(u, Perp '''')"]
  unfolding usdClassTransfer_def assms(4) prod.case pos_amount_dbl [OF assms(3)] option.case Let_def
    exact_compare [OF assms(1,2)]
  by (simp add: exact_compare [OF assms(1,2)])

end
