(* ===== verification/Subaccounts.thy ===== *)
theory Subaccounts
  imports Transfers "HOL-Library.Word"
begin

text \<open>
  engine/subaccount.ts: the sub-accounts of a master, with their names and derived addresses,
  the transfers between a master and its sub-accounts, and the deposits into vaults.
\<close>

unbundle bit_operations_syntax

subsection \<open>Creating and renaming\<close>

definition masterOf :: "sys \<Rightarrow> user \<Rightarrow> user \<Rightarrow> bool" where
  \<comment> \<open>an empty entry counts as missing\<close>
  "masterOf w master sub =
    (case subMaster w sub of None \<Rightarrow> False | Some m \<Rightarrow> m \<noteq> '''' \<and> lower m = lower master)"

definition isSubAccountOf :: "sys \<Rightarrow> user \<Rightarrow> user \<Rightarrow> bool" where
  "isSubAccountOf w master sub = (map_option lower (subMaster w sub) = Some (lower master))"

definition hash_step :: "32 word \<Rightarrow> char \<Rightarrow> 32 word" where
  "hash_step h c = push_bit 5 h - h + of_nat (of_char c)"

definition name_hash :: "string \<Rightarrow> 32 word" where
  "name_hash raw = foldl hash_step 0 raw"

definition strip_0x :: "string \<Rightarrow> string" where
  "strip_0x s = (if starts_with ''0x'' s \<or> starts_with ''0X'' s then drop 2 s else s)"

definition subAddress :: "user \<Rightarrow> string \<Rightarrow> user" where
  "subAddress master name =
    (let h = name_hash (master @ '':'' @ name);
         hashHex = pad_start 8 (CHR ''0'') (show_hex (nat \<bar>sint h\<bar>));
         masterHex = take 32 (strip_0x master)
     in pad_end 42 (CHR ''0'') (take 42 (''0x'' @ masterHex @ hashHex)))"

definition has_name :: "sys \<Rightarrow> string \<Rightarrow> user \<Rightarrow> bool" where
  "has_name w name sub = (map_option (lower \<circ> sm_name) (subMeta w sub) = Some (lower name))"

definition name_error :: "string \<Rightarrow> AccountError option" where
  "name_error name = (if name = '''' then Some NameEmpty else if 16 < length name then Some NameTooLong else None)"

definition createSubAccount :: "env \<Rightarrow> rat \<Rightarrow> user \<Rightarrow> string \<Rightarrow> sys \<Rightarrow> (AccountError + user) \<times> sys" where
  "createSubAccount E defaultBalance master name w =
    (let nm = js_trim name in
     case name_error nm of Some err \<Rightarrow> (Inl err, w)
     | None \<Rightarrow>
        if list_ex (has_name w nm) (map fst (subAccounts w master)) then (Inl NameTaken, w)
        else
          let sub = subAddress master nm;
              w1 = w\<lparr>subAccounts := (subAccounts w)(master := zadd (now E) sub (subAccounts w master)),
                     subMeta := (subMeta w)(sub := Some \<lparr>sm_name = nm, sm_master = master, sm_createdAt = now E\<rparr>),
                     subMaster := (subMaster w)(sub := Some master)\<rparr>
          in (Inr sub, ensureAccount E defaultBalance sub w1))"

definition rename_meta :: "string \<Rightarrow> SubMeta option \<Rightarrow> SubMeta option" where
  \<comment> \<open>HSET on one field; \<open>None\<close> cannot occur for an address with a master\<close>
  "rename_meta nm mt = (case mt of None \<Rightarrow> Some \<lparr>sm_name = nm, sm_master = '''', sm_createdAt = 0\<rparr>
     | Some m \<Rightarrow> Some (m\<lparr>sm_name := nm\<rparr>))"

definition subAccountModify :: "user \<Rightarrow> user \<Rightarrow> string \<Rightarrow> sys \<Rightarrow> AccountError option \<times> sys" where
  "subAccountModify master subAccountUser name w =
    (let nm = js_trim name; sub = lower subAccountUser in
     case name_error nm of Some err \<Rightarrow> (Some err, w)
     | None \<Rightarrow>
        if \<not> masterOf w master sub then (Some UnknownSubAccount, w)
        else if list_ex (\<lambda>sib. lower sib \<noteq> sub \<and> has_name w nm sib) (map fst (subAccounts w master))
        then (Some NameTaken, w)
        else (None, w\<lparr>subMeta := (subMeta w)(sub := rename_meta nm (subMeta w sub))\<rparr>))"

subsection \<open>Transfers\<close>

definition usd_amount :: "rat \<Rightarrow> rat" where
  "usd_amount usd = dbl (usd / 1000000)"

definition subAccountTransfer :: "env \<Rightarrow> user \<Rightarrow> user \<Rightarrow> bool \<Rightarrow> rat \<Rightarrow> sys \<Rightarrow> AccountError option \<times> sys" where
  "subAccountTransfer E master subAccountUser isDeposit usd w =
    (let sub = lower subAccountUser; amt = usd_amount usd;
         sender = (if isDeposit then master else sub); receiver = (if isDeposit then sub else master) in
     if \<not> masterOf w master sub then (Some UnknownSubAccount, w)
     else if amt \<le> 0 then (Some AmountNotPositive, w)
     else if read_bal w (sender, Perp '''') < amt then (Some InsufficientFunds, w)
     else
       let usdc = js_toFixed 6 amt
       in (None,
           emit_core (LedgerRow receiver (now E) ''subAccountTransfer'' usdc)
             (emit_core (LedgerRow sender (now E) ''subAccountTransfer'' (- usdc))
               (move_funds (sender, Perp '''') (receiver, Perp '''') amt w))))"

definition subAccountSpotTransfer :: "user \<Rightarrow> user \<Rightarrow> sys \<Rightarrow> AccountError option \<times> sys" where
  \<comment> \<open>acknowledged only\<close>
  "subAccountSpotTransfer master subAccountUser w =
    (if \<not> masterOf w master (lower subAccountUser) then (Some UnknownSubAccount, w) else (None, w))"

definition equity_in :: "sys \<Rightarrow> user \<Rightarrow> user \<Rightarrow> rat" where
  "equity_in w u va = (case vaultEquities w u va of None \<Rightarrow> 0 | Some e \<Rightarrow> e)"

definition set_equity :: "user \<Rightarrow> user \<Rightarrow> rat \<Rightarrow> sys \<Rightarrow> sys" where
  "set_equity u va e w =
    w\<lparr>vaultEquities := (vaultEquities w)(u := (vaultEquities w u)(va := Some e))\<rparr>"

definition vaultTransfer :: "env \<Rightarrow> user \<Rightarrow> user \<Rightarrow> bool \<Rightarrow> rat \<Rightarrow> sys \<Rightarrow> AccountError option \<times> sys" where
  "vaultTransfer E u vaultAddress isDeposit usd w =
    (let va = lower vaultAddress; amt = usd_amount usd;
         bal = read_bal w (u, Perp ''''); equity = dbl (equity_in w u va) in
     if amt \<le> 0 then (Some AmountNotPositive, w)
     else if isDeposit then
       if bal < amt then (Some InsufficientFunds, w)
       else
         let w1 = set_equity u va (fix6 (equity + amt)) (store_bal (u, Perp '''') (fix6 (bal - amt)) w)
         in (None, if vaultMeta w va \<noteq> None then w1
                   else w1\<lparr>vaultMeta := (vaultMeta w1)(va := Some \<lparr>vm_leader = u, vm_createdAt = now E\<rparr>)\<rparr>)
     else if equity < amt then (Some InsufficientFunds, w)
     else (None, set_equity u va (fix6 (equity - amt)) (store_bal (u, Perp '''') (fix6 (bal + amt)) w)))"

subsection \<open>Addresses\<close>

lemma length_subAddress [simp]: "length (subAddress m n) = 42"
  by (simp add: subAddress_def Let_def pad_end_def)

lemma lower_hex_char: "d < 16 \<Longrightarrow> lower_char (hex_char d) = hex_char d"
  by (simp add: hex_char_def lower_char_def Let_def)

lemma lower_show_hex: "lower (show_hex n) = show_hex n"
proof (induction n rule: show_hex.induct)
  case (1 n)
  then show ?case by (subst (1 2) show_hex.simps) (simp add: lower_def lower_hex_char)
qed

lemma lower_take: "lower s = s \<Longrightarrow> lower (take n s) = take n s"
  by (simp add: lower_def flip: take_map)

lemma lower_drop: "lower s = s \<Longrightarrow> lower (drop n s) = drop n s"
  by (simp add: lower_def flip: drop_map)

lemma lower_append [simp]: "lower (s @ t) = lower s @ lower t"
  by (simp add: lower_def)

lemma lower_zeros: "lower (replicate n (CHR ''0'')) = replicate n (CHR ''0'')"
  by (simp add: lower_def lower_char_def Let_def)

lemma lower_strip: "lower s = s \<Longrightarrow> lower (strip_0x s) = strip_0x s"
  by (simp add: strip_0x_def lower_drop)

lemma lower_subAddress: "lower m = m \<Longrightarrow> lower (subAddress m n) = subAddress m n"
proof -
  assume m: "lower m = m"
  have "lower ''0x'' = ''0x''" by code_simp
  then have "lower (''0x'' @ take 32 (strip_0x m) @ pad_start 8 (CHR ''0'') (show_hex k)) =
      ''0x'' @ take 32 (strip_0x m) @ pad_start 8 (CHR ''0'') (show_hex k)" for k
    by (simp only: lower_append lower_take [OF lower_strip [OF m]] pad_start_def lower_zeros lower_show_hex)
  then show ?thesis
    by (simp only: subAddress_def Let_def pad_end_def lower_append lower_take lower_zeros)
qed

lemma hash_concat: "name_hash (a @ b) = foldl hash_step (name_hash a) b"
  by (simp add: name_hash_def)

lemma subAddress_collision:
  \<comment> \<open>the names Aa and BB lead to one address under every master\<close>
  "subAddress m ''Aa'' = subAddress m ''BB''"
proof -
  have "foldl hash_step h ''Aa'' = foldl hash_step h ''BB''" for h
    by (simp add: hash_step_def push_bit_eq_mult)
  then have "name_hash (m @ '':'' @ ''Aa'') = name_hash (m @ '':'' @ ''BB'')"
    by (simp only: append_assoc [symmetric] hash_concat)
  then show ?thesis by (simp only: subAddress_def Let_def)
qed

subsection \<open>Names\<close>

lemma emit_core_frame [simp]:
  "subAccounts (emit_core ev w) = subAccounts w" "subMeta (emit_core ev w) = subMeta w"
  "subMaster (emit_core ev w) = subMaster w"
  by (simp_all add: emit_core_def)

lemma ensure_frame [simp]:
  "subAccounts (ensureAccount E d u w) = subAccounts w" "subMeta (ensureAccount E d u w) = subMeta w"
  "subMaster (ensureAccount E d u w) = subMaster w"
proof -
  have s: "subAccounts (seed_dex u w d) = subAccounts w" "subMeta (seed_dex u w d) = subMeta w"
    "subMaster (seed_dex u w d) = subMaster w" for w d
    by (simp_all add: seed_dex_def split: option.splits)
  have f: "subAccounts (foldl (seed_dex u) w ds) = subAccounts w" "subMeta (foldl (seed_dex u) w ds) = subMeta w"
    "subMaster (foldl (seed_dex u) w ds) = subMaster w" for w ds
    by (induction ds arbitrary: w) (simp_all add: s)
  show "subAccounts (ensureAccount E d u w) = subAccounts w" "subMeta (ensureAccount E d u w) = subMeta w"
    "subMaster (ensureAccount E d u w) = subMaster w"
    by (simp_all add: ensureAccount_def Let_def f split: option.splits)
qed

definition sub_name :: "sys \<Rightarrow> user \<Rightarrow> string option" where
  "sub_name w sub = map_option (lower \<circ> sm_name) (subMeta w sub)"

definition sub_entry_ok :: "sys \<Rightarrow> user \<Rightarrow> user \<Rightarrow> bool" where
  "sub_entry_ok w m sub \<longleftrightarrow> lower sub = sub \<and> subMaster w sub = Some m \<and>
    (case subMeta w sub of None \<Rightarrow> False | Some mt \<Rightarrow> name_error (sm_name mt) = None)"

definition subs_ok :: "sys \<Rightarrow> user \<Rightarrow> bool" where
  \<comment> \<open>every listed sub-account points back to its master and has a valid name; no two share a
    name or differ in case only\<close>
  "subs_ok w m \<longleftrightarrow> list_all (\<lambda>e. sub_entry_ok w m (fst e)) (subAccounts w m) \<and>
    distinct (map (sub_name w \<circ> fst) (subAccounts w m))"

lemma has_name_iff: "has_name w nm sub \<longleftrightarrow> sub_name w sub = Some (lower nm)"
  by (simp add: has_name_def sub_name_def)

lemma create_keeps_subs_ok:
  assumes "subs_ok w m" "lower m = m"
  shows "subs_ok (snd (createSubAccount E d m name w)) m"
proof (cases "name_error (js_trim name) \<noteq> None \<or> list_ex (has_name w (js_trim name)) (map fst (subAccounts w m))")
  case True
  then have "snd (createSubAccount E d m name w) = w" by (auto simp: createSubAccount_def Let_def split: option.splits)
  with assms show ?thesis by simp
next
  case False
  define nm where "nm = js_trim name"
  define sub where "sub = subAddress m nm"
  define w1 where "w1 = w\<lparr>subAccounts := (subAccounts w)(m := zadd (now E) sub (subAccounts w m)),
     subMeta := (subMeta w)(sub := Some \<lparr>sm_name = nm, sm_master = m, sm_createdAt = now E\<rparr>),
     subMaster := (subMaster w)(sub := Some m)\<rparr>"
  have res: "snd (createSubAccount E d m name w) = ensureAccount E d sub w1"
    using False by (simp add: createSubAccount_def Let_def nm_def sub_def w1_def)
  have fresh: "sub_name w (fst e) \<noteq> Some (lower nm)" if "e \<in> set (subAccounts w m)" for e
    using False that by (auto simp: nm_def has_name_iff list_ex_iff)
  have same: "sub_name w1 x = sub_name w x" if "x \<noteq> sub" for x using that by (simp add: sub_name_def w1_def)
  have "list_all (\<lambda>e. sub_entry_ok w1 m (fst e)) (subAccounts w1 m)"
    using assms(1) False lower_subAddress [OF assms(2), of nm]
    by (auto simp: subs_ok_def list_all_iff w1_def zadd_def zrem_def sub_entry_ok_def sub_def nm_def)
  moreover have "distinct (map (sub_name w1 \<circ> fst) (subAccounts w1 m))"
  proof -
    have eq: "map (sub_name w1 \<circ> fst) (zrem sub (subAccounts w m)) = map (sub_name w \<circ> fst) (zrem sub (subAccounts w m))"
      by (auto simp: zrem_def same)
    have "distinct (map (sub_name w1 \<circ> fst) (zrem sub (subAccounts w m)))"
      using assms(1) unfolding eq unfolding zrem_def by (intro distinct_map_filter) (simp add: subs_ok_def)
    moreover have "sub_name w1 sub = Some (lower nm)" by (simp add: sub_name_def w1_def)
    ultimately show ?thesis
      using fresh same by (force simp: w1_def [THEN arg_cong [of _ _ subAccounts]] zadd_def zrem_def)
  qed
  ultimately have "subs_ok w1 m" by (simp add: subs_ok_def)
  moreover have "sub_name (ensureAccount E d sub w1) = sub_name w1" by (simp add: sub_name_def fun_eq_iff)
  ultimately show ?thesis by (simp add: res subs_ok_def sub_entry_ok_def)
qed

lemma modify_keeps_subs_ok:
  assumes "subs_ok w m"
  shows "subs_ok (snd (subAccountModify m s name w)) m"
proof (cases "snd (subAccountModify m s name w) = w")
  case True
  with assms show ?thesis by simp
next
  case False
  define nm where "nm = js_trim name"
  define sub where "sub = lower s"
  define w1 where "w1 = w\<lparr>subMeta := (subMeta w)(sub := rename_meta nm (subMeta w sub))\<rparr>"
  have ne: "name_error nm = None"
    and free: "\<not> list_ex (\<lambda>sib. lower sib \<noteq> sub \<and> has_name w nm sib) (map fst (subAccounts w m))"
    and res: "snd (subAccountModify m s name w) = w1"
    using False by (auto simp: subAccountModify_def Let_def nm_def sub_def w1_def split: option.splits if_splits)
  have entry: "sub_entry_ok w m (fst e)" if "e \<in> set (subAccounts w m)" for e
    using assms that by (simp add: subs_ok_def list_all_iff)
  have fresh: "sub_name w (fst e) \<noteq> Some (lower nm)" if "e \<in> set (subAccounts w m)" "fst e \<noteq> sub" for e
    using free that entry [OF that(1)] by (auto simp: list_ex_iff has_name_iff sub_entry_ok_def)
  have nmv: "sub_name w1 x = (if x = sub then Some (lower nm) else sub_name w x)" for x
    by (simp add: sub_name_def w1_def rename_meta_def split: option.splits)
  have l: "subAccounts w1 m = subAccounts w m" by (simp add: w1_def)
  have "sub_entry_ok w1 m (fst e)" if "e \<in> set (subAccounts w m)" for e
    using entry [OF that] ne by (auto simp: sub_entry_ok_def w1_def rename_meta_def split: option.splits)
  moreover have "distinct (map (sub_name w1 \<circ> fst) (subAccounts w m))"
    using assms fresh fresh [symmetric] by (auto simp: subs_ok_def distinct_map inj_on_def nmv split: if_splits)
  ultimately show ?thesis unfolding res by (simp add: subs_ok_def l list_all_iff)
qed

text \<open>
  The sub-accounts of a master always have different names, compared without regard to case,
  of 1 to 16 characters, and each points back to its master: creating and renaming keep this,
  whether they succeed or refuse, and also when the address derived for a new name is one that
  is already in use.
\<close>

theorem sub_names_unique:
  assumes "subs_ok w m" "lower m = m"
  shows "subs_ok (snd (createSubAccount E d m name w)) m \<and> subs_ok (snd (subAccountModify m s name w)) m"
  using create_keeps_subs_ok [OF assms] modify_keeps_subs_ok [OF assms(1)] by blast

theorem sub_names_unique_witness:
  "subs_ok (snd (createSubAccount sample_env 100 ''0xab'' '' Main '' empty_sys)) ''0xab''"
proof -
  have "subs_ok empty_sys ''0xab''" by (simp add: subs_ok_def empty_sys_def)
  moreover have "lower ''0xab'' = ''0xab''" by code_simp
  ultimately show ?thesis by (rule sub_names_unique [THEN conjunct1])
qed

lemma colliding_names_share_an_account:
  \<comment> \<open>the second name takes over the account of the first\<close>
  assumes "createSubAccount E d m ''Aa'' w = (Inr a, w1)" "createSubAccount E' d m ''BB'' w1 = (Inr b, w2)"
  shows "a = b \<and> map_option sm_name (subMeta w2 a) = Some ''BB''"
proof -
  have t: "js_trim ''Aa'' = ''Aa''" "js_trim ''BB'' = ''BB''" by code_simp+
  have a: "a = subAddress m ''Aa''" "b = subAddress m ''BB''"
    using assms unfolding createSubAccount_def t by (auto simp: Let_def split: option.splits if_splits)
  moreover have "subMeta w2 b = Some \<lparr>sm_name = ''BB'', sm_master = m, sm_createdAt = now E'\<rparr>"
    using assms(2) unfolding createSubAccount_def t by (auto simp: Let_def split: option.splits if_splits)
  ultimately show ?thesis using subAddress_collision by simp
qed

subsection \<open>What the transfers move\<close>

lemma bus_store [simp]: "bus (core (store_bal k v w)) = bus (core w)"
  by (cases k; cases "snd k") auto

lemma usd_amount_dbl: "usd_amount (of_int n) = dbl (of_int n / 10 ^ 6)"
  by (simp add: usd_amount_def)

lemma micro_int: "0 < n \<Longrightarrow> n \<le> 2 ^ 48 \<Longrightarrow> micro (of_int n / 10 ^ 6)"
proof -
  assume n: "0 < n" "n \<le> 2 ^ 48"
  then have "(of_int n :: rat) \<le> of_int (2 ^ 48)" by (subst of_int_le_iff)
  with n show ?thesis by (auto simp: micro_def on_grid_def)
qed

lemma toFixed_micro: "micro a \<Longrightarrow> js_toFixed 6 (dbl a) = a"
  using micro_near [of a] by (intro toFixed_near) (simp_all add: micro_def)

lemma sub_transfer_exact:
  assumes "\<And>k. micro (amount_in w k)" "0 < n" "n \<le> 2 ^ 48" "u \<noteq> lower s"
    and "sender = (if dep then u else lower s)" "receiver = (if dep then lower s else u)" "a = of_int n / 10 ^ 6"
    and "subAccountTransfer E u s dep (of_int n) w = (r, w')"
  shows "if r = None then masterOf w u (lower s) \<and> moved w (sender, Perp '''') (receiver, Perp '''') True a w' \<and>
      bus (core w') = bus (core w) @ [LedgerRow sender (now E) ''subAccountTransfer'' (- a),
        LedgerRow receiver (now E) ''subAccountTransfer'' a]
    else w' = w"
proof -
  have a: "micro a" "0 < a" using micro_int [OF assms(2,3)] assms(2) by (simp_all add: assms(7))
  have d: "usd_amount (of_int n) = dbl a" by (simp add: usd_amount_dbl assms(7))
  have ne: "(sender, Perp '''') \<noteq> (receiver, Perp '''')" using assms(4) by (auto simp: assms(5,6))
  define M where "M = move_funds (sender, Perp '''') (receiver, Perp '''') (dbl a) w"
  have bus: "bus (core M) = bus (core w)" unfolding M_def move_funds_def by (simp only: bus_store)
  have mv: "moved w (sender, Perp '''') (receiver, Perp '''') True a M"
    if "\<not> read_bal w (sender, Perp '''') < dbl a"
    unfolding M_def by (rule moved_move [OF ne assms(1) assms(1) a(1) that])
  have em: "moved w src dst c a (emit_core e M) = moved w src dst c a M" for src dst c e M
    by (simp add: moved_def)
  have eb: "bus (core (emit_core e M)) = bus (core M) @ [e]" for e M by (simp add: emit_core_def emit_def)
  show ?thesis
    using assms(8) mv dbl_pos [OF a(2)]
    unfolding subAccountTransfer_def Let_def d toFixed_micro [OF a(1)] assms(5,6) [symmetric] M_def [symmetric]
    by (auto simp: em eb bus split: if_splits)
qed

lemma equity_set [simp]: "equity_in (set_equity u v e w) u v = e"
  by (simp add: equity_in_def set_equity_def)

lemma stored_equity [simp]: "stored (set_equity u v e w) k = stored w k"
  by (cases k; cases "snd k") (simp_all add: set_equity_def)

lemma vault_frame: "stored (w\<lparr>vaultMeta := f\<rparr>) k = stored w k" "equity_in (w\<lparr>vaultMeta := f\<rparr>) u v = equity_in w u v"
  by (cases k; cases "snd k"; simp) (simp add: equity_in_def)

lemma vault_transfer_exact:
  assumes "\<And>k. micro (amount_in w k)" "\<And>v. micro (equity_in w u v)" "0 < n" "n \<le> 2 ^ 48"
    and "a = of_int n / 10 ^ 6" "vaultTransfer E u v dep (of_int n) w = (r, w')"
  shows "if r = None then
      amount_in w' (u, Perp '''') = amount_in w (u, Perp '''') + (if dep then - a else a) \<and>
      equity_in w' u (lower v) = equity_in w u (lower v) + (if dep then a else - a) \<and>
      0 \<le> amount_in w' (u, Perp '''') \<and> 0 \<le> equity_in w' u (lower v)
    else w' = w"
proof -
  define b where "b = amount_in w (u, Perp '''')"
  define q where "q = equity_in w u (lower v)"
  have m: "micro b" "micro q" using assms(1,2) by (simp_all add: b_def q_def)
  have a: "micro a" "0 < a" using micro_int [OF assms(3,4)] assms(3) by (simp_all add: assms(5))
  have d: "usd_amount (of_int n) = dbl a" by (simp add: usd_amount_dbl assms(5))
  have r: "read_bal w (u, Perp '''') = dbl b" by (simp add: read_bal_def b_def)
  have pos: "0 \<le> b" "0 \<le> q" using m by (simp_all add: micro_def)
  have sub: "fix6 (dbl x - dbl a) = x - a \<and> a \<le> x" if "micro x" "\<not> dbl x < dbl a" for x
  proof -
    have "a \<le> x" using that micro_compare [OF that(1) a(1)] by simp
    with that fix6_sub [OF that(1) a(1)] show ?thesis by simp
  qed
  note facts = sub [OF m(1)] sub [OF m(2)] fix6_add [OF m(1) a(1)] fix6_add [OF m(2) a(1)] dbl_pos [OF a(2)]
  show ?thesis
    using assms(6) facts pos a(2)
    unfolding vaultTransfer_def Let_def d r q_def [symmetric]
    by (auto simp: amount_in_def [of w'] vault_frame q_def b_def simp del: stored.simps store_bal.simps split: if_splits)
qed


definition family :: sys where
  \<comment> \<open>user u with 1000 dollars and its empty sub-account s\<close>
  "family = rich\<lparr>subMaster := (\<lambda>x. if x = ''s'' then Some ''u'' else None)\<rparr>"

lemma family_amounts: "amount_in family k = amount_in rich k" "equity_in family u v = 0"
  by (cases k; cases "snd k"; simp add: amount_in_def family_def)
    (simp add: equity_in_def family_def rich_def empty_sys_def)


end
