(* ===== verification/Staking.thy ===== *)
theory Staking
  imports Accounts "HOL-Library.Char_ord" "HOL-Library.List_Lexorder" "HOL-Library.Product_Lexorder"
begin

text \<open>
  engine/staking.ts: HYPE in the staking account, delegations with a lock of one day, and the
  withdrawal queue of seven days with its sweep. Amounts are BigInt wei. The members of the two
  sorted sets are JSON texts; entries with equal fields have equal texts, so the records stand
  for them, and entries of the same score come in the order of the texts.
\<close>

definition SEVEN_DAYS_MS :: millis where "SEVEN_DAYS_MS = 604800000"
definition ONE_DAY_MS :: millis where "ONE_DAY_MS = 86400000"

definition wei_of :: "rat \<Rightarrow> int option" where
  \<comment> \<open>a positive integer number\<close>
  "wei_of x = (if 0 < x \<and> of_int \<lfloor>x\<rfloor> = x then Some \<lfloor>x\<rfloor> else None)"

definition staked :: "sys \<Rightarrow> user \<Rightarrow> int" where
  "staked w u = (case stakingBalance w u of None \<Rightarrow> 0 | Some b \<Rightarrow> b)"

definition appendStakingEvent :: "user \<Rightarrow> StakingEvent \<Rightarrow> sys \<Rightarrow> sys" where
  \<comment> \<open>newest first, at most 200\<close>
  "appendStakingEvent u ev w = w\<lparr>stakingEvents := (stakingEvents w)(u := take 200 (ev # stakingEvents w u))\<rparr>"

definition cDeposit :: "env \<Rightarrow> user \<Rightarrow> rat \<Rightarrow> sys \<Rightarrow> AccountError option \<times> sys" where
  "cDeposit E u wei w =
    (case wei_of wei of None \<Rightarrow> (Some WeiInvalid, w)
     | Some n \<Rightarrow>
        (None, appendStakingEvent u \<lparr>se_kind = CDeposit, se_wei = n, se_validator = None, se_timestamp = now E\<rparr>
                 (w\<lparr>stakingBalance := (stakingBalance w)(u := Some (staked w u + n))\<rparr>)))"

definition cWithdraw :: "env \<Rightarrow> user \<Rightarrow> rat \<Rightarrow> sys \<Rightarrow> AccountError option \<times> sys" where
  "cWithdraw E u wei w =
    (case wei_of wei of None \<Rightarrow> (Some WeiInvalid, w)
     | Some n \<Rightarrow>
        if staked w u < n then (Some InsufficientFunds, w)
        else
          let unlock = now E + SEVEN_DAYS_MS; entry = \<lparr>qe_wei = n, qe_unlockTime = unlock, qe_queuedAt = now E\<rparr>
          in (None, appendStakingEvent u \<lparr>se_kind = CWithdraw, se_wei = n, se_validator = None, se_timestamp = now E\<rparr>
                (w\<lparr>stakingBalance := (stakingBalance w)(u := Some (staked w u - n)),
                   stakingQueue := (stakingQueue w)(u := zadd unlock entry (stakingQueue w u))\<rparr>)))"

definition show_int :: "int \<Rightarrow> string" where
  "show_int n = (if n < 0 then ''-'' else []) @ show_nat (nat \<bar>n\<bar>)"

definition json_delegation :: "Delegation \<Rightarrow> string" where
  "json_delegation d =
    ''{\"validator\":\"'' @ dg_validator d @ ''\",\"wei\":\"'' @ show_int (dg_wei d) @ ''\",\"lockedUntil\":'' @
    show_int (dg_lockedUntil d) @ '',\"delegatedAt\":'' @ show_int (dg_delegatedAt d) @ ''}''"

definition delegations_to :: "sys \<Rightarrow> user \<Rightarrow> string \<Rightarrow> Delegation list" where
  \<comment> \<open>in the order of ZRANGE: by score, then by the text\<close>
  "delegations_to w u validator =
    filter (\<lambda>d. dg_validator d = validator)
      (map fst (sort_key (\<lambda>e. (snd e, json_delegation (fst e))) (delegations w u)))"

definition delegate :: "env \<Rightarrow> user \<Rightarrow> string \<Rightarrow> int \<Rightarrow> sys \<Rightarrow> AccountError option \<times> sys" where
  "delegate E u validator n w =
    (if staked w u < n then (Some InsufficientFunds, w)
     else
       let d = \<lparr>dg_validator = validator, dg_wei = n, dg_lockedUntil = now E + ONE_DAY_MS, dg_delegatedAt = now E\<rparr>
       in (None, appendStakingEvent u
             \<lparr>se_kind = Delegate, se_wei = n, se_validator = Some validator, se_timestamp = now E\<rparr>
             (w\<lparr>stakingBalance := (stakingBalance w)(u := Some (staked w u - n)),
                delegations := (delegations w)(u := zadd (dg_lockedUntil d) d (delegations w u))\<rparr>)))"

definition undelegate :: "env \<Rightarrow> user \<Rightarrow> string \<Rightarrow> int \<Rightarrow> sys \<Rightarrow> AccountError option \<times> sys" where
  "undelegate E u validator n w =
    (let entries = delegations_to w u validator
     in if entries = [] then (Some NoDelegation, w)
        else case List.find (\<lambda>d. n \<le> dg_wei d) entries of
          None \<Rightarrow> (Some InsufficientDelegation, w)
        | Some d \<Rightarrow>
            if now E < dg_lockedUntil d then (Some DelegationLocked, w)
            else
              let ds = zrem d (delegations w u); rest = dg_wei d - n;
                  ds' = (if 0 < rest then zadd (dg_lockedUntil d) (d\<lparr>dg_wei := rest\<rparr>) ds else ds)
              in (None, appendStakingEvent u
                    \<lparr>se_kind = Undelegate, se_wei = n, se_validator = Some validator, se_timestamp = now E\<rparr>
                    (w\<lparr>stakingBalance := (stakingBalance w)(u := Some (staked w u + n)),
                       delegations := (delegations w)(u := ds')\<rparr>)))"

definition tokenDelegate :: "env \<Rightarrow> user \<Rightarrow> string \<Rightarrow> rat \<Rightarrow> bool \<Rightarrow> sys \<Rightarrow> AccountError option \<times> sys" where
  "tokenDelegate E u validator wei isUndelegate w =
    (case wei_of wei of None \<Rightarrow> (Some WeiInvalid, w)
     | Some n \<Rightarrow>
        if validator = '''' then (Some ValidatorMissing, w)
        else if isUndelegate then undelegate E u (lower validator) n w
        else delegate E u (lower validator) n w)"

subsection \<open>The sweep of the withdrawal queue\<close>

definition hype_amount :: "int \<Rightarrow> rat" where
  "hype_amount wei = dbl (dbl (of_int wei) / 10 ^ 8)"

definition complete_withdrawal :: "env \<Rightarrow> user \<Rightarrow> QueueEntry \<Rightarrow> sys \<Rightarrow> sys" where
  \<comment> \<open>the units of HYPE are added to the dollars of the native exchange\<close>
  "complete_withdrawal E u entry w =
    (let w1 = store_bal (u, Perp '''') (fix6 (read_bal w (u, Perp '''') + hype_amount (qe_wei entry))) w;
         w2 = w1\<lparr>stakingQueue := (stakingQueue w1)(u := zrem entry (stakingQueue w1 u))\<rparr>
     in appendStakingEvent u
          \<lparr>se_kind = WithdrawalComplete, se_wei = qe_wei entry, se_validator = None, se_timestamp = now E\<rparr> w2)"

definition json_entry :: "QueueEntry \<Rightarrow> string" where
  "json_entry q =
    ''{\"wei\":\"'' @ show_int (qe_wei q) @ ''\",\"unlockTime\":'' @ show_int (qe_unlockTime q) @
    '',\"queuedAt\":'' @ show_int (qe_queuedAt q) @ ''}''"

definition ready_entries :: "env \<Rightarrow> user \<Rightarrow> sys \<Rightarrow> QueueEntry list" where
  \<comment> \<open>ZRANGEBYSCORE up to now, ties in the order of the texts\<close>
  "ready_entries E u w =
    map fst (sort_key (\<lambda>e. (snd e, json_entry (fst e))) (filter (\<lambda>e. snd e \<le> now E) (stakingQueue w u)))"

definition sweep_user :: "env \<Rightarrow> user \<Rightarrow> sys \<Rightarrow> sys" where
  "sweep_user E u w =
    foldl (\<lambda>acc e. complete_withdrawal E u e acc) w (ready_entries E u w)"

definition sweepStakingQueue :: "env \<Rightarrow> user list \<Rightarrow> sys \<Rightarrow> sys" where
  \<comment> \<open>the second argument is the result of the SCAN over the queue keys\<close>
  "sweepStakingQueue E scanned w = foldl (\<lambda>acc u. sweep_user E u acc) w scanned"

subsection \<open>Views\<close>

definition weiToHype :: "int \<Rightarrow> string" where
  \<comment> \<open>BigInt division truncates; the amounts are not negative\<close>
  "weiToHype n =
    (let frac = rev (dropWhile (\<lambda>c. c = CHR ''0'') (rev (pad_start 8 (CHR ''0'') (show_nat (nat (n mod 100000000))))))
     in show_nat (nat (n div 100000000)) @ ''.'' @ (if frac = [] then ''0'' else frac))"

record DelegatorSummary =
  ds_delegated :: string
  ds_undelegated :: string
  ds_totalPendingWithdrawal :: string
  ds_nPendingWithdrawals :: nat

definition getDelegatorSummary :: "sys \<Rightarrow> user \<Rightarrow> DelegatorSummary" where
  "getDelegatorSummary w u =
    \<lparr>ds_delegated = weiToHype (sum_list (map (dg_wei \<circ> fst) (delegations w u))),
     ds_undelegated = weiToHype (staked w u),
     ds_totalPendingWithdrawal = weiToHype (sum_list (map (qe_wei \<circ> fst) (stakingQueue w u))),
     ds_nPendingWithdrawals = length (stakingQueue w u)\<rparr>"

definition getDelegations :: "sys \<Rightarrow> user \<Rightarrow> (string \<times> string \<times> millis \<times> millis) list" where
  \<comment> \<open>validator, amount, locked until, since\<close>
  "getDelegations w u =
    map (\<lambda>(d, _). (dg_validator d, weiToHype (dg_wei d), dg_lockedUntil d, dg_delegatedAt d))
      (sort_key (\<lambda>e. (snd e, json_delegation (fst e))) (delegations w u))"

definition getDelegatorHistory :: "sys \<Rightarrow> user \<Rightarrow> (StakingKind \<times> string option \<times> string \<times> millis) list" where
  "getDelegatorHistory w u =
    map (\<lambda>e. (se_kind e, se_validator e, weiToHype (se_wei e), se_timestamp e)) (stakingEvents w u)"

subsection \<open>Sorted sets as sums\<close>

definition wei_sum :: "('a \<Rightarrow> int) \<Rightarrow> ('a \<times> millis) list \<Rightarrow> int" where
  "wei_sum f z = sum_list (map (f \<circ> fst) z)"

lemma wei_sum_simps [simp]:
  "wei_sum f [] = 0" "wei_sum f (e # z) = f (fst e) + wei_sum f z"
  by (simp_all add: wei_sum_def)

lemma zrem_absent: "x \<notin> fst ` set z \<Longrightarrow> zrem x z = z"
  by (force simp: zrem_def filter_id_conv)

lemma wei_sum_zrem:
  "distinct (map (k \<circ> fst) z) \<Longrightarrow> wei_sum f (zrem x z) = wei_sum f z - (if x \<in> fst ` set z then f x else 0)"
proof (induction z)
  case (Cons e z)
  have "fst e \<notin> fst ` set z" using Cons.prems by (simp add: image_iff) metis
  then have "zrem (fst e) z = z" by (rule zrem_absent)
  with Cons \<open>fst e \<notin> fst ` set z\<close> show ?case by (auto simp: zrem_def)
qed (simp add: zrem_def)

lemma wei_sum_zadd: "x \<notin> fst ` set z \<Longrightarrow> wei_sum f (zadd t x z) = f x + wei_sum f z"
  by (simp add: zadd_def zrem_absent)

lemma set_zrem: "set (zrem x z) = {e \<in> set z. fst e \<noteq> x}"
  by (simp add: zrem_def)

lemma distinct_zrem: "distinct (map (k \<circ> fst) z) \<Longrightarrow> distinct (map (k \<circ> fst) (zrem x z))"
  by (induction z) (auto simp: zrem_def)

lemma distinct_zadd:
  "distinct (map (k \<circ> fst) z) \<Longrightarrow> (\<And>e. e \<in> set z \<Longrightarrow> fst e \<noteq> x \<Longrightarrow> k (fst e) \<noteq> k x) \<Longrightarrow>
   distinct (map (k \<circ> fst) (zadd t x z))"
  using distinct_zrem [of k z x] by (force simp: zadd_def set_zrem)

subsection \<open>The invariant\<close>

definition hype_total :: "sys \<Rightarrow> user \<Rightarrow> int" where
  \<comment> \<open>all that a user has in staking: free, delegated and queued\<close>
  "hype_total w u = staked w u + wei_sum dg_wei (delegations w u) + wei_sum qe_wei (stakingQueue w u)"

definition dg_key :: "Delegation \<Rightarrow> string \<times> millis" where
  "dg_key d = (dg_validator d, dg_delegatedAt d)"

definition dg_ok :: "Delegation \<times> millis \<Rightarrow> bool" where
  "dg_ok e \<longleftrightarrow> snd e = dg_lockedUntil (fst e) \<and> dg_lockedUntil (fst e) = dg_delegatedAt (fst e) + ONE_DAY_MS \<and> 0 < dg_wei (fst e)"

definition qe_ok :: "QueueEntry \<times> millis \<Rightarrow> bool" where
  "qe_ok e \<longleftrightarrow> snd e = qe_unlockTime (fst e) \<and> qe_unlockTime (fst e) = qe_queuedAt (fst e) + SEVEN_DAYS_MS \<and> 0 < qe_wei (fst e)"

definition staking_ok :: "sys \<Rightarrow> user \<Rightarrow> bool" where
  \<comment> \<open>amounts are positive, each entry is scored by its own time, at most one entry of a kind
    is made in a millisecond\<close>
  "staking_ok w u \<longleftrightarrow> 0 \<le> staked w u \<and>
    distinct (map (dg_key \<circ> fst) (delegations w u)) \<and> distinct (map (qe_queuedAt \<circ> fst) (stakingQueue w u)) \<and>
    list_all dg_ok (delegations w u) \<and> list_all qe_ok (stakingQueue w u)"

definition all_earlier :: "env \<Rightarrow> sys \<Rightarrow> user \<Rightarrow> bool" where
  \<comment> \<open>the entries of the user were made before this millisecond\<close>
  "all_earlier E w u \<longleftrightarrow> list_all (\<lambda>e. dg_delegatedAt (fst e) < now E) (delegations w u) \<and>
    list_all (\<lambda>e. qe_queuedAt (fst e) < now E) (stakingQueue w u)"

lemma append_frame [simp]:
  "stakingBalance (appendStakingEvent u ev w) = stakingBalance w"
  "delegations (appendStakingEvent u ev w) = delegations w" "stakingQueue (appendStakingEvent u ev w) = stakingQueue w"
  "core (appendStakingEvent u ev w) = core w" "staked (appendStakingEvent u ev w) v = staked w v"
  "hype_total (appendStakingEvent u ev w) v = hype_total w v" "staking_ok (appendStakingEvent u ev w) v = staking_ok w v"
  by (simp_all add: appendStakingEvent_def staked_def hype_total_def staking_ok_def)

lemma wei_of_pos: "wei_of x = Some n \<Longrightarrow> 0 < n \<and> of_int n = x"
  by (auto simp: wei_of_def split: if_splits)

lemma delegations_to_set: "set (delegations_to w u v) = {d \<in> fst ` set (delegations w u). dg_validator d = v}"
  by (auto simp: delegations_to_def)

lemma find_first:
  assumes "List.find P xs = Some x"
  shows "x \<in> set xs" "P x"
  using assms by (auto simp: find_Some_iff)

lemma cDeposit_effect:
  assumes "staking_ok w u" "cDeposit E u x w = (None, w')"
  shows "\<exists>n. wei_of x = Some n \<and> staking_ok w' u \<and> hype_total w' u = hype_total w u + n"
proof -
  from assms(2) obtain n where n: "wei_of x = Some n" by (auto simp: cDeposit_def split: option.splits)
  with assms wei_of_pos [OF n] show ?thesis
    by (auto simp: cDeposit_def staking_ok_def hype_total_def staked_def)
qed

lemma cWithdraw_effect:
  assumes "staking_ok w u" "all_earlier E w u" "cWithdraw E u x w = (None, w')"
  shows "\<exists>n. wei_of x = Some n \<and> n \<le> staked w u \<and> staking_ok w' u \<and> hype_total w' u = hype_total w u"
proof -
  from assms(3) obtain n where n: "wei_of x = Some n" and le: "n \<le> staked w u"
    by (auto simp: cWithdraw_def split: option.splits if_splits)
  define q where "q = \<lparr>qe_wei = n, qe_unlockTime = now E + SEVEN_DAYS_MS, qe_queuedAt = now E\<rparr>"
  have w': "w' = appendStakingEvent u \<lparr>se_kind = CWithdraw, se_wei = n, se_validator = None, se_timestamp = now E\<rparr>
      (w\<lparr>stakingBalance := (stakingBalance w)(u := Some (staked w u - n)),
         stakingQueue := (stakingQueue w)(u := zadd (now E + SEVEN_DAYS_MS) q (stakingQueue w u))\<rparr>)"
    using assms(3) n le by (simp add: cWithdraw_def q_def Let_def)
  have old: "qe_queuedAt (fst e) < now E" if "e \<in> set (stakingQueue w u)" for e
    using assms(2) that by (simp add: all_earlier_def list_all_iff)
  then have new: "q \<notin> fst ` set (stakingQueue w u)" by (force simp: q_def)
  have "distinct (map (qe_queuedAt \<circ> fst) (zadd (now E + SEVEN_DAYS_MS) q (stakingQueue w u)))"
    using assms(1) old by (intro distinct_zadd) (force simp: staking_ok_def q_def)+
  moreover have "list_all qe_ok (zadd (now E + SEVEN_DAYS_MS) q (stakingQueue w u))"
    using assms(1) wei_of_pos [OF n] by (auto simp: staking_ok_def zadd_def zrem_absent new) (simp add: qe_ok_def q_def)
  ultimately show ?thesis
    using n le assms(1) wei_sum_zadd [OF new] unfolding w'
    by (simp add: staking_ok_def hype_total_def staked_def q_def)
qed

lemma delegate_effect:
  assumes "staking_ok w u" "all_earlier E w u" "0 < n" "delegate E u v n w = (None, w')"
  shows "n \<le> staked w u \<and> staking_ok w' u \<and> hype_total w' u = hype_total w u"
proof -
  have le: "n \<le> staked w u" using assms(4) by (auto simp: delegate_def split: if_splits)
  define d where "d = \<lparr>dg_validator = v, dg_wei = n, dg_lockedUntil = now E + ONE_DAY_MS, dg_delegatedAt = now E\<rparr>"
  have w': "w' = appendStakingEvent u \<lparr>se_kind = Delegate, se_wei = n, se_validator = Some v, se_timestamp = now E\<rparr>
      (w\<lparr>stakingBalance := (stakingBalance w)(u := Some (staked w u - n)),
         delegations := (delegations w)(u := zadd (dg_lockedUntil d) d (delegations w u))\<rparr>)"
    using assms(4) le by (simp add: delegate_def d_def Let_def)
  have old: "dg_delegatedAt (fst e) < now E" if "e \<in> set (delegations w u)" for e
    using assms(2) that by (simp add: all_earlier_def list_all_iff)
  then have new: "d \<notin> fst ` set (delegations w u)" by (force simp: d_def)
  have "distinct (map (dg_key \<circ> fst) (zadd (dg_lockedUntil d) d (delegations w u)))"
    using assms(1) old by (intro distinct_zadd) (force simp: staking_ok_def d_def dg_key_def)+
  moreover have "list_all dg_ok (zadd (dg_lockedUntil d) d (delegations w u))"
    using assms(1,3) by (auto simp: staking_ok_def zadd_def zrem_absent new) (simp add: dg_ok_def d_def)
  ultimately show ?thesis
    using le assms(1) wei_sum_zadd [OF new] unfolding w'
    by (simp add: staking_ok_def hype_total_def staked_def) (simp add: d_def)
qed

lemma undelegate_effect:
  assumes "staking_ok w u" "0 < n" "undelegate E u v n w = (None, w')"
  shows "(\<exists>d. d \<in> fst ` set (delegations w u) \<and> dg_validator d = v \<and> n \<le> dg_wei d \<and> dg_lockedUntil d \<le> now E) \<and>
    staking_ok w' u \<and> hype_total w' u = hype_total w u"
proof -
  from assms(3) obtain d where f: "List.find (\<lambda>d. n \<le> dg_wei d) (delegations_to w u v) = Some d"
    by (auto simp: undelegate_def Let_def split: if_splits option.splits)
  from find_first [OF f] have d: "d \<in> fst ` set (delegations w u)" "dg_validator d = v" "n \<le> dg_wei d"
    by (simp_all add: delegations_to_set)
  then have ne: "delegations_to w u v \<noteq> []" using find_first(1) [OF f] by auto
  have unlocked: "dg_lockedUntil d \<le> now E"
    using assms(3) f ne by (auto simp: undelegate_def Let_def split: if_splits)
  define rest where "rest = d\<lparr>dg_wei := dg_wei d - n\<rparr>"
  define ds where "ds = zrem d (delegations w u)"
  define ds' where "ds' = (if 0 < dg_wei d - n then zadd (dg_lockedUntil d) rest ds else ds)"
  have w': "w' = appendStakingEvent u \<lparr>se_kind = Undelegate, se_wei = n, se_validator = Some v, se_timestamp = now E\<rparr>
      (w\<lparr>stakingBalance := (stakingBalance w)(u := Some (staked w u + n)),
         delegations := (delegations w)(u := ds')\<rparr>)"
    using assms(3) f ne unlocked by (auto simp: undelegate_def Let_def ds'_def ds_def rest_def)
  note ok = assms(1) [unfolded staking_ok_def]
  have dist: "distinct (map (dg_key \<circ> fst) ds)" using ok by (simp add: ds_def distinct_zrem)
  have other: "dg_key (fst e) \<noteq> dg_key d" if "e \<in> set ds" for e
  proof
    assume k: "dg_key (fst e) = dg_key d"
    obtain t where t: "(d, t) \<in> set (delegations w u)" using d by force
    have "e \<in> set (delegations w u)" "fst e \<noteq> d" using that by (simp_all add: ds_def set_zrem)
    with k t ok have "e = (d, t)" by (auto simp: distinct_map inj_on_def)
    with \<open>fst e \<noteq> d\<close> show False by simp
  qed
  then have other': "dg_key (fst e) \<noteq> dg_key rest" if "e \<in> set ds" for e
    using that by (simp add: dg_key_def rest_def)
  then have new: "rest \<notin> fst ` set ds" by force
  have sum: "wei_sum dg_wei ds' = wei_sum dg_wei (delegations w u) - n"
    using ok d wei_sum_zadd [OF new, of dg_wei] wei_sum_zrem [of dg_key "delegations w u" dg_wei d]
    by (simp add: ds'_def ds_def rest_def)
  have "distinct (map (dg_key \<circ> fst) ds')"
    using dist other' by (simp add: ds'_def distinct_zadd)
  moreover have "list_all dg_ok ds'"
    using ok d new by (auto simp: ds'_def ds_def zadd_def zrem_absent list_all_iff set_zrem)
      (auto simp: dg_ok_def rest_def)
  ultimately show ?thesis
    using d unlocked ok sum assms(2) unfolding w' by (auto simp: staking_ok_def hype_total_def staked_def)
qed

subsection \<open>Conservation\<close>

datatype staking_op = Op_cDeposit rat | Op_cWithdraw rat | Op_tokenDelegate string rat bool

fun staking_step :: "env \<Rightarrow> user \<Rightarrow> staking_op \<Rightarrow> sys \<Rightarrow> AccountError option \<times> sys" where
  "staking_step E u (Op_cDeposit x) w = cDeposit E u x w"
| "staking_step E u (Op_cWithdraw x) w = cWithdraw E u x w"
| "staking_step E u (Op_tokenDelegate v x und) w = tokenDelegate E u v x und w"

fun paid_in :: "staking_op \<Rightarrow> rat" where
  "paid_in (Op_cDeposit x) = x"
| "paid_in _ = 0"

lemma tokenDelegate_cases:
  assumes "tokenDelegate E u v x und w = (None, w')"
  obtains n where "wei_of x = Some n" "(if und then undelegate E u (lower v) n w else delegate E u (lower v) n w) = (None, w')"
  using assms by (auto simp: tokenDelegate_def split: option.splits if_splits)

lemma staking_refused:
  assumes "staking_step E u op w = (Some err, w')"
  shows "w' = w"
  using assms
  by (cases op) (auto simp: cDeposit_def cWithdraw_def tokenDelegate_def delegate_def undelegate_def Let_def
    split: option.splits if_splits)


definition staker :: sys where
  \<comment> \<open>5 HYPE free, 2 delegated a day and a bit ago\<close>
  "staker = empty_sys\<lparr>stakingBalance := (\<lambda>x. if x = ''u'' then Some 500000000 else None),
     delegations := (\<lambda>x. if x = ''u'' then
       [(\<lparr>dg_validator = ''val'', dg_wei = 200000000, dg_lockedUntil = 86400000, dg_delegatedAt = 0\<rparr>, 86400000)] else [])\<rparr>"


subsection \<open>The sweep\<close>

lemma sweep_fold:
  "stakingQueue (foldl (\<lambda>acc e. complete_withdrawal E u e acc) w es) =
     (stakingQueue w)(u := filter (\<lambda>e. fst e \<notin> set es) (stakingQueue w u))"
  "read_bal (foldl (\<lambda>acc e. complete_withdrawal E u e acc) w es) (u, Perp '''') =
     foldl (\<lambda>b e. dbl (fix6 (b + hype_amount (qe_wei e)))) (read_bal w (u, Perp '''')) es"
  "staked (foldl (\<lambda>acc e. complete_withdrawal E u e acc) w es) v = staked w v"
  "delegations (foldl (\<lambda>acc e. complete_withdrawal E u e acc) w es) = delegations w"
proof (induction es arbitrary: w)
  case (Cons q es)
  have c: "stakingQueue (complete_withdrawal E u q w) = (stakingQueue w)(u := zrem q (stakingQueue w u))"
    "read_bal (complete_withdrawal E u q w) (u, Perp '''') = dbl (fix6 (read_bal w (u, Perp '''') + hype_amount (qe_wei q)))"
    "staked (complete_withdrawal E u q w) v = staked w v" "delegations (complete_withdrawal E u q w) = delegations w" for v w
    by (simp_all add: complete_withdrawal_def Let_def read_bal_def amount_in_def staked_def appendStakingEvent_def)
  { case 1 show ?case unfolding foldl_Cons Cons.IH(1) c(1) by (simp add: zrem_def conj_commute) }
  { case 2 then show ?case using Cons.IH(2) by (simp add: c) }
  { case 3 then show ?case using Cons.IH(3) by (simp add: c) }
  { case 4 then show ?case using Cons.IH(4) by (simp add: c) }
qed simp_all

lemma set_ready: "set (ready_entries E u w) = {q. \<exists>t \<le> now E. (q, t) \<in> set (stakingQueue w u)}"
  by (force simp: ready_entries_def)

text \<open>
  The sweep of the withdrawal queue pays what is due and nothing else: of a well-formed queue
  exactly the entries whose seven days have passed leave, in the order of their unlock times,
  each adding its amount of HYPE units to the balance rounded to six decimals; the entries that
  are still locked, the free wei and the delegations stay.
\<close>

theorem sweep_pays_due:
  assumes "staking_ok w u"
  shows "stakingQueue (sweep_user E u w) u = filter (\<lambda>e. now E < qe_queuedAt (fst e) + SEVEN_DAYS_MS) (stakingQueue w u) \<and>
    read_bal (sweep_user E u w) (u, Perp '''') =
      foldl (\<lambda>b e. dbl (fix6 (b + hype_amount (qe_wei e)))) (read_bal w (u, Perp '''')) (ready_entries E u w) \<and>
    sorted (map qe_unlockTime (ready_entries E u w)) \<and>
    staked (sweep_user E u w) u = staked w u \<and> delegations (sweep_user E u w) = delegations w"
proof -
  have q: "snd e = qe_unlockTime (fst e) \<and> qe_unlockTime (fst e) = qe_queuedAt (fst e) + SEVEN_DAYS_MS"
    if "e \<in> set (stakingQueue w u)" for e
    using assms that by (simp add: staking_ok_def list_all_iff qe_ok_def)
  have m: "fst e \<in> set (ready_entries E u w) \<longleftrightarrow> qe_queuedAt (fst e) + SEVEN_DAYS_MS \<le> now E"
    if e: "e \<in> set (stakingQueue w u)" for e
  proof
    assume "fst e \<in> set (ready_entries E u w)"
    then obtain t where "t \<le> now E" "(fst e, t) \<in> set (stakingQueue w u)" by (auto simp: set_ready)
    with q [of "(fst e, t)"] show "qe_queuedAt (fst e) + SEVEN_DAYS_MS \<le> now E" by simp
  next
    assume "qe_queuedAt (fst e) + SEVEN_DAYS_MS \<le> now E"
    with q [OF e] have "snd e \<le> now E" by simp
    moreover have "(fst e, snd e) \<in> set (stakingQueue w u)" using e by simp
    ultimately show "fst e \<in> set (ready_entries E u w)" unfolding set_ready by blast
  qed
  have f: "filter (\<lambda>e. fst e \<notin> set (ready_entries E u w)) (stakingQueue w u) =
      filter (\<lambda>e. now E < qe_queuedAt (fst e) + SEVEN_DAYS_MS) (stakingQueue w u)"
    by (rule filter_cong) (auto simp: m)
  have "sorted (map (\<lambda>e. (snd e, json_entry (fst e)))
      (sort_key (\<lambda>e. (snd e, json_entry (fst e))) (filter (\<lambda>e. snd e \<le> now E) (stakingQueue w u))))" (is "sorted (map _ ?es)")
    by (rule sorted_sort_key)
  then have "sorted (map snd ?es)"
    by (induction ?es) (auto simp: sorted_map sorted_wrt_map less_eq_prod_def elim: sorted_wrt_mono_rel [rotated])
  moreover have "map snd ?es = map qe_unlockTime (ready_entries E u w)"
    using q by (auto simp: ready_entries_def)
  ultimately show ?thesis
    using sweep_fold [of E u w "ready_entries E u w"] f by (simp add: sweep_user_def)
qed

definition queued :: sys where
  \<comment> \<open>2 HYPE of user u leave the queue at 604800007, 3 more at 700000000\<close>
  "queued = empty_sys\<lparr>stakingQueue := (\<lambda>x. if x = ''u'' then
     [(\<lparr>qe_wei = 300000000, qe_unlockTime = 700000000, qe_queuedAt = 95200000\<rparr>, 700000000),
      (\<lparr>qe_wei = 200000000, qe_unlockTime = 604800007, qe_queuedAt = 7\<rparr>, 604800007)] else [])\<rparr>"

theorem sweep_pays_due_witness:
  "stakingQueue (sweep_user (sample_env\<lparr>now := 650000000\<rparr>) ''u'' queued) ''u'' =
    [(\<lparr>qe_wei = 300000000, qe_unlockTime = 700000000, qe_queuedAt = 95200000\<rparr>, 700000000)]"
proof -
  have "staking_ok queued ''u''"
    by (simp add: staking_ok_def queued_def empty_sys_def staked_def qe_ok_def SEVEN_DAYS_MS_def)
  from sweep_pays_due [OF this, of "sample_env\<lparr>now := 650000000\<rparr>", THEN conjunct1] show ?thesis
    by (simp add: queued_def SEVEN_DAYS_MS_def sample_env_def)
qed

end
