(* ===== verification/Agents.thy ===== *)
theory Agents
  imports Accounts "HOL-Library.AList"
begin

text \<open>
  engine/agents.ts: the wallets that may sign for an account, at most one without a name and ten
  with one, the fee rates approved for builders, and the referral code. The hash of an account's
  agents is an association list from the storage key to the parsed entry.
\<close>

definition MAX_NAMED_AGENTS :: nat where "MAX_NAMED_AGENTS = 10"
definition UNNAMED_AGENT_KEY :: string where "UNNAMED_AGENT_KEY = ''__unnamed__''"

definition zero_address :: string where
  "zero_address = ''0x0000000000000000000000000000000000000000''"

definition hset_agent :: "user \<Rightarrow> string \<Rightarrow> Agent \<Rightarrow> sys \<Rightarrow> sys" where
  "hset_agent m key ag w = w\<lparr>agents := (agents w)(m := AList.update key ag (agents w m))\<rparr>"

definition hdel_agent :: "user \<Rightarrow> string \<Rightarrow> sys \<Rightarrow> sys" where
  "hdel_agent m key w = w\<lparr>agents := (agents w)(m := AList.delete key (agents w m))\<rparr>"

definition given_name :: "string option \<Rightarrow> string" where
  \<comment> \<open>the trimmed name; empty when it is missing\<close>
  "given_name agentName = (case agentName of None \<Rightarrow> '''' | Some n \<Rightarrow> js_trim n)"

definition named_count :: "(string \<times> Agent) list \<Rightarrow> nat" where
  "named_count ags = length (filter (\<lambda>k. k \<noteq> UNNAMED_AGENT_KEY) (map fst ags))"

definition approveAgent :: "env \<Rightarrow> user \<Rightarrow> string \<Rightarrow> string option \<Rightarrow> sys \<Rightarrow> AccountError option \<times> sys" where
  "approveAgent E m agentAddress agentName w =
    (let addr = lower agentAddress; nm = given_name agentName in
     if addr = zero_address then (None, hdel_agent m (if nm \<noteq> '''' then nm else UNNAMED_AGENT_KEY) w)
     else if nm = '''' then
       (None, hset_agent m UNNAMED_AGENT_KEY \<lparr>ag_address = addr, ag_name = '''', ag_approvedAt = now E\<rparr> w)
     else if map_of (agents w m) nm = None \<and> MAX_NAMED_AGENTS \<le> named_count (agents w m)
     then (Some AgentLimit, w)
     else (None, hset_agent m nm \<lparr>ag_address = addr, ag_name = nm, ag_approvedAt = now E\<rparr> w))"

definition isAgentOf :: "sys \<Rightarrow> user \<Rightarrow> string \<Rightarrow> bool" where
  "isAgentOf w m signer = list_ex (\<lambda>(_, ag). lower (ag_address ag) = lower signer) (agents w m)"

definition getExtraAgents :: "sys \<Rightarrow> user \<Rightarrow> (string \<times> string) list" where
  \<comment> \<open>addresses and names\<close>
  "getExtraAgents w m =
    map (\<lambda>(key, ag). (ag_address ag, if key = UNNAMED_AGENT_KEY then '''' else ag_name ag)) (agents w m)"

definition approveBuilderFee :: "user \<Rightarrow> string \<Rightarrow> string \<Rightarrow> sys \<Rightarrow> AccountError option \<times> sys" where
  "approveBuilderFee u builder maxFeeRate w =
    (if maxFeeRate = '''' then (Some FeeRateEmpty, w)
     else (None, w\<lparr>builderFees := (builderFees w)(u := (builderFees w u)(lower builder := Some maxFeeRate))\<rparr>))"

definition getMaxBuilderFee :: "sys \<Rightarrow> user \<Rightarrow> string \<Rightarrow> string option" where
  "getMaxBuilderFee w u builder =
    (case builderFees w u (lower builder) of None \<Rightarrow> None | Some r \<Rightarrow> if r = '''' then None else Some r)"

definition getBuilderFeeApproval :: "sys \<Rightarrow> user \<Rightarrow> string \<Rightarrow> (string \<times> string) option" where
  \<comment> \<open>the builder and its rate when approved\<close>
  "getBuilderFeeApproval w u builder =
    (case builderFees w u (lower builder) of None \<Rightarrow> None
     | Some r \<Rightarrow> if r = '''' then None else Some (lower builder, r))"

definition setReferrer :: "user \<Rightarrow> string \<Rightarrow> sys \<Rightarrow> AccountError option \<times> sys" where
  "setReferrer u code w =
    (if js_trim code = '''' then (Some CodeEmpty, w)
     else (None, w\<lparr>referrer := (referrer w)(u := Some (js_trim code))\<rparr>))"

definition getReferral :: "sys \<Rightarrow> user \<Rightarrow> string \<times> string option" where
  \<comment> \<open>the stage and the code\<close>
  "getReferral w u =
    (case referrer w u of None \<Rightarrow> (''noReferrer'', None)
     | Some c \<Rightarrow> if c = '''' then (''noReferrer'', None) else (''percentageReferrer'', Some c))"

subsection \<open>Who may sign\<close>

definition ag_ok :: "string \<times> Agent \<Rightarrow> bool" where
  "ag_ok e \<longleftrightarrow> lower (ag_address (snd e)) = ag_address (snd e) \<and> ag_address (snd e) \<noteq> zero_address \<and>
    (fst e \<noteq> UNNAMED_AGENT_KEY \<longrightarrow> ag_name (snd e) = fst e)"

definition agents_ok :: "sys \<Rightarrow> user \<Rightarrow> bool" where
  \<comment> \<open>the keys of a hash are different; at most ten agents have a name, their own key\<close>
  "agents_ok w m \<longleftrightarrow> distinct (map fst (agents w m)) \<and> named_count (agents w m) \<le> MAX_NAMED_AGENTS \<and>
    list_all ag_ok (agents w m)"

lemma lower_lower [simp]: "lower (lower s) = lower s"
proof -
  have "lower_char (lower_char c) = lower_char c" for c
  proof (cases "65 \<le> (of_char c :: nat) \<and> (of_char c :: nat) \<le> 90 \<or>
      192 \<le> (of_char c :: nat) \<and> (of_char c :: nat) \<le> 222 \<and> (of_char c :: nat) \<noteq> 215")
    case True
    moreover from True have "(of_char (char_of (of_char c + 32 :: nat) :: char) :: nat) = of_char c + 32"
      by (auto simp: of_char_of)
    ultimately show ?thesis by (simp add: lower_char_def Let_def) linarith
  qed (auto simp: lower_char_def Let_def)
  then show ?thesis by (simp add: lower_def)
qed

lemma named_update:
  "distinct (map fst ags) \<Longrightarrow> named_count (AList.update k ag ags) =
    named_count ags + (if k = UNNAMED_AGENT_KEY \<or> k \<in> fst ` set ags then 0 else 1)"
  by (induction ags) (auto simp: named_count_def)

lemma named_delete: "named_count (AList.delete k ags) \<le> named_count ags"
  by (induction ags) (auto simp: named_count_def AList.delete_eq)

lemma set_update_sub: "set (AList.update k ag ags) \<subseteq> insert (k, ag) (set ags)"
  by (induction ags) auto

lemma set_delete_sub: "set (AList.delete k ags) \<subseteq> set ags"
  by (auto simp: AList.delete_eq)

lemma hset_keeps:
  assumes "agents_ok w m" "lower addr = addr" "addr \<noteq> zero_address" "key \<noteq> UNNAMED_AGENT_KEY \<longrightarrow> nm = key"
    and "key = UNNAMED_AGENT_KEY \<or> map_of (agents w m) key \<noteq> None \<or> named_count (agents w m) < MAX_NAMED_AGENTS"
  shows "agents_ok (hset_agent m key \<lparr>ag_address = addr, ag_name = nm, ag_approvedAt = t\<rparr> w) m"
proof -
  let ?ag = "\<lparr>ag_address = addr, ag_name = nm, ag_approvedAt = t\<rparr>"
  have d: "distinct (map fst (agents w m))" using assms(1) by (simp add: agents_ok_def)
  have "named_count (AList.update key ?ag (agents w m)) \<le> MAX_NAMED_AGENTS"
    using assms(1,5) unfolding named_update [OF d]
    by (auto simp: agents_ok_def dest: map_of_SomeD split: option.splits) (metis fst_conv image_eqI map_of_SomeD)+
  moreover have "distinct (map fst (AList.update key ?ag (agents w m)))" using d by (rule distinct_update)
  moreover have "list_all ag_ok (AList.update key ?ag (agents w m))"
  proof -
    have "list_all ag_ok (agents w m)" "ag_ok (key, ?ag)" using assms(1-4) by (auto simp: agents_ok_def ag_ok_def)
    then show ?thesis using set_update_sub [of key ?ag "agents w m"] unfolding list_all_iff by blast
  qed
  ultimately show ?thesis by (simp add: agents_ok_def hset_agent_def)
qed

lemma hdel_keeps: "agents_ok w m \<Longrightarrow> agents_ok (hdel_agent m key w) m"
  using named_delete [of key "agents w m"] set_delete_sub [of key "agents w m"]
  by (auto simp: agents_ok_def hdel_agent_def list_all_iff distinct_delete)

text \<open>
  C26. The agents of an account. Every approval keeps at most one unnamed and ten named agents,
  each under its own name; a refusal happens only for an eleventh name and changes nothing; an
  approved wallet may sign for the account at once, whatever the case of its address; approving
  under a name in use replaces that agent; the zero address revokes exactly the agent of the
  given name; and no other account's agents change.
\<close>

theorem approveAgent_outcome:
  assumes "agents_ok w m" "approveAgent E m addr nm w = (r, w')"
  shows "agents_ok w' m \<and> (\<forall>m'. m' \<noteq> m \<longrightarrow> agents w' m' = agents w m') \<and>
    (let key = (if given_name nm = '''' then UNNAMED_AGENT_KEY else given_name nm) in
     if r \<noteq> None then w' = w \<and> r = Some AgentLimit \<and> map_of (agents w m) key = None \<and> named_count (agents w m) = MAX_NAMED_AGENTS
     else if lower addr = zero_address then agents w' m = AList.delete key (agents w m)
     else isAgentOf w' m addr \<and>
       map_of (agents w' m) = (map_of (agents w m))(key \<mapsto> \<lparr>ag_address = lower addr, ag_name = given_name nm, ag_approvedAt = now E\<rparr>))"
proof -
  have up: "isAgentOf (hset_agent m k \<lparr>ag_address = lower addr, ag_name = n, ag_approvedAt = t\<rparr> w) m addr" for k n t
    using update_conv [of k "\<lparr>ag_address = lower addr, ag_name = n, ag_approvedAt = t\<rparr>" "agents w m" k]
    by (auto simp: isAgentOf_def hset_agent_def list_ex_iff dest!: map_of_SomeD) force
  have le: "named_count (agents w m) \<le> MAX_NAMED_AGENTS" using assms(1) by (simp add: agents_ok_def)
  have inv: "agents_ok w' m"
    using assms(2) hdel_keeps [OF assms(1)] hset_keeps [OF assms(1), of "lower addr"] assms(1) le
    by (auto simp: approveAgent_def Let_def split: if_splits)
  show ?thesis
    using assms(2) inv up le
    by (auto simp: approveAgent_def Let_def hset_agent_def hdel_agent_def update_conv' split: if_splits)
qed

theorem approveAgent_outcome_witness:
  "isAgentOf (snd (approveAgent sample_env ''u'' ''0xAB'' (Some '' bot '') empty_sys)) ''u'' ''0xAB''"
proof -
  have "agents_ok empty_sys ''u''" by (simp add: agents_ok_def empty_sys_def named_count_def)
  moreover have "approveAgent sample_env ''u'' ''0xAB'' (Some '' bot '') empty_sys =
      (None, snd (approveAgent sample_env ''u'' ''0xAB'' (Some '' bot '') empty_sys))"
    by (rule prod_eqI) (simp_all, code_simp)
  moreover have "lower ''0xAB'' \<noteq> zero_address" by code_simp
  ultimately show ?thesis using approveAgent_outcome by (auto simp: Let_def split: if_splits)
qed

end
