(* ===== verification/JsHex.thy ===== *)
theory JsHex
  imports JsStrings
begin

text \<open>
  Hexadecimal texts as JavaScript reads and writes them: \<open>parseInt(s, 16)\<close>, \<open>toString(16)\<close> and the
  expressions that the routes test addresses and client ids with.
\<close>

definition hex_digit :: "char \<Rightarrow> nat option" where
  "hex_digit ch =
    (let n = of_char ch :: nat
     in if 48 \<le> n \<and> n \<le> 57 then Some (n - 48) else if 97 \<le> n \<and> n \<le> 102 then Some (n - 87)
        else if 65 \<le> n \<and> n \<le> 70 then Some (n - 55) else None)"

definition parse_hex :: "string \<Rightarrow> int option" where
  \<comment> \<open>parseInt with radix 16; \<open>None\<close> is NaN\<close>
  "parse_hex s =
    (let (neg, r) = take_sign (js_trim s);
         r1 = (if starts_with ''0x'' r \<or> starts_with ''0X'' r then drop 2 r else r);
         ds = List.map_filter hex_digit (takeWhile (\<lambda>ch. hex_digit ch \<noteq> None) r1);
         n = int (foldl (\<lambda>acc d. acc * 16 + d) 0 ds)
     in if ds = [] then None else Some (if neg then - n else n))"

definition hex_text :: "int \<Rightarrow> string" where
  \<comment> \<open>toString(16)\<close>
  "hex_text i = (if i < 0 then ''-'' @ show_hex (nat (- i)) else show_hex (nat i))"

definition is_hex :: "char \<Rightarrow> bool" where
  "is_hex c = (let n = of_char c :: nat in js_digit c \<or> 65 \<le> n \<and> n \<le> 70 \<or> 97 \<le> n \<and> n \<le> 102)"

definition hex_string :: "nat \<Rightarrow> string \<Rightarrow> bool" where
  \<comment> \<open>the expression \<open>^0x[0-9a-fA-F]{n}$\<close>\<close>
  "hex_string n s = (starts_with ''0x'' s \<and> length s = n + 2 \<and> list_all is_hex (drop 2 s))"

lemma is_hex_digit: "is_hex c \<longleftrightarrow> (\<exists>d < 16. hex_digit c = Some d)"
  by (auto simp: is_hex_def hex_digit_def js_digit_def Let_def)

lemma hex_digit_bound: "hex_digit c = Some d \<Longrightarrow> d < 16"
  by (auto simp: hex_digit_def Let_def split: if_splits)

lemma hex_digit_lower: "hex_digit (lower_char c) = hex_digit c"
proof -
  let ?n = "of_char c :: nat"
  have "?n < 256" by simp
  then have "(of_char (char_of (?n + 32) :: char) :: nat) = ?n + 32" if "?n \<le> 222" using that by simp
  then show ?thesis by (auto simp: hex_digit_def lower_char_def Let_def)
qed

lemma hex_digit_inj:
  assumes "hex_digit c = Some d" "hex_digit c' = Some d"
  shows "lower_char c = lower_char c'"
proof -
  have low: "(of_char (lower_char c) :: nat) = (if d < 10 then 48 + d else 87 + d)" if "hex_digit c = Some d" for c
  proof -
    let ?n = "of_char c :: nat"
    have "?n < 256" by simp
    then have "(of_char (char_of (?n + 32) :: char) :: nat) = ?n + 32" if "?n \<le> 222" using that by simp
    then show ?thesis using that by (auto simp: hex_digit_def lower_char_def Let_def split: if_splits)
  qed
  from low [OF assms(1)] low [OF assms(2)] have "(of_char (lower_char c) :: nat) = of_char (lower_char c')" by simp
  then show ?thesis by simp
qed

lemma hex_not_space: "is_hex c \<Longrightarrow> \<not> js_space c \<and> c \<noteq> CHR ''-'' \<and> c \<noteq> CHR ''+'' \<and> c \<noteq> CHR ''x'' \<and> c \<noteq> CHR ''X''"
  by (auto simp: is_hex_def js_space_def js_digit_def Let_def)

lemma parse_hex_pair:
  assumes "hex_digit a = Some d" "hex_digit b = Some e"
  shows "parse_hex [a, b] = Some (int (16 * d + e))"
proof -
  have h: "is_hex a" "is_hex b" using assms by (auto simp: is_hex_digit dest: hex_digit_bound)
  note n = hex_not_space [OF h(1)] hex_not_space [OF h(2)]
  have "js_trim [a, b] = [a, b]" using n by (simp add: js_trim_def)
  then show ?thesis using n assms by (auto simp: parse_hex_def take_sign_def map_filter_simps)
qed

end
