(* ===== verification/Exchange.thy ===== *)
theory Exchange
  imports Steps Subaccounts Staking Agents JsHex
begin

text \<open>
  api/routes/exchange.ts: one request from the wire to the engine. The wallet is what signature
  recovery returns (or the wallet an internal caller names); the fields of an action have the
  types the route checks, and a number that is not finite is \<open>None\<close>. HTTP codes are not kept.
\<close>

subsection \<open>Requests\<close>

datatype Action =
    A_order "HlOrderWire list" Grouping "builder option"
  | A_trailingStop TrailingStopWire
  | A_cancel "(asset \<times> oid) list"
  | A_cancelByCloid "(asset \<times> string) list"
  | A_modify "oid + string" HlOrderWire
  | A_batchModify "((oid + string) \<times> HlOrderWire) list"
  | A_twapOrder asset bool "rat option" bool nat bool
  | A_twapCancel nat
  | A_updateLeverage asset bool rat
  | A_updateIsolatedMargin asset bool int
  | A_topUpIsolatedOnlyMargin asset int
  | A_scheduleCancel "millis option"
  | A_usdClassTransfer string bool
  | A_usdSend string string \<comment> \<open>destination, amount\<close>
  | A_spotSend string string string \<comment> \<open>destination, token, amount\<close>
  | A_sendAsset string dex_name dex_name string string string
  | A_agentSendAsset string dex_name dex_name string string string
  | A_sendToEvmWithData string
  | A_createSubAccount string
  | A_subAccountTransfer user bool rat
  | A_subAccountSpotTransfer user
  | A_subAccountModify user string
  | A_vaultTransfer user bool rat
  | A_approveAgent string "string option"
  | A_approveBuilderFee string string \<comment> \<open>builder, rate\<close>
  | A_setReferrer string
  | A_cDeposit rat
  | A_cWithdraw rat
  | A_tokenDelegate string rat bool
  | A_reserveRequestWeight rat
  | A_noop

record request =
  rq_wallet :: user
  rq_action :: Action
  rq_vaultAddress :: "string option"
  rq_nonce :: "rat option"
  rq_expiresAfter :: "millis option"

datatype RouteError =
    InvalidVaultAddress
  | VaultOnUserSigned
  | MayNotActFor
  | NonceOutsideWindow
  | NonceReplayed
  | ActionExpired
  | MissingArray
  | TooManyOrders
  | MissingLimitOrTrigger
  | InvalidCloid
  | NotPositive
  | UnknownCloid
  | TwapTooShort
  | TwapTooLong
  | InvalidWeight

datatype Response =
    Statuses "HlOrderResponseStatus list"
  | Default
  | Placed oid
  | Running nat
  | EngineError OrderError
  | AccountErr AccountError
  | RouteErr RouteError

definition isUserSignedActionType :: "Action \<Rightarrow> bool" where
  \<comment> \<open>the keys of USER_SIGNED_SPECS among the actions of the route\<close>
  "isUserSignedActionType a =
    (case a of A_usdSend _ _ \<Rightarrow> True | A_spotSend _ _ _ \<Rightarrow> True | A_usdClassTransfer _ _ \<Rightarrow> True
     | A_sendAsset _ _ _ _ _ _ \<Rightarrow> True | A_approveAgent _ _ \<Rightarrow> True | A_approveBuilderFee _ _ \<Rightarrow> True
     | A_tokenDelegate _ _ _ \<Rightarrow> True | _ \<Rightarrow> False)"

definition CLOID_RE :: "string \<Rightarrow> bool" where
  "CLOID_RE s = hex_string 32 s"

definition validateOrderWire :: "HlOrderWire \<Rightarrow> RouteError option" where
  "validateOrderWire w =
    (if w_limit_tif w = None \<and> w_trigger w = None then Some MissingLimitOrTrigger
     else if (case w_c w of None \<Rightarrow> False | Some c \<Rightarrow> \<not> CLOID_RE c) then Some InvalidCloid
     else case w_s w of None \<Rightarrow> Some NotPositive
     | Some sz \<Rightarrow> if sz \<le> 0 \<or> w_p w \<le> 0 then Some NotPositive else None)"

fun first_error :: "('a \<Rightarrow> 'e option) \<Rightarrow> 'a list \<Rightarrow> 'e option" where
  "first_error f [] = None"
| "first_error f (x # xs) = (case f x of None \<Rightarrow> first_error f xs | Some e \<Rightarrow> Some e)"

subsection \<open>Who may act, and when\<close>

definition act_for :: "env \<Rightarrow> rat \<Rightarrow> request \<Rightarrow> sys \<Rightarrow> (RouteError + user) \<times> sys" where
  \<comment> \<open>the account the request acts on\<close>
  "act_for E defaultBalance rq w =
    (case rq_vaultAddress rq of None \<Rightarrow> (Inr (rq_wallet rq), w)
     | Some v \<Rightarrow>
        if \<not> hex_string 40 v then (Inl InvalidVaultAddress, w)
        else if isUserSignedActionType (rq_action rq) then (Inl VaultOnUserSigned, w)
        else
          let target = lower v
          in if target \<noteq> rq_wallet rq \<and> \<not> (isSubAccountOf w (rq_wallet rq) target \<or> isAgentOf w target (rq_wallet rq))
             then (Inl MayNotActFor, w)
             else (Inr target, ensureAccount E defaultBalance target w))"

definition check_nonce :: "env \<Rightarrow> user \<Rightarrow> rat option \<Rightarrow> sys \<Rightarrow> RouteError option \<times> sys" where
  \<comment> \<open>parseInt reads the stored nonce back without its fraction\<close>
  "check_nonce E wallet nonce w =
    (case nonce of None \<Rightarrow> (None, w)
     | Some n \<Rightarrow>
        if n \<le> of_int (now E - 172800000) \<or> of_int (now E + 86400000) \<le> n then (Some NonceOutsideWindow, w)
        else if n \<le> of_int (case nonceMax w wallet of None \<Rightarrow> 0 | Some m \<Rightarrow> m) then (Some NonceReplayed, w)
        else (None, w\<lparr>nonceMax := (nonceMax w)(wallet := Some \<lfloor>n\<rfloor>)\<rparr>))"

definition admit :: "env \<Rightarrow> rat \<Rightarrow> request \<Rightarrow> sys \<Rightarrow> (RouteError + user) \<times> sys" where
  \<comment> \<open>everything in front of the dispatch; an expired action has used up its nonce\<close>
  "admit E defaultBalance rq w =
    (let w1 = ensureAccount E defaultBalance (rq_wallet rq) w in
     case act_for E defaultBalance rq w1 of
       (Inl err, w2) \<Rightarrow> (Inl err, w2)
     | (Inr target, w2) \<Rightarrow>
        (case check_nonce E (rq_wallet rq) (rq_nonce rq) w2 of
           (Some err, w3) \<Rightarrow> (Inl err, w3)
         | (None, w3) \<Rightarrow>
            (case rq_expiresAfter rq of None \<Rightarrow> (Inr target, w3)
             | Some t \<Rightarrow> if t \<le> now E then (Inl ActionExpired, w3) else (Inr target, w3))))"

subsection \<open>The dispatch\<close>

definition with_core :: "('r \<times> state) \<Rightarrow> ('r \<Rightarrow> Response) \<Rightarrow> sys \<Rightarrow> Response \<times> sys" where
  "with_core res f w = (f (fst res), w\<lparr>core := snd res\<rparr>)"

definition engine_result :: "OrderError option \<Rightarrow> Response" where
  "engine_result r = (case r of None \<Rightarrow> Default | Some err \<Rightarrow> EngineError err)"

definition account_result :: "AccountError option \<times> sys \<Rightarrow> Response \<times> sys" where
  "account_result r = ((case fst r of None \<Rightarrow> Default | Some err \<Rightarrow> AccountErr err), snd r)"

definition resolve_oid :: "state \<Rightarrow> user \<Rightarrow> oid + string \<Rightarrow> oid option" where
  "resolve_oid s u r = (case r of Inl oid \<Rightarrow> Some oid | Inr cloid \<Rightarrow> cloids s u cloid)"

definition ref_error :: "oid + string \<Rightarrow> HlOrderWire \<Rightarrow> RouteError option" where
  "ref_error r wire = (case r of Inr cloid \<Rightarrow> if CLOID_RE cloid then validateOrderWire wire else Some InvalidCloid
     | Inl _ \<Rightarrow> validateOrderWire wire)"

definition NO_OID :: oid where
  \<comment> \<open>the code passes -1 for an unknown cloid; oids start at 1, so 0 is not an order either\<close>
  "NO_OID = 0"

record inputs =
  \<comment> \<open>what the operations fetch: the default balance, mark prices, the current meta of an asset\<close>
  in_defaultBalance :: rat
  in_marks :: "dex_name \<Rightarrow> (coin \<times> rat option) list option"
  in_meta :: "HlMeta option"

fun settings_action :: "env \<Rightarrow> inputs \<Rightarrow> user \<Rightarrow> Action \<Rightarrow> sys \<Rightarrow> Response \<times> sys" where
  "settings_action E I u (A_twapOrder a isBuy sz ro minutes randomize) w =
    (if minutes < 5 then (RouteErr TwapTooShort, w)
     else if 1440 < minutes then (RouteErr TwapTooLong, w)
     else with_core (createTwapOrder E u a isBuy sz ro minutes randomize (core w))
       (\<lambda>r. case r of Inl err \<Rightarrow> EngineError err | Inr i \<Rightarrow> Running i) w)"
| "settings_action E I u (A_twapCancel i) w = with_core (cancelTwapOrder E u i (core w)) engine_result w"
| "settings_action E I u (A_updateLeverage a isCross leverage) w =
    with_core (updateLeverage (in_meta I) u a isCross leverage (core w)) engine_result w"
| "settings_action E I u (A_updateIsolatedMargin a isBuy ntli) w =
    with_core (updateIsolatedMargin u a isBuy ntli (core w)) engine_result w"
| "settings_action E I u (A_topUpIsolatedOnlyMargin a ntli) w =
    with_core (updateIsolatedMargin u a True ntli (core w)) engine_result w"
| "settings_action E I u (A_scheduleCancel t) w = with_core (scheduleCancel E u t (core w)) engine_result w"
| "settings_action E I u _ w = (Default, w)"

fun trade_action :: "env \<Rightarrow> inputs \<Rightarrow> request \<Rightarrow> user \<Rightarrow> Action \<Rightarrow> sys \<Rightarrow> Response \<times> sys" where
  "trade_action E I rq u (A_order ws grouping b) w =
    (if ws = [] then (RouteErr MissingArray, w)
     else if 50 < length ws then (RouteErr TooManyOrders, w)
     else case first_error validateOrderWire ws of Some err \<Rightarrow> (RouteErr err, w)
     | None \<Rightarrow> with_core (placeOrders E u ws grouping
                 \<lparr>op_expiresAfter = rq_expiresAfter rq, op_builder = b, op_twapId = None\<rparr> (core w)) Statuses w)"
| "trade_action E I rq u (A_trailingStop action) w =
    with_core (placeTrailingStop E (in_marks I) u action (core w))
      (\<lambda>r. case r of Inl err \<Rightarrow> EngineError err | Inr oid \<Rightarrow> Placed oid) w"
| "trade_action E I rq u (A_cancel cancels) w =
    (if cancels = [] then (RouteErr MissingArray, w) else with_core (cancelOrders E u cancels (core w)) Statuses w)"
| "trade_action E I rq u (A_cancelByCloid cancels) w =
    (if cancels = [] then (RouteErr MissingArray, w) else with_core (cancelByCloid E u cancels (core w)) Statuses w)"
| "trade_action E I rq u (A_modify r wire) w =
    (case ref_error r wire of Some err \<Rightarrow> (RouteErr err, w)
     | None \<Rightarrow>
        (case resolve_oid (core w) u r of None \<Rightarrow> (RouteErr UnknownCloid, w)
         | Some oid \<Rightarrow> with_core (modifyOrder E u oid wire (core w)) engine_result w))"
| "trade_action E I rq u (A_batchModify modifies) w =
    (if modifies = [] then (RouteErr MissingArray, w)
     else case first_error (\<lambda>(r, wire). ref_error r wire) modifies of Some err \<Rightarrow> (RouteErr err, w)
     | None \<Rightarrow>
        with_core (batchModifyOrders E u
          (map (\<lambda>(r, wire). (case resolve_oid (core w) u r of None \<Rightarrow> NO_OID | Some oid \<Rightarrow> oid, wire)) modifies) (core w))
          Statuses w)"
| "trade_action E I rq u a w = settings_action E I u a w"

fun transfer_action :: "env \<Rightarrow> user \<Rightarrow> Action \<Rightarrow> sys \<Rightarrow> Response \<times> sys" where
  "transfer_action E u (A_usdClassTransfer amount toPerp) w = account_result (usdClassTransfer u amount toPerp w)"
| "transfer_action E u (A_usdSend destination amount) w = account_result (usdSend u destination amount w)"
| "transfer_action E u (A_spotSend destination token amount) w =
    account_result (spotSend u destination token amount w)"
| "transfer_action E u (A_sendAsset destination sourceDex destinationDex token amount fromSub) w =
    account_result (sendAsset u destination sourceDex destinationDex token amount fromSub w)"
| "transfer_action E u (A_agentSendAsset destination sourceDex destinationDex token amount fromSub) w =
    account_result (agentSendAsset u destination sourceDex destinationDex token amount fromSub w)"
| "transfer_action E u (A_sendToEvmWithData amount) w = account_result (sendToEvmWithData u amount w)"
| "transfer_action E u (A_vaultTransfer va isDeposit usd) w = account_result (vaultTransfer E u va isDeposit usd w)"
| "transfer_action E u _ w = (Default, w)"

fun staking_action :: "env \<Rightarrow> user \<Rightarrow> Action \<Rightarrow> sys \<Rightarrow> Response \<times> sys" where
  "staking_action E u (A_cDeposit wei) w = account_result (cDeposit E u wei w)"
| "staking_action E u (A_cWithdraw wei) w = account_result (cWithdraw E u wei w)"
| "staking_action E u (A_tokenDelegate validator wei isUndelegate) w =
    account_result (tokenDelegate E u validator wei isUndelegate w)"
| "staking_action E u (A_reserveRequestWeight weight) w =
    (if weight < 0 then (RouteErr InvalidWeight, w) else (Default, w))"
| "staking_action E u _ w = (Default, w)"

fun wallet_action :: "env \<Rightarrow> rat \<Rightarrow> user \<Rightarrow> Action \<Rightarrow> sys \<Rightarrow> Response \<times> sys" where
  \<comment> \<open>these act on the signing wallet, not on the vault address\<close>
  "wallet_action E d u (A_createSubAccount name) w =
    (case createSubAccount E d u name w of (Inl err, w') \<Rightarrow> (AccountErr err, w') | (Inr _, w') \<Rightarrow> (Default, w'))"
| "wallet_action E d u (A_subAccountTransfer sub isDeposit usd) w =
    account_result (subAccountTransfer E u sub isDeposit usd w)"
| "wallet_action E d u (A_subAccountSpotTransfer sub) w = account_result (subAccountSpotTransfer u sub w)"
| "wallet_action E d u (A_subAccountModify sub name) w = account_result (subAccountModify u sub name w)"
| "wallet_action E d u (A_approveAgent address name) w = account_result (approveAgent E u address name w)"
| "wallet_action E d u (A_approveBuilderFee b rate) w = account_result (approveBuilderFee u b rate w)"
| "wallet_action E d u (A_setReferrer code) w = account_result (setReferrer u code w)"
| "wallet_action E d u a w = staking_action E u a w"

definition is_trade :: "Action \<Rightarrow> bool" where
  "is_trade a = (case a of A_order _ _ _ \<Rightarrow> True | A_trailingStop _ \<Rightarrow> True | A_cancel _ \<Rightarrow> True
     | A_cancelByCloid _ \<Rightarrow> True | A_modify _ _ \<Rightarrow> True | A_batchModify _ \<Rightarrow> True | A_twapOrder _ _ _ _ _ _ \<Rightarrow> True
     | A_twapCancel _ \<Rightarrow> True | A_updateLeverage _ _ _ \<Rightarrow> True | A_updateIsolatedMargin _ _ _ \<Rightarrow> True
     | A_topUpIsolatedOnlyMargin _ _ \<Rightarrow> True | A_scheduleCancel _ \<Rightarrow> True | _ \<Rightarrow> False)"

definition is_transfer :: "Action \<Rightarrow> bool" where
  "is_transfer a = (case a of A_usdClassTransfer _ _ \<Rightarrow> True | A_usdSend _ _ \<Rightarrow> True | A_spotSend _ _ _ \<Rightarrow> True
     | A_sendAsset _ _ _ _ _ _ \<Rightarrow> True | A_agentSendAsset _ _ _ _ _ _ \<Rightarrow> True | A_sendToEvmWithData _ \<Rightarrow> True
     | A_vaultTransfer _ _ _ \<Rightarrow> True | _ \<Rightarrow> False)"

definition dispatch :: "env \<Rightarrow> inputs \<Rightarrow> request \<Rightarrow> user \<Rightarrow> sys \<Rightarrow> Response \<times> sys" where
  \<comment> \<open>the switch, its cases grouped by the account they act on\<close>
  "dispatch E I rq target w =
    (let a = rq_action rq in
     if is_trade a then trade_action E I rq target a w
     else if is_transfer a then transfer_action E target a w
     else wallet_action E (in_defaultBalance I) (rq_wallet rq) a w)"

definition handle :: "env \<Rightarrow> inputs \<Rightarrow> request \<Rightarrow> sys \<Rightarrow> Response \<times> sys" where
  "handle E I rq w =
    (case admit E (in_defaultBalance I) rq w of
       (Inl err, w') \<Rightarrow> (RouteErr err, w')
     | (Inr target, w') \<Rightarrow> dispatch E I rq target w')"

subsection \<open>What an account operation does to the engine's state\<close>

definition outside :: "sys \<Rightarrow> sys \<Rightarrow> bool" where
  \<comment> \<open>balances only, and events that are no fills\<close>
  "outside w w' \<longleftrightarrow>
    (\<exists>b evs. core w' = (core w)\<lparr>balance := b, bus := bus (core w) @ evs\<rparr> \<and> (\<forall>ev \<in> set evs. fills_of ev = []))"

definition same_agents :: "sys \<Rightarrow> sys \<Rightarrow> bool" where
  "same_agents w w' \<longleftrightarrow> agents w' = agents w \<and> nonceMax w' = nonceMax w"

definition account_op :: "sys \<Rightarrow> sys \<Rightarrow> bool" where
  "account_op w w' \<longleftrightarrow> outside w w' \<and> same_agents w w'"

lemma core_same: "core w' = core w \<Longrightarrow> outside w w'"
  unfolding outside_def by (rule exI [of _ "balance (core w)"], rule exI [of _ "[]"]) simp

lemma outside_trans: "outside w w' \<Longrightarrow> outside w' w'' \<Longrightarrow> outside w w''"
  unfolding outside_def
proof (elim exE conjE)
  fix b c xs ys
  assume "core w' = (core w)\<lparr>balance := b, bus := bus (core w) @ xs\<rparr>" "\<forall>ev \<in> set xs. fills_of ev = []"
    "core w'' = (core w')\<lparr>balance := c, bus := bus (core w') @ ys\<rparr>" "\<forall>ev \<in> set ys. fills_of ev = []"
  then have "core w'' = (core w)\<lparr>balance := c, bus := bus (core w) @ xs @ ys\<rparr> \<and> (\<forall>ev \<in> set (xs @ ys). fills_of ev = [])"
    by auto
  then show "\<exists>b evs. core w'' = (core w)\<lparr>balance := b, bus := bus (core w) @ evs\<rparr> \<and> (\<forall>ev \<in> set evs. fills_of ev = [])"
    by blast
qed

declare store_bal.simps [simp del]

lemma op_refl [simp]: "account_op w w"
  by (simp add: account_op_def same_agents_def core_same)

lemma op_trans [trans]: "account_op w w' \<Longrightarrow> account_op w' w'' \<Longrightarrow> account_op w w''"
  by (auto simp: account_op_def same_agents_def intro: outside_trans)

lemma op_fold: "(\<And>x w. account_op w (f w x)) \<Longrightarrow> account_op w (foldl f w xs)"
  by (induction xs arbitrary: w) (auto intro: op_trans)

lemma op_then: "account_op w w' \<Longrightarrow> outside w' w'' \<Longrightarrow> same_agents w' w'' \<Longrightarrow> account_op w w''"
  by (rule op_trans) (simp_all add: account_op_def)

lemma op_store: "account_op w w' \<Longrightarrow> account_op w (store_bal k v w')"
proof (erule op_then)
  show "outside w' (store_bal k v w')"
  proof (cases k)
    case (Pair u b)
    then show ?thesis
    proof (cases b)
      case (Perp d)
      then show ?thesis unfolding outside_def Pair Perp store_bal.simps
        by (intro exI [of _ "(balance (core w'))(u := (balance (core w') u)(d := Some v))"] exI [of _ "[]"]) simp
    qed (simp add: Pair core_same store_bal.simps)
  qed
  show "same_agents w' (store_bal k v w')" by (simp add: same_agents_def)
qed

lemma op_emit: "account_op w w' \<Longrightarrow> fills_of ev = [] \<Longrightarrow> account_op w (emit_core ev w')"
proof (erule op_then)
  show "outside w' (emit_core ev w')" if "fills_of ev = []" unfolding outside_def
    by (intro exI [of _ "balance (core w')"] exI [of _ "[ev]"]) (simp add: emit_core_def emit_def that)
qed (simp add: same_agents_def emit_core_def)

lemma op_aside:
  assumes "account_op w w'" "core w'' = core w'" "agents w'' = agents w'" "nonceMax w'' = nonceMax w'"
  shows "account_op w w''"
  using assms by (auto intro: op_then [OF assms(1)] core_same simp: same_agents_def)

lemma op_move: "account_op w w' \<Longrightarrow> account_op w (move_funds src dst amt w')"
  unfolding move_funds_def by (intro op_store)

lemma op_debit: "account_op w w' \<Longrightarrow> account_op w (debit src amt w')"
  unfolding debit_def by (intro op_store)

lemma op_update: "account_op w w' \<Longrightarrow> account_op w (emitAccountUpdate us ds w')"
  unfolding emitAccountUpdate_def Let_def by (erule op_trans) (simp add: op_fold op_emit)

lemmas op_moves = op_update op_move op_debit op_emit op_store op_refl

lemma op_ensure: "account_op w w' \<Longrightarrow> account_op w (ensureAccount E d u w')"
proof (erule op_trans)
  have seed: "account_op w1 (seed_dex u w1 x)" for w1 x
    by (auto simp: seed_dex_def split: option.split intro!: op_aside [OF op_store [OF op_refl]])
  have fold: "account_op w1 w2 \<Longrightarrow> account_op w1 (case perpDexs (core w2) of None \<Rightarrow> w2 | Some ds \<Rightarrow> foldl (seed_dex u) w2 ds)" for w1 w2
    by (auto split: option.split intro: op_trans op_fold seed)
  have new: "account_op w' (w2\<lparr>accountSince := f\<rparr>)" if "account_op w' w2" for w2 f
    by (rule op_aside [OF that]) simp_all
  show "account_op w' (ensureAccount E d u w')"
    unfolding ensureAccount_def Let_def by (intro fold) (auto intro!: op_emit new op_store)
qed

lemma op_transfers:
  "account_op w (snd (usdClassTransfer u amount toPerp w))" "account_op w (snd (usdSend u dest amount w))"
  "account_op w (snd (spotSend u dest token amount w))" "account_op w (snd (sendAsset u dest sd dd token amount sub w))"
  "account_op w (snd (sendToEvmWithData u amount w))"
  by (auto simp: usdClassTransfer_def usdSend_def spotSend_def sendAsset_def sendToEvmWithData_def send_known_def
    Let_def split: option.splits prod.splits intro!: op_moves)

lemma op_vault: "account_op w (snd (vaultTransfer E u va dep usd w))"
proof -
  have eq: "account_op w (set_equity u v e w1)" if "account_op w w1" for u v e w1
    by (rule op_aside [OF that]) (simp_all add: set_equity_def)
  have vm: "account_op w (w1\<lparr>vaultMeta := f\<rparr>)" if "account_op w w1" for w1 f
    by (rule op_aside [OF that]) simp_all
  show ?thesis by (auto simp: vaultTransfer_def Let_def intro!: eq vm op_moves)
qed

lemma op_staking:
  "account_op w (snd (cDeposit E u x w))" "account_op w (snd (cWithdraw E u x w))"
  "account_op w (snd (tokenDelegate E u v x und w))"
  by (auto simp: cDeposit_def cWithdraw_def tokenDelegate_def delegate_def undelegate_def Let_def appendStakingEvent_def
    split: option.splits intro!: op_aside [OF op_refl])

lemma op_subs:
  "account_op w (snd (createSubAccount E d u name w))" "account_op w (snd (subAccountModify u sub name w))"
  "account_op w (snd (subAccountTransfer E u sub dep usd w))" "account_op w (snd (subAccountSpotTransfer u sub w))"
  by (auto simp: createSubAccount_def subAccountModify_def subAccountTransfer_def subAccountSpotTransfer_def Let_def
    split: option.splits intro!: op_ensure op_moves op_aside [OF op_refl])

lemma op_settings:
  "account_op w (snd (approveBuilderFee u b rate w))" "account_op w (snd (setReferrer u code w))"
  by (auto simp: approveBuilderFee_def setReferrer_def intro!: op_aside [OF op_refl])

lemma op_sweep: "account_op w (sweepStakingQueue E scanned w)"
proof -
  have "account_op w1 (complete_withdrawal E u e w1)" for w1 u e
    unfolding complete_withdrawal_def Let_def appendStakingEvent_def
    by (rule op_aside [OF op_store [OF op_refl]]) simp_all
  then have "account_op w1 (sweep_user E u w1)" for w1 u
    unfolding sweep_user_def by (intro op_fold)
  then show ?thesis unfolding sweepStakingQueue_def by (intro op_fold)
qed

subsection \<open>The gate\<close>

definition acts_on :: "request \<Rightarrow> user" where
  "acts_on rq = (case rq_vaultAddress rq of None \<Rightarrow> rq_wallet rq | Some v \<Rightarrow> lower v)"

definition authorised :: "sys \<Rightarrow> request \<Rightarrow> bool" where
  \<comment> \<open>for oneself, or as the master or an approved agent of the account, and not with a user-signed action\<close>
  "authorised w rq = (case rq_vaultAddress rq of None \<Rightarrow> True
     | Some v \<Rightarrow> hex_string 40 v \<and> \<not> isUserSignedActionType (rq_action rq) \<and>
         (lower v = rq_wallet rq \<or> isSubAccountOf w (rq_wallet rq) (lower v) \<or> isAgentOf w (lower v) (rq_wallet rq)))"

definition last_nonce :: "sys \<Rightarrow> user \<Rightarrow> int" where
  "last_nonce w u = (case nonceMax w u of None \<Rightarrow> 0 | Some m \<Rightarrow> m)"

definition fresh_nonce :: "env \<Rightarrow> sys \<Rightarrow> request \<Rightarrow> bool" where
  "fresh_nonce E w rq = (case rq_nonce rq of None \<Rightarrow> True
     | Some n \<Rightarrow> of_int (now E - 172800000) < n \<and> n < of_int (now E + 86400000) \<and> of_int (last_nonce w (rq_wallet rq)) < n)"

definition unexpired :: "env \<Rightarrow> request \<Rightarrow> bool" where
  "unexpired E rq = (case rq_expiresAfter rq of None \<Rightarrow> True | Some t \<Rightarrow> now E < t)"

lemma ensure_auth [simp]:
  "agents (ensureAccount E d u w) = agents w" "nonceMax (ensureAccount E d u w) = nonceMax w"
  using op_ensure [OF op_refl, of w E d u] by (simp_all add: account_op_def same_agents_def)

lemma ensure_views [simp]:
  "isSubAccountOf (ensureAccount E d u w) m s = isSubAccountOf w m s" "isAgentOf (ensureAccount E d u w) m s = isAgentOf w m s"
  "last_nonce (ensureAccount E d u w) v = last_nonce w v"
  by (simp_all add: isSubAccountOf_def isAgentOf_def last_nonce_def)

lemma act_for_cases:
  assumes "act_for E d rq w = (res, w')"
  shows "account_op w w' \<and> (if authorised w rq then res = Inr (acts_on rq) else \<exists>err. res = Inl err)"
  using assms by (auto simp: act_for_def authorised_def acts_on_def Let_def op_ensure split: option.splits if_splits)

lemma check_nonce_cases:
  assumes "check_nonce E (rq_wallet rq) (rq_nonce rq) w = (res, w')"
  shows "outside w w' \<and> agents w' = agents w \<and> (res = None \<longleftrightarrow> fresh_nonce E w rq) \<and>
    nonceMax w' = (if res = None then (case rq_nonce rq of None \<Rightarrow> nonceMax w | Some n \<Rightarrow> (nonceMax w)(rq_wallet rq \<mapsto> \<lfloor>n\<rfloor>))
      else nonceMax w)"
  using assms by (auto simp: check_nonce_def fresh_nonce_def last_nonce_def not_le intro!: core_same split: option.splits if_splits)

lemma admit_cases:
  assumes "admit E d rq w = (res, w')"
  shows "outside w w' \<and> agents w' = agents w \<and>
    (nonceMax w' = nonceMax w \<or> fresh_nonce E w rq \<and> (\<exists>n. rq_nonce rq = Some n \<and> nonceMax w' = (nonceMax w)(rq_wallet rq \<mapsto> \<lfloor>n\<rfloor>))) \<and>
    (if authorised w rq \<and> fresh_nonce E w rq \<and> unexpired E rq
     then res = Inr (acts_on rq) \<and>
       nonceMax w' = (case rq_nonce rq of None \<Rightarrow> nonceMax w | Some n \<Rightarrow> (nonceMax w)(rq_wallet rq \<mapsto> \<lfloor>n\<rfloor>))
     else \<exists>err. res = Inl err)"
proof -
  define w1 where "w1 = ensureAccount E d (rq_wallet rq) w"
  have e: "account_op w w1" unfolding w1_def by (rule op_ensure [OF op_refl])
  have views: "authorised w1 rq = authorised w rq" "fresh_nonce E w1 rq = fresh_nonce E w rq"
    by (simp_all add: w1_def authorised_def fresh_nonce_def split: option.split)
  obtain a w2 where a: "act_for E d rq w1 = (a, w2)" by force
  note ac = act_for_cases [OF a]
  have w2: "account_op w w2" using op_trans [OF e] ac by blast
  have fr2: "fresh_nonce E w2 rq = fresh_nonce E w rq"
    using w2 by (auto simp: fresh_nonce_def last_nonce_def account_op_def same_agents_def split: option.split)
  obtain c w3 where c: "check_nonce E (rq_wallet rq) (rq_nonce rq) w2 = (c, w3)" by force
  note cc = check_nonce_cases [OF c]
  show ?thesis
  proof (cases "authorised w rq")
    case False
    then obtain err where "a = Inl err" using ac views by auto
    then have "res = Inl err" "w' = w2" using assms a by (simp_all add: admit_def Let_def w1_def)
    with False w2 show ?thesis by (simp add: account_op_def same_agents_def)
  next
    case True
    then have a': "a = Inr (acts_on rq)" using ac views by simp
    have "w' = w3 \<and> res = (case c of Some err \<Rightarrow> Inl err | None \<Rightarrow> if unexpired E rq then Inr (acts_on rq) else Inl ActionExpired)"
      using assms a a' c by (auto simp: admit_def Let_def w1_def unexpired_def split: option.splits if_splits)
    with True cc fr2 w2 outside_trans show ?thesis
      by (auto simp: account_op_def same_agents_def split: option.splits if_splits)
  qed
qed

lemma with_core_cases:
  assumes "with_core x f w = (res, w')" "engine_step (core w) (snd x)"
  shows "engine_step\<^sup>*\<^sup>* (core w) (core w') \<and> agents w' = agents w \<and> nonceMax w' = nonceMax w"
  using assms by (auto simp: with_core_def)

lemmas step_of_operation = engine_step.place engine_step.place_trailing engine_step.cancel engine_step.cancel_cloid
  engine_step.modify engine_step.batch_modify engine_step.leverage engine_step.isolated_margin
  engine_step.schedule engine_step.twap_create engine_step.twap_cancel

lemma settings_cases:
  assumes "settings_action E I u a w = (res, w')"
  shows "engine_step\<^sup>*\<^sup>* (core w) (core w') \<and> agents w' = agents w \<and> nonceMax w' = nonceMax w"
  using assms by (cases a) (auto split: option.splits if_splits elim!: with_core_cases
    intro: step_of_operation [OF prod.collapse [symmetric]])

lemma trade_cases:
  assumes "trade_action E I rq u a w = (res, w')"
  shows "engine_step\<^sup>*\<^sup>* (core w) (core w') \<and> agents w' = agents w \<and> nonceMax w' = nonceMax w"
proof (cases "trade_action E I rq u a w = settings_action E I u a w")
  case True
  with assms settings_cases show ?thesis by simp
next
  case False
  with assms show ?thesis by (cases a) (auto split: option.splits if_splits elim!: with_core_cases
    intro: step_of_operation [OF prod.collapse [symmetric]])
qed

lemma transfer_cases: "transfer_action E u a w = (res, w') \<Longrightarrow> account_op w w'"
  using op_transfers op_vault
  by (cases a) (auto simp: account_result_def agentSendAsset_def)

lemma approve_cases:
  "core (snd (approveAgent E u address name w)) = core w" "nonceMax (snd (approveAgent E u address name w)) = nonceMax w"
  by (auto simp: approveAgent_def Let_def hset_agent_def hdel_agent_def)

lemma approve_keeps:
  assumes "agents_ok w m"
  shows "agents_ok (snd (approveAgent E u address name w)) m"
proof (cases "m = u")
  case True
  note le = assms [unfolded agents_ok_def, THEN conjunct2, THEN conjunct1]
  show ?thesis
    using hdel_keeps [OF assms] hset_keeps [OF assms, of "lower address"] assms le
    by (auto simp: True approveAgent_def Let_def)
next
  case False
  then have "agents (snd (approveAgent E u address name w)) m = agents w m"
    by (auto simp: approveAgent_def Let_def hset_agent_def hdel_agent_def)
  with assms show ?thesis by (simp add: agents_ok_def)
qed

lemma wallet_cases:
  assumes "wallet_action E d u a w = (res, w')"
  shows "account_op w w' \<or> (\<exists>address name. w' = snd (approveAgent E u address name w))"
  using assms op_staking op_subs op_settings
  by (cases a) (auto simp: account_result_def split: prod.splits sum.splits if_splits, (metis snd_conv)+)

subsection \<open>The system\<close>

text \<open>
  The service as a whole: handled requests, the sweep of the staking queue, and the engine's own
  workers, in any order.
\<close>

inductive sys_step :: "sys \<Rightarrow> sys \<Rightarrow> bool" where
  request: "handle E I rq w = (r, w') \<Longrightarrow> sys_step w w'"
| sweep: "sys_step w (sweepStakingQueue E scanned w)"
| worker: "engine_step (core w) s \<Longrightarrow> sys_step w (w\<lparr>core := s\<rparr>)"

inductive_cases sys_stepE: "sys_step w w'"

definition agents_all_ok :: "sys \<Rightarrow> bool" where
  "agents_all_ok w \<longleftrightarrow> (\<forall>m. agents_ok w m)"

definition nonces_grow :: "sys \<Rightarrow> sys \<Rightarrow> bool" where
  "nonces_grow w w' \<longleftrightarrow> (\<forall>u. last_nonce w u \<le> last_nonce w' u)"

definition sys_keeps :: "sys \<Rightarrow> sys \<Rightarrow> bool" where
  "sys_keeps w w' \<longleftrightarrow> engine_step\<^sup>*\<^sup>* (core w) (core w') \<and> (agents_all_ok w \<longrightarrow> agents_all_ok w') \<and> nonces_grow w w'"

lemma sys_keeps_trans: "sys_keeps w w' \<Longrightarrow> sys_keeps w' w'' \<Longrightarrow> sys_keeps w w''"
  unfolding sys_keeps_def nonces_grow_def by (meson order_trans rtranclp_trans)

lemma outside_steps: "outside w w' \<Longrightarrow> engine_step\<^sup>*\<^sup>* (core w) (core w')"
  using engine_step.balances by (auto simp: outside_def)

lemma keeps_same_agents:
  "engine_step\<^sup>*\<^sup>* (core w) (core w') \<Longrightarrow> agents w' = agents w \<Longrightarrow> nonceMax w' = nonceMax w \<Longrightarrow> sys_keeps w w'"
  by (simp add: sys_keeps_def agents_all_ok_def agents_ok_def nonces_grow_def last_nonce_def)

lemma reachable_run: "engine_step\<^sup>*\<^sup>* s s' \<Longrightarrow> reachable s \<Longrightarrow> reachable s'"
  by (induction rule: rtranclp_induct) (auto intro: reachable.step)

lemma keeps_account_op: "account_op w w' \<Longrightarrow> sys_keeps w w'"
  by (intro keeps_same_agents) (auto simp: account_op_def same_agents_def intro: outside_steps)

lemma keeps_admit:
  assumes "admit E d rq w = (res, w')"
  shows "sys_keeps w w'"
proof -
  note ad = admit_cases [OF assms]
  have "last_nonce w u \<le> last_nonce w' u" for u
  proof (cases "nonceMax w' = nonceMax w")
    case False
    then obtain n where n: "fresh_nonce E w rq" "rq_nonce rq = Some n" "nonceMax w' = (nonceMax w)(rq_wallet rq \<mapsto> \<lfloor>n\<rfloor>)"
      using ad by blast
    then have "last_nonce w (rq_wallet rq) \<le> \<lfloor>n\<rfloor>" by (simp add: fresh_nonce_def le_floor_iff)
    with n(3) show ?thesis by (simp add: last_nonce_def)
  qed (simp add: last_nonce_def)
  with ad show ?thesis
    by (simp add: sys_keeps_def nonces_grow_def agents_all_ok_def agents_ok_def outside_steps)
qed

lemma keeps_dispatch:
  assumes "dispatch E I rq u w = (res, w')"
  shows "sys_keeps w w'"
proof -
  have ap: "sys_keeps w (snd (approveAgent E v address name w))" for v address name
    using approve_keeps by (simp add: sys_keeps_def agents_all_ok_def approve_cases nonces_grow_def last_nonce_def)
  show ?thesis
    using assms trade_cases keeps_same_agents transfer_cases keeps_account_op wallet_cases ap
    unfolding dispatch_def Let_def by (metis (no_types))
qed

lemma keeps_step: "sys_step w w' \<Longrightarrow> sys_keeps w w'"
proof (erule sys_step.cases)
  fix E I rq w0 r w1 assume eq: "w = w0" "w' = w1" and h: "handle E I rq w0 = (r, w1)"
  obtain a w2 where a: "admit E (in_defaultBalance I) rq w0 = (a, w2)" by force
  then have "sys_keeps w0 w2" by (rule keeps_admit)
  moreover have "w1 = w2 \<or> (\<exists>u. dispatch E I rq u w2 = (r, w1))"
    using h a by (auto simp: handle_def split: sum.splits)
  ultimately show "sys_keeps w w'" unfolding eq by (metis keeps_dispatch sys_keeps_trans)
next
  fix E scanned w0 assume "w = w0" "w' = sweepStakingQueue E scanned w0"
  then show "sys_keeps w w'" using keeps_account_op [OF op_sweep] by simp
next
  fix w0 s assume "w = w0" "w' = w0\<lparr>core := s\<rparr>" "engine_step (core w0) s"
  then show "sys_keeps w w'" by (intro keeps_same_agents) auto
qed

lemma keeps_run: "sys_step\<^sup>*\<^sup>* w w' \<Longrightarrow> sys_keeps w w'"
proof (induction rule: rtranclp_induct)
  case base
  show ?case by (rule keeps_account_op) (rule op_refl)
qed (blast intro: sys_keeps_trans keeps_step)

subsection \<open>Properties\<close>

text \<open>
  C22. A request reaches the engine exactly when it may: it names no other account, or one that the
  signer owns as a sub-account or serves as an approved agent, and then is not a user-signed
  action; its nonce lies within the window and above all nonces used before; and it has not
  expired. It then acts on that account and its nonce is used up. A refused request changes
  neither agents nor orders and positions, at most accounts are created.
\<close>

theorem admit_authorises:
  assumes "admit E d rq w = (res, w')"
  shows "(res = Inr (acts_on rq) \<longleftrightarrow> authorised w rq \<and> fresh_nonce E w rq \<and> unexpired E rq) \<and>
    (res \<noteq> Inr (acts_on rq) \<longrightarrow> (\<exists>err. res = Inl err)) \<and>
    (res = Inr (acts_on rq) \<longrightarrow> (\<forall>n. rq_nonce rq = Some n \<longrightarrow> nonceMax w' (rq_wallet rq) = Some \<lfloor>n\<rfloor>)) \<and>
    agents w' = agents w \<and> (\<exists>b evs. core w' = (core w)\<lparr>balance := b, bus := bus (core w) @ evs\<rparr>)"
  using admit_cases [OF assms] by (auto simp: outside_def split: if_splits)

definition sample_inputs :: inputs where
  "sample_inputs = \<lparr>in_defaultBalance = 1000, in_marks = \<lambda>_. None, in_meta = None\<rparr>"

definition sample_request :: "user \<Rightarrow> Action \<Rightarrow> int \<Rightarrow> request" where
  "sample_request u a n =
    \<lparr>rq_wallet = u, rq_action = a, rq_vaultAddress = None, rq_nonce = Some (of_int n), rq_expiresAfter = None\<rparr>"

theorem admit_authorises_witness:
  "fst (admit sample_env 1000 (sample_request ''u'' A_noop 1000000) empty_sys) = Inr ''u''"
proof -
  obtain res w' where a: "admit sample_env 1000 (sample_request ''u'' A_noop 1000000) empty_sys = (res, w')" by force
  from admit_authorises [OF a, THEN conjunct1] have "res = Inr ''u''"
    by (simp add: sample_request_def acts_on_def authorised_def fresh_nonce_def unexpired_def last_nonce_def
      sample_env_def empty_sys_def)
  then show ?thesis unfolding a by simp
qed

text \<open>
  C23. An integer nonce is good for one request: once a request was admitted, no request of the
  same wallet with the same or a smaller nonce is admitted at any later time, whatever the
  service does in between.
\<close>

theorem nonce_used_once:
  assumes "admit E d rq w = (Inr t, w1)" "rq_nonce rq = Some (of_int n)" "sys_step\<^sup>*\<^sup>* w1 w2"
    and "rq_wallet rq' = rq_wallet rq" "rq_nonce rq' = Some n'" "n' \<le> of_int n"
  shows "\<exists>err w3. admit E' d' rq' w2 = (Inl err, w3)"
proof -
  have "nonceMax w1 (rq_wallet rq) = Some n"
    using admit_cases [OF assms(1)] assms(2) by (auto split: if_splits)
  then have "n \<le> last_nonce w2 (rq_wallet rq)"
    using keeps_run [OF assms(3)] by (auto simp: sys_keeps_def nonces_grow_def last_nonce_def dest: spec [of _ "rq_wallet rq"])
  then have "n' \<le> of_int (last_nonce w2 (rq_wallet rq))"
    using assms(6) by (meson of_int_le_iff order_trans)
  then have "\<not> fresh_nonce E' w2 rq'" using assms(4,5) by (simp add: fresh_nonce_def not_less)
  moreover obtain res w3 where a: "admit E' d' rq' w2 = (res, w3)" by force
  ultimately show ?thesis using admit_cases [OF a] a by auto
qed

theorem nonce_used_once_witness:
  "\<exists>err w3. admit sample_env 1000 (sample_request ''u'' A_noop 999999)
     (snd (admit sample_env 1000 (sample_request ''u'' A_noop 1000000) empty_sys)) = (Inl err, w3)"
proof -
  let ?rq = "sample_request ''u'' A_noop 1000000"
  obtain res w1 where a: "admit sample_env 1000 ?rq empty_sys = (res, w1)" by force
  have "res = Inr ''u''"
    using admit_cases [OF a] by (simp add: sample_request_def acts_on_def authorised_def fresh_nonce_def
      unexpired_def last_nonce_def sample_env_def empty_sys_def)
  with a have "admit sample_env 1000 ?rq empty_sys = (Inr ''u'', w1)" by simp
  from nonce_used_once [OF this, of 1000000 w1 "sample_request ''u'' A_noop 999999" 999999 sample_env 1000]
  have "\<exists>err w3. admit sample_env 1000 (sample_request ''u'' A_noop 999999) w1 = (Inl err, w3)"
    by (simp add: sample_request_def)
  then show ?thesis unfolding a snd_conv .
qed

lemma fractional_nonce_replays:
  \<comment> \<open>parseInt drops the fraction of the stored nonce, so the same nonce passes again\<close>
  assumes "check_nonce E u (Some n) w = (None, w1)" "n \<noteq> of_int \<lfloor>n\<rfloor>"
  shows "fst (check_nonce E u (Some n) w1) = None"
proof -
  have "of_int \<lfloor>n\<rfloor> < n" using assms(2) of_int_floor_le [of n] by (intro le_neq_trans) auto
  with assms(1) show ?thesis by (auto simp: check_nonce_def split: if_splits)
qed

end
