(* ===== verification/Market.thy ===== *)
theory Market
  imports Steps "HOL-Library.AList"
begin

text \<open>
  Market data (worker/price-updater.ts and the seeding and true-up of worker/index.ts): how the
  frames of Hyperliquid's socket and the answers of its HTTP interface become the mids, the
  marks with their stamps and the books that the engine reads, and what is relayed on the bus.
  The answers of fetch are arguments (\<open>None\<close> for a failed request), prices are numbers and an
  empty price field is a missing one. A frame relayed verbatim is its JSON text.
\<close>

type_synonym json = string

subsection \<open>Frames, contexts and state\<close>

record CtxFields =
  cx_midPx :: "rat option"
  cx_oraclePx :: "rat option"
  cx_funding :: "rat option"
  cx_openInterest :: "rat option"
  cx_prevDayPx :: "rat option"
  cx_dayNtlVlm :: "rat option"
  cx_premium :: "rat option"

record HlAssetCtx = CtxFields +
  ac_markPx :: "rat option"

datatype MarketEvent =
    MidsEvent "(coin \<times> rat) list"
  | L2BookEvent HlL2Book
  | TradesEvent coin "(coin \<times> json) list"
  | BboEvent coin json
  | CandleEvent coin string json
  | ActiveAssetCtxEvent coin HlAssetCtx

text \<open>
  The hash of a market context is the mark with its stamp, where the engine reads it, and the
  other fields in \<open>f_ctx\<close>; \<open>f_bareTs\<close> is the stamp of a hash whose mark is empty (0: none).
\<close>

record feed =
  f_engine :: state
  f_ctx :: "coin \<Rightarrow> CtxFields option"
  f_bareTs :: "coin \<Rightarrow> millis"
  f_l2 :: "coin \<Rightarrow> HlL2Book option"
  f_out :: "MarketEvent list"

datatype UpstreamFrame =
    FrAllMids "(coin \<times> rat) list option"
  | FrActiveAssetCtx coin "HlAssetCtx option"
  | FrL2Book HlL2Book
  | FrTrades "(coin \<times> json) list"
  | FrBbo coin json
  | FrCandle coin string json
  | FrOther string

subsection \<open>PriceUpdater\<close>

definition relay :: "MarketEvent \<Rightarrow> feed \<Rightarrow> feed" where
  "relay ev f = f\<lparr>f_out := f_out f @ [ev]\<rparr>"

definition hset_mids :: "(coin \<times> rat) list \<Rightarrow> feed \<Rightarrow> feed" where
  "hset_mids entries f =
    f\<lparr>f_engine := (f_engine f)\<lparr>mids := foldl (\<lambda>m (c, px). AList.update c px m) (mids (f_engine f)) entries\<rparr>\<rparr>"

definition mark_stamp :: "feed \<Rightarrow> coin \<Rightarrow> millis" where
  "mark_stamp f c = (case ctx_mark (f_engine f) c of Some (_, ts) \<Rightarrow> ts | None \<Rightarrow> f_bareTs f c)"

definition hset_ctx :: "coin \<Rightarrow> HlAssetCtx \<Rightarrow> millis option \<Rightarrow> feed \<Rightarrow> feed" where
  \<comment> \<open>HSET of the context; without a stamp the old one stays\<close>
  "hset_ctx c x stamp f =
    (let ts = (case stamp of Some t \<Rightarrow> t | None \<Rightarrow> mark_stamp f c)
     in f\<lparr>f_engine := (f_engine f)\<lparr>ctx_mark := (ctx_mark (f_engine f))(c := map_option (\<lambda>m. (m, ts)) (ac_markPx x))\<rparr>,
          f_ctx := (f_ctx f)(c \<mapsto> CtxFields.truncate x), f_bareTs := (f_bareTs f)(c := ts)\<rparr>)"

definition live_px :: "HlAssetCtx \<Rightarrow> rat option" where
  "live_px x = (case cx_midPx x of Some p \<Rightarrow> Some p | None \<Rightarrow> ac_markPx x)"

text \<open>Each handler returns whether it wakes the matcher (\<open>onUpdate\<close>).\<close>

definition handleAllMids :: "(coin \<times> rat) list option \<Rightarrow> feed \<Rightarrow> bool \<times> feed" where
  "handleAllMids ms f =
    (case ms of None \<Rightarrow> (False, f)
     | Some entries \<Rightarrow>
        if entries = [] then (False, f) else (True, relay (MidsEvent entries) (hset_mids entries f)))"

definition handleActiveAssetCtx :: "millis \<Rightarrow> coin \<Rightarrow> HlAssetCtx option \<Rightarrow> feed \<Rightarrow> bool \<times> feed" where
  "handleActiveAssetCtx t c x f =
    (case x of None \<Rightarrow> (False, f)
     | Some x \<Rightarrow>
        if c = '''' then (False, f)
        else
          let f1 = hset_ctx c x (Some t) f
          in case live_px x of
               None \<Rightarrow> (False, relay (ActiveAssetCtxEvent c x) f1)
             | Some px \<Rightarrow> (True, relay (MidsEvent [(c, px)]) (relay (ActiveAssetCtxEvent c x) (hset_mids [(c, px)] f1))))"

definition handleL2Book :: "HlL2Book \<Rightarrow> feed \<Rightarrow> feed" where
  "handleL2Book b f =
    (if bk_coin b = '''' then f else relay (L2BookEvent b) (f\<lparr>f_l2 := (f_l2 f)(bk_coin b \<mapsto> b)\<rparr>))"

definition handleTrades :: "(coin \<times> json) list \<Rightarrow> feed \<Rightarrow> feed" where
  "handleTrades arr f =
    (case arr of [] \<Rightarrow> f | (c, _) # _ \<Rightarrow> if c = '''' then f else relay (TradesEvent c arr) f)"

definition handleBbo :: "coin \<Rightarrow> json \<Rightarrow> feed \<Rightarrow> feed" where
  "handleBbo c d f = (if c = '''' then f else relay (BboEvent c d) f)"

definition handleCandle :: "coin \<Rightarrow> string \<Rightarrow> json \<Rightarrow> feed \<Rightarrow> feed" where
  "handleCandle c i d f = (if c = '''' \<or> i = '''' then f else relay (CandleEvent c i d) f)"

definition handleMessage :: "millis \<Rightarrow> UpstreamFrame \<Rightarrow> feed \<Rightarrow> bool \<times> feed" where
  "handleMessage t fr f =
    (case fr of
       FrAllMids ms \<Rightarrow> handleAllMids ms f
     | FrActiveAssetCtx c x \<Rightarrow> handleActiveAssetCtx t c x f
     | FrL2Book b \<Rightarrow> (False, handleL2Book b f)
     | FrTrades arr \<Rightarrow> (False, handleTrades arr f)
     | FrBbo c d \<Rightarrow> (False, handleBbo c d f)
     | FrCandle c i d \<Rightarrow> (False, handleCandle c i d f)
     | FrOther _ \<Rightarrow> (False, f))"

definition seedMids :: "(coin \<times> rat) list \<Rightarrow> feed \<Rightarrow> feed" where
  "seedMids entries f = (if entries = [] then f else hset_mids entries f)"

subsection \<open>Seeding at start-up\<close>

definition seed_rows :: "HlMeta \<Rightarrow> HlAssetCtx list \<Rightarrow> (coin \<times> HlAssetCtx) list" where
  \<comment> \<open>up to the shorter of the two lists\<close>
  "seed_rows m ctxs = zip (map ai_name (m_universe m)) ctxs"

definition seed_mids_of :: "(coin \<times> rat option) list \<Rightarrow> (coin \<times> rat) list" where
  "seed_mids_of rows = List.map_filter (\<lambda>(c, p). map_option (Pair c) p) rows"

definition seed_ctxs :: "(coin \<times> HlAssetCtx) list \<Rightarrow> feed \<Rightarrow> feed" where
  "seed_ctxs rows f = foldl (\<lambda>g (c, x). hset_ctx c x None g) f rows"

definition seed_native :: "HlMeta \<Rightarrow> HlAssetCtx list option \<Rightarrow> (coin \<times> rat) list option \<Rightarrow> feed \<Rightarrow> bool \<times> feed" where
  \<comment> \<open>a failed request throws: what was written before it stays\<close>
  "seed_native m ctxs allMids f =
    (let f1 = f\<lparr>f_engine := (f_engine f)\<lparr>meta := Some m\<rparr>\<rparr>
     in case ctxs of None \<Rightarrow> (False, f1)
        | Some xs \<Rightarrow>
           let rows = seed_rows m xs;
               f2 = seedMids (seed_mids_of (map (\<lambda>(c, x). (c, live_px x)) rows)) (seed_ctxs rows f1)
           in case allMids of None \<Rightarrow> (False, f2) | Some ms \<Rightarrow> (True, seedMids ms f2))"

definition seed_spot :: "(SpotMetaCache \<times> (rat option \<times> rat option) list) option \<Rightarrow> feed \<Rightarrow> feed" where
  \<comment> \<open>mid and mark of each pair\<close>
  "seed_spot resp f =
    (case resp of None \<Rightarrow> f
     | Some (sm, ctxs) \<Rightarrow>
        let live = map (\<lambda>(mid, mark). case mid of Some p \<Rightarrow> Some p | None \<Rightarrow> mark) ctxs
        in seedMids (seed_mids_of (zip (map sp_name (spot_universe sm)) live))
             (f\<lparr>f_engine := (f_engine f)\<lparr>spotMeta := Some sm\<rparr>\<rparr>))"

definition seed_sub_dex :: "(dex_name \<Rightarrow> (HlMeta \<times> HlAssetCtx list) option) \<Rightarrow> feed \<Rightarrow> dex_name option \<Rightarrow> feed" where
  "seed_sub_dex resp f d =
    (case d of None \<Rightarrow> f
     | Some dex \<Rightarrow>
        if dex = '''' then f
        else case resp dex of None \<Rightarrow> f
        | Some (m, xs) \<Rightarrow>
            let f1 = f\<lparr>f_engine := (f_engine f)\<lparr>meta_dex := (meta_dex (f_engine f))(dex \<mapsto> m)\<rparr>\<rparr>; rows = seed_rows m xs
            in seedMids (seed_mids_of (map (\<lambda>(c, x). (c, live_px x)) rows)) (seed_ctxs rows f1))"

definition seed_perpDexs ::
    "dex_name option list option \<Rightarrow> (dex_name \<Rightarrow> (HlMeta \<times> HlAssetCtx list) option) \<Rightarrow> feed \<Rightarrow> feed" where
  "seed_perpDexs dexs resp f =
    (case dexs of None \<Rightarrow> f
     | Some ds \<Rightarrow> foldl (seed_sub_dex resp) (f\<lparr>f_engine := (f_engine f)\<lparr>perpDexs := Some ds\<rparr>\<rparr>) ds)"

record SeedAnswers =
  sa_meta :: "HlMeta option"
  sa_ctxs :: "HlAssetCtx list option"
  sa_allMids :: "(coin \<times> rat) list option"
  sa_spot :: "(SpotMetaCache \<times> (rat option \<times> rat option) list) option"
  sa_dexs :: "dex_name option list option"
  sa_dex :: "dex_name \<Rightarrow> (HlMeta \<times> HlAssetCtx list) option"

definition seedMarketData :: "SeedAnswers \<Rightarrow> feed \<Rightarrow> bool \<times> feed" where
  \<comment> \<open>\<open>False\<close>: the worker does not start\<close>
  "seedMarketData a f =
    (case sa_meta a of None \<Rightarrow> (False, f)
     | Some m \<Rightarrow>
        let (ok, f1) = seed_native m (sa_ctxs a) (sa_allMids a) f
        in if ok then (True, seed_perpDexs (sa_dexs a) (sa_dex a) (seed_spot (sa_spot a) f1)) else (False, f1))"

subsection \<open>The periodic true-up\<close>

definition trueupOneDex :: "(coin \<times> rat option) list option \<Rightarrow> feed \<Rightarrow> bool \<times> feed" where
  \<comment> \<open>whether the matcher is woken; a failed request is the caller's to handle\<close>
  "trueupOneDex resp f =
    (case resp of None \<Rightarrow> (False, f)
     | Some entries \<Rightarrow>
        let args = seed_mids_of entries in if args = [] then (False, f) else (True, hset_mids args f))"

definition order_coins :: "'a book_scheme \<Rightarrow> oid list \<Rightarrow> coin list" where
  \<comment> \<open>the coin of each stored order, once\<close>
  "order_coins s oids =
    remdups (filter (\<lambda>c. c \<noteq> '''') (List.map_filter (\<lambda>x. map_option (\<lambda>d. o_coin (h_order d)) (orders s x)) oids))"

definition getTrailingCoins :: "'a book_scheme \<Rightarrow> coin list" where
  "getTrailingCoins s = order_coins s (trailSet s)"

definition refreshTrailingMarks :: "millis \<Rightarrow> (dex_name \<Rightarrow> (coin \<times> rat option) list option) \<Rightarrow> feed \<Rightarrow> feed" where
  "refreshTrailingMarks t resp f =
    f\<lparr>f_engine := snd (refreshMarks t resp (getTrailingCoins (f_engine f)) (f_engine f))\<rparr>"

definition trueup_dex :: "(dex_name \<Rightarrow> (coin \<times> rat option) list option) \<Rightarrow> nat \<times> feed \<Rightarrow> dex_name \<Rightarrow> nat \<times> feed" where
  \<comment> \<open>the first component counts how often the matcher is woken\<close>
  "trueup_dex resp p d = (let (w, g) = trueupOneDex (resp d) (snd p) in (fst p + of_bool w, g))"

definition trueup_tick ::
    "millis \<Rightarrow> (dex_name \<Rightarrow> (coin \<times> rat option) list option) \<Rightarrow> (dex_name \<Rightarrow> (coin \<times> rat option) list option) \<Rightarrow>
     feed \<Rightarrow> nat \<times> feed" where
  \<comment> \<open>a failure on the main exchange ends the tick\<close>
  "trueup_tick t marks resp f =
    (let f1 = refreshTrailingMarks t marks f
     in if resp '''' = None then (0, f1)
        else
          let p = trueup_dex resp (0, f1) '''';
              dexs = (case perpDexs (f_engine (snd p)) of None \<Rightarrow> []
                | Some ds \<Rightarrow> filter (\<lambda>d. d \<noteq> '''') (List.map_filter (\<lambda>d. d) ds))
          in foldl (trueup_dex resp) p dexs)"

definition funding_rates :: "feed \<Rightarrow> coin \<Rightarrow> rat option" where
  \<comment> \<open>what applyFunding reads as the rate of a coin\<close>
  "funding_rates f c = (case f_ctx f c of None \<Rightarrow> None | Some x \<Rightarrow> cx_funding x)"

subsection \<open>Market data runs beside the engine\<close>

definition market_only :: "state \<Rightarrow> state \<Rightarrow> bool" where
  \<comment> \<open>only prices and meta data differ\<close>
  "market_only s s' \<longleftrightarrow> perpDexs s' = perpDexs s \<and> market.more s' = market.more s"

lemma market_only_refl [simp]: "market_only s s"
  by (simp add: market_only_def)

lemma market_only_trans: "market_only s s' \<Longrightarrow> market_only s' s'' \<Longrightarrow> market_only s s''"
  by (simp add: market_only_def)

lemma market_only_step: "market_only s s' \<Longrightarrow> engine_step s s'"
proof -
  assume "market_only s s'"
  then have "s' = s\<lparr>mids := mids s', ctx_mark := ctx_mark s', meta := meta s', meta_dex := meta_dex s', spotMeta := spotMeta s'\<rparr>"
    by (intro market.equality) (simp_all add: market_only_def)
  then show ?thesis by (metis engine_step.market_data)
qed

abbreviation beside :: "feed \<Rightarrow> feed \<Rightarrow> bool" where
  "beside f g \<equiv> market_only (f_engine f) (f_engine g)"

lemma beside_writes [simp]:
  "f_engine (relay ev f) = f_engine f" "beside f (hset_mids es f)" "beside f (hset_ctx c x st f)" "beside f (seedMids es f)"
  by (simp_all add: relay_def hset_mids_def hset_ctx_def seedMids_def market_only_def Let_def)

lemma beside_fold: "(\<And>x g. beside g (step g x)) \<Longrightarrow> beside f (foldl step f xs)"
  by (induction xs arbitrary: f) (auto intro: market_only_trans)

lemma beside_ctxs [simp]: "beside f (seed_ctxs rows f)"
  unfolding seed_ctxs_def by (rule beside_fold) (simp split: prod.split)

lemma beside_message: "handleMessage t fr f = (w, f') \<Longrightarrow> beside f f'"
proof (cases fr)
  case (FrActiveAssetCtx c x)
  assume "handleMessage t fr f = (w, f')"
  moreover have "beside f (hset_mids es (hset_ctx c y st f))" for es y st
    by (rule market_only_trans [OF beside_writes(3) beside_writes(2)])
  ultimately show ?thesis
    by (auto simp: FrActiveAssetCtx handleMessage_def handleActiveAssetCtx_def Let_def split: option.splits if_splits)
qed (auto simp: handleMessage_def handleAllMids_def handleL2Book_def handleTrades_def handleBbo_def handleCandle_def
    split: option.splits if_splits list.splits)

lemma beside_set_meta [simp]:
  "market_only s (s\<lparr>meta := m\<rparr>)" "market_only s (s\<lparr>spotMeta := sm\<rparr>)"
  "market_only s (s\<lparr>meta_dex := mx\<rparr>)" "market_only s (s\<lparr>ctx_mark := cm\<rparr>)"
  by (simp_all add: market_only_def)

lemmas beside_then = market_only_trans [OF _ beside_writes(4)] market_only_trans [OF _ beside_ctxs]

lemma beside_native: "seed_native m xs ms f = (ok, f') \<Longrightarrow> beside f f'"
  by (auto simp: seed_native_def Let_def split: option.splits intro!: beside_then)

lemma beside_spot: "beside f (seed_spot resp f)"
  by (auto simp: seed_spot_def Let_def split: option.split intro!: beside_then)

lemma beside_dex: "beside f (seed_sub_dex resp f d)"
  by (auto simp: seed_sub_dex_def Let_def split: option.split intro!: beside_then)

lemma beside_trueup_one: "trueupOneDex resp f = (w, f') \<Longrightarrow> beside f f'"
  by (auto simp: trueupOneDex_def Let_def split: option.splits if_splits)

lemma beside_refresh: "beside f (refreshTrailingMarks t resp f)"
proof -
  have "market_only s (snd (refreshMarks t resp cs s))" for cs s
    using refreshMarks_frame [of t resp cs s] by auto
  then show ?thesis by (simp add: refreshTrailingMarks_def Let_def)
qed

lemma beside_trueup: "trueup_tick t marks resp f = (n, f') \<Longrightarrow> beside f f'"
proof -
  have one: "beside g (snd (trueupOneDex r g))" for r g
    by (rule beside_trueup_one [OF prod.collapse [symmetric]])
  have step: "beside (snd p) (snd (trueup_dex resp p d))" for p d
    using one [of "snd p" "resp d"] by (simp add: trueup_dex_def split_beta Let_def)
  have fold: "beside (snd p) (snd (foldl (trueup_dex resp) p ds))" for p ds
  proof (induction ds arbitrary: p)
    case (Cons d ds)
    show ?case using market_only_trans [OF step Cons.IH] by simp
  qed simp
  assume "trueup_tick t marks resp f = (n, f')"
  then have "f' = snd (trueup_tick t marks resp f)" by simp
  then show ?thesis
    using market_only_trans [OF market_only_trans [OF beside_refresh
          step [of "(n, refreshTrailingMarks t marks f)" for n, unfolded snd_conv]] fold] beside_refresh
    by (simp add: trueup_tick_def Let_def)
qed

text \<open>The worker's life with its feed: seeding an empty Redis, then frames, true-ups and engine steps in any order.\<close>

definition empty_feed :: feed where
  "empty_feed = \<lparr>f_engine = empty_state, f_ctx = \<lambda>_. None, f_bareTs = \<lambda>_. 0, f_l2 = \<lambda>_. None, f_out = []\<rparr>"

inductive feed_run :: "feed \<Rightarrow> bool" where
  boot: "seedMarketData a empty_feed = (True, f) \<Longrightarrow> feed_run f"
| frame: "feed_run f \<Longrightarrow> handleMessage t fr f = (w, f') \<Longrightarrow> feed_run f'"
| trueup: "feed_run f \<Longrightarrow> trueup_tick t marks resp f = (n, f') \<Longrightarrow> feed_run f'"
| engine: "feed_run f \<Longrightarrow> engine_step (f_engine f) s \<Longrightarrow> feed_run (f\<lparr>f_engine := s\<rparr>)"

lemma seeded: "seedMarketData a empty_feed = (True, f) \<Longrightarrow> reachable (f_engine f)"
proof -
  assume eq: "seedMarketData a empty_feed = (True, f)"
  then obtain m f1 where n: "seed_native m (sa_ctxs a) (sa_allMids a) empty_feed = (True, f1)"
    and f: "f = seed_perpDexs (sa_dexs a) (sa_dex a) (seed_spot (sa_spot a) f1)"
    by (auto simp: seedMarketData_def split: option.splits prod.splits if_splits)
  let ?g = "seed_spot (sa_spot a) f1"
  have g: "market_only empty_state (f_engine ?g)"
    using market_only_trans [OF beside_native [OF n] beside_spot] by (simp add: empty_feed_def)
  show ?thesis
  proof (cases "sa_dexs a")
    case None
    from reachable.start [of "perpDexs empty_state"] have "reachable empty_state" by simp
    with g None f show ?thesis by (auto simp: seed_perpDexs_def intro: reachable.step market_only_step)
  next
    case (Some ds)
    have "market_only (empty_state\<lparr>perpDexs := Some ds\<rparr>) (f_engine (?g\<lparr>f_engine := (f_engine ?g)\<lparr>perpDexs := Some ds\<rparr>\<rparr>))"
      using g by (simp add: market_only_def)
    moreover have "beside (?g\<lparr>f_engine := (f_engine ?g)\<lparr>perpDexs := Some ds\<rparr>\<rparr>) f"
      unfolding f seed_perpDexs_def Some option.case by (rule beside_fold) (rule beside_dex)
    ultimately show ?thesis by (blast intro: reachable.start reachable.step market_only_step market_only_trans)
  qed
qed

lemma feed_runs_the_engine: "feed_run f \<Longrightarrow> reachable (f_engine f)"
  by (induction rule: feed_run.induct)
    (auto intro: seeded reachable.step market_only_step beside_message beside_trueup)

subsection \<open>Prices follow the frames\<close>

definition run_frames :: "(millis \<times> UpstreamFrame) list \<Rightarrow> feed \<Rightarrow> feed" where
  "run_frames frs f = foldl (\<lambda>g (t, fr). snd (handleMessage t fr g)) f frs"

definition last_Some :: "'b option list \<Rightarrow> 'b option" where
  "last_Some xs = foldl (\<lambda>a x. if x = None then a else x) None xs"

fun frame_price :: "coin \<Rightarrow> UpstreamFrame \<Rightarrow> rat option" where
  \<comment> \<open>the price that a frame carries for a coin\<close>
  "frame_price c (FrAllMids (Some entries)) = map_of (rev entries) c"
| "frame_price c (FrActiveAssetCtx d (Some x)) = (if c = d \<and> d \<noteq> '''' then live_px x else None)"
| "frame_price c _ = None"

fun frame_mark :: "coin \<Rightarrow> millis \<times> UpstreamFrame \<Rightarrow> (millis \<times> rat option) option" where
  \<comment> \<open>the mark that a frame carries for a coin, with the time it came\<close>
  "frame_mark c (t, FrActiveAssetCtx d (Some x)) = (if c = d \<and> d \<noteq> '''' then Some (t, ac_markPx x) else None)"
| "frame_mark c _ = None"

lemma last_Some_snoc: "last_Some (xs @ [x]) = (if x = None then last_Some xs else x)"
  by (simp add: last_Some_def)

lemma last_Some_Nil: "last_Some [] = None"
  by (simp add: last_Some_def)

lemma run_frames_snoc: "run_frames (frs @ [(t, fr)]) f = snd (handleMessage t fr (run_frames frs f))"
  by (simp add: run_frames_def)

lemma midPx_hset:
  "midPx (f_engine (hset_mids es f)) c = (case map_of (rev es) c of Some p \<Rightarrow> Some p | None \<Rightarrow> midPx (f_engine f) c)"
proof -
  have "map_of (foldl (\<lambda>m (c, px). AList.update c px m) ms es) c =
      (case map_of (rev es) c of Some p \<Rightarrow> Some p | None \<Rightarrow> map_of ms c)" for ms
    by (induction es rule: rev_induct) (auto simp: update_conv')
  then show ?thesis unfolding midPx_def hset_mids_def by simp
qed

lemma ctx_mark_hset: "ctx_mark (f_engine (hset_mids es f)) = ctx_mark (f_engine f)"
  by (simp add: hset_mids_def)

lemma mids_ctx: "midPx (f_engine (hset_ctx d x st f)) c = midPx (f_engine f) c"
  by (simp add: hset_ctx_def midPx_def Let_def)

lemma ctx_mark_ctx: "ctx_mark (f_engine (hset_ctx d x (Some t) f)) = (ctx_mark (f_engine f))(d := map_option (\<lambda>m. (m, t)) (ac_markPx x))"
  by (simp add: hset_ctx_def Let_def)

lemma relay_f [simp]: "f_engine (f\<lparr>f_l2 := y\<rparr>) = f_engine f"
  by simp

lemma message_price:
  "midPx (f_engine (snd (handleMessage t fr f))) c = (case frame_price c fr of Some p \<Rightarrow> Some p | None \<Rightarrow> midPx (f_engine f) c)"
proof (cases fr)
  case (FrAllMids ms)
  then show ?thesis
    by (cases ms) (auto simp: handleMessage_def handleAllMids_def midPx_hset)
next
  case (FrActiveAssetCtx d x)
  then show ?thesis
    by (cases x) (auto simp: handleMessage_def handleActiveAssetCtx_def Let_def midPx_hset mids_ctx split: option.split)
qed (auto simp: handleMessage_def handleL2Book_def handleTrades_def handleBbo_def handleCandle_def split: list.split)

lemma message_mark:
  "ctx_mark (f_engine (snd (handleMessage t fr f))) c =
    (case frame_mark c (t, fr) of Some (t, m) \<Rightarrow> map_option (\<lambda>m. (m, t)) m | None \<Rightarrow> ctx_mark (f_engine f) c)"
proof (cases fr)
  case (FrAllMids ms)
  then show ?thesis
    by (cases ms) (auto simp: handleMessage_def handleAllMids_def ctx_mark_hset)
next
  case (FrActiveAssetCtx d x)
  then show ?thesis
    by (cases x) (auto simp: handleMessage_def handleActiveAssetCtx_def Let_def ctx_mark_hset ctx_mark_ctx split: option.split)
qed (auto simp: handleMessage_def handleL2Book_def handleTrades_def handleBbo_def handleCandle_def split: list.split)

lemma frames_price:
  "midPx (f_engine (run_frames frs f)) c =
    (case last_Some (map (frame_price c \<circ> snd) frs) of Some p \<Rightarrow> Some p | None \<Rightarrow> midPx (f_engine f) c)"
proof (induction frs rule: rev_induct)
  case Nil
  show ?case by (simp add: run_frames_def last_Some_Nil)
next
  case (snoc x frs)
  show ?case
    by (cases x) (simp add: run_frames_snoc message_price snoc.IH last_Some_snoc split: option.split)
qed

lemma frames_mark:
  "ctx_mark (f_engine (run_frames frs f)) c =
    (case last_Some (map (frame_mark c) frs) of Some (t, m) \<Rightarrow> map_option (\<lambda>m. (m, t)) m | None \<Rightarrow> ctx_mark (f_engine f) c)"
proof (induction frs rule: rev_induct)
  case Nil
  show ?case by (simp add: run_frames_def last_Some_Nil)
next
  case (snoc x frs)
  show ?case
    by (cases x) (simp add: run_frames_snoc message_mark snoc.IH last_Some_snoc split: option.split)
qed

text \<open>
  C28. After any sequence of upstream frames the engine prices a coin at the last price a frame
  carried for it, and uses as its mark the last mark received in a context frame for it, for at
  most fifteen seconds after that frame and never when it is empty or not positive; a coin
  without a frame keeps its price and its mark.
\<close>

theorem prices_follow_the_frames:
  "midPx (f_engine (run_frames frs f)) c =
     (case last_Some (map (frame_price c \<circ> snd) frs) of Some p \<Rightarrow> Some p | None \<Rightarrow> midPx (f_engine f) c) \<and>
   getFreshMark E (f_engine (run_frames frs f)) c =
     (case last_Some (map (frame_mark c) frs) of None \<Rightarrow> getFreshMark E (f_engine f) c
      | Some (t, None) \<Rightarrow> None
      | Some (t, Some m) \<Rightarrow> if 0 < m \<and> t \<noteq> 0 \<and> now E \<le> t + 15000 then Some m else None)"
  by (auto simp: frames_price frames_mark getFreshMark_def getMark_def MARK_FRESH_MS_def split: option.split)

end
