(* ===== verification/L2Cache.thy ===== *)
theory L2Cache
  imports Market
begin

text \<open>
  The book a fill is priced at (utils/l2-cache.ts): the book pushed over the socket when it is
  fresh, else a cached HTTP answer, else a request to Hyperliquid that concurrent callers of the
  same coin share. The answer of the request is an argument (\<open>None\<close> for a failure or a timeout);
  \<open>Waiting\<close> stands for the promise of the request in flight.
\<close>

definition CACHE_TTL_MS :: millis where
  "CACHE_TTL_MS = 2000"

definition REDIS_L2_MAX_AGE_MS :: millis where
  "REDIS_L2_MAX_AGE_MS = 5000"

record L2Cache =
  lc_cache :: "coin \<Rightarrow> (HlL2Book \<times> millis) option"
  lc_inflight :: "coin list"
  lc_requests :: "coin list"

datatype L2Answer = BookNow HlL2Book | Waiting

definition readL2FromRedis :: "millis \<Rightarrow> HlL2Book option \<Rightarrow> HlL2Book option" where
  "readL2FromRedis t raw =
    (case raw of None \<Rightarrow> None | Some b \<Rightarrow> if REDIS_L2_MAX_AGE_MS < t - bk_time b then None else Some b)"

definition fetchL2Book :: "millis \<Rightarrow> coin \<Rightarrow> (L2Level list \<times> L2Level list) option \<Rightarrow> HlL2Book option" where
  "fetchL2Book t c resp =
    map_option (\<lambda>(bids, asks). \<lparr>bk_coin = c, bk_bids = bids, bk_asks = asks, bk_time = t\<rparr>) resp"

definition getL2Book :: "millis \<Rightarrow> (coin \<Rightarrow> HlL2Book option) \<Rightarrow> coin \<Rightarrow> L2Cache \<Rightarrow> L2Answer \<times> L2Cache" where
  "getL2Book t redis c k =
    (case readL2FromRedis t (redis c) of Some b \<Rightarrow> (BookNow b, k)
     | None \<Rightarrow>
        let request = (if c \<in> set (lc_inflight k) then (Waiting, k)
              else (Waiting, k\<lparr>lc_inflight := c # lc_inflight k, lc_requests := lc_requests k @ [c]\<rparr>))
        in case lc_cache k c of
             Some (b, ts) \<Rightarrow> if t - ts < CACHE_TTL_MS then (BookNow b, k) else request
           | None \<Rightarrow> request)"

definition l2_arrived :: "millis \<Rightarrow> coin \<Rightarrow> HlL2Book option \<Rightarrow> L2Cache \<Rightarrow> L2Cache" where
  \<comment> \<open>the continuation of the request\<close>
  "l2_arrived t c book k =
    (let k1 = k\<lparr>lc_inflight := removeAll c (lc_inflight k)\<rparr>
     in case book of None \<Rightarrow> k1 | Some b \<Rightarrow> k1\<lparr>lc_cache := (lc_cache k1)(c \<mapsto> (b, t))\<rparr>)"

subsection \<open>Runs\<close>

datatype l2_event =
    Pushed HlL2Book \<comment> \<open>a book frame from the socket\<close>
  | Asked millis coin
  | Arrived millis coin "(L2Level list \<times> L2Level list) option"

record l2_state =
  l2_feed :: feed
  l2_cache :: L2Cache
  l2_waiting :: "coin list" \<comment> \<open>one entry per caller that waits\<close>
  l2_served :: "(millis \<times> coin \<times> HlL2Book option) list" \<comment> \<open>what callers got, and when\<close>
  l2_arrivals :: "coin list" \<comment> \<open>the requests that were answered\<close>

definition l2_start :: "feed \<Rightarrow> l2_state" where
  "l2_start f = \<lparr>l2_feed = f, l2_cache = \<lparr>lc_cache = \<lambda>_. None, lc_inflight = [], lc_requests = []\<rparr>,
     l2_waiting = [], l2_served = [], l2_arrivals = []\<rparr>"

fun l2_step :: "l2_event \<Rightarrow> l2_state \<Rightarrow> l2_state" where
  "l2_step (Pushed b) s = s\<lparr>l2_feed := handleL2Book b (l2_feed s)\<rparr>"
| "l2_step (Asked t c) s =
    (case getL2Book t (f_l2 (l2_feed s)) c (l2_cache s) of
       (BookNow b, k) \<Rightarrow> s\<lparr>l2_cache := k, l2_served := l2_served s @ [(t, c, Some b)]\<rparr>
     | (Waiting, k) \<Rightarrow> s\<lparr>l2_cache := k, l2_waiting := c # l2_waiting s\<rparr>)"
| "l2_step (Arrived t c resp) s =
    (if c \<notin> set (lc_inflight (l2_cache s)) then s
     else let b = fetchL2Book t c resp
       in s\<lparr>l2_cache := l2_arrived t c b (l2_cache s), l2_waiting := removeAll c (l2_waiting s),
            l2_served := l2_served s @ map (\<lambda>w. (t, w, b)) (filter (\<lambda>w. w = c) (l2_waiting s)),
            l2_arrivals := l2_arrivals s @ [c]\<rparr>)"

definition l2_ok :: "l2_state \<Rightarrow> bool" where
  "l2_ok s \<longleftrightarrow>
    (\<forall>c b. f_l2 (l2_feed s) c = Some b \<longrightarrow> bk_coin b = c) \<and>
    (\<forall>c b ts. lc_cache (l2_cache s) c = Some (b, ts) \<longrightarrow> bk_coin b = c \<and> bk_time b = ts) \<and>
    (\<forall>t c b. (t, c, Some b) \<in> set (l2_served s) \<longrightarrow> bk_coin b = c \<and> t - bk_time b \<le> REDIS_L2_MAX_AGE_MS) \<and>
    distinct (lc_inflight (l2_cache s)) \<and> set (l2_waiting s) = set (lc_inflight (l2_cache s)) \<and>
    (\<forall>c. count_list (lc_requests (l2_cache s)) c = count_list (l2_arrivals s) c + of_bool (c \<in> set (lc_inflight (l2_cache s))))"

lemma count_snoc [simp]: "count_list (xs @ [x]) y = count_list xs y + of_bool (x = y)"
  by (induction xs) auto

lemma getL2Book_cases:
  assumes "getL2Book t redis c k = (a, k')"
  obtains (pushed) b where "a = BookNow b" "k' = k" "redis c = Some b" "t - bk_time b \<le> REDIS_L2_MAX_AGE_MS"
    | (cached) b ts where "a = BookNow b" "k' = k" "lc_cache k c = Some (b, ts)" "t - ts < CACHE_TTL_MS"
    | (joined) "a = Waiting" "k' = k" "c \<in> set (lc_inflight k)"
    | (asked) "a = Waiting" "k' = k\<lparr>lc_inflight := c # lc_inflight k, lc_requests := lc_requests k @ [c]\<rparr>"
        "c \<notin> set (lc_inflight k)"
  using assms
  by (auto simp: getL2Book_def readL2FromRedis_def Let_def not_less split: option.splits if_splits)

lemma l2_step_keeps: "l2_ok s \<Longrightarrow> l2_ok (l2_step ev s)"
proof (cases ev)
  case (Pushed b)
  assume "l2_ok s"
  then show ?thesis by (auto simp: Pushed l2_ok_def handleL2Book_def relay_def)
next
  case (Asked t c)
  assume ok: "l2_ok s"
  obtain a k where g: "getL2Book t (f_l2 (l2_feed s)) c (l2_cache s) = (a, k)" by fastforce
  show ?thesis using g
  proof (cases rule: getL2Book_cases)
    case (pushed b)
    with ok g show ?thesis by (auto simp: Asked l2_ok_def)
  next
    case (cached b ts)
    with ok g show ?thesis by (auto simp: Asked l2_ok_def CACHE_TTL_MS_def REDIS_L2_MAX_AGE_MS_def)
  next
    case joined
    with ok g show ?thesis by (auto simp: Asked l2_ok_def)
  next
    case asked
    with ok g show ?thesis by (auto simp: Asked l2_ok_def)
  qed
next
  case (Arrived t c resp)
  assume "l2_ok s"
  then show ?thesis
    by (auto simp: Arrived l2_ok_def l2_arrived_def fetchL2Book_def Let_def REDIS_L2_MAX_AGE_MS_def distinct_removeAll
        split: option.split)
qed

lemma l2_run_keeps: "l2_ok s \<Longrightarrow> l2_ok (fold l2_step evs s)"
  by (induction evs arbitrary: s) (auto intro: l2_step_keeps)

text \<open>
  C32. However book frames, callers and answers interleave, no caller ever gets a book of another
  coin or one older than five seconds, whether it was pushed, cached or fetched; of every coin at
  most one request is under way, which all its callers share, and a caller that was told to wait
  has a request under way.
\<close>

theorem books_are_fresh_and_fetched_once:
  "let s = fold l2_step evs (l2_start empty_feed) in
    (\<forall>t c b. (t, c, Some b) \<in> set (l2_served s) \<longrightarrow> bk_coin b = c \<and> t - bk_time b \<le> 5000) \<and>
    (\<forall>c. count_list (lc_requests (l2_cache s)) c \<le> count_list (l2_arrivals s) c + 1) \<and>
    (\<forall>c \<in> set (l2_waiting s). count_list (lc_requests (l2_cache s)) c = count_list (l2_arrivals s) c + 1)"
proof -
  have "l2_ok (l2_start empty_feed)" by (simp add: l2_ok_def l2_start_def empty_feed_def)
  from l2_run_keeps [OF this, of evs] show ?thesis
    by (auto simp: l2_ok_def REDIS_L2_MAX_AGE_MS_def Let_def)
qed

theorem books_are_fresh_and_fetched_once_witness:
  "l2_served (fold l2_step [Asked 10 ''BTC'', Asked 11 ''BTC'', Arrived 20 ''BTC'' (Some ([], []))] (l2_start empty_feed)) =
     [(20, ''BTC'', Some \<lparr>bk_coin = ''BTC'', bk_bids = [], bk_asks = [], bk_time = 20\<rparr>),
      (20, ''BTC'', Some \<lparr>bk_coin = ''BTC'', bk_bids = [], bk_asks = [], bk_time = 20\<rparr>)] \<and>
   count_list (lc_requests (l2_cache (fold l2_step [Asked 10 ''BTC'', Asked 11 ''BTC''] (l2_start empty_feed)))) ''BTC'' = 1"
proof
  let ?s = "fold l2_step [Asked 10 ''BTC'', Asked 11 ''BTC''] (l2_start empty_feed)"
  have "''BTC'' \<in> set (l2_waiting ?s)" "count_list (l2_arrivals ?s) ''BTC'' = 0" by code_simp+
  with books_are_fresh_and_fetched_once [of "[Asked 10 ''BTC'', Asked 11 ''BTC'']"]
  show "count_list (lc_requests (l2_cache ?s)) ''BTC'' = 1" unfolding Let_def by simp
qed code_simp

end
