(* ===== verification/Views.thy ===== *)
theory Views
  imports Matcher
begin

text \<open>
  What clients see of the engine: engine/position.ts (clearinghouse state, open orders, order
  status), the account figures of engine/account.ts and the order updates of
  ws/order-updates.ts. Prose such as the trigger condition is a datatype with the price in it;
  Postgres sums are arguments.
\<close>

subsection \<open>Clearinghouse state\<close>

record PositionRow =
  pr_coin :: coin
  pr_szi :: rat
  pr_leverage :: LeverageSetting
  pr_entryPx :: rat
  pr_positionValue :: rat
  pr_unrealizedPnl :: rat
  pr_returnOnEquity :: rat
  pr_liquidationPx :: "rat option"
  pr_marginUsed :: rat
  pr_maxLeverage :: nat
  pr_cumFunding :: "rat \<times> rat \<times> rat"

record HlClearinghouseState =
  cs_accountValue :: rat
  cs_totalNtlPos :: rat
  cs_totalRawUsd :: rat
  cs_totalMarginUsed :: rat
  cs_crossMaintenanceMarginUsed :: rat
  cs_withdrawable :: rat
  cs_assetPositions :: "PositionRow list"
  cs_time :: millis

record ChsTotals =
  \<comment> \<open>the variables of the loop\<close>
  ct_rows :: "PositionRow list"
  ct_ntl :: rat
  ct_margin :: rat
  ct_pnl :: rat
  ct_crossMaint :: rat

definition scope_meta :: "'a market_scheme \<Rightarrow> dex_name \<Rightarrow> HlMeta option" where
  "scope_meta s scope = (if scope = '''' then meta s else meta_dex s scope)"

definition position_tiers :: "HlMeta option \<Rightarrow> coin \<Rightarrow> nat \<Rightarrow> HlMarginTier list" where
  \<comment> \<open>a flat tier at the position's own leverage when the meta does not know the coin\<close>
  "position_tiers mt c leverage =
    (case getMarginTiersForCoin mt c of Some tiers \<Rightarrow> tiers
     | None \<Rightarrow> [\<lparr>mt_lowerBound = 0, mt_maxLeverage = leverage\<rparr>])"

definition position_row ::
    "declib \<Rightarrow> 'a ledger_scheme \<Rightarrow> user \<Rightarrow> dex_name \<Rightarrow> asset \<Rightarrow> PosHash \<Rightarrow> rat \<Rightarrow> PositionRow" where
  "position_row L s u scope a p mid =
    (let mt = scope_meta s scope; l = getLeverageSetting s u a; leverage = lev_leverage l;
         posValue = mul_d L (abs_d (p_szi p)) mid;
         pnl = calculatePositionUnrealizedPnl L (p_szi p) (p_entryPx p) mid;
         marginUsed = calculatePositionMarginUsed L s u a (p_szi p) mid;
         liqPx = calculateLiquidationPrice L (p_szi p) (p_entryPx p) (calculateAccountValue L s u scope) leverage
           (lev_isCross l) (if lev_isCross l then None else Some (isolatedMarginOf L p leverage))
           (Some (position_tiers mt (p_coin p) leverage))
     in \<lparr>pr_coin = p_coin p, pr_szi = p_szi p, pr_leverage = l, pr_entryPx = p_entryPx p,
         pr_positionValue = posValue, pr_unrealizedPnl = pnl,
         pr_returnOnEquity = (if isZero_d marginUsed then 0 else div_d L pnl marginUsed),
         pr_liquidationPx = liqPx, pr_marginUsed = marginUsed,
         pr_maxLeverage = (case mt of None \<Rightarrow> 50
           | Some m \<Rightarrow> (case List.find (\<lambda>x. ai_name x = p_coin p) (m_universe m) of
               None \<Rightarrow> 50 | Some x \<Rightarrow> ai_maxLeverage x)),
         pr_cumFunding = (p_cumFunding p, p_cumFundingSinceOpen p, p_cumFundingSinceChange p)\<rparr>)"

definition chs_step ::
    "declib \<Rightarrow> 'a ledger_scheme \<Rightarrow> user \<Rightarrow> dex_name \<Rightarrow> ChsTotals \<Rightarrow> asset \<Rightarrow> ChsTotals" where
  "chs_step L s u scope t a =
    (case pos s u a of None \<Rightarrow> t
     | Some p \<Rightarrow> if isZero_d (p_szi p) then t
         else case midPx s (p_coin p) of None \<Rightarrow> t
         | Some mid \<Rightarrow>
             let r = position_row L s u scope a p mid;
                 tiers = position_tiers (scope_meta s scope) (p_coin p) (lev_leverage (pr_leverage r))
             in \<lparr>ct_rows = ct_rows t @ [r], ct_ntl = add_d L (ct_ntl t) (pr_positionValue r),
                 ct_margin = add_d L (ct_margin t) (pr_marginUsed r), ct_pnl = add_d L (ct_pnl t) (pr_unrealizedPnl r),
                 ct_crossMaint = (if lev_isCross (pr_leverage r)
                   then add_d L (ct_crossMaint t) (maintenanceMarginForNotional L tiers (pr_positionValue r))
                   else ct_crossMaint t)\<rparr>)"

definition chs_totals :: "declib \<Rightarrow> 'a ledger_scheme \<Rightarrow> user \<Rightarrow> dex_name \<Rightarrow> ChsTotals" where
  "chs_totals L s u scope =
    foldl (chs_step L s u scope) \<lparr>ct_rows = [], ct_ntl = 0, ct_margin = 0, ct_pnl = 0, ct_crossMaint = 0\<rparr> (posSet s u scope)"

definition getClearinghouseState :: "env \<Rightarrow> 'a ledger_scheme \<Rightarrow> user \<Rightarrow> dex_name \<Rightarrow> HlClearinghouseState" where
  "getClearinghouseState E s u scope =
    (let L = lib E; bal = getBalance s u scope; t = chs_totals L s u scope;
         accountValue = add_d L bal (ct_pnl t); withdrawable = sub_d L accountValue (ct_margin t)
     in \<lparr>cs_accountValue = accountValue, cs_totalNtlPos = ct_ntl t, cs_totalRawUsd = bal,
         cs_totalMarginUsed = ct_margin t, cs_crossMaintenanceMarginUsed = ct_crossMaint t,
         cs_withdrawable = (if gt_d withdrawable 0 then withdrawable else 0),
         cs_assetPositions = ct_rows t, cs_time = now E\<rparr>)"

subsection \<open>Open orders\<close>

definition scope_oids :: "'a book_scheme \<Rightarrow> user \<Rightarrow> dex_name \<Rightarrow> oid list" where
  \<comment> \<open>ZRANGE of the order list: by time of creation\<close>
  "scope_oids s u scope = map fst (sort_key snd (userOrders s u scope))"

definition open_hash :: "'a book_scheme \<Rightarrow> oid \<Rightarrow> OrderHash option" where
  "open_hash s x = (case orders s x of None \<Rightarrow> None
     | Some d \<Rightarrow> if o_status (h_order d) = St_open then Some d else None)"

record BasicOpenRow =
  bo_coin :: coin
  bo_side :: Side
  bo_limitPx :: rat
  bo_sz :: rat
  bo_oid :: oid
  bo_timestamp :: millis
  bo_origSz :: rat
  bo_reduceOnly :: bool
  bo_cloid :: "string option"

definition open_order_row :: "declib \<Rightarrow> oid \<Rightarrow> OrderHash \<Rightarrow> OpenOrderRow + BasicOpenRow" where
  "open_order_row L x d =
    (if isTrailingHash d then Inl (buildTrailingOpenOrderRow L d)
     else let ord = h_order d
       in Inr \<lparr>bo_coin = o_coin ord, bo_side = side_of (o_isBuy ord), bo_limitPx = o_limitPx ord,
            bo_sz = o_sz ord, bo_oid = x, bo_timestamp = o_createdAt ord, bo_origSz = o_sz ord,
            bo_reduceOnly = o_reduceOnly ord, bo_cloid = o_cloid ord\<rparr>)"

definition getOpenOrders :: "declib \<Rightarrow> 'a book_scheme \<Rightarrow> user \<Rightarrow> dex_name \<Rightarrow> (OpenOrderRow + BasicOpenRow) list" where
  "getOpenOrders L s u scope =
    List.map_filter (\<lambda>x. map_option (open_order_row L x) (open_hash s x)) (scope_oids s u scope)"

datatype TriggerCondition = NotApplicable | PriceAbove rat | PriceBelow rat

datatype OrderTypeText = LimitText | TakeProfitMarket | TakeProfitLimit | StopMarket | StopLimit

definition hlTriggerConditionString :: "TpSl option \<Rightarrow> bool \<Rightarrow> rat \<Rightarrow> TriggerCondition" where
  "hlTriggerConditionString tpsl isBuy triggerPx =
    (case tpsl of None \<Rightarrow> NotApplicable
     | Some t \<Rightarrow> if (t = Tp) \<noteq> isBuy then PriceAbove triggerPx else PriceBelow triggerPx)"

definition hlOrderTypeString :: "bool \<Rightarrow> TpSl option \<Rightarrow> bool \<Rightarrow> OrderTypeText" where
  "hlOrderTypeString isTrigger tpsl isMarket =
    (if \<not> isTrigger then LimitText
     else case tpsl of Some Tp \<Rightarrow> if isMarket then TakeProfitMarket else TakeProfitLimit
     | _ \<Rightarrow> if isMarket then StopMarket else StopLimit)"

record PlainBody =
  pb_coin :: coin
  pb_side :: Side
  pb_limitPx :: rat
  pb_sz :: rat
  pb_oid :: oid
  pb_timestamp :: millis
  pb_triggerCondition :: TriggerCondition
  pb_isTrigger :: bool
  pb_triggerPx :: rat
  pb_isPositionTpsl :: bool
  pb_reduceOnly :: bool
  pb_orderType :: OrderTypeText
  pb_origSz :: rat
  pb_tif :: "TimeInForce option"
  pb_cloid :: "string option"

definition plain_body :: "oid \<Rightarrow> PaperOrder \<Rightarrow> PlainBody" where
  \<comment> \<open>shared by the open-order rows and the order status\<close>
  "plain_body x ord =
    (let isTrigger = (o_orderType ord = Trigger);
         triggerPx = (case o_triggerPx ord of None \<Rightarrow> 0 | Some p \<Rightarrow> p)
     in \<lparr>pb_coin = o_coin ord, pb_side = side_of (o_isBuy ord), pb_limitPx = o_limitPx ord, pb_sz = o_sz ord,
         pb_oid = x, pb_timestamp = o_createdAt ord,
         pb_triggerCondition =
           (if isTrigger then hlTriggerConditionString (o_tpsl ord) (o_isBuy ord) triggerPx else NotApplicable),
         pb_isTrigger = isTrigger, pb_triggerPx = triggerPx, pb_isPositionTpsl = (o_grouping ord = PositionTpsl),
         pb_reduceOnly = o_reduceOnly ord,
         pb_orderType = hlOrderTypeString isTrigger (o_tpsl ord) (o_isMarket ord), pb_origSz = o_sz ord,
         pb_tif = (if isTrigger then None else Some (o_tif ord)), pb_cloid = o_cloid ord\<rparr>)"

type_synonym FrontendBody = "TrailingBody + PlainBody"

definition buildFrontendOpenOrderRow :: "declib \<Rightarrow> oid \<Rightarrow> OrderHash \<Rightarrow> FrontendBody" where
  "buildFrontendOpenOrderRow L x d =
    (if isTrailingHash d then Inl (buildTrailingBody L d False) else Inr (plain_body x (h_order d)))"

definition getFrontendOpenOrders ::
    "declib \<Rightarrow> 'a book_scheme \<Rightarrow> user \<Rightarrow> dex_name \<Rightarrow> (FrontendBody \<times> FrontendBody list) list" where
  \<comment> \<open>each row with its live bracket legs\<close>
  "getFrontendOpenOrders L s u scope =
    List.map_filter (\<lambda>x. map_option (\<lambda>d. (buildFrontendOpenOrderRow L x d,
        List.map_filter (\<lambda>y. map_option (buildFrontendOpenOrderRow L y) (open_hash s y)) (children s x)))
      (open_hash s x)) (scope_oids s u scope)"

datatype OrderStatusReply =
    UnknownOid
  | TrailingReply TrailingOrderStatus
  | OrderReply PlainBody OrderStatus millis \<comment> \<open>body, status, its time\<close>

definition getOrderStatus :: "declib \<Rightarrow> bool \<Rightarrow> 'a book_scheme \<Rightarrow> oid \<Rightarrow> user option \<Rightarrow> OrderStatusReply" where
  \<comment> \<open>the owner is compared with the field \<open>user\<close>, which is never written: it reads as empty\<close>
  "getOrderStatus L live s x u =
    (case orders s x of None \<Rightarrow> UnknownOid
     | Some d \<Rightarrow>
        if (case u of None \<Rightarrow> False | Some v \<Rightarrow> v \<noteq> '''') then UnknownOid
        else if isTrailingHash d then TrailingReply (buildTrailingOrderStatus L d live)
        else OrderReply (plain_body (o_oid (h_order d)) (h_order d)) (o_status (h_order d)) (o_updatedAt (h_order d)))"

subsection \<open>Order updates\<close>

record UpdateBody =
  ub_coin :: coin
  ub_side :: Side
  ub_limitPx :: "string + rat"
  ub_sz :: rat
  ub_oid :: oid
  ub_timestamp :: millis
  ub_origSz :: rat
  ub_reduceOnly :: bool
  ub_cloid :: "string option"

definition remainder :: "declib \<Rightarrow> PaperOrder \<Rightarrow> rat" where
  "remainder L ord = (let r = sub_d L (o_sz ord) (o_filledSz ord) in if lte_d r 0 then 0 else r)"

definition shapeOrderUpdate :: "declib \<Rightarrow> PaperOrder \<Rightarrow> OrderStatus \<Rightarrow> UpdateBody \<times> OrderStatus \<times> millis" where
  \<comment> \<open>body, status and its time; \<open>reduceOnly\<close> is shown for trailing stops only\<close>
  "shapeOrderUpdate L ord st =
    (if o_orderType ord = TrailingStop
     then let filled = (st = St_filled)
       in (\<lparr>ub_coin = o_coin ord, ub_side = side_of (o_isBuy ord), ub_limitPx = Inl (fmtPrice1 L (o_limitPx ord)),
            ub_sz = (if filled then remainder L ord else o_sz ord), ub_oid = o_oid ord,
            ub_timestamp = (if filled then o_updatedAt ord else o_createdAt ord), ub_origSz = o_sz ord,
            ub_reduceOnly = o_reduceOnly ord, ub_cloid = None\<rparr>, st, o_updatedAt ord)
     else (\<lparr>ub_coin = o_coin ord, ub_side = side_of (o_isBuy ord), ub_limitPx = Inr (o_limitPx ord),
            ub_sz = o_sz ord, ub_oid = o_oid ord, ub_timestamp = o_createdAt ord, ub_origSz = o_sz ord,
            ub_reduceOnly = False, ub_cloid = o_cloid ord\<rparr>, st, o_updatedAt ord))"

subsection \<open>Account figures\<close>

definition assetIndexForCoin :: "'a market_scheme \<Rightarrow> coin \<Rightarrow> int" where
  "assetIndexForCoin s c =
    (case meta s of None \<Rightarrow> - 1
     | Some m \<Rightarrow>
        let i = length (takeWhile (\<lambda>x. ai_name x \<noteq> c) (m_universe m))
        in if i < length (m_universe m) then int i else - 1)"

record ActiveAssetData =
  aa_leverage :: LeverageSetting
  aa_maxTradeSz :: rat
  aa_availableToTrade :: rat
  aa_markPx :: rat

definition getActiveAssetData :: "env \<Rightarrow> 'a ledger_scheme \<Rightarrow> user \<Rightarrow> coin \<Rightarrow> ActiveAssetData" where
  "getActiveAssetData E s u c =
    (let L = lib E; a = assetIndexForCoin s c;
         l = (if 0 \<le> a then getLeverageSetting s u a else \<lparr>lev_leverage = 20, lev_isCross = True\<rparr>);
         markPx = (case ctx_mark s c of Some (m, _) \<Rightarrow> m
           | None \<Rightarrow> (case midPx s c of Some m \<Rightarrow> m | None \<Rightarrow> 0));
         avail = cs_withdrawable (getClearinghouseState E s u '''');
         maxSz = (if 0 < markPx then div_d L (mul_d L avail (of_nat (lev_leverage l))) markPx else 0)
     in \<lparr>aa_leverage = l, aa_maxTradeSz = maxSz, aa_availableToTrade = avail, aa_markPx = markPx\<rparr>)"

definition getUserRateLimit :: "rat \<Rightarrow> int" where
  \<comment> \<open>the cap on requests for a traded volume\<close>
  "getUserRateLimit cumVlm = max 10000 \<lfloor>cumVlm\<rfloor>"

type_synonym av_point = "millis \<times> rat \<times> rat"

definition PERIODS :: "(string \<times> millis option) list" where
  "PERIODS =
    [(''day'', Some 86400000), (''week'', Some 604800000), (''month'', Some 2592000000), (''allTime'', None),
     (''perpDay'', Some 86400000), (''perpWeek'', Some 604800000), (''perpMonth'', Some 2592000000), (''perpAllTime'', None)]"

definition appendPortfolioSnapshot ::
    "env \<Rightarrow> 'a ledger_scheme \<Rightarrow> user \<Rightarrow> rat \<Rightarrow> (av_point \<times> millis) list \<Rightarrow> (av_point \<times> millis) list" where
  \<comment> \<open>the fourth argument is the sum of the deposits less the withdrawals\<close>
  "appendPortfolioSnapshot E s u netDeposits hist =
    (let av = cs_accountValue (getClearinghouseState E s u '''')
     in zadd (now E) (now E, av, sub_d (lib E) av netDeposits) hist)"

record PortfolioPeriod =
  pp_accountValueHistory :: "(millis \<times> rat) list"
  pp_pnlHistory :: "(millis \<times> rat) list"
  pp_vlm :: rat

definition portfolio_period ::
    "env \<Rightarrow> (millis \<Rightarrow> rat) \<Rightarrow> av_point list \<Rightarrow> millis option \<Rightarrow> PortfolioPeriod" where
  "portfolio_period E volumeSince points window =
    (let since = (case window of None \<Rightarrow> 0 | Some w \<Rightarrow> now E - w);
         inWindow = filter (\<lambda>(t, _, _). since \<le> t) points
     in \<lparr>pp_accountValueHistory = map (\<lambda>(t, av, _). (t, av)) inWindow,
         pp_pnlHistory = map (\<lambda>(t, _, pnl). (t, pnl)) inWindow, pp_vlm = volumeSince since\<rparr>)"

definition getPortfolio ::
    "env \<Rightarrow> 'a ledger_scheme \<Rightarrow> user \<Rightarrow> rat \<Rightarrow> (millis \<Rightarrow> rat) \<Rightarrow> (av_point \<times> millis) list \<Rightarrow>
     (string \<times> PortfolioPeriod) list \<times> (av_point \<times> millis) list" where
  "getPortfolio E s u netDeposits volumeSince hist =
    (let hist' = appendPortfolioSnapshot E s u netDeposits hist; points = map fst (sort_key snd hist')
     in (map (\<lambda>(name, w). (name, portfolio_period E volumeSince points w)) PERIODS, hist'))"

subsection \<open>The views agree with the engine\<close>

lemma chs_fold:
  "ct_pnl (foldl (chs_step L s u scope) t assets) =
     foldl (\<lambda>tot a. case pos s u a of None \<Rightarrow> tot
      | Some p \<Rightarrow> if isZero_d (p_szi p) then tot
          else case midPx s (p_coin p) of None \<Rightarrow> tot
            | Some m \<Rightarrow> add_d L tot (calculatePositionUnrealizedPnl L (p_szi p) (p_entryPx p) m)) (ct_pnl t) assets"
  "ct_margin (foldl (chs_step L s u scope) t assets) =
     foldl (\<lambda>tot a. case pos s u a of None \<Rightarrow> tot
      | Some p \<Rightarrow> if isZero_d (p_szi p) then tot
          else case midPx s (p_coin p) of None \<Rightarrow> tot
            | Some m \<Rightarrow> add_d L tot (calculatePositionMarginUsed L s u a (p_szi p) m)) (ct_margin t) assets"
  by (induction assets arbitrary: t)
    (simp_all add: chs_step_def position_row_def Let_def split: option.split)

lemma chs_values:
  "cs_accountValue (getClearinghouseState E s u scope) = calculateAccountValue (lib E) s u scope"
  "cs_totalMarginUsed (getClearinghouseState E s u scope) = calculateTotalMarginUsed (lib E) s u scope"
  by (simp_all add: getClearinghouseState_def Let_def chs_totals_def chs_fold calculateAccountValue_def
    calculateTotalUnrealizedPnl_def calculateTotalMarginUsed_def sum_positions_def)

lemma chs_withdrawable:
  "cs_withdrawable (getClearinghouseState E s u (scopeForAsset s a)) = max 0 (available_margin (lib E) s u a)"
  using chs_values [of E s u "scopeForAsset s a"]
  by (simp add: available_margin_def Let_def getClearinghouseState_def max_def)

lemma native_scope: "a < SPOT_OFFSET \<Longrightarrow> scopeForAsset s a = ''''"
  by (simp add: scopeForAsset_def SPOT_OFFSET_def SUB_DEX_OFFSET_def isSpotAsset_def)


text \<open>
  The trigger condition shown for a take-profit or stop-loss order is the one the matcher
  applies: a row that reads ``price above'' fires exactly when the mid is at least the price in
  it, one that reads ``price below'' exactly when it is at most that price; every other plain
  order shows no condition.
\<close>

theorem shown_trigger_is_matched:
  "case pb_triggerCondition (plain_body x ord) of
     PriceAbove p \<Rightarrow> o_orderType ord = Trigger \<and>
       (\<forall>t px mid. o_tpsl ord = Some t \<and> o_triggerPx ord = Some px \<longrightarrow> (checkTrigger t (o_isBuy ord) px mid \<longleftrightarrow> p \<le> mid))
   | PriceBelow p \<Rightarrow> o_orderType ord = Trigger \<and>
       (\<forall>t px mid. o_tpsl ord = Some t \<and> o_triggerPx ord = Some px \<longrightarrow> (checkTrigger t (o_isBuy ord) px mid \<longleftrightarrow> mid \<le> p))
   | NotApplicable \<Rightarrow> o_orderType ord \<noteq> Trigger \<or> o_tpsl ord = None"
  by (cases "o_tpsl ord"; cases "o_isBuy ord")
    (auto simp: plain_body_def Let_def hlTriggerConditionString_def checkTrigger_def split: TpSl.splits)

lemma scoped_order_status_is_unknown:
  \<comment> \<open>the field compared with the user is never written\<close>
  "v \<noteq> '''' \<Longrightarrow> getOrderStatus L live s x (Some v) = UnknownOid"
  by (simp add: getOrderStatus_def split: option.split)


theorem shown_trigger_is_matched_witness:
  "checkTrigger Tp False 120 130 \<and> \<not> checkTrigger Tp False 120 110"
proof -
  let ?ord = "(sample_order 1 False 2 120 True)\<lparr>o_orderType := Trigger, o_tpsl := Some Tp, o_triggerPx := Some 120\<rparr>"
  have "pb_triggerCondition (plain_body 1 ?ord) = PriceAbove 120"
    by (simp add: plain_body_def hlTriggerConditionString_def sample_order_def)
  with shown_trigger_is_matched [of ?ord 1] show ?thesis by (simp add: sample_order_def)
qed

end
