(* ===== verification/Upstream.thy ===== *)
theory Upstream
  imports Market
begin

text \<open>
  The socket to Hyperliquid (worker/ws-client.ts) and what the worker subscribes on it
  (worker/index.ts, worker/mark-feed.ts): connecting, the heartbeat, reconnecting with a growing
  delay, the subscriptions that are sent again on every new connection, the books of the coins
  with resting orders and the marks of the coins with trailing stops. The present socket is
  described by its ready state and what was sent on it; a pending reconnect timer is counted.
\<close>

subsection \<open>Subscriptions (ws/types.ts)\<close>

text \<open>A missing field is an empty string.\<close>

datatype WsSubscription =
    SubAllMids "dex_name option"
  | SubL2Book coin
  | SubOrderUpdates user
  | SubUserFills user
  | SubWebData2 user
  | SubClearinghouseState user dex_name
  | SubOpenOrders user dex_name
  | SubAllDexs user
  | SubTrades coin
  | SubBbo coin
  | SubCandle coin string
  | SubActiveAssetCtx coin
  | SubNotification user
  | SubUserEvents user
  | SubUserFundings user
  | SubLedgerUpdates user
  | SubActiveAssetData user coin
  | SubUnknown string

subsection \<open>HlWebSocketClient\<close>

datatype ReadyState = NoSocket | Connecting | Open | Closing | Closed

datatype UpFrame = Subscribe WsSubscription | Ping

record WsClient =
  uc_ready :: ReadyState
  uc_sent :: "UpFrame list" \<comment> \<open>on the present socket\<close>
  uc_reconnectDelay :: millis
  uc_shouldReconnect :: bool
  uc_subscriptions :: "WsSubscription list"
  uc_lastMessageAt :: millis
  uc_heartbeat :: bool
  uc_timers :: nat \<comment> \<open>reconnects that are scheduled\<close>

record ws_config =
  WS_RECONNECT_MIN_MS :: millis
  WS_RECONNECT_MAX_MS :: millis

definition PING_AFTER_QUIET_MS :: millis where
  "PING_AFTER_QUIET_MS = 30000"

definition STALE_AFTER_MS :: millis where
  "STALE_AFTER_MS = 90000"

definition new_client :: "ws_config \<Rightarrow> WsClient" where
  "new_client cf = \<lparr>uc_ready = NoSocket, uc_sent = [], uc_reconnectDelay = WS_RECONNECT_MIN_MS cf,
     uc_shouldReconnect = True, uc_subscriptions = [], uc_lastMessageAt = 0, uc_heartbeat = False, uc_timers = 0\<rparr>"

definition connect :: "'a WsClient_scheme \<Rightarrow> 'a WsClient_scheme" where
  "connect c = c\<lparr>uc_ready := Connecting, uc_sent := []\<rparr>"

definition sendSubscriptions :: "'a WsClient_scheme \<Rightarrow> 'a WsClient_scheme" where
  "sendSubscriptions c = c\<lparr>uc_sent := uc_sent c @ map Subscribe (uc_subscriptions c)\<rparr>"

definition on_open :: "ws_config \<Rightarrow> millis \<Rightarrow> 'a WsClient_scheme \<Rightarrow> 'a WsClient_scheme" where
  "on_open cf t c =
    sendSubscriptions (c\<lparr>uc_ready := Open, uc_reconnectDelay := WS_RECONNECT_MIN_MS cf, uc_lastMessageAt := t,
      uc_heartbeat := True\<rparr>)"

definition on_message :: "millis \<Rightarrow> 'a WsClient_scheme \<Rightarrow> 'a WsClient_scheme" where
  \<comment> \<open>what the frame means is the handler's, Market.handleMessage\<close>
  "on_message t c = c\<lparr>uc_lastMessageAt := t\<rparr>"

definition scheduleReconnect :: "ws_config \<Rightarrow> 'a WsClient_scheme \<Rightarrow> 'a WsClient_scheme" where
  "scheduleReconnect cf c =
    (if \<not> uc_shouldReconnect c then c
     else c\<lparr>uc_timers := Suc (uc_timers c),
            uc_reconnectDelay := min (uc_reconnectDelay c * 2) (WS_RECONNECT_MAX_MS cf)\<rparr>)"

definition on_close :: "ws_config \<Rightarrow> 'a WsClient_scheme \<Rightarrow> 'a WsClient_scheme" where
  "on_close cf c = scheduleReconnect cf (c\<lparr>uc_ready := Closed, uc_heartbeat := False\<rparr>)"

definition timer_fires :: "'a WsClient_scheme \<Rightarrow> 'a WsClient_scheme" where
  "timer_fires c = connect (c\<lparr>uc_timers := uc_timers c - 1\<rparr>)"

definition subscribe :: "WsSubscription \<Rightarrow> 'a WsClient_scheme \<Rightarrow> 'a WsClient_scheme" where
  "subscribe sub c =
    (let c1 = c\<lparr>uc_subscriptions := uc_subscriptions c @ [sub]\<rparr>
     in if uc_ready c = Open then c1\<lparr>uc_sent := uc_sent c @ [Subscribe sub]\<rparr> else c1)"

definition heartbeat_tick :: "millis \<Rightarrow> 'a WsClient_scheme \<Rightarrow> 'a WsClient_scheme" where
  "heartbeat_tick t c =
    (if uc_ready c \<noteq> Open then c
     else
       let quiet = t - uc_lastMessageAt c
       in if STALE_AFTER_MS \<le> quiet then c\<lparr>uc_heartbeat := False, uc_ready := Closing\<rparr>
          else if PING_AFTER_QUIET_MS \<le> quiet then c\<lparr>uc_sent := uc_sent c @ [Ping]\<rparr>
          else c)"

definition close_client :: "'a WsClient_scheme \<Rightarrow> 'a WsClient_scheme" where
  "close_client c =
    c\<lparr>uc_shouldReconnect := False, uc_heartbeat := False,
      uc_ready := (if uc_ready c \<in> {Connecting, Open} then Closing else uc_ready c)\<rparr>"

subsection \<open>The worker's subscriptions\<close>

record WorkerSubs = WsClient +
  upstreamSubs :: "WsSubscription list"
  l2Subscribed :: "coin list"

definition ensureUpstreamMarketSub :: "WsSubscription \<Rightarrow> WorkerSubs \<Rightarrow> WorkerSubs" where
  "ensureUpstreamMarketSub sub c =
    (if sub \<in> set (upstreamSubs c) then c else subscribe sub (c\<lparr>upstreamSubs := sub # upstreamSubs c\<rparr>))"

definition getOpenOrderCoins :: "'a book_scheme \<Rightarrow> coin list" where
  "getOpenOrderCoins s = order_coins s (openSet s @ trigSet s @ trailSet s)"

definition reconcile_one :: "coin \<Rightarrow> WorkerSubs \<Rightarrow> WorkerSubs" where
  "reconcile_one coin c =
    (if coin \<in> set (l2Subscribed c) then c
     else (subscribe (SubL2Book coin) c)\<lparr>l2Subscribed := coin # l2Subscribed c\<rparr>)"

definition l2_reconcile :: "'a book_scheme \<Rightarrow> WorkerSubs \<Rightarrow> WorkerSubs" where
  "l2_reconcile s c = fold reconcile_one (getOpenOrderCoins s) c"

definition wireMarkSubscriptions :: "'a book_scheme \<Rightarrow> WorkerSubs \<Rightarrow> WorkerSubs" where
  \<comment> \<open>the restored ones; the listener of the bus is \<open>on_markSub\<close>\<close>
  "wireMarkSubscriptions s c = fold (\<lambda>coin. ensureUpstreamMarketSub (SubActiveAssetCtx coin)) (getTrailingCoins s) c"

definition on_markSub :: "coin \<Rightarrow> WorkerSubs \<Rightarrow> WorkerSubs" where
  "on_markSub coin c = (if coin = '''' then c else ensureUpstreamMarketSub (SubActiveAssetCtx coin) c)"

definition new_worker :: "ws_config \<Rightarrow> WorkerSubs" where
  "new_worker cf = WsClient.extend (new_client cf) \<lparr>upstreamSubs = [], l2Subscribed = []\<rparr>"

definition start_subs :: "bool \<Rightarrow> state \<Rightarrow> WorkerSubs \<Rightarrow> WorkerSubs" where
  \<comment> \<open>the part of \<open>start\<close> that concerns the socket; the flag is L2_WS_ENABLED\<close>
  "start_subs l2_enabled s c =
    (let c1 = subscribe (SubAllMids None) (connect c);
         dexs = (case perpDexs s of None \<Rightarrow> [] | Some ds \<Rightarrow> filter (\<lambda>d. d \<noteq> '''') (List.map_filter (\<lambda>d. d) ds));
         c2 = fold (\<lambda>d. subscribe (SubAllMids (Some d))) dexs c1;
         c3 = wireMarkSubscriptions s c2
     in if l2_enabled then l2_reconcile s c3 else c3)"

subsection \<open>Runs of the worker's socket\<close>

inductive up_step :: "ws_config \<Rightarrow> WorkerSubs \<Rightarrow> WorkerSubs \<Rightarrow> bool" for cf where
  opened: "uc_ready c = Connecting \<Longrightarrow> up_step cf c (on_open cf t c)"
| message: "uc_ready c = Open \<Longrightarrow> up_step cf c (on_message t c)"
| closed: "uc_ready c \<in> {Connecting, Open, Closing} \<Longrightarrow> up_step cf c (on_close cf c)"
| timer: "0 < uc_timers c \<Longrightarrow> up_step cf c (timer_fires c)"
| tick: "uc_heartbeat c \<Longrightarrow> up_step cf c (heartbeat_tick t c)"
| relay_sub: "sub = SubTrades x \<or> sub = SubBbo x \<or> sub = SubCandle x i \<or> sub = SubActiveAssetCtx x \<Longrightarrow>
    up_step cf c (ensureUpstreamMarketSub sub c)"
| mark_sub: "up_step cf c (on_markSub x c)"
| reconcile: "up_step cf c (l2_reconcile (s :: state) c)"
| stop: "up_step cf c (close_client c)"

inductive up_run :: "ws_config \<Rightarrow> WorkerSubs \<Rightarrow> bool" for cf where
  start: "up_run cf (start_subs l2_enabled s (new_worker cf))"
| step: "up_run cf c \<Longrightarrow> up_step cf c c' \<Longrightarrow> up_run cf c'"

inductive_cases up_stepE: "up_step cf c c'"

subsection \<open>Facts about runs\<close>

definition sent_subs :: "'a WsClient_scheme \<Rightarrow> WsSubscription list" where
  \<comment> \<open>the subscriptions sent on the present socket, in order\<close>
  "sent_subs c = List.map_filter (\<lambda>x. case x of Subscribe s \<Rightarrow> Some s | Ping \<Rightarrow> None) (uc_sent c)"

definition is_relay :: "WsSubscription \<Rightarrow> bool" where
  "is_relay sub = (case sub of SubTrades _ \<Rightarrow> True | SubBbo _ \<Rightarrow> True | SubCandle _ _ \<Rightarrow> True
     | SubActiveAssetCtx _ \<Rightarrow> True | _ \<Rightarrow> False)"

definition socket_ok :: "ws_config \<Rightarrow> 'a WsClient_scheme \<Rightarrow> bool" where
  "socket_ok cf c \<longleftrightarrow>
    uc_ready c \<noteq> NoSocket \<and> (uc_ready c = Connecting \<longrightarrow> uc_sent c = []) \<and>
    (uc_ready c = Open \<longrightarrow> sent_subs c = uc_subscriptions c) \<and> (uc_heartbeat c \<longleftrightarrow> uc_ready c = Open) \<and>
    (uc_ready c = Closed \<and> uc_shouldReconnect c \<longrightarrow> uc_timers c = 1) \<and>
    uc_timers c \<le> 1 \<and> (0 < uc_timers c \<longrightarrow> uc_ready c = Closed) \<and>
    WS_RECONNECT_MIN_MS cf \<le> uc_reconnectDelay c \<and> uc_reconnectDelay c \<le> WS_RECONNECT_MAX_MS cf"

definition subs_ok :: "WorkerSubs \<Rightarrow> bool" where
  "subs_ok c \<longleftrightarrow>
    (\<forall>x. count_list (uc_subscriptions c) (SubL2Book x) = of_bool (x \<in> set (l2Subscribed c))) \<and>
    (\<forall>sub. is_relay sub \<longrightarrow> count_list (uc_subscriptions c) sub = of_bool (sub \<in> set (upstreamSubs c))) \<and>
    (\<forall>sub \<in> set (upstreamSubs c). is_relay sub)"

lemma count_end [simp]: "count_list (xs @ [x]) y = count_list xs y + of_bool (x = y)"
  by (induction xs) auto

lemma sent_map [simp]: "List.map_filter (\<lambda>x. case x of Subscribe s \<Rightarrow> Some s | Ping \<Rightarrow> None) (map Subscribe subs) = subs"
  by (induction subs) (simp_all add: List.map_filter_simps)

lemma sent_app [simp]: "List.map_filter f (xs @ ys) = List.map_filter f xs @ List.map_filter f ys"
  by (simp add: List.map_filter_def)

lemma subscribe_fields [simp]:
  "uc_subscriptions (subscribe sub c) = uc_subscriptions c @ [sub]"
  "uc_ready (subscribe sub c) = uc_ready c" "uc_timers (subscribe sub c) = uc_timers c"
  "uc_shouldReconnect (subscribe sub c) = uc_shouldReconnect c" "uc_heartbeat (subscribe sub c) = uc_heartbeat c"
  "uc_reconnectDelay (subscribe sub c) = uc_reconnectDelay c"
  "upstreamSubs (subscribe sub w) = upstreamSubs w" "l2Subscribed (subscribe sub w) = l2Subscribed w"
  by (simp_all add: subscribe_def Let_def)

lemma sent_subscribe: "sent_subs (subscribe sub c) = (if uc_ready c = Open then sent_subs c @ [sub] else sent_subs c)"
  by (simp add: subscribe_def Let_def sent_subs_def List.map_filter_simps)

lemma socket_subscribe: "socket_ok cf c \<Longrightarrow> socket_ok cf (subscribe sub c)"
proof -
  have "uc_ready c \<noteq> Open \<Longrightarrow> uc_sent (subscribe sub c) = uc_sent c"
    by (simp add: subscribe_def Let_def)
  then show "socket_ok cf c \<Longrightarrow> socket_ok cf (subscribe sub c)"
    by (auto simp: socket_ok_def sent_subscribe)
qed

lemma socket_same:
  assumes "socket_ok cf c" "uc_ready c' = uc_ready c" "uc_sent c' = uc_sent c" "uc_timers c' = uc_timers c"
    "uc_shouldReconnect c' = uc_shouldReconnect c" "uc_heartbeat c' = uc_heartbeat c"
    "uc_reconnectDelay c' = uc_reconnectDelay c" "uc_subscriptions c' = uc_subscriptions c"
  shows "socket_ok cf c'"
  using assms by (simp add: socket_ok_def sent_subs_def)

lemma socket_ensure: "socket_ok cf c \<Longrightarrow> socket_ok cf (ensureUpstreamMarketSub sub c)"
  unfolding ensureUpstreamMarketSub_def by (auto intro!: socket_subscribe intro: socket_same)

lemma socket_reconcile_one: "socket_ok cf c \<Longrightarrow> socket_ok cf (reconcile_one x c)"
  unfolding reconcile_one_def by (auto intro: socket_same [OF socket_subscribe])

lemma subs_ensure: "subs_ok c \<Longrightarrow> is_relay sub \<Longrightarrow> subs_ok (ensureUpstreamMarketSub sub c)"
  by (auto simp: ensureUpstreamMarketSub_def subs_ok_def is_relay_def)

lemma subs_reconcile_one: "subs_ok c \<Longrightarrow> subs_ok (reconcile_one x c)"
  by (auto simp: reconcile_one_def subs_ok_def is_relay_def)

lemma subs_other: "subs_ok c \<Longrightarrow> uc_subscriptions c' = uc_subscriptions c \<Longrightarrow> upstreamSubs c' = upstreamSubs c \<Longrightarrow>
    l2Subscribed c' = l2Subscribed c \<Longrightarrow> subs_ok c'"
  by (simp add: subs_ok_def)

lemma fold_keeps: "P c \<Longrightarrow> (\<And>x c. x \<in> set xs \<Longrightarrow> P c \<Longrightarrow> P (f x c)) \<Longrightarrow> P (fold f xs c)"
  by (induction xs arbitrary: c) auto

lemma socket_step:
  assumes "socket_ok cf c" "up_step cf c c'" and cf: "0 \<le> WS_RECONNECT_MIN_MS cf" "WS_RECONNECT_MIN_MS cf \<le> WS_RECONNECT_MAX_MS cf"
  shows "socket_ok cf c'"
  using assms(2,1)
proof cases
  case (tick t)
  with assms(1) show ?thesis
    by (auto simp: socket_ok_def heartbeat_tick_def Let_def sent_subs_def List.map_filter_simps)
next
  case (relay_sub sub x i)
  with assms(1) show ?thesis by (simp add: socket_ensure)
next
  case (mark_sub x)
  with assms(1) show ?thesis by (simp add: on_markSub_def socket_ensure)
next
  case (reconcile s)
  with assms(1) show ?thesis unfolding l2_reconcile_def by (auto intro!: fold_keeps socket_reconcile_one)
qed (use cf in \<open>auto simp: socket_ok_def on_open_def sendSubscriptions_def sent_subs_def on_message_def on_close_def
    scheduleReconnect_def timer_fires_def connect_def close_client_def List.map_filter_simps\<close>)

lemma subs_step:
  assumes "subs_ok c" "up_step cf c c'"
  shows "subs_ok c'"
  using assms(2)
proof cases
  case (relay_sub sub x i)
  with assms(1) show ?thesis by (auto simp: is_relay_def intro: subs_ensure)
next
  case (mark_sub x)
  with assms(1) show ?thesis by (simp add: on_markSub_def subs_ensure is_relay_def)
next
  case (reconcile s)
  with assms(1) show ?thesis unfolding l2_reconcile_def by (auto intro!: fold_keeps subs_reconcile_one)
qed (auto intro!: subs_other [OF assms(1)] simp: on_open_def sendSubscriptions_def on_message_def on_close_def
    scheduleReconnect_def timer_fires_def connect_def close_client_def heartbeat_tick_def Let_def)

lemma start_ok:
  assumes "WS_RECONNECT_MIN_MS cf \<le> WS_RECONNECT_MAX_MS cf"
  shows "socket_ok cf (start_subs e s (new_worker cf)) \<and> subs_ok (start_subs e s (new_worker cf))"
proof -
  let ?P = "\<lambda>c. socket_ok cf c \<and> subs_ok c"
  have mids: "?P c \<Longrightarrow> ?P (subscribe (SubAllMids d) c)" for c d
    by (auto simp: socket_subscribe) (auto simp: subs_ok_def is_relay_def)
  have first: "?P (connect (new_worker cf))"
    using assms
    by (simp add: socket_ok_def subs_ok_def connect_def new_worker_def new_client_def WsClient.defs)
  have marks: "?P c \<Longrightarrow> ?P (wireMarkSubscriptions s c)" for c
    unfolding wireMarkSubscriptions_def
    by (rule fold_keeps [where P = ?P]) (simp_all add: socket_ensure subs_ensure is_relay_def)
  have books: "?P c \<Longrightarrow> ?P (l2_reconcile s c)" for c
    unfolding l2_reconcile_def
    by (rule fold_keeps [where P = ?P]) (simp_all add: socket_reconcile_one subs_reconcile_one)
  have "?P (fold (\<lambda>d. subscribe (SubAllMids (Some d))) ds (subscribe (SubAllMids None) (connect (new_worker cf))))" for ds
    by (rule fold_keeps [where P = ?P]) (use mids first in auto)
  with marks books show ?thesis by (simp add: start_subs_def Let_def)
qed

lemma run_ok:
  assumes "up_run cf c" "0 \<le> WS_RECONNECT_MIN_MS cf" "WS_RECONNECT_MIN_MS cf \<le> WS_RECONNECT_MAX_MS cf"
  shows "socket_ok cf c \<and> subs_ok c"
  using assms
proof (induction rule: up_run.induct)
  case (start e s)
  then show ?case by (simp add: start_ok)
next
  case (step c c')
  then show ?case using socket_step subs_step by blast
qed

text \<open>
  C31. The worker's socket never gets stuck: in every state it can reach, an open connection has
  carried every subscription asked for, in order and each as often as it was asked for, and is
  watched by the heartbeat; a closed one that was not told to stop has exactly one reconnect
  scheduled; the delay stays between its bounds; and a connection that has been silent for
  ninety seconds is dropped at the next tick, after which closing, the timer and a new
  connection bring every subscription back.
\<close>

theorem upstream_recovers:
  assumes "up_run cf c" "0 \<le> WS_RECONNECT_MIN_MS cf" "WS_RECONNECT_MIN_MS cf \<le> WS_RECONNECT_MAX_MS cf"
  shows "(uc_ready c = Open \<longrightarrow> sent_subs c = uc_subscriptions c \<and> uc_heartbeat c) \<and>
    (uc_ready c = Closed \<and> uc_shouldReconnect c \<longrightarrow> uc_timers c = 1) \<and> (0 < uc_timers c \<longrightarrow> uc_ready c = Closed) \<and>
    WS_RECONNECT_MIN_MS cf \<le> uc_reconnectDelay c \<and> uc_reconnectDelay c \<le> WS_RECONNECT_MAX_MS cf \<and>
    (uc_ready c = Open \<and> uc_shouldReconnect c \<and> uc_lastMessageAt c + 90000 \<le> t \<longrightarrow>
      (let c1 = heartbeat_tick t c; c2 = on_close cf c1; c3 = on_open cf t' (timer_fires c2)
       in uc_ready c1 = Closing \<and> uc_timers c2 = 1 \<and> uc_ready c3 = Open \<and> sent_subs c3 = uc_subscriptions c))"
  using run_ok [OF assms]
  by (auto simp: socket_ok_def Let_def heartbeat_tick_def STALE_AFTER_MS_def on_close_def scheduleReconnect_def
      timer_fires_def connect_def on_open_def sendSubscriptions_def sent_subs_def)

theorem upstream_recovers_witness:
  "let cf = \<lparr>WS_RECONNECT_MIN_MS = 1000, WS_RECONNECT_MAX_MS = 30000\<rparr>;
       c = on_open cf 5 (start_subs True empty_state (new_worker cf))
   in uc_heartbeat c \<and> sent_subs c = [SubAllMids None] \<and>
      uc_timers (on_close cf (heartbeat_tick 90005 c)) = 1"
proof -
  define cf where "cf = \<lparr>WS_RECONNECT_MIN_MS = 1000, WS_RECONNECT_MAX_MS = 30000\<rparr>"
  define c where "c = on_open cf 5 (start_subs True empty_state (new_worker cf))"
  have con: "uc_ready (start_subs True empty_state (new_worker cf)) = Connecting" unfolding cf_def by code_simp
  have c: "uc_ready c = Open" "uc_shouldReconnect c" "uc_lastMessageAt c = 5" "uc_subscriptions c = [SubAllMids None]"
    unfolding c_def cf_def by code_simp+
  have "up_run cf c"
    unfolding c_def by (rule up_run.step [OF up_run.start up_step.opened [OF con]])
  from upstream_recovers [OF this, of 90005] c show ?thesis
    unfolding c_def [symmetric] cf_def [symmetric] Let_def by (simp add: cf_def)
qed

text \<open>
  The depth of every coin with a resting order is streamed: once the worker has reconciled,
  the coin of every order that any of the matcher's lists holds has been subscribed on the
  socket exactly once, no coin ever twice, and nothing subscribed before is lost.
\<close>

theorem resting_coins_are_streamed:
  assumes "up_run cf c" "reachable s" "0 \<le> WS_RECONNECT_MIN_MS cf" "WS_RECONNECT_MIN_MS cf \<le> WS_RECONNECT_MAX_MS cf"
  shows "(\<forall>x \<in> set (openSet s) \<union> set (trigSet s) \<union> set (trailSet s). \<exists>d. orders s x = Some d \<and>
      (o_coin (h_order d) \<noteq> '''' \<longrightarrow>
        count_list (uc_subscriptions (l2_reconcile s c)) (SubL2Book (o_coin (h_order d))) = 1)) \<and>
    (\<forall>coin. count_list (uc_subscriptions (l2_reconcile s c)) (SubL2Book coin) \<le> 1) \<and>
    (\<exists>new. uc_subscriptions (l2_reconcile s c) = uc_subscriptions c @ new)"
proof -
  have ok: "subs_ok (l2_reconcile s c)"
    using run_ok [OF assms(1,3,4)] unfolding l2_reconcile_def by (auto intro!: fold_keeps subs_reconcile_one)
  have l2: "set (l2Subscribed (fold reconcile_one cs c)) = set (l2Subscribed c) \<union> set cs" for cs c
    by (induction cs arbitrary: c) (auto simp: reconcile_one_def)
  have grow: "\<exists>new. uc_subscriptions (fold reconcile_one cs c) = uc_subscriptions c @ new" for cs c
  proof (induction cs arbitrary: c)
    case (Cons x cs)
    from Cons [of "reconcile_one x c"] show ?case by (auto simp: reconcile_one_def)
  qed simp
  have "book_ok s" using reachable_is_good [OF assms(2)] by (simp add: good_def)
  then have stored: "\<exists>d. orders s x = Some d" if "x \<in> set (openSet s) \<union> set (trigSet s) \<union> set (trailSet s)" for x
    using that by (auto simp: book_ok_def listed_def status_of_def)
  have "o_coin (h_order d) \<in> set (l2Subscribed (l2_reconcile s c))"
    if "x \<in> set (openSet s) \<union> set (trigSet s) \<union> set (trailSet s)" "orders s x = Some d" "o_coin (h_order d) \<noteq> ''''" for x d
  proof -
    have "o_coin (h_order d) \<in> set (getOpenOrderCoins s)"
      using that unfolding getOpenOrderCoins_def order_coins_def set_remdups set_filter set_map_filter by force
    then show ?thesis by (simp add: l2_reconcile_def l2)
  qed
  with ok have "\<exists>d. orders s x = Some d \<and> (o_coin (h_order d) \<noteq> '''' \<longrightarrow>
        count_list (uc_subscriptions (l2_reconcile s c)) (SubL2Book (o_coin (h_order d))) = 1)"
    if "x \<in> set (openSet s) \<union> set (trigSet s) \<union> set (trailSet s)" for x
    using stored [OF that] that by (auto simp: subs_ok_def)
  moreover have "\<exists>new. uc_subscriptions (l2_reconcile s c) = uc_subscriptions c @ new"
    unfolding l2_reconcile_def by (rule grow)
  ultimately show ?thesis using ok by (simp add: subs_ok_def)
qed

lemma sample_reachable: "reachable (sample_state None [])"
proof -
  let ?s = "sample_state None []"
  have "reachable (empty_state\<lparr>perpDexs := None\<rparr>)" by (rule reachable.start)
  from reachable.step [OF reachable.step [OF this engine_step.market_data] engine_step.balances [of "[]"]]
  have "reachable (empty_state\<lparr>perpDexs := None\<rparr>\<lparr>mids := mids ?s, ctx_mark := ctx_mark ?s, meta := meta ?s,
      meta_dex := meta_dex ?s, spotMeta := spotMeta ?s\<rparr>\<lparr>balance := balance ?s\<rparr>)" by (simp add: empty_state_def)
  moreover have "empty_state\<lparr>perpDexs := None\<rparr>\<lparr>mids := mids ?s, ctx_mark := ctx_mark ?s, meta := meta ?s,
      meta_dex := meta_dex ?s, spotMeta := spotMeta ?s\<rparr>\<lparr>balance := balance ?s\<rparr> = ?s"
    by (intro state.equality) (simp_all add: sample_state_def empty_state_def fun_eq_iff)
  ultimately show ?thesis by simp
qed

theorem resting_coins_are_streamed_witness:
  "let s = snd (placeOrders sample_env ''u'' [sample_wire False 120 2 True Alo] Na no_opts (sample_state None []));
       c = start_subs True empty_state (new_worker \<lparr>WS_RECONNECT_MIN_MS = 1000, WS_RECONNECT_MAX_MS = 30000\<rparr>)
   in openSet s = [1] \<and> count_list (uc_subscriptions (l2_reconcile s c)) (SubL2Book ''BTC'') = 1"
proof -
  define cf where "cf = \<lparr>WS_RECONNECT_MIN_MS = 1000, WS_RECONNECT_MAX_MS = 30000\<rparr>"
  define s where "s = snd (placeOrders sample_env ''u'' [sample_wire False 120 2 True Alo] Na no_opts (sample_state None []))"
  have "reachable s"
    unfolding s_def by (rule reachable.step [OF sample_reachable engine_step.place]) (rule prod.collapse [symmetric])
  moreover have "up_run cf (start_subs True empty_state (new_worker cf))" by (rule up_run.start)
  ultimately have "\<exists>d. orders s x = Some d \<and> (o_coin (h_order d) \<noteq> '''' \<longrightarrow>
        count_list (uc_subscriptions (l2_reconcile s (start_subs True empty_state (new_worker cf))))
          (SubL2Book (o_coin (h_order d))) = 1)" if "x \<in> set (openSet s)" for x
    using resting_coins_are_streamed [of cf "start_subs True empty_state (new_worker cf)" s] that by (simp add: cf_def)
  moreover have "openSet s = [1]" "map_option (\<lambda>d. o_coin (h_order d)) (orders s 1) = Some ''BTC''"
    unfolding s_def by code_simp+
  ultimately show ?thesis unfolding s_def [symmetric] cf_def [symmetric] Let_def by fastforce
qed

lemma closed_client_reconnects:
  \<comment> \<open>the timer is not cleared and \<open>connect\<close> does not look at the flag: closing while waiting reconnects\<close>
  "uc_shouldReconnect c \<Longrightarrow> 0 < uc_timers (close_client (on_close cf c)) \<and>
    uc_ready (timer_fires (close_client (on_close cf c))) = Connecting"
  by (simp add: on_close_def scheduleReconnect_def close_client_def timer_fires_def connect_def)

end
