(* ===== verification/WsServer.thy ===== *)
theory WsServer
  imports Views Upstream JsStrings
begin

text \<open>
  The WebSocket server (ws/server.ts): connections and their subscriptions, the index from
  subscription keys to connections, the snapshots a new subscription gets, the fan-out of the
  bus events, and the heartbeat. A connection is a number; what was written to the open
  connections is the list \<open>sent\<close>. A handler is one step, and what it reads elsewhere (the store,
  the pushed books, the rows Postgres keeps, the HTTP routes behind a post) is a record of
  sources. Rows of the ledger and of funding are the events that recorded them.
\<close>

type_synonym ws = nat

subsection \<open>Messages and frames\<close>

datatype WsMessage =
    InvalidJson
  | M_subscribe "WsSubscription option"
  | M_unsubscribe "WsSubscription option"
  | M_ping
  | M_post "rat option" "(string \<times> json) option" \<comment> \<open>id, type and payload of the request\<close>
  | M_other

datatype UserEvent = UE_fills "PaperFill list" | UE_funding event | UE_liquidation nat rat rat

type_synonym OrderRows = "(FrontendBody \<times> FrontendBody list) list"

datatype Frame =
    F_error string
  | F_pong
  | F_post "rat option" string json
  | F_subscriptionResponse bool WsSubscription \<comment> \<open>whether it was a subscribe\<close>
  | F_allMids "(coin \<times> rat) list"
  | F_l2Book HlL2Book
  | F_webData2 user HlClearinghouseState OrderRows millis
  | F_userFills bool user "PaperFill list" \<comment> \<open>whether it is a snapshot\<close>
  | F_userFundings bool user "event list"
  | F_ledgerUpdates bool user "event list"
  | F_activeAssetData user coin ActiveAssetData
  | F_clearinghouseState dex_name user HlClearinghouseState
  | F_openOrders dex_name user OrderRows
  | F_allDexs user "(dex_name \<times> HlClearinghouseState) list"
  | F_orderUpdates "(UpdateBody \<times> OrderStatus \<times> millis) list"
  | F_user UserEvent
  | F_trades "(coin \<times> json) list"
  | F_bbo json
  | F_candle json
  | F_activeAssetCtx coin HlAssetCtx
  | F_pingFrame \<comment> \<open>the ping of the protocol\<close>

record sources =
  so_env :: env
  so_state :: state
  so_l2 :: "coin \<Rightarrow> HlL2Book option"
  so_fills :: "user \<Rightarrow> PaperFill list"
  so_fundings :: "user \<Rightarrow> event list"
  so_ledger :: "user \<Rightarrow> event list"
  so_route :: "string \<Rightarrow> json \<Rightarrow> (bool \<times> json) + json" \<comment> \<open>path and body; \<open>Inr\<close> for an exception\<close>

record ClientState =
  cl_subscriptions :: "string list"
  cl_isAlive :: bool

record WsServer =
  conns :: "ws \<Rightarrow> ClientState option" \<comment> \<open>the state each connection's handlers hold\<close>
  is_open :: "ws \<Rightarrow> bool"
  clients :: "ws list"
  index :: "(string \<times> ws list) list"
  sent :: "(ws \<times> Frame) list"
  upstream :: WorkerSubs

definition subscribers :: "WsServer \<Rightarrow> string \<Rightarrow> ws list" where
  "subscribers S key = (case map_of (index S) key of None \<Rightarrow> [] | Some l \<Rightarrow> l)"

definition ws_send :: "ws \<Rightarrow> Frame \<Rightarrow> WsServer \<Rightarrow> WsServer" where
  "ws_send w fr S = (if is_open S w then S\<lparr>sent := sent S @ [(w, fr)]\<rparr> else S)"

definition broadcast :: "string \<Rightarrow> Frame \<Rightarrow> WsServer \<Rightarrow> WsServer" where
  "broadcast key fr S = fold (\<lambda>w. ws_send w fr) (subscribers S key) S"

definition colon :: char where
  "colon = CHR '':''"

definition subscriptionKey :: "WsSubscription \<Rightarrow> string option" where
  "subscriptionKey sub =
    (let user_key = (\<lambda>name u. if u = '''' then None else Some (name @ colon # lower u));
         coin_key = (\<lambda>name c. if c = '''' then None else Some (name @ colon # c));
         two_key = (\<lambda>name u c. if u = '''' \<or> c = '''' then None else Some (name @ colon # lower u @ colon # c))
     in case sub of
       SubAllMids _ \<Rightarrow> Some ''allMids''
     | SubL2Book c \<Rightarrow> coin_key ''l2Book'' c
     | SubOrderUpdates u \<Rightarrow> user_key ''orderUpdates'' u
     | SubUserFills u \<Rightarrow> user_key ''userFills'' u
     | SubWebData2 u \<Rightarrow> user_key ''webData2'' u
     | SubTrades c \<Rightarrow> coin_key ''trades'' c
     | SubBbo c \<Rightarrow> coin_key ''bbo'' c
     | SubCandle c i \<Rightarrow> (if c = '''' \<or> i = '''' then None else Some (''candle'' @ colon # c @ colon # i))
     | SubActiveAssetCtx c \<Rightarrow> coin_key ''activeAssetCtx'' c
     | SubNotification u \<Rightarrow> user_key ''notification'' u
     | SubUserEvents u \<Rightarrow> user_key ''userEvents'' u
     | SubUserFundings u \<Rightarrow> user_key ''userFundings'' u
     | SubLedgerUpdates u \<Rightarrow> user_key ''userNonFundingLedgerUpdates'' u
     | SubActiveAssetData u c \<Rightarrow> two_key ''activeAssetData'' u c
     | SubClearinghouseState u d \<Rightarrow> two_key ''clearinghouseState'' u d
     | SubOpenOrders u d \<Rightarrow> two_key ''openOrders'' u d
     | SubAllDexs u \<Rightarrow> user_key ''allDexsClearinghouseState'' u
     | SubUnknown _ \<Rightarrow> None)"

subsection \<open>Frames built from the store\<close>

definition webData2_frame :: "sources \<Rightarrow> user \<Rightarrow> Frame" where
  "webData2_frame so u =
    F_webData2 (lower u) (getClearinghouseState (so_env so) (so_state so) u '''')
      (getFrontendOpenOrders (lib (so_env so)) (so_state so) u '''') (now (so_env so))"

definition dex_chs_frame :: "sources \<Rightarrow> user \<Rightarrow> dex_name \<Rightarrow> Frame" where
  "dex_chs_frame so u d = F_clearinghouseState d u (getClearinghouseState (so_env so) (so_state so) u d)"

definition dex_orders_frame :: "sources \<Rightarrow> user \<Rightarrow> dex_name \<Rightarrow> Frame" where
  "dex_orders_frame so u d = F_openOrders d u (getFrontendOpenOrders (lib (so_env so)) (so_state so) u d)"

definition all_dexs_frame :: "sources \<Rightarrow> user \<Rightarrow> Frame" where
  "all_dexs_frame so u =
    (let names = (case perpDexs (so_state so) of None \<Rightarrow> [] | Some ds \<Rightarrow> List.map_filter (\<lambda>d. d) ds)
     in F_allDexs u (map (\<lambda>d. (d, getClearinghouseState (so_env so) (so_state so) u d)) ('''' # names)))"

definition asset_data_frame :: "sources \<Rightarrow> user \<Rightarrow> coin \<Rightarrow> Frame" where
  "asset_data_frame so u c = F_activeAssetData (lower u) c (getActiveAssetData (so_env so) (so_state so) (lower u) c)"

subsection \<open>Messages of a connection\<close>

definition handleConnection :: "ws \<Rightarrow> WsServer \<Rightarrow> WsServer" where
  "handleConnection w S =
    S\<lparr>conns := (conns S)(w \<mapsto> \<lparr>cl_subscriptions = [], cl_isAlive = True\<rparr>), is_open := (is_open S)(w := True),
      clients := clients S @ [w]\<rparr>"

definition set_conn :: "ws \<Rightarrow> (ClientState \<Rightarrow> ClientState) \<Rightarrow> WsServer \<Rightarrow> WsServer" where
  "set_conn w f S = S\<lparr>conns := (conns S)(w := map_option f (conns S w))\<rparr>"

definition handlePost :: "sources \<Rightarrow> ws \<Rightarrow> rat option \<Rightarrow> (string \<times> json) option \<Rightarrow> WsServer \<Rightarrow> WsServer" where
  "handlePost so w i request S =
    (case (i, request) of
       (Some _, Some (ty, payload)) \<Rightarrow>
         if ty = ''info'' \<or> ty = ''action''
         then case so_route so (if ty = ''info'' then ''/info'' else ''/exchange'') payload of
                Inl (ok, reply) \<Rightarrow> ws_send w (F_post i (if ok then ty else ''error'') reply) S
              | Inr err \<Rightarrow> ws_send w (F_post i ''error'' err) S
         else ws_send w (F_post i ''error'' ''post requires id and request.{type:info|action, payload}'') S
     | _ \<Rightarrow> ws_send w (F_post i ''error'' ''post requires id and request.{type:info|action, payload}'') S)"

definition snapshot :: "sources \<Rightarrow> WsSubscription \<Rightarrow> Frame option" where
  \<comment> \<open>the frame that a new subscription gets after its acknowledgement\<close>
  "snapshot so sub =
    (case sub of
       SubAllMids _ \<Rightarrow> if mids (so_state so) = [] then None else Some (F_allMids (mids (so_state so)))
     | SubL2Book c \<Rightarrow> map_option F_l2Book (so_l2 so c)
     | SubWebData2 u \<Rightarrow> Some (webData2_frame so (lower u))
     | SubUserFills u \<Rightarrow> Some (F_userFills True (lower u) (so_fills so (lower u)))
     | SubUserFundings u \<Rightarrow> Some (F_userFundings True (lower u) (so_fundings so (lower u)))
     | SubLedgerUpdates u \<Rightarrow> Some (F_ledgerUpdates True (lower u) (so_ledger so (lower u)))
     | SubActiveAssetData u c \<Rightarrow> Some (asset_data_frame so u c)
     | SubClearinghouseState u d \<Rightarrow> Some (dex_chs_frame so (lower u) d)
     | SubOpenOrders u d \<Rightarrow> Some (dex_orders_frame so (lower u) d)
     | SubAllDexs u \<Rightarrow> Some (all_dexs_frame so (lower u))
     | _ \<Rightarrow> None)"

definition add_subscription :: "ws \<Rightarrow> string \<Rightarrow> WsServer \<Rightarrow> WsServer" where
  "add_subscription w key S =
    (let S1 = set_conn w (\<lambda>c. c\<lparr>cl_subscriptions := List.insert key (cl_subscriptions c)\<rparr>) S
     in S1\<lparr>index := AList.update key (List.insert w (subscribers S key)) (index S)\<rparr>)"

definition handleSubscribe :: "sources \<Rightarrow> ws \<Rightarrow> WsSubscription \<Rightarrow> WsServer \<Rightarrow> WsServer" where
  "handleSubscribe so w sub S =
    (case subscriptionKey sub of None \<Rightarrow> ws_send w (F_error ''Invalid subscription'') S
     | Some key \<Rightarrow>
        let S1 = ws_send w (F_subscriptionResponse True sub) (add_subscription w key S);
            S2 = (if is_relay sub then S1\<lparr>upstream := ensureUpstreamMarketSub sub (upstream S1)\<rparr> else S1)
        in case snapshot so sub of None \<Rightarrow> S2 | Some fr \<Rightarrow> ws_send w fr S2)"

definition drop_key :: "ws \<Rightarrow> string \<Rightarrow> WsServer \<Rightarrow> WsServer" where
  \<comment> \<open>an entry of the index that becomes empty stays\<close>
  "drop_key w key S = S\<lparr>index := AList.map_entry key (removeAll w) (index S)\<rparr>"

definition handleUnsubscribe :: "ws \<Rightarrow> WsSubscription \<Rightarrow> WsServer \<Rightarrow> WsServer" where
  "handleUnsubscribe w sub S =
    (case subscriptionKey sub of None \<Rightarrow> S
     | Some key \<Rightarrow>
        ws_send w (F_subscriptionResponse False sub)
          (drop_key w key (set_conn w (\<lambda>c. c\<lparr>cl_subscriptions := removeAll key (cl_subscriptions c)\<rparr>) S)))"

definition handleDisconnect :: "ws \<Rightarrow> WsServer \<Rightarrow> WsServer" where
  \<comment> \<open>the connection's own list of subscriptions stays\<close>
  "handleDisconnect w S =
    (let keys = (case conns S w of None \<Rightarrow> [] | Some c \<Rightarrow> cl_subscriptions c); S1 = fold (drop_key w) keys S
     in S1\<lparr>clients := removeAll w (clients S1)\<rparr>)"

definition ws_handleMessage :: "sources \<Rightarrow> ws \<Rightarrow> WsMessage \<Rightarrow> WsServer \<Rightarrow> WsServer" where
  "ws_handleMessage so w msg S =
    (case msg of
       InvalidJson \<Rightarrow> ws_send w (F_error ''Invalid JSON'') S
     | M_subscribe None \<Rightarrow> ws_send w (F_error ''Missing subscription'') S
     | M_subscribe (Some sub) \<Rightarrow> handleSubscribe so w sub S
     | M_unsubscribe None \<Rightarrow> ws_send w (F_error ''Missing subscription'') S
     | M_unsubscribe (Some sub) \<Rightarrow> handleUnsubscribe w sub S
     | M_ping \<Rightarrow> ws_send w F_pong S
     | M_post i request \<Rightarrow> handlePost so w i request S
     | M_other \<Rightarrow> ws_send w (F_error ''Unknown method'') S)"

subsection \<open>Events of the bus\<close>

definition coin_venue :: "coin \<Rightarrow> dex_name option" where
  \<comment> \<open>the part in front of the first colon, when there is one behind the first character\<close>
  "coin_venue c =
    (let pre = takeWhile (\<lambda>x. x \<noteq> colon) c in if pre \<noteq> [] \<and> length pre < length c then Some pre else None)"

definition broadcastWebData2 :: "sources \<Rightarrow> user \<Rightarrow> WsServer \<Rightarrow> WsServer" where
  "broadcastWebData2 so u S = broadcast (''webData2'' @ colon # lower u) (webData2_frame so u) S"

definition broadcastDexUserState :: "sources \<Rightarrow> user \<Rightarrow> dex_name \<Rightarrow> WsServer \<Rightarrow> WsServer" where
  "broadcastDexUserState so u dex S =
    (let v = lower u
     in broadcast (''allDexsClearinghouseState'' @ colon # v) (all_dexs_frame so v)
          (broadcast (''openOrders'' @ colon # v @ colon # dex) (dex_orders_frame so v dex)
            (broadcast (''clearinghouseState'' @ colon # v @ colon # dex) (dex_chs_frame so v dex) S)))"

definition followed_coins :: "WsServer \<Rightarrow> user \<Rightarrow> coin list" where
  \<comment> \<open>the coins in the keys of the index that start with the user's prefix\<close>
  "followed_coins S u =
    (let prefix = ''activeAssetData'' @ colon # lower u @ [colon]
     in map (drop (length prefix)) (filter (starts_with prefix) (map fst (index S))))"

definition repushActiveAssetData :: "sources \<Rightarrow> user \<Rightarrow> WsServer \<Rightarrow> WsServer" where
  "repushActiveAssetData so u S =
    fold (\<lambda>c. broadcast (''activeAssetData'' @ colon # lower u @ colon # c) (asset_data_frame so (lower u) c))
      (followed_coins S u) S"

definition dex_push :: "sources \<Rightarrow> user \<Rightarrow> coin \<Rightarrow> WsServer \<Rightarrow> WsServer" where
  "dex_push so u c S = (case coin_venue c of None \<Rightarrow> S | Some dex \<Rightarrow> broadcastDexUserState so u dex S)"

fun on_event :: "sources \<Rightarrow> event \<Rightarrow> WsServer \<Rightarrow> WsServer" where
  "on_event so (FillEvent u fill) S =
    dex_push so u (f_coin fill) (repushActiveAssetData so u (broadcastWebData2 so u
      (broadcast (''userEvents'' @ colon # u) (F_user (UE_fills [fill]))
        (broadcast (''userFills'' @ colon # u) (F_userFills False u [fill]) S))))"
| "on_event so (OrderUpdateBatch u updates) S =
    (case updates of [] \<Rightarrow> S
     | (ord, _) # _ \<Rightarrow>
        dex_push so u (o_coin ord) (broadcastWebData2 so u
          (broadcast (''orderUpdates'' @ colon # u)
            (F_orderUpdates (map (\<lambda>(x, st). shapeOrderUpdate (lib (so_env so)) x st) updates)) S)))"
| "on_event so (OrderUpdate u ord st) S =
    dex_push so u (o_coin ord) (broadcastWebData2 so u
      (broadcast (''orderUpdates'' @ colon # u) (F_orderUpdates [shapeOrderUpdate (lib (so_env so)) ord st]) S))"
| "on_event so (AccountUpdate u) S = repushActiveAssetData so u (broadcastWebData2 so u S)"
| "on_event so (AccountUpdateVenues u dexes) S =
    fold (broadcastDexUserState so u) dexes (repushActiveAssetData so u (broadcastWebData2 so u S))"
| "on_event so (FundingRow u c usdc szi rate t) S =
    broadcast (''userEvents'' @ colon # u) (F_user (UE_funding (FundingRow u c usdc szi rate t)))
      (broadcast (''userFundings'' @ colon # u) (F_userFundings False u [FundingRow u c usdc szi rate t]) S)"
| "on_event so (LiquidationUser u lid ntl av) S =
    broadcast (''userEvents'' @ colon # u) (F_user (UE_liquidation lid ntl av)) S"
| "on_event so (LedgerRow u t ty usdc) S =
    broadcast (''userNonFundingLedgerUpdates'' @ colon # u) (F_ledgerUpdates False u [LedgerRow u t ty usdc]) S"
| "on_event so (LiquidationLedger u t d) S =
    broadcast (''userNonFundingLedgerUpdates'' @ colon # u) (F_ledgerUpdates False u [LiquidationLedger u t d]) S"
| "on_event so _ S = S"

fun on_market :: "MarketEvent \<Rightarrow> WsServer \<Rightarrow> WsServer" where
  "on_market (MidsEvent ms) S = broadcast ''allMids'' (F_allMids ms) S"
| "on_market (L2BookEvent b) S = broadcast (''l2Book'' @ colon # bk_coin b) (F_l2Book b) S"
| "on_market (TradesEvent c arr) S = broadcast (''trades'' @ colon # c) (F_trades arr) S"
| "on_market (BboEvent c d) S = broadcast (''bbo'' @ colon # c) (F_bbo d) S"
| "on_market (CandleEvent c i d) S = broadcast (''candle'' @ colon # c @ colon # i) (F_candle d) S"
| "on_market (ActiveAssetCtxEvent c x) S = broadcast (''activeAssetCtx'' @ colon # c) (F_activeAssetCtx c x) S"

subsection \<open>Heartbeat and shutdown\<close>

definition heartbeat_one :: "ws \<Rightarrow> WsServer \<Rightarrow> WsServer" where
  "heartbeat_one w S =
    (case conns S w of None \<Rightarrow> S
     | Some c \<Rightarrow>
        if \<not> cl_isAlive c then handleDisconnect w (S\<lparr>is_open := (is_open S)(w := False)\<rparr>)
        else ws_send w F_pingFrame (set_conn w (\<lambda>c. c\<lparr>cl_isAlive := False\<rparr>) S))"

definition heartbeat :: "WsServer \<Rightarrow> WsServer" where
  "heartbeat S = fold heartbeat_one (clients S) S"

definition close_server :: "WsServer \<Rightarrow> WsServer" where
  "close_server S = S\<lparr>is_open := (\<lambda>w. is_open S w \<and> w \<notin> set (clients S)), clients := [], index := []\<rparr>"

subsection \<open>Runs\<close>

datatype ws_op =
    Connect ws
  | Message ws WsMessage
  | Pong ws
  | PeerClosing ws \<comment> \<open>the closing handshake has begun: the ready state is no longer open\<close>
  | CloseEvent ws
  | ErrorEvent ws
  | BusEvent event
  | Market MarketEvent
  | Tick
  | Shutdown

fun ws_step :: "sources \<times> ws_op \<Rightarrow> WsServer \<Rightarrow> WsServer" where
  "ws_step (so, Connect w) S = (if conns S w = None then handleConnection w S else S)"
| "ws_step (so, Message w msg) S = (if is_open S w \<and> conns S w \<noteq> None then ws_handleMessage so w msg S else S)"
| "ws_step (so, Pong w) S = set_conn w (\<lambda>c. c\<lparr>cl_isAlive := True\<rparr>) S"
| "ws_step (so, PeerClosing w) S = S\<lparr>is_open := (is_open S)(w := False)\<rparr>"
| "ws_step (so, CloseEvent w) S = handleDisconnect w (S\<lparr>is_open := (is_open S)(w := False)\<rparr>)"
| "ws_step (so, ErrorEvent w) S = handleDisconnect w S"
| "ws_step (so, BusEvent ev) S = on_event so ev S"
| "ws_step (so, Market ev) S = on_market ev S"
| "ws_step (so, Tick) S = heartbeat S"
| "ws_step (so, Shutdown) S = close_server S"

definition empty_server :: WsServer where
  "empty_server = \<lparr>conns = \<lambda>_. None, is_open = \<lambda>_. False, clients = [], index = [], sent = [],
     upstream = new_worker \<lparr>WS_RECONNECT_MIN_MS = 1000, WS_RECONNECT_MAX_MS = 30000\<rparr>\<rparr>"

definition ws_run :: "(sources \<times> ws_op) list \<Rightarrow> WsServer" where
  "ws_run ops = fold ws_step ops empty_server"

subsection \<open>The index and the clients agree\<close>

definition subscribed :: "WsServer \<Rightarrow> ws \<Rightarrow> string \<Rightarrow> bool" where
  "subscribed S w key \<longleftrightarrow> (\<exists>c. conns S w = Some c \<and> key \<in> set (cl_subscriptions c))"

definition index_ok :: "WsServer \<Rightarrow> bool" where
  "index_ok S \<longleftrightarrow>
    distinct (map fst (index S)) \<and> (\<forall>key. distinct (subscribers S key)) \<and> distinct (clients S) \<and>
    (\<forall>key. \<forall>w \<in> set (subscribers S key). subscribed S w key) \<and>
    (\<forall>w \<in> set (clients S). conns S w \<noteq> None \<and> (\<forall>key. subscribed S w key \<longrightarrow> w \<in> set (subscribers S key)))"

lemma send_fields [simp]:
  "conns (ws_send w fr S) = conns S" "is_open (ws_send w fr S) = is_open S" "clients (ws_send w fr S) = clients S"
  "index (ws_send w fr S) = index S" "upstream (ws_send w fr S) = upstream S"
  by (simp_all add: ws_send_def)

lemma fold_send_fields [simp]:
  "conns (fold (\<lambda>w. ws_send w fr) ws S) = conns S" "is_open (fold (\<lambda>w. ws_send w fr) ws S) = is_open S"
  "clients (fold (\<lambda>w. ws_send w fr) ws S) = clients S" "index (fold (\<lambda>w. ws_send w fr) ws S) = index S"
  by (induction ws arbitrary: S) simp_all

lemma broadcast_fields [simp]:
  "conns (broadcast key fr S) = conns S" "is_open (broadcast key fr S) = is_open S"
  "clients (broadcast key fr S) = clients S" "index (broadcast key fr S) = index S"
  by (simp_all add: broadcast_def)

definition same_subs :: "WsServer \<Rightarrow> WsServer \<Rightarrow> bool" where
  "same_subs S T \<longleftrightarrow> conns T = conns S \<and> is_open T = is_open S \<and> clients T = clients S \<and> index T = index S"

lemma same_subs_fold: "(\<And>x T. same_subs S T \<Longrightarrow> same_subs S (f x T)) \<Longrightarrow> same_subs S T \<Longrightarrow> same_subs S (fold f xs T)"
  by (induction xs arbitrary: T) auto

lemma same_broadcast [simp]: "same_subs S T \<Longrightarrow> same_subs S (broadcast key fr T)"
  by (simp add: same_subs_def)

lemma same_event: "same_subs S (on_event so ev S)"
proof -
  have r: "same_subs S S" by (simp add: same_subs_def)
  have b: "same_subs S T \<Longrightarrow> same_subs S (broadcastWebData2 so u T)" for T u
    by (simp add: broadcastWebData2_def)
  have d: "same_subs S T \<Longrightarrow> same_subs S (broadcastDexUserState so u dex T)" for T u dex
    by (simp add: broadcastDexUserState_def Let_def)
  have p: "same_subs S T \<Longrightarrow> same_subs S (repushActiveAssetData so u T)" for T u
    unfolding repushActiveAssetData_def by (rule same_subs_fold) simp_all
  have x: "same_subs S T \<Longrightarrow> same_subs S (dex_push so u c T)" for T u c
    by (simp add: dex_push_def d split: option.split)
  show ?thesis
    by (cases "(so, ev, S)" rule: on_event.cases)
      (auto simp: r b p x intro!: same_subs_fold d split: list.split)
qed

lemma same_market: "same_subs S (on_market ev S)"
  by (cases ev) (simp_all add: same_subs_def)

lemma other_fields [simp]:
  "subscribers (S\<lparr>clients := x1\<rparr>) = subscribers S" "subscribers (S\<lparr>conns := x2\<rparr>) = subscribers S"
  "subscribers (S\<lparr>is_open := x3\<rparr>) = subscribers S" "subscribers (S\<lparr>sent := x4\<rparr>) = subscribers S"
  "subscribers (S\<lparr>upstream := x5\<rparr>) = subscribers S"
  "subscribed (S\<lparr>clients := x1\<rparr>) = subscribed S" "subscribed (S\<lparr>is_open := x3\<rparr>) = subscribed S"
  "subscribed (S\<lparr>sent := x4\<rparr>) = subscribed S" "subscribed (S\<lparr>upstream := x5\<rparr>) = subscribed S"
  "subscribed (S\<lparr>index := x6\<rparr>) = subscribed S"
  by (simp_all add: subscribers_def subscribed_def fun_eq_iff)

lemma index_ok_same: "index_ok S \<Longrightarrow> same_subs S T \<Longrightarrow> index_ok T"
proof -
  assume st: "same_subs S T"
  then have "subscribers T = subscribers S" "subscribed T = subscribed S"
    by (simp_all add: same_subs_def subscribers_def subscribed_def fun_eq_iff)
  with st show "index_ok S \<Longrightarrow> index_ok T" by (simp add: index_ok_def same_subs_def)
qed

lemma same_subs_send [simp]: "same_subs S T \<Longrightarrow> same_subs S (ws_send w fr T)"
  by (simp add: same_subs_def)

lemma index_ok_send [simp]: "index_ok S \<Longrightarrow> index_ok (ws_send w fr S)"
  by (erule index_ok_same) (simp add: same_subs_def)

lemma subscribers_update [simp]:
  "subscribers (S\<lparr>index := AList.update key l al\<rparr>) k =
    (if k = key then l else (case map_of al k of None \<Rightarrow> [] | Some l \<Rightarrow> l))"
  by (simp add: subscribers_def update_conv')

lemma subscribers_drop [simp]:
  "subscribers (drop_key w key S) k = (if k = key then removeAll w (subscribers S k) else subscribers S k)"
  by (auto simp: subscribers_def drop_key_def AList.map_of_map_entry split: option.split)

lemma map_entry_keys [simp]: "map fst (AList.map_entry k f al) = map fst al"
  by (induction al) auto

lemma drop_fields [simp]:
  "conns (drop_key w key S) = conns S" "clients (drop_key w key S) = clients S" "is_open (drop_key w key S) = is_open S"
  "sent (drop_key w key S) = sent S" "map fst (index (drop_key w key S)) = map fst (index S)"
  by (simp_all add: drop_key_def)

lemma drops_fields [simp]:
  "conns (fold (drop_key w) ks S) = conns S" "clients (fold (drop_key w) ks S) = clients S"
  "is_open (fold (drop_key w) ks S) = is_open S" "sent (fold (drop_key w) ks S) = sent S"
  "map fst (index (fold (drop_key w) ks S)) = map fst (index S)"
  by (induction ks arbitrary: S) simp_all

lemma subscribers_drops [simp]:
  "subscribers (fold (drop_key w) ks S) k = (if k \<in> set ks then removeAll w (subscribers S k) else subscribers S k)"
  by (induction ks arbitrary: S) auto

lemma add_fields:
  "subscribers (add_subscription w key S) k = (if k = key then List.insert w (subscribers S key) else subscribers S k)"
  "subscribed (add_subscription w key S) v k \<longleftrightarrow> subscribed S v k \<or> v = w \<and> k = key \<and> conns S w \<noteq> None"
  "clients (add_subscription w key S) = clients S" "conns (add_subscription w key S) v = None \<longleftrightarrow> conns S v = None"
  "distinct (map fst (index S)) \<Longrightarrow> distinct (map fst (index (add_subscription w key S)))"
  by (auto simp: add_subscription_def set_conn_def Let_def subscribed_def subscribers_def update_conv' distinct_update)

lemma keeps_add: "index_ok S \<Longrightarrow> conns S w \<noteq> None \<Longrightarrow> index_ok (add_subscription w key S)"
  unfolding index_ok_def by (auto simp: add_fields)

lemma disconnect_fields:
  "subscribers (handleDisconnect w S) k = (if subscribed S w k then removeAll w (subscribers S k) else subscribers S k)"
  "conns (handleDisconnect w S) = conns S" "clients (handleDisconnect w S) = removeAll w (clients S)"
  "map fst (index (handleDisconnect w S)) = map fst (index S)"
  "is_open (handleDisconnect w S) = is_open S" "sent (handleDisconnect w S) = sent S"
  by (auto simp: handleDisconnect_def Let_def subscribed_def split: option.splits)

lemma keeps_disconnect: "index_ok S \<Longrightarrow> index_ok (handleDisconnect w S)"
proof -
  have "subscribed (handleDisconnect w S) = subscribed S"
    by (simp add: subscribed_def disconnect_fields fun_eq_iff)
  then show "index_ok S \<Longrightarrow> index_ok (handleDisconnect w S)"
    unfolding index_ok_def by (auto simp: disconnect_fields distinct_removeAll)
qed

lemma set_conn_fields [simp]:
  "subscribers (set_conn w f S) = subscribers S" "clients (set_conn w f S) = clients S"
  "index (set_conn w f S) = index S" "is_open (set_conn w f S) = is_open S" "sent (set_conn w f S) = sent S"
  "conns (set_conn w f S) v = None \<longleftrightarrow> conns S v = None"
  by (simp_all add: set_conn_def)

lemma keeps_alive: "index_ok S \<Longrightarrow> index_ok (set_conn w (\<lambda>c. c\<lparr>cl_isAlive := b\<rparr>) S)"
proof -
  have "subscribed (set_conn w (\<lambda>c. c\<lparr>cl_isAlive := b\<rparr>) S) = subscribed S"
    by (auto simp: set_conn_def subscribed_def fun_eq_iff)
  then show "index_ok S \<Longrightarrow> index_ok (set_conn w (\<lambda>c. c\<lparr>cl_isAlive := b\<rparr>) S)"
    unfolding index_ok_def by auto
qed

lemma keeps_unsubscribe: "index_ok S \<Longrightarrow> index_ok (handleUnsubscribe w sub S)"
proof (cases "subscriptionKey sub")
  case (Some key)
  let ?T = "drop_key w key (set_conn w (\<lambda>c. c\<lparr>cl_subscriptions := removeAll key (cl_subscriptions c)\<rparr>) S)"
  have s: "subscribed ?T v k \<longleftrightarrow> subscribed S v k \<and> \<not> (v = w \<and> k = key)" for v k
    by (auto simp: set_conn_def subscribed_def)
  assume "index_ok S"
  then have "index_ok ?T"
    unfolding index_ok_def s by (auto simp: distinct_removeAll)
  then show ?thesis by (simp add: handleUnsubscribe_def Some)
qed (simp add: handleUnsubscribe_def)

lemma keeps_subscribe: "index_ok S \<Longrightarrow> conns S w \<noteq> None \<Longrightarrow> index_ok (handleSubscribe so w sub S)"
proof (cases "subscriptionKey sub")
  case (Some key)
  assume "index_ok S" "conns S w \<noteq> None"
  then have "index_ok (ws_send w (F_subscriptionResponse True sub) (add_subscription w key S))" (is "index_ok ?T")
    by (simp add: keeps_add)
  then have "index_ok (if is_relay sub then ?T\<lparr>upstream := ensureUpstreamMarketSub sub (upstream ?T)\<rparr> else ?T)"
    by (auto intro: index_ok_same simp: same_subs_def)
  moreover have "index_ok V \<Longrightarrow> index_ok (case snapshot so sub of None \<Rightarrow> V | Some fr \<Rightarrow> ws_send w fr V)" for V
    by (simp split: option.split)
  ultimately show ?thesis unfolding handleSubscribe_def Some option.case Let_def by blast
qed (simp add: handleSubscribe_def)

lemma keeps_message: "index_ok S \<Longrightarrow> conns S w \<noteq> None \<Longrightarrow> index_ok (ws_handleMessage so w msg S)"
  by (auto simp: ws_handleMessage_def handlePost_def keeps_subscribe keeps_unsubscribe
      split: WsMessage.split option.split prod.split sum.split)

lemma index_ok_open: "index_ok S \<Longrightarrow> index_ok (S\<lparr>is_open := f\<rparr>)"
  unfolding index_ok_def by auto

lemma keeps_heartbeat: "index_ok S \<Longrightarrow> index_ok (heartbeat S)"
proof -
  have one: "index_ok T \<Longrightarrow> index_ok (heartbeat_one w T)" for w T
    by (auto simp: heartbeat_one_def keeps_disconnect keeps_alive index_ok_open split: option.split)
  show "index_ok S \<Longrightarrow> index_ok (heartbeat S)"
    unfolding heartbeat_def by (rule fold_keeps [where P = index_ok]) (auto intro: one)
qed

lemma index_step: "index_ok S \<Longrightarrow> index_ok (ws_step (so, x) S)"
proof (cases x)
  case (Connect w)
  assume ok: "index_ok S"
  show ?thesis
  proof (cases "conns S w")
    case None
    have s: "subscribed (handleConnection w S) v k \<longleftrightarrow> subscribed S v k" for v k
      using None by (auto simp: handleConnection_def subscribed_def)
    have "subscribers (handleConnection w S) = subscribers S" "index (handleConnection w S) = index S"
      by (simp_all add: handleConnection_def subscribers_def fun_eq_iff)
    moreover have "clients (handleConnection w S) = clients S @ [w]" "conns (handleConnection w S) v = None \<longleftrightarrow> v \<noteq> w \<and> conns S v = None" for v
      by (simp_all add: handleConnection_def)
    moreover have "\<not> subscribed S w k" for k using None by (simp add: subscribed_def)
    ultimately show ?thesis using ok None by (auto simp: Connect index_ok_def s)
  qed (simp add: Connect ok)
next
  case Shutdown
  then show ?thesis by (simp add: index_ok_def close_server_def subscribers_def)
qed (auto simp: keeps_message keeps_alive keeps_disconnect index_ok_open keeps_heartbeat
    intro: index_ok_same [OF _ same_event] index_ok_same [OF _ same_market])

lemma run_index_ok: "index_ok (ws_run ops)"
proof -
  have "index_ok empty_server" by (simp add: index_ok_def empty_server_def subscribers_def)
  then show ?thesis unfolding ws_run_def by (rule fold_keeps) (auto intro: index_step)
qed

lemma run_snoc: "ws_run (ops @ [x]) = ws_step x (ws_run ops)"
  by (simp add: ws_run_def)

text \<open>
  C29. The index and the connections agree, whatever clients connect, ask for, unsubscribe, drop or
  miss: a key of the index lists each connection once and only ones that subscribed to it, it
  lists every client that is subscribed to it, and a connection that closed is neither a client
  nor under any key.
\<close>

theorem index_matches_subscriptions:
  "let S = ws_run ops; T = ws_step (so, CloseEvent w) S in
    distinct (subscribers S key) \<and> (w \<in> set (subscribers S key) \<longrightarrow> subscribed S w key) \<and>
    (w \<in> set (clients S) \<longrightarrow> (w \<in> set (subscribers S key) \<longleftrightarrow> subscribed S w key)) \<and>
    w \<notin> set (clients T) \<and> w \<notin> set (subscribers T key)"
proof -
  have "subscribers (handleDisconnect w (ws_run ops\<lparr>is_open := f\<rparr>)) key =
      (if subscribed (ws_run ops) w key then removeAll w (subscribers (ws_run ops) key) else subscribers (ws_run ops) key)" for f
    by (simp add: disconnect_fields)
  then show ?thesis
    using run_index_ok [of ops] by (auto simp: index_ok_def Let_def disconnect_fields)
qed

subsection \<open>What an event sends\<close>

definition received :: "WsServer \<Rightarrow> ws \<Rightarrow> Frame list" where
  "received S w = map snd (filter (\<lambda>p. fst p = w) (sent S))"

definition dex_deliveries :: "sources \<Rightarrow> user \<Rightarrow> dex_name \<Rightarrow> (string \<times> Frame) list" where
  "dex_deliveries so u d =
    [(''clearinghouseState'' @ colon # lower u @ colon # d, dex_chs_frame so (lower u) d),
     (''openOrders'' @ colon # lower u @ colon # d, dex_orders_frame so (lower u) d),
     (''allDexsClearinghouseState'' @ colon # lower u, all_dexs_frame so (lower u))]"

definition venue_deliveries :: "sources \<Rightarrow> user \<Rightarrow> coin \<Rightarrow> (string \<times> Frame) list" where
  "venue_deliveries so u c = (case coin_venue c of None \<Rightarrow> [] | Some d \<Rightarrow> dex_deliveries so u d)"

definition account_deliveries :: "sources \<Rightarrow> coin list \<Rightarrow> user \<Rightarrow> (string \<times> Frame) list" where
  "account_deliveries so coins u = (''webData2'' @ colon # lower u, webData2_frame so u) #
     map (\<lambda>c. (''activeAssetData'' @ colon # lower u @ colon # c, asset_data_frame so (lower u) c)) coins"

fun deliveries :: "sources \<Rightarrow> (user \<Rightarrow> coin list) \<Rightarrow> event \<Rightarrow> (string \<times> Frame) list" where
  \<comment> \<open>the channels an event concerns, in order, each with its frame\<close>
  "deliveries so coins (FillEvent u fill) =
    (''userFills'' @ colon # u, F_userFills False u [fill]) # (''userEvents'' @ colon # u, F_user (UE_fills [fill])) #
    account_deliveries so (coins u) u @ venue_deliveries so u (f_coin fill)"
| "deliveries so coins (OrderUpdateBatch u updates) =
    (case updates of [] \<Rightarrow> []
     | (ord, _) # _ \<Rightarrow>
        (''orderUpdates'' @ colon # u, F_orderUpdates (map (\<lambda>(x, st). shapeOrderUpdate (lib (so_env so)) x st) updates)) #
        account_deliveries so [] u @ venue_deliveries so u (o_coin ord))"
| "deliveries so coins (OrderUpdate u ord st) =
    (''orderUpdates'' @ colon # u, F_orderUpdates [shapeOrderUpdate (lib (so_env so)) ord st]) #
    account_deliveries so [] u @ venue_deliveries so u (o_coin ord)"
| "deliveries so coins (AccountUpdate u) = account_deliveries so (coins u) u"
| "deliveries so coins (AccountUpdateVenues u dexes) =
    account_deliveries so (coins u) u @ concat (map (dex_deliveries so u) dexes)"
| "deliveries so coins (FundingRow u c usdc szi rate t) =
    [(''userFundings'' @ colon # u, F_userFundings False u [FundingRow u c usdc szi rate t]),
     (''userEvents'' @ colon # u, F_user (UE_funding (FundingRow u c usdc szi rate t)))]"
| "deliveries so coins (LiquidationUser u lid ntl av) = [(''userEvents'' @ colon # u, F_user (UE_liquidation lid ntl av))]"
| "deliveries so coins (LedgerRow u t ty usdc) =
    [(''userNonFundingLedgerUpdates'' @ colon # u, F_ledgerUpdates False u [LedgerRow u t ty usdc])]"
| "deliveries so coins (LiquidationLedger u t d) =
    [(''userNonFundingLedgerUpdates'' @ colon # u, F_ledgerUpdates False u [LiquidationLedger u t d])]"
| "deliveries so coins _ = []"

definition deliver :: "(string \<times> Frame) list \<Rightarrow> WsServer \<Rightarrow> WsServer" where
  "deliver ds S = fold (\<lambda>(key, fr). broadcast key fr) ds S"

lemma deliver_simps [simp]:
  "deliver [] S = S" "deliver ((key, fr) # ds) S = deliver ds (broadcast key fr S)" "deliver (ds @ es) S = deliver es (deliver ds S)"
  by (simp_all add: deliver_def)

lemma deliver_fields [simp]:
  "index (deliver ds S) = index S" "is_open (deliver ds S) = is_open S" "subscribers (deliver ds S) = subscribers S"
proof -
  show "index (deliver ds S) = index S" by (induction ds arbitrary: S) auto
  then show "subscribers (deliver ds S) = subscribers S" by (simp add: subscribers_def fun_eq_iff)
  show "is_open (deliver ds S) = is_open S" by (induction ds arbitrary: S) auto
qed

lemma followed_broadcast [simp]: "followed_coins (broadcast key fr S) = followed_coins S"
  by (simp add: followed_coins_def fun_eq_iff)

lemma account_deliver:
  "repushActiveAssetData so u (broadcastWebData2 so u S) = deliver (account_deliveries so (followed_coins S u) u) S"
proof -
  have "fold (\<lambda>c. broadcast (''activeAssetData'' @ colon # lower u @ colon # c) (asset_data_frame so (lower u) c)) cs T =
      deliver (map (\<lambda>c. (''activeAssetData'' @ colon # lower u @ colon # c, asset_data_frame so (lower u) c)) cs) T" for cs T
    by (induction cs arbitrary: T) simp_all
  then show ?thesis
    by (simp add: repushActiveAssetData_def broadcastWebData2_def account_deliveries_def)
qed

lemma webData2_deliver: "broadcastWebData2 so u S = deliver (account_deliveries so [] u) S"
  by (simp add: broadcastWebData2_def account_deliveries_def)

lemma dex_deliver:
  "broadcastDexUserState so u d S = deliver (dex_deliveries so u d) S"
  "dex_push so u c S = deliver (venue_deliveries so u c) S"
  by (simp_all add: dex_push_def venue_deliveries_def broadcastDexUserState_def dex_deliveries_def Let_def split: option.split)

lemma dexes_deliver: "fold (broadcastDexUserState so u) ds S = deliver (concat (map (dex_deliveries so u) ds)) S"
  by (induction ds arbitrary: S) (simp_all add: dex_deliver)

lemma event_delivers: "on_event so ev S = deliver (deliveries so (followed_coins S) ev) S"
proof (cases ev)
  case (OrderUpdateBatch u updates)
  then show ?thesis by (cases updates) (auto simp: webData2_deliver dex_deliver)
next
  case (OrderUpdate u ord st)
  then show ?thesis by (simp add: webData2_deliver dex_deliver)
qed (simp_all add: account_deliver dex_deliver dexes_deliver)

lemma received_send: "received (ws_send v fr S) w = received S w @ (if v = w \<and> is_open S v then [fr] else [])"
  by (simp add: received_def ws_send_def)

lemma received_broadcast:
  assumes "distinct (subscribers S key)"
  shows "received (broadcast key fr S) w = received S w @ (if is_open S w \<and> w \<in> set (subscribers S key) then [fr] else [])"
proof -
  have "distinct ws \<Longrightarrow> received (fold (\<lambda>w. ws_send w fr) ws S) w = received S w @ (if is_open S w \<and> w \<in> set ws then [fr] else [])"
    for ws and S :: WsServer
    by (induction ws arbitrary: S) (auto simp: received_send)
  with assms show ?thesis by (simp add: broadcast_def)
qed

lemma received_deliver:
  assumes "\<And>key. distinct (subscribers S key)"
  shows "received (deliver ds S) w =
    received S w @ (if is_open S w then map snd (filter (\<lambda>(key, _). w \<in> set (subscribers S key)) ds) else [])"
  using assms
proof (induction ds arbitrary: S)
  case (Cons d ds)
  obtain key fr where d: "d = (key, fr)" by fastforce
  have same: "subscribers (broadcast key fr S) = subscribers S" by (simp add: subscribers_def fun_eq_iff)
  from Cons show ?case by (simp add: d same received_broadcast)
qed simp


subsection \<open>Silent clients\<close>

definition silent :: "WsServer \<Rightarrow> ws \<Rightarrow> bool" where
  \<comment> \<open>no pong since the last ping\<close>
  "silent S w \<longleftrightarrow> (\<exists>c. conns S w = Some c \<and> \<not> cl_isAlive c)"

lemma silent_conns: "conns T w = conns S w \<Longrightarrow> silent T w \<longleftrightarrow> silent S w"
  by (simp add: silent_def)

lemma silent_set_conn: "(\<And>c. cl_isAlive (f c) \<Longrightarrow> cl_isAlive c) \<Longrightarrow> silent S w \<Longrightarrow> silent (set_conn v f S) w"
  by (auto simp: silent_def set_conn_def)

lemma silent_send [simp]: "silent (ws_send v fr S) w \<longleftrightarrow> silent S w"
  by (rule silent_conns) simp

lemma silent_add: "silent S w \<Longrightarrow> silent (add_subscription v key S) w"
proof -
  have "silent (add_subscription v key S) w \<longleftrightarrow>
      silent (set_conn v (\<lambda>c. c\<lparr>cl_subscriptions := List.insert key (cl_subscriptions c)\<rparr>) S) w"
    by (rule silent_conns) (simp add: add_subscription_def Let_def)
  moreover assume "silent S w"
  ultimately show ?thesis by (simp del: set_conn_fields) (rule silent_set_conn, simp_all)
qed

lemma silent_message: "silent S w \<Longrightarrow> silent (ws_handleMessage so v msg S) w"
proof -
  assume si: "silent S w"
  have up: "silent (T\<lparr>upstream := x\<rparr>) w \<longleftrightarrow> silent T w" for T x by (rule silent_conns) simp
  have "silent (handleSubscribe so v sub S) w" for sub
    using si by (simp add: handleSubscribe_def Let_def up silent_add split: option.split)
  moreover have "silent (handleUnsubscribe v sub S) w" for sub
  proof -
    have drop: "silent (drop_key v key T) w \<longleftrightarrow> silent T w" for key T by (rule silent_conns) simp
    have "silent (set_conn v (\<lambda>c. c\<lparr>cl_subscriptions := removeAll key (cl_subscriptions c)\<rparr>) S) w" for key
      by (rule silent_set_conn [OF _ si]) simp
    then show ?thesis using si by (simp add: handleUnsubscribe_def drop split: option.split)
  qed
  ultimately show ?thesis
    using si by (auto simp: ws_handleMessage_def handlePost_def split: WsMessage.split option.split prod.split sum.split)
qed

lemma hb_one_other:
  assumes "v \<noteq> w"
  shows "conns (heartbeat_one v S) w = conns S w" "is_open (heartbeat_one v S) w = is_open S w"
    "w \<in> set (clients (heartbeat_one v S)) \<longleftrightarrow> w \<in> set (clients S)"
    "w \<in> set (subscribers (heartbeat_one v S) key) \<longleftrightarrow> w \<in> set (subscribers S key)"
proof -
  have "conns (set_conn v f S) w = conns S w" for f using assms by (simp add: set_conn_def)
  with assms show "conns (heartbeat_one v S) w = conns S w" "is_open (heartbeat_one v S) w = is_open S w"
      "w \<in> set (clients (heartbeat_one v S)) \<longleftrightarrow> w \<in> set (clients S)"
    by (auto simp: heartbeat_one_def disconnect_fields split: option.split)
  have send: "subscribers (ws_send u fr T) = subscribers T" for u fr T by (simp add: subscribers_def fun_eq_iff)
  show "w \<in> set (subscribers (heartbeat_one v S) key) \<longleftrightarrow> w \<in> set (subscribers S key)"
    using assms by (simp add: heartbeat_one_def disconnect_fields send split: option.split)
qed

lemma hb_others:
  assumes "w \<notin> set vs"
  shows "conns (fold heartbeat_one vs S) w = conns S w" "is_open (fold heartbeat_one vs S) w = is_open S w"
    "w \<in> set (clients (fold heartbeat_one vs S)) \<longleftrightarrow> w \<in> set (clients S)"
    "w \<in> set (subscribers (fold heartbeat_one vs S) key) \<longleftrightarrow> w \<in> set (subscribers S key)"
  using assms by (induction vs arbitrary: S) (auto simp: hb_one_other)

lemma hb_one_keeps: "index_ok S \<Longrightarrow> index_ok (heartbeat_one w S)"
  by (auto simp: heartbeat_one_def keeps_disconnect keeps_alive index_ok_open split: option.split)

lemma hb_pings: "w \<in> set (clients S) \<Longrightarrow> index_ok S \<Longrightarrow> silent (heartbeat S) w"
proof -
  assume w: "w \<in> set (clients S)" and ok: "index_ok S"
  then obtain xs ys where c: "clients S = xs @ w # ys" "w \<notin> set xs" "w \<notin> set ys"
    by (metis split_list distinct.simps(2) distinct_append index_ok_def not_distinct_conv_prefix split_list_first)
  have "conns (fold heartbeat_one xs S) w = conns S w" using c(2) by (rule hb_others)
  moreover have "conns S w \<noteq> None" using w ok by (auto simp: index_ok_def)
  ultimately have "silent (heartbeat_one w (fold heartbeat_one xs S)) w"
    by (auto simp: heartbeat_one_def silent_def disconnect_fields set_conn_def)
  then show ?thesis by (simp add: heartbeat_def c silent_def hb_others(1) [OF c(3)])
qed

lemma hb_drops:
  assumes "silent S w" "w \<in> set (clients S)" "index_ok S"
  shows "w \<notin> set (clients (heartbeat S)) \<and> \<not> is_open (heartbeat S) w \<and> w \<notin> set (subscribers (heartbeat S) key)"
proof -
  from assms(2,3) obtain xs ys where c: "clients S = xs @ w # ys" "w \<notin> set xs" "w \<notin> set ys"
    by (metis split_list distinct.simps(2) distinct_append index_ok_def not_distinct_conv_prefix split_list_first)
  let ?T = "fold heartbeat_one xs S"
  have si: "silent ?T w" using assms(1) hb_others(1) [OF c(2)] by (simp add: silent_def)
  have ok: "index_ok ?T" by (rule fold_keeps [where P = index_ok]) (auto simp: assms(3) hb_one_keeps)
  have "heartbeat_one w ?T = handleDisconnect w (?T\<lparr>is_open := (is_open ?T)(w := False)\<rparr>)"
    using si by (auto simp: heartbeat_one_def silent_def)
  moreover have "w \<in> set (subscribers ?T key) \<longrightarrow> subscribed ?T w key" using ok by (auto simp: index_ok_def)
  ultimately show ?thesis
    by (auto simp: heartbeat_def c hb_others [OF c(3)] disconnect_fields)
qed

lemma silent_step: "silent S w \<Longrightarrow> x \<noteq> Pong w \<Longrightarrow> index_ok S \<Longrightarrow> silent (ws_step (so, x) S) w"
proof (cases x)
  case Tick
  assume si: "silent S w" and "index_ok S"
  then show ?thesis using hb_pings [of w S] hb_others(1) [of w "clients S" S]
    by (cases "w \<in> set (clients S)") (simp_all add: Tick heartbeat_def silent_def)
next
  case (BusEvent ev)
  assume "silent S w"
  then show ?thesis using same_event [of S so ev] by (simp add: BusEvent same_subs_def silent_def)
next
  case (Market ev)
  assume "silent S w"
  then show ?thesis using same_market [of S ev] by (simp add: Market same_subs_def silent_def)
qed (auto simp: silent_message handleConnection_def disconnect_fields close_server_def silent_def set_conn_def
    simp del: ws_handleMessage_def intro: silent_message [unfolded silent_def])

text \<open>
  A client that does not answer a ping is gone after the next one: whatever happens between
  two heartbeats, if no pong of the client is among it then the second heartbeat leaves it
  neither among the clients nor open nor under any key of the index.
\<close>

theorem heartbeat_drops_silent_clients:
  assumes "S = ws_run ops" "w \<in> set (clients S)" "\<And>x. x \<in> set later \<Longrightarrow> snd x \<noteq> Pong w" "T = fold ws_step later (heartbeat S)"
  shows "w \<notin> set (clients (heartbeat T)) \<and>
    (w \<in> set (clients T) \<longrightarrow> \<not> is_open (heartbeat T) w \<and> w \<notin> set (subscribers (heartbeat T) key))"
proof -
  have ok: "index_ok S" using assms(1) run_index_ok by simp
  have "silent (ws_step x U) w \<and> index_ok (ws_step x U)" if "x \<in> set later" "silent U w \<and> index_ok U" for x U
    using silent_step [of U w "snd x" "fst x"] index_step [of U "fst x" "snd x"] assms(3) [OF that(1)] that(2) by simp
  then have "silent T w \<and> index_ok T"
    unfolding assms(4)
    by (rule fold_keeps [where P = "\<lambda>T. silent T w \<and> index_ok T", rotated]) (use hb_pings [OF assms(2) ok] keeps_heartbeat [OF ok] in auto)
  then show ?thesis
    using hb_drops [of T w key] hb_others(3) [of w "clients T" T] by (cases "w \<in> set (clients T)") (auto simp: heartbeat_def)
qed

subsection \<open>Keys tell subscriptions apart\<close>

fun canonical :: "WsSubscription \<Rightarrow> WsSubscription" where
  \<comment> \<open>addresses without regard to case; the dex of allMids plays no part\<close>
  "canonical (SubAllMids _) = SubAllMids None"
| "canonical (SubOrderUpdates u) = SubOrderUpdates (lower u)"
| "canonical (SubUserFills u) = SubUserFills (lower u)"
| "canonical (SubWebData2 u) = SubWebData2 (lower u)"
| "canonical (SubClearinghouseState u d) = SubClearinghouseState (lower u) d"
| "canonical (SubOpenOrders u d) = SubOpenOrders (lower u) d"
| "canonical (SubAllDexs u) = SubAllDexs (lower u)"
| "canonical (SubNotification u) = SubNotification (lower u)"
| "canonical (SubUserEvents u) = SubUserEvents (lower u)"
| "canonical (SubUserFundings u) = SubUserFundings (lower u)"
| "canonical (SubLedgerUpdates u) = SubLedgerUpdates (lower u)"
| "canonical (SubActiveAssetData u c) = SubActiveAssetData (lower u) c"
| "canonical sub = sub"

fun colon_free :: "WsSubscription \<Rightarrow> bool" where
  \<comment> \<open>no colon in the address or the interval of a key with two parts\<close>
  "colon_free (SubClearinghouseState u d) = (colon \<notin> set u)"
| "colon_free (SubOpenOrders u d) = (colon \<notin> set u)"
| "colon_free (SubActiveAssetData u c) = (colon \<notin> set u)"
| "colon_free (SubCandle c i) = (colon \<notin> set i)"
| "colon_free sub = True"

lemma lower_char_colon: "lower_char c = colon \<longleftrightarrow> c = colon"
proof -
  have col: "d = colon \<longleftrightarrow> of_char d = (58 :: nat)" for d
    unfolding of_char_eq_iff [of d colon, where 'a = nat, symmetric] by (simp add: colon_def)
  have "of_char (char_of (of_char c + 32 :: nat)) = (of_char c + 32 :: nat)" if "of_char c \<le> (222 :: nat)"
    using that by (simp add: of_char_of)
  then show ?thesis unfolding col by (auto simp: lower_char_def Let_def)
qed

lemma colon_lower [simp]: "colon \<in> set (lower u) \<longleftrightarrow> colon \<in> set u"
  unfolding lower_def set_map image_iff by (metis lower_char_colon)

lemma lower_Nil [simp]: "lower u = [] \<longleftrightarrow> u = []"
  by (simp add: lower_def)

lemma first_part:
  assumes "xs @ c # ys = xs' @ c # ys'" "c \<notin> set xs" "c \<notin> set xs'"
  shows "xs = xs' \<and> ys = ys'"
  using assms
proof (induction xs arbitrary: xs')
  case Nil
  then show ?case by (cases xs') auto
next
  case (Cons x xs)
  then show ?case by (cases xs') auto
qed

lemma last_part:
  assumes "xs @ c # ys = xs' @ c # ys'" "c \<notin> set ys" "c \<notin> set ys'"
  shows "xs = xs' \<and> ys = ys'"
proof -
  have "rev ys @ c # rev xs = rev ys' @ c # rev xs'" using arg_cong [OF assms(1), of rev] by simp
  from first_part [OF this] assms(2,3) show ?thesis by simp
qed

fun channel :: "WsSubscription \<Rightarrow> string" where
  "channel (SubAllMids _) = ''allMids''"
| "channel (SubL2Book _) = ''l2Book''"
| "channel (SubOrderUpdates _) = ''orderUpdates''"
| "channel (SubUserFills _) = ''userFills''"
| "channel (SubWebData2 _) = ''webData2''"
| "channel (SubClearinghouseState _ _) = ''clearinghouseState''"
| "channel (SubOpenOrders _ _) = ''openOrders''"
| "channel (SubAllDexs _) = ''allDexsClearinghouseState''"
| "channel (SubTrades _) = ''trades''"
| "channel (SubBbo _) = ''bbo''"
| "channel (SubCandle _ _) = ''candle''"
| "channel (SubActiveAssetCtx _) = ''activeAssetCtx''"
| "channel (SubNotification _) = ''notification''"
| "channel (SubUserEvents _) = ''userEvents''"
| "channel (SubUserFundings _) = ''userFundings''"
| "channel (SubLedgerUpdates _) = ''userNonFundingLedgerUpdates''"
| "channel (SubActiveAssetData _ _) = ''activeAssetData''"
| "channel (SubUnknown _) = ''''"

lemma channel_colon: "colon \<notin> set (channel a)"
  by (cases a) (simp_all add: colon_def)

lemma key_channel: "subscriptionKey a = Some k \<Longrightarrow> channel a = takeWhile (\<lambda>x. x \<noteq> colon) k"
  using channel_colon [of a]
  by (cases a) (auto simp: subscriptionKey_def Let_def takeWhile_append split: if_splits)

lemma same_channel: "canonical a = canonical b \<Longrightarrow> channel a = channel b"
  by (cases a; cases b) simp_all

text \<open>
  Keys neither mix nor split audiences: two valid subscriptions, whose addresses and
  intervals have no colon, get the same key exactly when they are the same subscription up to
  the case of the address.
\<close>

theorem keys_tell_subscriptions_apart:
  assumes "subscriptionKey a = Some k" "subscriptionKey b = Some l" "colon_free a" "colon_free b"
  shows "k = l \<longleftrightarrow> canonical a = canonical b"
proof -
  have two: "lower u @ colon # c = lower v @ colon # d \<longleftrightarrow> lower u = lower v \<and> c = d"
    if "colon \<notin> set u" "colon \<notin> set v" for u v c d
    using first_part [of "lower u" colon c "lower v" d] that by auto
  have cand: "c @ colon # i = d @ colon # j \<longleftrightarrow> c = d \<and> i = j" if "colon \<notin> set i" "colon \<notin> set j" for c d i j
    using last_part [of c colon i d j] that by auto
  show ?thesis
  proof (cases "channel a = channel b")
    case True
    with assms show ?thesis
      by (cases a; cases b) (auto simp: subscriptionKey_def Let_def two cand split: if_splits)
  next
    case False
    then have "k \<noteq> l" using key_channel [OF assms(1)] key_channel [OF assms(2)] by auto
    with False show ?thesis using same_channel [of a b] by blast
  qed
qed

subsection \<open>Instances\<close>

definition sample_sources :: sources where
  "sample_sources = \<lparr>so_env = sample_env, so_state = empty_state, so_l2 = \<lambda>_. None, so_fills = \<lambda>_. [],
     so_fundings = \<lambda>_. [], so_ledger = \<lambda>_. [], so_route = \<lambda>_ _. Inr ''''\<rparr>"

definition sample_ops :: "(sources \<times> ws_op) list" where
  "sample_ops = [(sample_sources, Connect 7), (sample_sources, Connect 8),
     (sample_sources, Message 7 (M_subscribe (Some (SubUserEvents ''0xU''))))]"

lemma sample_run:
  "clients (ws_run sample_ops) = [7, 8]" "is_open (ws_run sample_ops) 7" "is_open (ws_run sample_ops) 8"
  "subscribers (ws_run sample_ops) ''userEvents:0xu'' = [7]"
  "received (ws_run sample_ops) 7 = [F_subscriptionResponse True (SubUserEvents ''0xU'')]"
  "received (ws_run sample_ops) 8 = []"
  unfolding sample_ops_def sample_sources_def
  by code_simp+

theorem index_matches_subscriptions_witness: "subscribed (ws_run sample_ops) 7 ''userEvents:0xu''"
  using index_matches_subscriptions [of sample_ops sample_sources 7 "''userEvents:0xu''"]
  unfolding Let_def by (simp add: sample_run)


theorem heartbeat_drops_silent_clients_witness:
  "8 \<notin> set (clients (heartbeat (ws_step (sample_sources, Pong 7) (heartbeat (ws_run sample_ops)))))"
proof -
  have "snd x \<noteq> Pong 8" if "x \<in> set [(sample_sources, Pong 7)]" for x using that by auto
  from heartbeat_drops_silent_clients [where w = 8 and ops = sample_ops and later = "[(sample_sources, Pong 7)]",
      OF refl _ this refl, THEN conjunct1]
  show ?thesis by (simp add: sample_run)
qed

theorem keys_tell_subscriptions_apart_witness:
  "the (subscriptionKey (SubActiveAssetData ''0xU'' ''xyz:MU'')) = the (subscriptionKey (SubActiveAssetData ''0xu'' ''xyz:MU''))"
proof -
  have "subscriptionKey (SubActiveAssetData ''0xU'' ''xyz:MU'') = Some ''activeAssetData:0xu:xyz:MU''"
    "subscriptionKey (SubActiveAssetData ''0xu'' ''xyz:MU'') = Some ''activeAssetData:0xu:xyz:MU''" by code_simp+
  moreover have "colon_free (SubActiveAssetData ''0xU'' ''xyz:MU'')" "colon_free (SubActiveAssetData ''0xu'' ''xyz:MU'')" by code_simp+
  moreover have "canonical (SubActiveAssetData ''0xU'' ''xyz:MU'') = canonical (SubActiveAssetData ''0xu'' ''xyz:MU'')" by code_simp
  ultimately show ?thesis
    using keys_tell_subscriptions_apart [of "SubActiveAssetData ''0xU'' ''xyz:MU''" _ "SubActiveAssetData ''0xu'' ''xyz:MU''"]
    by simp
qed

end
