(* ===== verification/Guards.thy ===== *)
theory Guards
  imports JsStrings
begin

text \<open>
  The two guards in front of the engine: the rate limit of the HTTP routes
  (api/middleware/rate-limit.ts) and the lock that makes the operations on one user's account
  exclusive (utils/userLock.ts). The lock is modelled with its promises: a call is a ticket that
  remembers the promise it waits for and whether it has released its own.
\<close>

subsection \<open>Rate limit\<close>

record RateBucket =
  rb_count :: nat
  rb_resetAt :: millis

fun last_field :: "string \<Rightarrow> string" where
  \<comment> \<open>split at commas, pop\<close>
  "last_field [] = []"
| "last_field (c # s) = (if CHR '','' \<in> set s then last_field s else if c = CHR '','' then s else c # s)"

definition clientIp :: "string option \<Rightarrow> string option option \<Rightarrow> string" where
  \<comment> \<open>the header, and the address of the socket: \<open>None\<close> when reading it throws\<close>
  "clientIp xff remote =
    (let last = (case xff of None \<Rightarrow> '''' | Some h \<Rightarrow> js_trim (last_field h))
     in if last \<noteq> '''' then last
        else case remote of Some (Some a) \<Rightarrow> a | _ \<Rightarrow> ''anon'')"

definition rate_key :: "string \<Rightarrow> string \<Rightarrow> string" where
  "rate_key family ip = family @ ''|'' @ ip"

definition makeRateLimit ::
    "millis \<Rightarrow> nat \<Rightarrow> string \<Rightarrow> millis \<Rightarrow> (string \<Rightarrow> RateBucket option) \<Rightarrow> bool \<times> (string \<Rightarrow> RateBucket option)" where
  \<comment> \<open>RATE_LIMIT_WINDOW_MS, the limit, the key, the time: whether the request passes\<close>
  "makeRateLimit window perMinute key t buckets =
    (let b = (case buckets key of
           None \<Rightarrow> \<lparr>rb_count = 0, rb_resetAt = t + window\<rparr>
         | Some b \<Rightarrow> if rb_resetAt b \<le> t then \<lparr>rb_count = 0, rb_resetAt = t + window\<rparr> else b);
         b' = b\<lparr>rb_count := Suc (rb_count b)\<rparr>
     in (rb_count b' \<le> perMinute, buckets(key := Some b')))"

definition rate_headers :: "nat \<Rightarrow> RateBucket \<Rightarrow> nat \<times> nat \<times> int" where
  \<comment> \<open>limit, remaining and the second of the reset\<close>
  "rate_headers perMinute b = (perMinute, perMinute - rb_count b, \<lceil>of_int (rb_resetAt b) / (1000 :: rat)\<rceil>)"

definition sweep_buckets :: "millis \<Rightarrow> (string \<Rightarrow> RateBucket option) \<Rightarrow> (string \<Rightarrow> RateBucket option)" where
  "sweep_buckets t buckets = (\<lambda>key. case buckets key of None \<Rightarrow> None
     | Some b \<Rightarrow> if rb_resetAt b \<le> t then None else Some b)"

datatype rate_op = Request string \<comment> \<open>key\<close> | Sweep

record rate_log =
  rl_buckets :: "string \<Rightarrow> RateBucket option"
  rl_log :: "(string \<times> millis \<times> bool) list" \<comment> \<open>the requests: key, time, passed\<close>

fun rate_step :: "millis \<Rightarrow> nat \<Rightarrow> millis \<times> rate_op \<Rightarrow> rate_log \<Rightarrow> rate_log" where
  "rate_step w n (t, Sweep) s = s\<lparr>rl_buckets := sweep_buckets t (rl_buckets s)\<rparr>"
| "rate_step w n (t, Request key) s =
    (let (ok, bs) = makeRateLimit w n key t (rl_buckets s)
     in s\<lparr>rl_buckets := bs, rl_log := rl_log s @ [(key, t, ok)]\<rparr>)"

definition rate_run :: "millis \<Rightarrow> nat \<Rightarrow> (millis \<times> rate_op) list \<Rightarrow> rate_log" where
  "rate_run w n ops = fold (rate_step w n) ops \<lparr>rl_buckets = \<lambda>_. None, rl_log = []\<rparr>"

definition passed_in :: "rate_log \<Rightarrow> string \<Rightarrow> millis \<Rightarrow> millis \<Rightarrow> nat" where
  \<comment> \<open>how many requests passed from the first time on, before the second\<close>
  "passed_in s key t u = length (filter (\<lambda>(k, x, ok). k = key \<and> ok \<and> t \<le> x \<and> x < u) (rl_log s))"

definition asked_in :: "rate_log \<Rightarrow> string \<Rightarrow> millis \<Rightarrow> millis \<Rightarrow> nat" where
  "asked_in s key t u = length (filter (\<lambda>(k, x, ok). k = key \<and> t \<le> x \<and> x < u) (rl_log s))"

subsection \<open>The user lock\<close>

record LockTicket =
  lt_user :: user
  lt_prev :: "nat option" \<comment> \<open>the ticket whose tail is awaited; \<open>None\<close>: a resolved promise\<close>
  lt_released :: bool

record UserLock =
  tickets :: "LockTicket list"
  tails :: "user \<Rightarrow> nat option"

function tail_resolved :: "LockTicket list \<Rightarrow> nat \<Rightarrow> bool" where
  \<comment> \<open>\<open>prev.then(() => mine)\<close>\<close>
  "tail_resolved ts i =
    (i < length ts \<and> lt_released (ts ! i) \<and>
      (case lt_prev (ts ! i) of None \<Rightarrow> True | Some p \<Rightarrow> if p < i then tail_resolved ts p else False))"
  by pat_completeness auto
termination by (relation "measure snd") auto

declare tail_resolved.simps [simp del]

definition may_run :: "LockTicket list \<Rightarrow> nat \<Rightarrow> bool" where
  \<comment> \<open>\<open>await prev\<close> has returned\<close>
  "may_run ts i \<longleftrightarrow> (case lt_prev (ts ! i) of None \<Rightarrow> True | Some p \<Rightarrow> tail_resolved ts p)"

definition withUserLock :: "user \<Rightarrow> user set \<Rightarrow> UserLock \<Rightarrow> bool \<times> UserLock" where
  \<comment> \<open>whether the caller, which holds the given locks, runs straight through\<close>
  "withUserLock u holding l =
    (if u \<in> holding then (True, l)
     else (False, l\<lparr>tickets := tickets l @ [\<lparr>lt_user = u, lt_prev = tails l u, lt_released = False\<rparr>],
                    tails := (tails l)(u \<mapsto> length (tickets l))\<rparr>))"

definition release_lock :: "nat \<Rightarrow> UserLock \<Rightarrow> UserLock" where
  \<comment> \<open>the \<open>finally\<close> block\<close>
  "release_lock i l =
    (let u = lt_user (tickets l ! i); l1 = l\<lparr>tickets := (tickets l)[i := (tickets l ! i)\<lparr>lt_released := True\<rparr>]\<rparr>
     in if tails l1 u = Some i then l1\<lparr>tails := (tails l1)(u := None)\<rparr> else l1)"

datatype lock_op = Call user "user set" | Finish nat

fun lock_step :: "lock_op \<Rightarrow> UserLock \<Rightarrow> UserLock" where
  "lock_step (Call u holding) l = snd (withUserLock u holding l)"
| "lock_step (Finish i) l =
    (if i < length (tickets l) \<and> may_run (tickets l) i \<and> \<not> lt_released (tickets l ! i) then release_lock i l else l)"

definition lock_run :: "lock_op list \<Rightarrow> UserLock" where
  "lock_run ops = fold lock_step ops \<lparr>tickets = [], tails = \<lambda>_. None\<rparr>"

definition running :: "UserLock \<Rightarrow> nat \<Rightarrow> bool" where
  "running l i \<longleftrightarrow> i < length (tickets l) \<and> may_run (tickets l) i \<and> \<not> lt_released (tickets l ! i)"

definition chain_ok :: "LockTicket list \<Rightarrow> bool" where
  \<comment> \<open>a ticket waits for the ticket of the same user before it, unless all those have released\<close>
  "chain_ok ts \<longleftrightarrow> (\<forall>j < length ts. case lt_prev (ts ! j) of
       None \<Rightarrow> \<forall>k < j. lt_user (ts ! k) = lt_user (ts ! j) \<longrightarrow> lt_released (ts ! k)
     | Some i \<Rightarrow> i < j \<and> lt_user (ts ! i) = lt_user (ts ! j) \<and>
         (\<forall>k. i < k \<and> k < j \<longrightarrow> lt_user (ts ! k) \<noteq> lt_user (ts ! j)))"

definition tail_ok :: "LockTicket list \<Rightarrow> user \<Rightarrow> nat option \<Rightarrow> bool" where
  \<comment> \<open>the entry of a user is its last ticket, as long as that has not released\<close>
  "tail_ok ts u entry \<longleftrightarrow> (case entry of
       None \<Rightarrow> \<forall>k < length ts. lt_user (ts ! k) = u \<longrightarrow> lt_released (ts ! k)
     | Some i \<Rightarrow> i < length ts \<and> lt_user (ts ! i) = u \<and> \<not> lt_released (ts ! i) \<and>
         (\<forall>k. i < k \<and> k < length ts \<longrightarrow> lt_user (ts ! k) \<noteq> u))"

definition lock_ok :: "UserLock \<Rightarrow> bool" where
  "lock_ok l \<longleftrightarrow> chain_ok (tickets l) \<and> (\<forall>u. tail_ok (tickets l) u (tails l u))"

lemma chain_None: "lock_ok l \<Longrightarrow> j < length (tickets l) \<Longrightarrow> lt_prev (tickets l ! j) = None \<Longrightarrow>
    \<forall>k < j. lt_user (tickets l ! k) = lt_user (tickets l ! j) \<longrightarrow> lt_released (tickets l ! k)"
  unfolding lock_ok_def chain_ok_def by force

lemma chain_Some: "lock_ok l \<Longrightarrow> j < length (tickets l) \<Longrightarrow> lt_prev (tickets l ! j) = Some i \<Longrightarrow>
    i < j \<and> lt_user (tickets l ! i) = lt_user (tickets l ! j) \<and>
    (\<forall>k. i < k \<and> k < j \<longrightarrow> lt_user (tickets l ! k) \<noteq> lt_user (tickets l ! j))"
  unfolding lock_ok_def chain_ok_def by force

lemma tail_iff:
  assumes ok: "lock_ok l" and "i < length (tickets l)"
  shows "tail_resolved (tickets l) i \<longleftrightarrow>
    (\<forall>k \<le> i. lt_user (tickets l ! k) = lt_user (tickets l ! i) \<longrightarrow> lt_released (tickets l ! k))"
  using assms(2)
proof (induction i rule: less_induct)
  case (less i)
  let ?ts = "tickets l" and ?u = "lt_user (tickets l ! i)"
  show ?case
  proof (cases "lt_prev (?ts ! i)")
    case None
    with ok less.prems have "\<forall>k < i. lt_user (?ts ! k) = ?u \<longrightarrow> lt_released (?ts ! k)"
      using chain_None by blast
    then show ?thesis using less.prems None by (auto simp: tail_resolved.simps [of ?ts i] order_le_less)
  next
    case (Some p)
    with ok less.prems have p: "p < i" "lt_user (?ts ! p) = ?u" "\<forall>k. p < k \<and> k < i \<longrightarrow> lt_user (?ts ! k) \<noteq> ?u"
      using chain_Some by blast+
    then have "tail_resolved ?ts p \<longleftrightarrow> (\<forall>k \<le> p. lt_user (?ts ! k) = ?u \<longrightarrow> lt_released (?ts ! k))"
      using less by simp
    moreover have "k \<le> i \<Longrightarrow> lt_user (?ts ! k) = ?u \<Longrightarrow> k \<le> p \<or> k = i" for k
      using p(3) by (meson linorder_not_less order_le_less)
    ultimately show ?thesis
      using less.prems Some p(1) by (auto simp: tail_resolved.simps [of ?ts i])
  qed
qed

lemma may_run_iff:
  assumes ok: "lock_ok l" and j: "j < length (tickets l)"
  shows "may_run (tickets l) j \<longleftrightarrow>
    (\<forall>k < j. lt_user (tickets l ! k) = lt_user (tickets l ! j) \<longrightarrow> lt_released (tickets l ! k))"
proof (cases "lt_prev (tickets l ! j)")
  case None
  with chain_None [OF ok j] show ?thesis by (simp add: may_run_def)
next
  case (Some p)
  with ok j have p: "p < j" "lt_user (tickets l ! p) = lt_user (tickets l ! j)"
      "\<forall>k. p < k \<and> k < j \<longrightarrow> lt_user (tickets l ! k) \<noteq> lt_user (tickets l ! j)"
    using chain_Some by blast+
  have "k < j \<Longrightarrow> lt_user (tickets l ! k) = lt_user (tickets l ! j) \<Longrightarrow> k \<le> p" for k
    using p(3) by (meson linorder_not_less)
  then show ?thesis using Some p tail_iff [OF ok, of p] j by (auto simp: may_run_def)
qed

lemma lock_call: "lock_ok l \<Longrightarrow> lock_ok (snd (withUserLock u holding l))"
proof (cases "u \<in> holding")
  case False
  assume ok: "lock_ok l"
  let ?n = "length (tickets l)"
  let ?ts = "tickets l @ [\<lparr>lt_user = u, lt_prev = tails l u, lt_released = False\<rparr>]"
  have old: "k < ?n \<Longrightarrow> ?ts ! k = tickets l ! k" for k by (simp add: nth_append)
  have tl: "tail_ok (tickets l) v (tails l v)" for v using ok by (simp add: lock_ok_def)
  have "chain_ok ?ts"
    unfolding chain_ok_def
  proof (intro allI impI)
    fix j
    assume "j < length ?ts"
    then consider "j = ?n" | "j < ?n" by fastforce
    then show "case lt_prev (?ts ! j) of
       None \<Rightarrow> \<forall>k < j. lt_user (?ts ! k) = lt_user (?ts ! j) \<longrightarrow> lt_released (?ts ! k)
     | Some i \<Rightarrow> i < j \<and> lt_user (?ts ! i) = lt_user (?ts ! j) \<and>
         (\<forall>k. i < k \<and> k < j \<longrightarrow> lt_user (?ts ! k) \<noteq> lt_user (?ts ! j))"
    proof cases
      case 1
      with tl [of u] old show ?thesis by (cases "tails l u") (simp_all add: tail_ok_def)
    next
      case 2
      with chain_None [OF ok 2] chain_Some [OF ok 2] old show ?thesis by (cases "lt_prev (tickets l ! j)") simp_all
    qed
  qed
  moreover have "tail_ok ?ts v (if v = u then Some ?n else tails l v)" for v
    using tl [of v] by (auto simp: tail_ok_def nth_append less_Suc_eq split: option.splits)
  ultimately show ?thesis using False by (simp add: lock_ok_def withUserLock_def)
qed (simp add: withUserLock_def)

lemma lock_finish:
  assumes ok: "lock_ok l" and i: "running l i"
  shows "lock_ok (release_lock i l)"
proof -
  let ?ts = "(tickets l)[i := (tickets l ! i)\<lparr>lt_released := True\<rparr>]" and ?u = "lt_user (tickets l ! i)"
  let ?tl = "\<lambda>v. if v = ?u \<and> tails l ?u = Some i then None else tails l v"
  have keep: "lt_user (?ts ! k) = lt_user (tickets l ! k)" "lt_prev (?ts ! k) = lt_prev (tickets l ! k)"
    "lt_released (?ts ! k) \<longleftrightarrow> lt_released (tickets l ! k) \<or> k = i" if "k < length (tickets l)" for k
    using that i by (auto simp: nth_list_update running_def)
  have first: "\<forall>k < i. lt_user (tickets l ! k) = ?u \<longrightarrow> lt_released (tickets l ! k)"
    using i may_run_iff [OF ok, of i] by (simp add: running_def)
  have tl: "tail_ok (tickets l) v (tails l v)" for v using ok by (simp add: lock_ok_def)
  have "chain_ok ?ts"
    unfolding chain_ok_def
  proof (intro allI impI)
    fix j
    assume "j < length ?ts"
    then have j: "j < length (tickets l)" by simp
    show "case lt_prev (?ts ! j) of
       None \<Rightarrow> \<forall>k < j. lt_user (?ts ! k) = lt_user (?ts ! j) \<longrightarrow> lt_released (?ts ! k)
     | Some i \<Rightarrow> i < j \<and> lt_user (?ts ! i) = lt_user (?ts ! j) \<and>
         (\<forall>k. i < k \<and> k < j \<longrightarrow> lt_user (?ts ! k) \<noteq> lt_user (?ts ! j))"
      using chain_None [OF ok j] chain_Some [OF ok j] j
      by (cases "lt_prev (tickets l ! j)") (simp_all add: keep)
  qed
  moreover have "tail_ok ?ts v (?tl v)" for v
  proof (cases "v = ?u \<and> tails l ?u = Some i")
    case True
    have "k < i \<or> k = i" if "k < length (tickets l)" "lt_user (tickets l ! k) = v" for k
      using tl [of v] True that by (auto simp: linorder_neq_iff tail_ok_def)
    with True first show ?thesis by (auto simp: keep tail_ok_def)
  next
    case False
    show ?thesis
    proof (cases "tails l v")
      case None
      with tl [of v] False show ?thesis by (auto simp: tail_ok_def keep)
    next
      case (Some p)
      with tl [of v] have p: "p < length (tickets l)" "lt_user (tickets l ! p) = v" by (auto simp: tail_ok_def)
      then have "p \<noteq> i" using False Some by auto
      with tl [of v] False Some p show ?thesis by (auto simp: tail_ok_def keep)
    qed
  qed
  moreover have "tickets (release_lock i l) = ?ts" "tails (release_lock i l) = ?tl"
    by (simp_all add: release_lock_def Let_def fun_eq_iff)
  ultimately show ?thesis by (simp add: lock_ok_def)
qed

lemma lock_run_ok: "lock_ok (lock_run ops)"
proof -
  have "lock_ok l \<Longrightarrow> lock_ok (lock_step x l)" for x l
    by (cases x) (auto simp: lock_call intro: lock_finish simp: running_def)
  then have "lock_ok l \<Longrightarrow> lock_ok (fold lock_step ops l)" for l
    by (induction ops arbitrary: l) auto
  moreover have "lock_ok \<lparr>tickets = [], tails = \<lambda>_. None\<rparr>" by (simp add: lock_ok_def chain_ok_def tail_ok_def)
  ultimately show ?thesis by (simp add: lock_run_def)
qed

text \<open>
  C33. The user lock excludes, is fair, loses nobody and leaves nothing behind: a call runs only
  after every earlier call for the same user has released, so of one user at most one call
  runs; the oldest call of a user that has not released always runs, whatever other users do;
  and a user has an entry in the map exactly while a call for it has not released.
\<close>

theorem user_lock_is_exclusive_and_fair:
  assumes "l = lock_run ops"
  shows "(running l i \<and> running l j \<and> lt_user (tickets l ! i) = lt_user (tickets l ! j) \<longrightarrow> i = j) \<and>
    (running l j \<and> i < j \<and> lt_user (tickets l ! i) = lt_user (tickets l ! j) \<longrightarrow> lt_released (tickets l ! i)) \<and>
    (j < length (tickets l) \<and> \<not> lt_released (tickets l ! j) \<and>
      (\<forall>k < j. lt_user (tickets l ! k) = lt_user (tickets l ! j) \<longrightarrow> lt_released (tickets l ! k)) \<longrightarrow> running l j) \<and>
    (tails l u = None \<longleftrightarrow> (\<forall>k < length (tickets l). lt_user (tickets l ! k) = u \<longrightarrow> lt_released (tickets l ! k)))"
proof -
  have ok: "lock_ok l" using assms lock_run_ok by simp
  have r: "running l j \<longleftrightarrow> j < length (tickets l) \<and> \<not> lt_released (tickets l ! j) \<and>
      (\<forall>k < j. lt_user (tickets l ! k) = lt_user (tickets l ! j) \<longrightarrow> lt_released (tickets l ! k))" for j
    using may_run_iff [OF ok, of j] by (auto simp: running_def)
  have "tails l u = None \<longleftrightarrow> (\<forall>k < length (tickets l). lt_user (tickets l ! k) = u \<longrightarrow> lt_released (tickets l ! k))"
  proof -
    have "tail_ok (tickets l) u (tails l u)" using ok by (simp add: lock_ok_def)
    then show ?thesis by (cases "tails l u") (auto simp: tail_ok_def)
  qed
  moreover have "running l i \<and> running l j \<and> lt_user (tickets l ! i) = lt_user (tickets l ! j) \<longrightarrow> i = j"
    unfolding r by (metis linorder_neqE_nat)
  ultimately show ?thesis unfolding r by blast
qed

theorem user_lock_is_exclusive_and_fair_witness:
  "let l = lock_run [Call ''u'' {}, Call ''v'' {}, Call ''u'' {}, Call ''u'' {''u''}, Finish 2, Finish 0] in
    length (tickets l) = 3 \<and> lt_released (tickets l ! 0) \<and> running l 2"
proof -
  define l where "l = lock_run [Call ''u'' {}, Call ''v'' {}, Call ''u'' {}, Call ''u'' {''u''}, Finish 2, Finish 0]"
  have l: "length (tickets l) = 3" "lt_released (tickets l ! 0)" "\<not> lt_released (tickets l ! 2)"
    "lt_user (tickets l ! 0) = ''u''" "lt_user (tickets l ! 1) = ''v''" "lt_user (tickets l ! 2) = ''u''"
    unfolding l_def by code_simp+
  have "lt_released (tickets l ! k)" if "k < 2" "lt_user (tickets l ! k) = ''u''" for k
  proof -
    from that(1) consider "k = 0" | "k = 1" by linarith
    then show ?thesis using that(2) l by cases auto
  qed
  with user_lock_is_exclusive_and_fair [OF l_def, of 0 2, THEN conjunct2, THEN conjunct2, THEN conjunct1] l(1,2,3,6)
  have "running l 2" by auto
  with l(1,2) show ?thesis unfolding l_def [symmetric] Let_def by blast
qed

subsection \<open>What the rate limit lets through\<close>

text \<open>
  The proofs follow one key: each entry of its log belongs to the bucket it was counted in, named
  by the time of its reset.
\<close>

definition key_log :: "rate_log \<Rightarrow> string \<Rightarrow> (millis \<times> bool) list" where
  "key_log s key = map snd (filter (\<lambda>e. fst e = key) (rl_log s))"

definition in_bucket :: "millis \<Rightarrow> millis \<Rightarrow> millis \<times> bool \<Rightarrow> bool" where
  "in_bucket w r e \<longleftrightarrow> r - w \<le> fst e \<and> fst e < r"

definition rate_ok :: "millis \<Rightarrow> nat \<Rightarrow> string \<Rightarrow> millis \<Rightarrow> millis list \<Rightarrow> rate_log \<Rightarrow> bool" where
  \<comment> \<open>at the given time the key has had buckets with the given resets, the latest first\<close>
  "rate_ok w n key now rs s \<longleftrightarrow>
    sorted_wrt (\<lambda>r r'. r' + w \<le> r) rs \<and>
    (\<forall>e \<in> set (key_log s key). fst e \<le> now \<and> (\<exists>r \<in> set rs. in_bucket w r e)) \<and>
    (\<forall>r \<in> set rs. r \<le> now + w \<and> length (filter (\<lambda>e. in_bucket w r e \<and> snd e) (key_log s key)) \<le> n) \<and>
    (case rl_buckets s key of
       None \<Rightarrow> \<forall>r \<in> set rs. r \<le> now
     | Some b \<Rightarrow> rs \<noteq> [] \<and> rb_resetAt b = hd rs \<and> rb_count b = length (filter (in_bucket w (hd rs)) (key_log s key)) \<and>
         length (filter (\<lambda>e. in_bucket w (hd rs) e \<and> snd e) (key_log s key)) = min n (rb_count b))"

lemma key_log_snoc: "key_log (s\<lparr>rl_buckets := bs, rl_log := rl_log s @ [(k, t, ok)]\<rparr>) key =
    key_log s key @ (if k = key then [(t, ok)] else [])"
  by (simp add: key_log_def)

lemma makeRateLimit_other: "makeRateLimit w n k t bs = (ok, bs') \<Longrightarrow> key \<noteq> k \<Longrightarrow> bs' key = bs key"
  by (auto simp: makeRateLimit_def Let_def)

lemma rate_ok_later: "rate_ok w n key now rs s \<Longrightarrow> now \<le> t \<Longrightarrow> rate_ok w n key t rs s"
  unfolding rate_ok_def by (auto split: option.splits)

lemma rate_other: "k \<noteq> key \<Longrightarrow> rate_ok w n key now rs s \<Longrightarrow> rate_ok w n key now rs (rate_step w n (t, Request k) s)"
proof -
  assume k: "k \<noteq> key"
  obtain ok bs where m: "makeRateLimit w n k t (rl_buckets s) = (ok, bs)" by fastforce
  have "bs key = rl_buckets s key" by (rule makeRateLimit_other [OF m not_sym [OF k]])
  with k have kl: "key_log (rate_step w n (t, Request k) s) key = key_log s key"
      "rl_buckets (rate_step w n (t, Request k) s) key = rl_buckets s key"
    by (simp_all add: m key_log_snoc)
  show "rate_ok w n key now rs s \<Longrightarrow> rate_ok w n key now rs (rate_step w n (t, Request k) s)"
    unfolding rate_ok_def kl .
qed

lemma no_new_bucket_entries:
  assumes "rate_ok w n key t rs s" "\<forall>r \<in> set rs. r \<le> t" "e \<in> set (key_log s key)"
  shows "\<not> in_bucket w (t + w) e"
  using assms by (force simp: rate_ok_def in_bucket_def)

lemma request_new:
  assumes ok: "rate_ok w n key t rs s" and w: "0 < w" and past: "\<forall>r \<in> set rs. r \<le> t"
    and m: "makeRateLimit w n key t (rl_buckets s) = (1 \<le> n, (rl_buckets s)(key \<mapsto> \<lparr>rb_count = 1, rb_resetAt = t + w\<rparr>))"
  shows "rate_ok w n key t ((t + w) # rs) (rate_step w n (t, Request key) s)"
proof -
  note new = no_new_bucket_entries [OF ok past]
  have none: "filter (in_bucket w (t + w)) (key_log s key) = []" "filter (\<lambda>e. in_bucket w (t + w) e \<and> snd e) (key_log s key) = []"
    using new by (auto simp: filter_empty_conv)
  have out: "\<not> in_bucket w r (t, x)" if "r \<in> set rs" for r x using past that by (auto simp: in_bucket_def)
  have inb: "in_bucket w (t + w) (t, x)" for x using w by (simp add: in_bucket_def)
  show ?thesis
    unfolding rate_ok_def rate_step.simps m prod.case Let_def key_log_snoc
    using ok past w inb by (auto simp: rate_ok_def none out)
qed

lemma request_old:
  assumes ok: "rate_ok w n key t (r # rs) s" and r: "t < r" and b: "rl_buckets s key = Some b"
  shows "rate_ok w n key t (r # rs) (rate_step w n (t, Request key) s)"
proof -
  from ok b have reset: "rb_resetAt b = r" and hi: "r \<le> t + w" and c: "rb_count b = length (filter (in_bucket w r) (key_log s key))"
    and p: "length (filter (\<lambda>e. in_bucket w r e \<and> snd e) (key_log s key)) = min n (rb_count b)"
    and gap: "\<forall>q \<in> set rs. q + w \<le> r"
    by (auto simp: rate_ok_def)
  have m: "makeRateLimit w n key t (rl_buckets s) =
      (Suc (rb_count b) \<le> n, (rl_buckets s)(key \<mapsto> b\<lparr>rb_count := Suc (rb_count b)\<rparr>))"
    using b r reset by (simp add: makeRateLimit_def)
  have inb: "in_bucket w r (t, x)" for x using r hi by (simp add: in_bucket_def)
  have out: "\<not> in_bucket w q (t, x)" if "q \<in> set rs" for q x using gap hi that by (force simp: in_bucket_def)
  show ?thesis
    unfolding rate_ok_def rate_step.simps m prod.case Let_def key_log_snoc
    using ok b by (auto simp: rate_ok_def inb out c [symmetric] p)
qed

lemma rate_step_ok:
  assumes ok: "rate_ok w n key now rs s" and t: "now \<le> t" and w: "0 < w"
  shows "\<exists>rs'. rate_ok w n key t rs' (rate_step w n (t, x) s)"
proof -
  note okt = rate_ok_later [OF ok t]
  show ?thesis
  proof (cases x)
    case Sweep
    have "rl_log (rate_step w n (t, Sweep) s) = rl_log s" by simp
    then have kl: "key_log (rate_step w n (t, Sweep) s) key = key_log s key" by (simp add: key_log_def)
    have "rate_ok w n key t rs (rate_step w n (t, Sweep) s)"
    proof (cases "rl_buckets s key")
      case None
      with okt show ?thesis unfolding rate_ok_def kl by (simp add: sweep_buckets_def)
    next
      case (Some b)
      have "\<forall>r \<in> set rs. r \<le> t" if "rb_resetAt b \<le> t"
        using okt Some that w by (cases rs) (auto simp: rate_ok_def)
      with okt Some show ?thesis unfolding rate_ok_def kl by (auto simp: sweep_buckets_def)
    qed
    with Sweep show ?thesis by blast
  next
    case (Request k)
    show ?thesis
    proof (cases "k = key")
      case False
      with rate_other [OF False okt] Request show ?thesis by blast
    next
      case True
      show ?thesis
      proof (cases "\<exists>b. rl_buckets s key = Some b \<and> t < rb_resetAt b")
        case False
        have "\<forall>r \<in> set rs. r \<le> t"
          using okt False w by (cases "rl_buckets s key"; cases rs) (auto simp: rate_ok_def not_less)
        moreover have "makeRateLimit w n key t (rl_buckets s) =
            (1 \<le> n, (rl_buckets s)(key \<mapsto> \<lparr>rb_count = 1, rb_resetAt = t + w\<rparr>))"
          using False by (auto simp: makeRateLimit_def not_less split: option.split)
        ultimately show ?thesis using request_new [OF okt w] Request True by blast
      next
        case True
        then obtain b where b: "rl_buckets s key = Some b" "t < rb_resetAt b" by blast
        with okt obtain r rs' where rs: "rs = r # rs'" "rb_resetAt b = r" by (cases rs) (auto simp: rate_ok_def)
        with request_old [of w n key t r rs' s b] okt b Request \<open>k = key\<close> show ?thesis by auto
      qed
    qed
  qed
qed

lemma rate_run_ok:
  assumes w: "0 < w"
  shows "sorted (map fst ops) \<Longrightarrow> (\<And>x. x \<in> set ops \<Longrightarrow> fst x \<le> t) \<Longrightarrow> \<exists>rs. rate_ok w n key t rs (rate_run w n ops)"
proof (induction ops arbitrary: t rule: rev_induct)
  case Nil
  have "rate_ok w n key t [] (rate_run w n [])" by (simp add: rate_ok_def rate_run_def key_log_def)
  then show ?case by blast
next
  case (snoc x ops)
  obtain u op where x: "x = (u, op)" by fastforce
  from snoc.prems have "sorted (map fst ops)" "y \<in> set ops \<Longrightarrow> fst y \<le> u" for y by (auto simp: sorted_append x)
  with snoc.IH [of u] obtain rs where "rate_ok w n key u rs (rate_run w n ops)" by blast
  from rate_step_ok [OF this order_refl w, of op] obtain rs' where "rate_ok w n key u rs' (rate_run w n (ops @ [x]))"
    by (auto simp: rate_run_def x)
  moreover have "u \<le> t" using snoc.prems(2) [of x] by (simp add: x)
  ultimately show ?case using rate_ok_later by blast
qed

lemma passed_key_log: "passed_in s key t u = length (filter (\<lambda>e. snd e \<and> t \<le> fst e \<and> fst e < u) (key_log s key))"
  unfolding passed_in_def key_log_def by (simp add: filter_map o_def case_prod_unfold)

lemma asked_key_log: "asked_in s key t u = length (filter (\<lambda>e. t \<le> fst e \<and> fst e < u) (key_log s key))"
  unfolding asked_in_def key_log_def by (simp add: filter_map o_def case_prod_unfold)

lemma two_buckets:
  fixes w :: millis
  assumes "sorted_wrt (\<lambda>r r'. r' + w \<le> r) rs" "0 < w"
  shows "\<exists>a b. \<forall>r \<in> set rs. T < r \<and> r < T + 2 * w \<longrightarrow> r = a \<or> r = b"
proof -
  let ?l = "filter (\<lambda>r. T < r \<and> r < T + 2 * w) rs"
  have "sorted_wrt (\<lambda>r r'. r' + w \<le> r) ?l" using assms(1) by (rule sorted_wrt_filter)
  then have "\<exists>a b. set ?l \<subseteq> {a, b}"
  proof (cases ?l rule: remdups_adj.cases)
    case (3 a b l)
    with \<open>sorted_wrt _ ?l\<close> have l: "b + w \<le> a" "\<forall>c \<in> set l. c + w \<le> b" by auto
    have "set ?l \<subseteq> {r. T < r \<and> r < T + 2 * w}" by auto
    then have "a < T + 2 * w" "\<forall>c \<in> set l. T < c" unfolding 3 by auto
    with l have "l = []" by (cases l) force+
    with 3 show ?thesis by auto
  qed auto
  then show ?thesis by (auto simp: subset_iff)
qed

lemma length_filter_or:
  "(\<And>x. x \<in> set xs \<Longrightarrow> P x \<Longrightarrow> Q x \<or> R x) \<Longrightarrow> length (filter P xs) \<le> length (filter Q xs) + length (filter R xs)"
proof (induction xs)
  case (Cons x xs)
  then have "length (filter P xs) \<le> length (filter Q xs) + length (filter R xs)" by simp
  with Cons.prems [of x] show ?case by auto
qed simp

lemma length_filter_mono: "(\<And>x. x \<in> set xs \<Longrightarrow> P x \<Longrightarrow> Q x) \<Longrightarrow> length (filter P xs) \<le> length (filter Q xs)"
  using length_filter_or [of xs P Q "\<lambda>_. False"] by simp

text \<open>
  The rate limit bounds every client and spares the moderate one: for requests in the order
  of time, sweeps in between, no stretch of one window's length lets more than twice the limit
  of one key through; and a request that has fewer than the limit of its key's requests in the
  window before it passes, whatever other clients do.
\<close>

theorem rate_limit_bounds:
  assumes "sorted (map fst (ops @ [(t, Request key)]))" "0 < w"
  shows "(\<forall>T. passed_in (rate_run w n ops) key T (T + w) \<le> 2 * n) \<and>
    (asked_in (rate_run w n ops) key (t - w + 1) (t + 1) < n \<longrightarrow>
      last (rl_log (rate_run w n (ops @ [(t, Request key)]))) = (key, t, True))"
proof (intro conjI allI impI)
  let ?s = "rate_run w n ops"
  from assms(1) have "sorted (map fst ops)" "\<And>x. x \<in> set ops \<Longrightarrow> fst x \<le> t" by (auto simp: sorted_append)
  from rate_run_ok [OF assms(2) this, where n = n and key = key] obtain rs where ok: "rate_ok w n key t rs ?s" by blast
  show "passed_in ?s key T (T + w) \<le> 2 * n" for T
  proof -
    from ok have "sorted_wrt (\<lambda>r r'. r' + w \<le> r) rs" by (simp add: rate_ok_def)
    from two_buckets [OF this assms(2), of T] obtain a b where
      ab: "\<And>r. r \<in> set rs \<Longrightarrow> T < r \<Longrightarrow> r < T + 2 * w \<Longrightarrow> r = a \<or> r = b" by blast
    let ?in = "\<lambda>r e. r \<in> set rs \<and> in_bucket w r e \<and> snd e"
    have cnt: "length (filter (?in r) (key_log ?s key)) \<le> n" for r
      using ok by (cases "r \<in> set rs") (auto simp: rate_ok_def)
    have "?in a e \<or> ?in b e" if e: "e \<in> set (key_log ?s key)" "snd e \<and> T \<le> fst e \<and> fst e < T + w" for e
    proof -
      from ok e(1) obtain r where r: "r \<in> set rs" "in_bucket w r e" by (auto simp: rate_ok_def)
      with e(2) have "T < r" "r < T + 2 * w" by (auto simp: in_bucket_def)
      with ab r e(2) show ?thesis by blast
    qed
    then have "passed_in ?s key T (T + w) \<le> length (filter (?in a) (key_log ?s key)) + length (filter (?in b) (key_log ?s key))"
      unfolding passed_key_log by (intro length_filter_or) blast
    with cnt [of a] cnt [of b] show ?thesis by linarith
  qed
  assume few: "asked_in ?s key (t - w + 1) (t + 1) < n"
  have "fst (makeRateLimit w n key t (rl_buckets ?s))"
  proof (cases "\<exists>b. rl_buckets ?s key = Some b \<and> t < rb_resetAt b")
    case False
    with few show ?thesis by (auto simp: makeRateLimit_def Let_def split: option.split)
  next
    case True
    then obtain b where b: "rl_buckets ?s key = Some b" "t < rb_resetAt b" by blast
    with ok have c: "rb_count b = length (filter (in_bucket w (rb_resetAt b)) (key_log ?s key))"
      by (auto simp: rate_ok_def)
    have "fst e \<le> t" if "e \<in> set (key_log ?s key)" for e using ok that by (auto simp: rate_ok_def)
    then have "rb_count b \<le> asked_in ?s key (t - w + 1) (t + 1)"
      unfolding c asked_key_log using b(2) by (intro length_filter_mono) (force simp: in_bucket_def)
    with few b show ?thesis by (simp add: makeRateLimit_def)
  qed
  then show "last (rl_log (rate_run w n (ops @ [(t, Request key)]))) = (key, t, True)"
    by (cases "makeRateLimit w n key t (rl_buckets ?s)") (simp add: rate_run_def)
qed

theorem rate_limit_bounds_witness:
  "passed_in (rate_run 60000 2 [(5, Request ''a''), (6, Request ''a''), (7, Request ''a'')]) ''a'' 0 (0 + 60000) \<le> 4 \<and>
   last (rl_log (rate_run 60000 2 ([(5, Request ''a''), (6, Request ''b''), (7, Request ''b'')] @ [(8, Request ''a'')]))) =
     (''a'', 8, True)"
proof
  show "passed_in (rate_run 60000 2 [(5, Request ''a''), (6, Request ''a''), (7, Request ''a'')]) ''a'' 0 (0 + 60000) \<le> 4"
    using rate_limit_bounds [where t = 8 and key = "''a''" and w = 60000 and n = 2
        and ops = "[(5, Request ''a''), (6, Request ''a''), (7, Request ''a'')]", THEN conjunct1, rule_format, of 0]
    by simp
  have "asked_in (rate_run 60000 2 [(5, Request ''a''), (6, Request ''b''), (7, Request ''b'')]) ''a'' (8 - 60000 + 1) (8 + 1) = 1"
    by code_simp
  then show "last (rl_log (rate_run 60000 2 ([(5, Request ''a''), (6, Request ''b''), (7, Request ''b'')] @ [(8, Request ''a'')]))) =
     (''a'', 8, True)"
    by (intro rate_limit_bounds [THEN conjunct2, rule_format]) simp_all
qed

end
