(* ===== verification/InfoRoute.thy ===== *)
theory InfoRoute
  imports Views Staking Subaccounts Agents
begin

text \<open>
  The read interface of api/routes/info.ts: which requests are answered from the paper account
  and which are passed to live Hyperliquid, the cache of the passed ones, and the sub-account and
  vault views of engine/subaccount.ts. The rows of Postgres, the answers of live Hyperliquid and
  the order of a Redis SCAN are inputs; the cache is keyed by the text of the body, as the code
  keys it. Fields of a body that are not of the type the code expects count as absent.
\<close>

subsection \<open>Requests, inputs and replies\<close>

record info_request =
  iq_type :: "string option"
  iq_user :: "string option"
  iq_dex :: "string option"
  iq_coin :: "string option"
  iq_vaultAddress :: "string option"
  iq_oid :: "oid option"
  iq_builder :: "string option"
  iq_startTime :: "millis option"
  iq_endTime :: "millis option"
  iq_limit :: "nat option"
  iq_text :: string \<comment> \<open>JSON.stringify of the body\<close>

datatype PgQuery =
    PgHistoricalOrders nat
  | PgUserFills nat
  | PgUserFillsByTime millis "millis option"
  | PgTwapSliceFills nat
  | PgTwapHistory nat
  | PgUserFunding millis "millis option"
  | PgLedgerUpdates millis "millis option"

record DbRow =
  db_coin :: coin
  db_json :: string

record info_env =
  ie_env :: env
  ie_live :: "string option" \<comment> \<open>what live Hyperliquid answers to the body, \<open>None\<close> when the fetch fails\<close>
  ie_fee :: "string option" \<comment> \<open>the fee schedule in its answer to userFees\<close>
  ie_rows :: "user \<Rightarrow> PgQuery \<Rightarrow> DbRow list"
  ie_netDeposits :: "user \<Rightarrow> rat"
  ie_volumeSince :: "user \<Rightarrow> millis \<Rightarrow> rat"
  ie_scan :: "user list" \<comment> \<open>the owners of the vault equity hashes, as SCAN returns them\<close>
  ie_trailingLive :: bool

record info_sys =
  is_sys :: sys
  is_cache :: "(string \<times> string \<times> millis) list"
  is_fee :: "(string \<times> millis) option"
  is_avhist :: "user \<Rightarrow> (av_point \<times> millis) list"

datatype InfoError = MissingType | MissingUser | MissingCoin | MissingVaultAddress | MissingBuilder

record SubView =
  sv_name :: string
  sv_user :: user
  sv_master :: user
  sv_state :: HlClearinghouseState
  sv_spotTotal :: rat

record VaultView =
  vv_name :: string
  vv_address :: user
  vv_leader :: user
  vv_description :: string
  vv_followers :: "(user \<times> rat \<times> millis) list"
  vv_followerState :: "rat option"

record UserFees =
  uf_volume :: rat
  uf_feeSchedule :: "string option"
  uf_crossRate :: rat
  uf_addRate :: rat

datatype InfoReply =
    R_Error InfoError
  | R_Uncaught \<comment> \<open>the failed fetch: its promise is returned without await, past the catch\<close>
  | R_Live string
  | R_Empty
  | R_Mids "coin \<Rightarrow> rat option"
  | R_Ctx coin "(rat \<times> millis) option"
  | R_State HlClearinghouseState
  | R_Spot rat
  | R_Open "(OpenOrderRow + BasicOpenRow) list"
  | R_Frontend "(FrontendBody \<times> FrontendBody list) list"
  | R_PerpDexs "dex_name option list"
  | R_AllDexs user "(dex_name \<times> HlClearinghouseState) list"
  | R_Status OrderStatusReply
  | R_Rows "DbRow list"
  | R_Portfolio "(string \<times> PortfolioPeriod) list"
  | R_Fees UserFees
  | R_RateLimit rat int
  | R_Role string
  | R_Asset ActiveAssetData
  | R_Subs "SubView list"
  | R_Vault VaultView
  | R_Equities "user \<Rightarrow> rat option"
  | R_Agents "(string \<times> string) list"
  | R_MaxBuilderFee "string option"
  | R_BuilderApproval "(string \<times> string) option"
  | R_Referral "string \<times> string option"
  | R_Delegations "(string \<times> string \<times> millis \<times> millis) list"
  | R_Summary DelegatorSummary
  | R_History "(StakingKind \<times> string option \<times> string \<times> millis) list"
  | R_NoRewards

subsection \<open>Sub-accounts and vaults\<close>

definition sub_view :: "env \<Rightarrow> sys \<Rightarrow> user \<Rightarrow> SubView option" where
  \<comment> \<open>\<open>None\<close> is a stale entry; the spot total is read from the native perp field\<close>
  "sub_view E w sub =
    (case subMeta w sub of None \<Rightarrow> None
     | Some m \<Rightarrow> if sm_name m = '''' then None
         else Some \<lparr>sv_name = sm_name m, sv_user = sub, sv_master = sm_master m,
           sv_state = getClearinghouseState E (core w) sub '''', sv_spotTotal = amount_in w (sub, Perp '''')\<rparr>)"

definition getSubAccounts :: "env \<Rightarrow> sys \<Rightarrow> user \<Rightarrow> SubView list" where
  "getSubAccounts E w u =
    List.map_filter (sub_view E w) (map fst (sort_key (\<lambda>e. (snd e, fst e)) (subAccounts w u)))"

definition held_equity :: "sys \<Rightarrow> user \<Rightarrow> user \<Rightarrow> rat option" where
  \<comment> \<open>an equity counts when it is positive\<close>
  "held_equity w va u =
    (case vaultEquities w u va of None \<Rightarrow> None | Some e \<Rightarrow> if 0 < dbl e then Some e else None)"

definition getVaultDetails :: "user list \<Rightarrow> sys \<Rightarrow> string \<Rightarrow> user option \<Rightarrow> VaultView" where
  \<comment> \<open>the first argument is the result of the SCAN over the equity keys\<close>
  "getVaultDetails scanned w vaultAddress u =
    (let va = lower vaultAddress; m = vaultMeta w va;
         entry = (case m of None \<Rightarrow> 0 | Some x \<Rightarrow> vm_createdAt x)
     in \<lparr>vv_name = (case m of None \<Rightarrow> ''Unknown Vault'' | Some _ \<Rightarrow> ''Paper Vault''), vv_address = va,
         vv_leader = (case m of None \<Rightarrow> va | Some x \<Rightarrow> vm_leader x),
         vv_description = (case m of None \<Rightarrow> '''' | Some _ \<Rightarrow> ''HyPaper simulated vault''),
         vv_followers = List.map_filter (\<lambda>f. map_option (\<lambda>e. (f, e, entry)) (held_equity w va f)) scanned,
         vv_followerState = (case u of None \<Rightarrow> None
           | Some f \<Rightarrow> if f = '''' then None else held_equity w va (lower f))\<rparr>)"

definition getUserVaultEquities :: "sys \<Rightarrow> user \<Rightarrow> user \<Rightarrow> rat option" where
  "getUserVaultEquities w u = (\<lambda>va. held_equity w va u)"

subsection \<open>The pass to live Hyperliquid\<close>

definition PROXY_TTL :: "(string \<times> millis) list" where
  "PROXY_TTL =
    [(''meta'', 60000), (''metaAndAssetCtxs'', 2000), (''l2Book'', 1000), (''candleSnapshot'', 5000),
     (''fundingHistory'', 30000), (''perpsAtOpenInterest'', 10000), (''predictedFundings'', 10000)]"

definition DEFAULT_PROXY_TTL :: millis where "DEFAULT_PROXY_TTL = 5000"

definition proxied_type :: "string \<Rightarrow> bool" where
  "proxied_type ty = list_ex (\<lambda>e. fst e = ty) PROXY_TTL"

definition proxy_ttl :: "info_request \<Rightarrow> millis" where
  "proxy_ttl q =
    (case iq_type q of None \<Rightarrow> DEFAULT_PROXY_TTL
     | Some ty \<Rightarrow> (case map_of PROXY_TTL ty of None \<Rightarrow> DEFAULT_PROXY_TTL | Some t \<Rightarrow> t))"

definition purge_proxy :: "millis \<Rightarrow> (string \<times> string \<times> millis) list \<Rightarrow> (string \<times> string \<times> millis) list" where
  "purge_proxy t cache = (if 500 < length cache then filter (\<lambda>(_, _, ex). t < ex) cache else cache)"

definition cachedProxyToHL :: "info_env \<Rightarrow> info_request \<Rightarrow> info_sys \<Rightarrow> InfoReply \<times> info_sys" where
  "cachedProxyToHL N q S =
    (let t = now (ie_env N);
         hit = (case map_of (is_cache S) (iq_text q) of None \<Rightarrow> None
           | Some (d, ex) \<Rightarrow> if t < ex then Some d else None)
     in case hit of Some d \<Rightarrow> (R_Live d, S)
     | None \<Rightarrow>
        (case ie_live N of None \<Rightarrow> (R_Uncaught, S)
         | Some d \<Rightarrow>
             (R_Live d, S\<lparr>is_cache := purge_proxy t (AList.update (iq_text q) (d, t + proxy_ttl q) (is_cache S))\<rparr>)))"

definition isUserScoped :: "info_request \<Rightarrow> bool" where
  "isUserScoped q \<longleftrightarrow> iq_user q \<noteq> None \<or> iq_vaultAddress q \<noteq> None \<or> iq_oid q \<noteq> None"

definition PROXY_ANYWAY_USER_TYPES :: "string list" where
  "PROXY_ANYWAY_USER_TYPES =
    [''spotClearinghouseState'', ''delegations'', ''delegatorSummary'', ''delegatorHistory'',
     ''delegatorRewards'', ''vaultDetails'', ''userVaultEquities'', ''referral'', ''subAccounts'',
     ''extraAgents'', ''maxBuilderFee'', ''builderFeeApproval'', ''userToMultiSigSigners'', ''legalCheck'',
     ''isVip'', ''preTransferCheck'', ''userAbstraction'', ''userDexAbstraction'']"

subsection \<open>The reads of the paper account\<close>

datatype LocalType =
    Q_allMids | Q_activeAssetCtx | Q_clearinghouseState | Q_spotClearinghouseState | Q_openOrders
  | Q_frontendOpenOrders | Q_perpDexs | Q_allDexsClearinghouseState | Q_orderStatus | Q_historicalOrders
  | Q_userFills | Q_userFillsByTime | Q_userTwapSliceFills | Q_twapHistory | Q_userFunding
  | Q_userNonFundingLedgerUpdates | Q_portfolio | Q_userFees | Q_userRateLimit | Q_userRole
  | Q_activeAssetData | Q_subAccounts | Q_vaultDetails | Q_userVaultEquities | Q_extraAgents
  | Q_maxBuilderFee | Q_builderFeeApproval | Q_referral | Q_delegations | Q_delegatorSummary
  | Q_delegatorHistory | Q_delegatorRewards

definition local_cases :: "(string \<times> LocalType) list" where
  "local_cases =
    [(''allMids'', Q_allMids), (''activeAssetCtx'', Q_activeAssetCtx),
     (''clearinghouseState'', Q_clearinghouseState), (''spotClearinghouseState'', Q_spotClearinghouseState),
     (''openOrders'', Q_openOrders), (''frontendOpenOrders'', Q_frontendOpenOrders),
     (''perpDexs'', Q_perpDexs), (''allDexsClearinghouseState'', Q_allDexsClearinghouseState),
     (''orderStatus'', Q_orderStatus), (''historicalOrders'', Q_historicalOrders),
     (''userFills'', Q_userFills), (''userFillsByTime'', Q_userFillsByTime),
     (''userTwapSliceFills'', Q_userTwapSliceFills), (''twapHistory'', Q_twapHistory),
     (''userFunding'', Q_userFunding), (''userNonFundingLedgerUpdates'', Q_userNonFundingLedgerUpdates),
     (''portfolio'', Q_portfolio), (''userFees'', Q_userFees), (''userRateLimit'', Q_userRateLimit),
     (''userRole'', Q_userRole), (''activeAssetData'', Q_activeAssetData), (''subAccounts'', Q_subAccounts),
     (''vaultDetails'', Q_vaultDetails), (''userVaultEquities'', Q_userVaultEquities),
     (''extraAgents'', Q_extraAgents), (''maxBuilderFee'', Q_maxBuilderFee),
     (''builderFeeApproval'', Q_builderFeeApproval), (''referral'', Q_referral),
     (''delegations'', Q_delegations), (''delegatorSummary'', Q_delegatorSummary),
     (''delegatorHistory'', Q_delegatorHistory), (''delegatorRewards'', Q_delegatorRewards)]"

definition body_dex :: "info_request \<Rightarrow> dex_name" where
  "body_dex q = (case iq_dex q of None \<Rightarrow> '''' | Some d \<Rightarrow> d)"

definition body_limit :: "info_request \<Rightarrow> nat" where
  "body_limit q = (case iq_limit q of None \<Rightarrow> 2000 | Some n \<Rightarrow> n)"

definition body_start :: "info_request \<Rightarrow> millis" where
  "body_start q = (case iq_startTime q of None \<Rightarrow> 0 | Some t \<Rightarrow> t)"

definition given :: "string option \<Rightarrow> string option" where
  \<comment> \<open>an empty string is falsy\<close>
  "given x = (case x of None \<Rightarrow> None | Some v \<Rightarrow> if v = '''' then None else Some v)"

definition FEE_SCHEDULE_TTL :: millis where "FEE_SCHEDULE_TTL = 3600000"

definition getGlobalFeeSchedule :: "info_env \<Rightarrow> info_sys \<Rightarrow> string option \<times> info_sys" where
  "getGlobalFeeSchedule N S =
    (if (case is_fee S of None \<Rightarrow> False | Some (_, ex) \<Rightarrow> now (ie_env N) < ex) then (map_option fst (is_fee S), S)
     else case ie_fee N of None \<Rightarrow> (map_option fst (is_fee S), S)
     | Some d \<Rightarrow> (Some d, S\<lparr>is_fee := Some (d, now (ie_env N) + FEE_SCHEDULE_TTL)\<rparr>))"

definition getUserFees :: "info_env \<Rightarrow> user \<Rightarrow> info_sys \<Rightarrow> UserFees \<times> info_sys" where
  \<comment> \<open>the spot rates are the perp rates; the other fields of the answer are constants\<close>
  "getUserFees N u S =
    (let (fees, S1) = getGlobalFeeSchedule N S
     in (\<lparr>uf_volume = ie_volumeSince N u 0, uf_feeSchedule = fees, uf_crossRate = FEE_RATE_TAKER (ie_env N),
          uf_addRate = FEE_RATE_MAKER (ie_env N)\<rparr>, S1))"

definition dex_rows :: "dex_name \<Rightarrow> DbRow list \<Rightarrow> DbRow list" where
  "dex_rows dex rows =
    filter (\<lambda>r. if dex = '''' then CHR '':'' \<notin> set (db_coin r) else starts_with (dex @ '':'') (db_coin r)) rows"

definition all_dexs :: "env \<Rightarrow> sys \<Rightarrow> user \<Rightarrow> (dex_name \<times> HlClearinghouseState) list" where
  "all_dexs E w u =
    map (\<lambda>d. (d, getClearinghouseState E (core w) u d))
      ('''' # (case perpDexs (core w) of None \<Rightarrow> [] | Some ds \<Rightarrow> List.map_filter id ds))"

fun open_read :: "info_env \<Rightarrow> info_request \<Rightarrow> user option \<Rightarrow> LocalType \<Rightarrow> sys \<Rightarrow> InfoReply option" where
  \<comment> \<open>the cases that do not ask for a user; \<open>None\<close> is every other case\<close>
  "open_read N q u Q_allMids w = Some (R_Mids (midPx (core w)))"
| "open_read N q u Q_activeAssetCtx w =
    Some (case given (iq_coin q) of None \<Rightarrow> R_Error MissingCoin | Some c \<Rightarrow> R_Ctx c (ctx_mark (core w) c))"
| "open_read N q u Q_perpDexs w = Some (R_PerpDexs (case perpDexs (core w) of None \<Rightarrow> [] | Some ds \<Rightarrow> ds))"
| "open_read N q u Q_userRole w = Some (R_Role ''user'')"
| "open_read N q u Q_vaultDetails w =
    Some (case given (iq_vaultAddress q) of None \<Rightarrow> R_Error MissingVaultAddress
      | Some va \<Rightarrow> R_Vault (getVaultDetails (ie_scan N) w va u))"
| "open_read N q u _ w = None"

fun trade_read :: "info_env \<Rightarrow> info_request \<Rightarrow> user \<Rightarrow> LocalType \<Rightarrow> sys \<Rightarrow> InfoReply" where
  \<comment> \<open>positions, orders and the rows of Postgres\<close>
  "trade_read N q u Q_clearinghouseState w = R_State (getClearinghouseState (ie_env N) (core w) u (body_dex q))"
| "trade_read N q u Q_spotClearinghouseState w = R_Spot (amount_in w (u, Spot))"
| "trade_read N q u Q_openOrders w = R_Open (getOpenOrders (lib (ie_env N)) (core w) u (body_dex q))"
| "trade_read N q u Q_frontendOpenOrders w =
    R_Frontend (getFrontendOpenOrders (lib (ie_env N)) (core w) u (body_dex q))"
| "trade_read N q u Q_allDexsClearinghouseState w = R_AllDexs u (all_dexs (ie_env N) w u)"
| "trade_read N q u Q_orderStatus w =
    R_Status (case iq_oid q of None \<Rightarrow> UnknownOid
      | Some x \<Rightarrow> getOrderStatus (lib (ie_env N)) (ie_trailingLive N) (core w) x (Some u))"
| "trade_read N q u Q_historicalOrders w = R_Rows (ie_rows N u (PgHistoricalOrders (body_limit q)))"
| "trade_read N q u Q_userFills w = R_Rows (ie_rows N u (PgUserFills 2000))"
| "trade_read N q u Q_userFillsByTime w = R_Rows (ie_rows N u (PgUserFillsByTime (body_start q) (iq_endTime q)))"
| "trade_read N q u Q_userTwapSliceFills w = R_Rows (ie_rows N u (PgTwapSliceFills (body_limit q)))"
| "trade_read N q u Q_twapHistory w = R_Rows (ie_rows N u (PgTwapHistory (body_limit q)))"
| "trade_read N q u Q_userFunding w =
    R_Rows (dex_rows (body_dex q) (ie_rows N u (PgUserFunding (body_start q) (iq_endTime q))))"
| "trade_read N q u Q_userNonFundingLedgerUpdates w =
    R_Rows (if body_dex q \<noteq> '''' then [] else ie_rows N u (PgLedgerUpdates (body_start q) (iq_endTime q)))"
| "trade_read N q u Q_userRateLimit w =
    R_RateLimit (ie_volumeSince N u 0) (getUserRateLimit (ie_volumeSince N u 0))"
| "trade_read N q u Q_activeAssetData w =
    (case given (iq_coin q) of None \<Rightarrow> R_Error MissingCoin
     | Some c \<Rightarrow> R_Asset (getActiveAssetData (ie_env N) (core w) u c))"
| "trade_read N q u _ w = R_Empty"

fun wallet_read :: "info_env \<Rightarrow> info_request \<Rightarrow> user \<Rightarrow> LocalType \<Rightarrow> sys \<Rightarrow> InfoReply option" where
  \<comment> \<open>sub-accounts, vaults, agents and staking; \<open>None\<close> is every other case\<close>
  "wallet_read N q u Q_subAccounts w = Some (R_Subs (getSubAccounts (ie_env N) w u))"
| "wallet_read N q u Q_userVaultEquities w = Some (R_Equities (getUserVaultEquities w u))"
| "wallet_read N q u Q_extraAgents w = Some (R_Agents (getExtraAgents w u))"
| "wallet_read N q u Q_maxBuilderFee w =
    Some (case given (iq_builder q) of None \<Rightarrow> R_Error MissingBuilder
      | Some b \<Rightarrow> R_MaxBuilderFee (getMaxBuilderFee w u b))"
| "wallet_read N q u Q_builderFeeApproval w =
    Some (case given (iq_builder q) of None \<Rightarrow> R_Error MissingBuilder
      | Some b \<Rightarrow> R_BuilderApproval (getBuilderFeeApproval w u b))"
| "wallet_read N q u Q_referral w = Some (R_Referral (getReferral w u))"
| "wallet_read N q u Q_delegations w = Some (R_Delegations (getDelegations w u))"
| "wallet_read N q u Q_delegatorSummary w = Some (R_Summary (getDelegatorSummary w u))"
| "wallet_read N q u Q_delegatorHistory w = Some (R_History (getDelegatorHistory w u))"
| "wallet_read N q u Q_delegatorRewards w = Some R_NoRewards"
| "wallet_read N q u _ w = None"

definition user_read :: "info_env \<Rightarrow> info_request \<Rightarrow> user \<Rightarrow> LocalType \<Rightarrow> info_sys \<Rightarrow> InfoReply \<times> info_sys" where
  "user_read N q u ty S =
    (if ty = Q_portfolio then
       let (periods, hist) = getPortfolio (ie_env N) (core (is_sys S)) u (ie_netDeposits N u) (ie_volumeSince N u) (is_avhist S u)
       in (R_Portfolio periods, S\<lparr>is_avhist := (is_avhist S)(u := hist)\<rparr>)
     else if ty = Q_userFees then
       let (fees, S1) = getUserFees N u S in (R_Fees fees, S1)
     else case wallet_read N q u ty (is_sys S) of Some r \<Rightarrow> (r, S)
     | None \<Rightarrow> (trade_read N q u ty (is_sys S), S))"

definition local_read :: "info_env \<Rightarrow> info_request \<Rightarrow> user option \<Rightarrow> LocalType \<Rightarrow> info_sys \<Rightarrow> InfoReply \<times> info_sys" where
  "local_read N q u ty S =
    (case open_read N q u ty (is_sys S) of Some r \<Rightarrow> (r, S)
     | None \<Rightarrow> (case u of None \<Rightarrow> (R_Error MissingUser, S) | Some v \<Rightarrow> user_read N q v ty S))"

definition unknown_read :: "info_env \<Rightarrow> info_request \<Rightarrow> string \<Rightarrow> info_sys \<Rightarrow> InfoReply \<times> info_sys" where
  \<comment> \<open>the default case\<close>
  "unknown_read N q ty S =
    (if \<not> isUserScoped q then cachedProxyToHL N q S
     else if ty \<in> set PROXY_ANYWAY_USER_TYPES then cachedProxyToHL N q S
     else (R_Empty, S))"

definition body_user :: "info_request \<Rightarrow> user option" where
  "body_user q = given (map_option lower (iq_user q))"

definition info_handler :: "rat \<Rightarrow> info_env \<Rightarrow> info_request \<Rightarrow> info_sys \<Rightarrow> InfoReply \<times> info_sys" where
  \<comment> \<open>the first argument is DEFAULT_BALANCE\<close>
  "info_handler defaultBalance N q S =
    (case given (iq_type q) of None \<Rightarrow> (R_Error MissingType, S)
     | Some ty \<Rightarrow>
        if proxied_type ty then cachedProxyToHL N q S
        else
          let u = body_user q;
              S1 = (case u of None \<Rightarrow> S
                | Some v \<Rightarrow> S\<lparr>is_sys := ensureAccount (ie_env N) defaultBalance v (is_sys S)\<rparr>)
          in case map_of local_cases ty of Some lt \<Rightarrow> local_read N q u lt S1
             | None \<Rightarrow> unknown_read N q ty S1)"

subsection \<open>Paper reads stay on paper\<close>

lemma live_frame:
  "ie_env (N\<lparr>ie_live := x\<rparr>) = ie_env N" "ie_fee (N\<lparr>ie_live := x\<rparr>) = ie_fee N"
  "ie_rows (N\<lparr>ie_live := x\<rparr>) = ie_rows N" "ie_netDeposits (N\<lparr>ie_live := x\<rparr>) = ie_netDeposits N"
  "ie_volumeSince (N\<lparr>ie_live := x\<rparr>) = ie_volumeSince N" "ie_scan (N\<lparr>ie_live := x\<rparr>) = ie_scan N"
  "ie_trailingLive (N\<lparr>ie_live := x\<rparr>) = ie_trailingLive N"
  by simp_all

lemma open_live [simp]: "open_read (N\<lparr>ie_live := x\<rparr>) q u ty w = open_read N q u ty w"
  by (cases ty; simp only: open_read.simps live_frame)

lemma trade_live [simp]: "trade_read (N\<lparr>ie_live := x\<rparr>) q v ty w = trade_read N q v ty w"
  by (cases ty; simp only: trade_read.simps live_frame)

lemma wallet_live [simp]: "wallet_read (N\<lparr>ie_live := x\<rparr>) q v ty w = wallet_read N q v ty w"
  by (cases ty; simp only: wallet_read.simps live_frame)

lemma fee_live [simp]: "getGlobalFeeSchedule (N\<lparr>ie_live := x\<rparr>) S = getGlobalFeeSchedule N S"
  unfolding getGlobalFeeSchedule_def live_frame ..

lemma fees_live [simp]: "getUserFees (N\<lparr>ie_live := x\<rparr>) u S = getUserFees N u S"
  unfolding getUserFees_def fee_live live_frame ..

lemma local_live [simp]: "local_read (N\<lparr>ie_live := x\<rparr>) q u ty S = local_read N q u ty S"
  unfolding local_read_def user_read_def open_live trade_live wallet_live fees_live live_frame ..

lemma anyway_types:
  "ty \<in> set PROXY_ANYWAY_USER_TYPES \<Longrightarrow> map_of local_cases ty = None \<Longrightarrow>
   ty \<in> {''userToMultiSigSigners'', ''legalCheck'', ''isVip'', ''preTransferCheck'', ''userAbstraction'', ''userDexAbstraction''}"
proof -
  assume t: "ty \<in> set PROXY_ANYWAY_USER_TYPES" and n: "map_of local_cases ty = None"
  have "\<forall>x \<in> set PROXY_ANYWAY_USER_TYPES. map_of local_cases x = None \<longrightarrow>
    x \<in> {''userToMultiSigSigners'', ''legalCheck'', ''isVip'', ''preTransferCheck'', ''userAbstraction'', ''userDexAbstraction''}"
    by code_simp
  from bspec [OF this t] n show ?thesis by (rule mp)
qed

subsection \<open>What a read may change\<close>

lemma local_sys [simp]: "is_sys (snd (local_read N q u ty S)) = is_sys S"
  by (simp add: local_read_def user_read_def getUserFees_def Let_def getGlobalFeeSchedule_def split: option.split prod.split)

lemma proxy_sys [simp]: "is_sys (snd (cachedProxyToHL N q S)) = is_sys S"
  by (simp add: cachedProxyToHL_def Let_def split: option.split)

lemma unknown_sys [simp]: "is_sys (snd (unknown_read N q ty S)) = is_sys S"
  by (simp add: unknown_read_def)

definition touched :: "info_request \<Rightarrow> user option" where
  \<comment> \<open>the account a request opens\<close>
  "touched q =
    (case given (iq_type q) of None \<Rightarrow> None
     | Some ty \<Rightarrow> if proxied_type ty then None else body_user q)"

lemma handler_sys:
  "is_sys (snd (info_handler b N q S)) =
   (case touched q of None \<Rightarrow> is_sys S | Some u \<Rightarrow> ensureAccount (ie_env N) b u (is_sys S))"
  by (simp add: info_handler_def touched_def Let_def split: option.split)

definition settled :: "sys \<Rightarrow> user \<Rightarrow> bool" where
  \<comment> \<open>the account exists and has a field for every exchange\<close>
  "settled w u \<longleftrightarrow> account_exists w u \<and>
    (\<forall>ds d. perpDexs (core w) = Some ds \<longrightarrow> Some d \<in> set ds \<longrightarrow> d = '''' \<or> d \<in> set (seeded w u))"

lemma perpDexs_store [simp]: "perpDexs (core (store_bal k v w)) = perpDexs (core w)"
  by (cases k; cases "snd k"; auto)

lemma since_store [simp]: "accountSince (store_bal k v w) = accountSince w"
  by (cases k; cases "snd k"; auto)

lemma seeded_store [simp]: "seeded (store_bal k v w) = seeded w"
  by (cases k; cases "snd k"; auto)

lemma stored_seeded [simp]: "stored (w\<lparr>seeded := f\<rparr>) k = stored w k"
  by (cases k; cases "snd k"; auto)

lemma stored_since [simp]: "stored (w\<lparr>accountSince := f\<rparr>) k = stored w k"
  by (cases k; cases "snd k"; auto)

declare stored.simps [simp del] store_bal.simps [simp del]

lemma emit_core_facts [simp]:
  "accountSince (emit_core ev w) = accountSince w" "perpDexs (core (emit_core ev w)) = perpDexs (core w)"
  by (simp_all add: emit_core_def emit_def)

lemma seed_step:
  "perpDexs (core (seed_dex u w d)) = perpDexs (core w)" "accountSince (seed_dex u w d) = accountSince w"
  "set (seeded w v) \<subseteq> set (seeded (seed_dex u w d) v)"
  "d = Some x \<Longrightarrow> x = '''' \<or> x \<in> set (seeded (seed_dex u w d) u)"
  "stored w k \<noteq> None \<Longrightarrow> stored (seed_dex u w d) k \<noteq> None"
  "fst k \<noteq> u \<Longrightarrow> stored (seed_dex u w d) k = stored w k"
  by (auto simp: seed_dex_def split: option.split)

lemma seed_mono: "set (seeded w v) \<subseteq> set (seeded (foldl (seed_dex u) w ds) v)"
proof (induction ds arbitrary: w)
  case (Cons d ds)
  then show ?case using seed_step(3) [of w v u d] by (simp, blast)
qed simp

lemma seed_all:
  "perpDexs (core (foldl (seed_dex u) w ds)) = perpDexs (core w)"
  "accountSince (foldl (seed_dex u) w ds) = accountSince w"
  "Some x \<in> set ds \<Longrightarrow> x = '''' \<or> x \<in> set (seeded (foldl (seed_dex u) w ds) u)"
  "stored w k \<noteq> None \<Longrightarrow> stored (foldl (seed_dex u) w ds) k \<noteq> None"
  "fst k \<noteq> u \<Longrightarrow> stored (foldl (seed_dex u) w ds) k = stored w k"
proof (induction ds arbitrary: w)
  case (Cons d ds)
  { case 1 then show ?case using Cons.IH(1) by (simp add: seed_step) }
  { case 2 then show ?case using Cons.IH(2) by (simp add: seed_step) }
  { case 3 then show ?case
    proof (cases "d = Some x")
      case True
      then have "x = '''' \<or> x \<in> set (seeded (seed_dex u w d) u)" by (rule seed_step(4))
      then show ?thesis using seed_mono [of "seed_dex u w d" u u ds] by auto
    next
      case False
      then show ?thesis using 3 Cons.IH(3) by simp
    qed }
  { case 4 then show ?case using Cons.IH(4) seed_step(5) by auto }
  { case 5 then show ?case using Cons.IH(5) by (simp add: seed_step) }
qed auto

lemma seed_noop: "(\<And>x. d = Some x \<Longrightarrow> x = '''' \<or> x \<in> set (seeded w u)) \<Longrightarrow> seed_dex u w d = w"
  by (auto simp: seed_dex_def split: option.split)

lemma seed_all_noop:
  "(\<And>x. Some x \<in> set ds \<Longrightarrow> x = '''' \<or> x \<in> set (seeded w u)) \<Longrightarrow> foldl (seed_dex u) w ds = w"
  by (induction ds) (simp_all add: seed_noop)

lemma ensure_settled: "settled w u \<Longrightarrow> ensureAccount E b u w = w"
  by (auto simp: settled_def ensureAccount_def Let_def seed_all_noop split: option.split)

definition opened :: "env \<Rightarrow> rat \<Rightarrow> user \<Rightarrow> sys \<Rightarrow> sys" where
  \<comment> \<open>ensureAccount before the fields of the exchanges are added\<close>
  "opened E b u w =
    (let ex = account_exists w u; isSub = (\<not> ex \<and> subMaster w u \<noteq> None);
         w1 = (if ex then w
               else (store_bal (u, Spot) 0 (store_bal (u, Perp '''') (if isSub then 0 else b) w))
                 \<lparr>accountSince := (accountSince w)(u := Some (now E))\<rparr>)
     in if \<not> ex \<and> \<not> isSub then emit_core (LedgerRow u (now E) ''deposit'' b) w1 else w1)"

lemma opened_facts:
  "perpDexs (core (opened E b u w)) = perpDexs (core w)"
  "accountSince (opened E b u w) u \<noteq> None \<or> (account_exists w u \<and> opened E b u w = w)"
  "fst k \<noteq> u \<Longrightarrow> stored (opened E b u w) k = stored w k"
  by (auto simp: opened_def Let_def)

lemma ensure_opened:
  "ensureAccount E b u w =
    (case perpDexs (core w) of None \<Rightarrow> opened E b u w | Some ds \<Rightarrow> foldl (seed_dex u) (opened E b u w) ds)"
proof -
  have "ensureAccount E b u w =
    (case perpDexs (core (opened E b u w)) of None \<Rightarrow> opened E b u w | Some ds \<Rightarrow> foldl (seed_dex u) (opened E b u w) ds)"
    unfolding ensureAccount_def opened_def Let_def ..
  then show ?thesis unfolding opened_facts(1) .
qed

lemma settled_ensure: "settled (ensureAccount E b u w) u"
proof (cases "perpDexs (core w)")
  case None
  then show ?thesis using opened_facts(1,2) [of E b u w]
    by (auto simp: ensure_opened settled_def account_exists_def)
next
  case (Some ds)
  let ?w = "opened E b u w"
  have "account_exists (foldl (seed_dex u) ?w ds) u"
  proof (cases "accountSince ?w u = None")
    case True
    then have "account_exists ?w u" using opened_facts(2) [of E b u w] by auto
    then show ?thesis using True seed_all(4) [of ?w _ u ds] by (auto simp: account_exists_def)
  qed (simp add: account_exists_def seed_all(2))
  then show ?thesis using Some seed_all(3) [of _ ds u ?w]
    by (auto simp: ensure_opened settled_def seed_all(1) opened_facts(1))
qed

lemma ensure_others: "fst k \<noteq> u \<Longrightarrow> stored (ensureAccount E b u w) k = stored w k"
  by (simp add: ensure_opened seed_all(5) opened_facts(3) split: option.split)

definition same_book :: "sys \<Rightarrow> sys \<Rightarrow> bool" where
  \<comment> \<open>orders, positions and the lists of both\<close>
  "same_book w w' \<longleftrightarrow>
    orders (core w') = orders (core w) \<and> userOrders (core w') = userOrders (core w) \<and>
    pos (core w') = pos (core w) \<and> posSet (core w') = posSet (core w)"

lemma book_store: "same_book w w' \<Longrightarrow> same_book w (store_bal k v w')"
  by (cases k; cases "snd k"; auto simp: same_book_def store_bal.simps)

lemma book_emit: "same_book w w' \<Longrightarrow> same_book w (emit_core ev w')"
  by (simp add: same_book_def emit_core_def emit_def)

lemma book_since: "same_book w w' \<Longrightarrow> same_book w (w'\<lparr>accountSince := f\<rparr>)"
  by (simp add: same_book_def)

lemma book_refl: "same_book w w"
  by (simp add: same_book_def)

lemma book_seed: "same_book w w' \<Longrightarrow> same_book w (seed_dex u w' d)"
  using book_store [of w w'] by (auto simp: seed_dex_def same_book_def split: option.split)

lemma book_seeds: "same_book w w' \<Longrightarrow> same_book w (foldl (seed_dex u) w' ds)"
  by (induction ds arbitrary: w') (auto intro: book_seed)

lemma book_opened: "same_book w (opened E b u w)"
  by (simp add: opened_def Let_def book_emit book_since book_store book_refl)

lemma book_ensure: "same_book w (ensureAccount E b u w)"
  by (auto simp: ensure_opened intro: book_seeds book_opened split: option.split)

definition opened_info :: "rat \<Rightarrow> info_env \<Rightarrow> info_request \<Rightarrow> info_sys \<Rightarrow> info_sys" where
  \<comment> \<open>the state in which the switch runs\<close>
  "opened_info b N q S =
    (case body_user q of None \<Rightarrow> S | Some v \<Rightarrow> S\<lparr>is_sys := ensureAccount (ie_env N) b v (is_sys S)\<rparr>)"

lemma opened_live: "opened_info b (N\<lparr>ie_live := x\<rparr>) q S = opened_info b N q S"
  unfolding opened_info_def live_frame ..

subsection \<open>The properties\<close>



subsection \<open>How old a passed answer can be\<close>

definition info_run :: "rat \<Rightarrow> (info_env \<times> info_request) list \<Rightarrow> info_sys \<Rightarrow> info_sys" where
  "info_run b reqs S = foldl (\<lambda>S (N, q). snd (info_handler b N q S)) S reqs"

definition cache_ok :: "(info_env \<times> info_request) list \<Rightarrow> info_sys \<Rightarrow> bool" where
  \<comment> \<open>every entry is the answer to an earlier request with the text of its key\<close>
  "cache_ok reqs S \<longleftrightarrow>
    (\<forall>k d ex. (k, d, ex) \<in> set (is_cache S) \<longrightarrow>
      (\<exists>(N, q) \<in> set reqs. iq_text q = k \<and> ie_live N = Some d \<and> ex = now (ie_env N) + proxy_ttl q))"

lemma set_update: "x \<in> set (AList.update k v al) \<Longrightarrow> x = (k, v) \<or> x \<in> set al"
  by (induction al) (auto split: if_splits)

lemma proxy_ttl_pos: "0 < proxy_ttl q"
  by (auto simp: proxy_ttl_def PROXY_TTL_def DEFAULT_PROXY_TTL_def split: option.split)

lemma set_purge: "x \<in> set (purge_proxy t cache) \<Longrightarrow> x \<in> set cache"
  by (auto simp: purge_proxy_def split: if_splits)

lemma cache_ok_proxy:
  assumes "cache_ok reqs S"
  shows "cache_ok (reqs @ [(N, q)]) (snd (cachedProxyToHL N q S))"
proof -
  have old: "cache_ok (reqs @ [(N, q)]) S" using assms by (fastforce simp: cache_ok_def)
  have new: "cache_ok (reqs @ [(N, q)]) (S\<lparr>is_cache := purge_proxy t (AList.update (iq_text q) (d, now (ie_env N) + proxy_ttl q) (is_cache S))\<rparr>)"
    if "ie_live N = Some d" for d t
    using old that unfolding cache_ok_def by (auto dest!: set_purge set_update)
  show ?thesis unfolding cachedProxyToHL_def Let_def using old new by (auto split: option.split)
qed

lemma local_cache [simp]: "is_cache (snd (local_read N q u ty S)) = is_cache S"
  by (simp add: local_read_def user_read_def getUserFees_def Let_def getGlobalFeeSchedule_def split: option.split prod.split)

lemma cache_ok_cong: "is_cache S' = is_cache S \<Longrightarrow> cache_ok reqs S' = cache_ok reqs S"
  by (simp add: cache_ok_def)

lemma cache_ok_more: "cache_ok reqs S \<Longrightarrow> cache_ok (reqs @ more_reqs) S"
  by (fastforce simp: cache_ok_def)


lemma opened_cache [simp]: "is_cache (opened_info b N q S) = is_cache S"
  by (simp add: opened_info_def split: option.split)

lemma handler_parts:
  "info_handler b N q S = (R_Error MissingType, S) \<or> info_handler b N q S = cachedProxyToHL N q S \<or>
   (\<exists>u lt. info_handler b N q S = local_read N q u lt (opened_info b N q S)) \<or>
   info_handler b N q S = cachedProxyToHL N q (opened_info b N q S) \<or>
   info_handler b N q S = (R_Empty, opened_info b N q S)"
  by (auto simp: info_handler_def opened_info_def unknown_read_def Let_def split: option.split)

lemma cache_ok_handler:
  assumes "cache_ok reqs S"
  shows "cache_ok (reqs @ [(N, q)]) (snd (info_handler b N q S))"
proof -
  let ?S = "opened_info b N q S"
  have o: "cache_ok reqs ?S" using assms cache_ok_cong [of ?S S] by simp
  have l: "cache_ok (reqs @ [(N, q)]) (snd (local_read N q u lt ?S))" for u lt
    using cache_ok_cong [of "snd (local_read N q u lt ?S)" S] cache_ok_more [OF assms] by simp
  from handler_parts [of b N q S] show ?thesis
    using cache_ok_proxy [OF assms] cache_ok_proxy [OF o] cache_ok_more [OF assms] cache_ok_more [OF o] l by auto
qed

lemma cache_ok_run: "is_cache S = [] \<Longrightarrow> cache_ok reqs (info_run b reqs S)"
proof (induction reqs rule: rev_induct)
  case Nil
  then show ?case by (simp add: cache_ok_def info_run_def)
next
  case (snoc x reqs)
  then show ?case using cache_ok_handler by (cases x) (simp add: info_run_def)
qed

lemma no_live_local:
  "fst (local_read N q u lt S) \<noteq> R_Live d"
proof -
  have o: "open_read N q v lt w \<noteq> Some (R_Live d)" for v w
    by (cases lt; simp only: open_read.simps; simp split: option.split)
  have w: "wallet_read N q v lt w \<noteq> Some (R_Live d)" for v w
    by (cases lt; simp only: wallet_read.simps; simp split: option.split)
  have t: "trade_read N q v lt w \<noteq> R_Live d" for v w
    by (cases lt; simp only: trade_read.simps; simp split: option.split)
  show ?thesis
    by (auto simp: local_read_def user_read_def o w t split: option.split prod.split)
qed

lemma proxy_answer:
  assumes "cache_ok reqs S" "fst (cachedProxyToHL N q S) = R_Live d"
  shows "\<exists>(N', q') \<in> set (reqs @ [(N, q)]). iq_text q' = iq_text q \<and> ie_live N' = Some d \<and>
    now (ie_env N) < now (ie_env N') + proxy_ttl q'"
proof (cases "\<exists>ex. (iq_text q, d, ex) \<in> set (is_cache S) \<and> now (ie_env N) < ex")
  case True
  then show ?thesis using assms(1) by (fastforce simp: cache_ok_def)
next
  case False
  then have "ie_live N = Some d"
    using assms(2) map_of_SomeD [of "is_cache S" "iq_text q"]
    by (auto simp: cachedProxyToHL_def Let_def split: option.splits if_splits prod.splits)
  then show ?thesis using proxy_ttl_pos [of q] by auto
qed

text \<open>
  An answer passed on from live Hyperliquid, cached or not, is what it answered to a request
  with the same body, less than the time to live of that request's type ago.
\<close>
theorem passed_answers_are_fresh:
  assumes "is_cache S = []" "fst (info_handler b N q (info_run b reqs S)) = R_Live d"
  shows "\<exists>(N', q') \<in> set (reqs @ [(N, q)]). iq_text q' = iq_text q \<and> ie_live N' = Some d \<and>
    now (ie_env N) < now (ie_env N') + proxy_ttl q'"
proof -
  let ?S = "info_run b reqs S"
  have c: "cache_ok reqs ?S" using assms(1) by (rule cache_ok_run)
  then have c': "cache_ok reqs (opened_info b N q ?S)" by (simp add: cache_ok_cong [OF opened_cache])
  from handler_parts [of b N q ?S] have
    "fst (cachedProxyToHL N q ?S) = R_Live d \<or> fst (cachedProxyToHL N q (opened_info b N q ?S)) = R_Live d"
    by (elim disjE exE; insert assms(2); simp add: no_live_local)
  then show ?thesis by (elim disjE) (rule proxy_answer [OF c], assumption, rule proxy_answer [OF c'])
qed

subsection \<open>The views of sub-accounts and vaults\<close>

lemma followers_hold:
  assumes "set scanned = {f. vaultEquities w f (lower va) \<noteq> None}"
  shows "getUserVaultEquities w u (lower va) = Some e \<longleftrightarrow>
    (\<exists>since. (u, e, since) \<in> set (vv_followers (getVaultDetails scanned w va v)))"
proof -
  have m: "x \<in> set (List.map_filter (\<lambda>f. map_option (\<lambda>e. (f, e, t)) (g f)) xs) \<longleftrightarrow>
      (\<exists>f e. f \<in> set xs \<and> g f = Some e \<and> x = (f, e, t))" for x xs g and t :: millis
    by (auto simp: map_filter_def image_iff split: option.splits)
  have "held_equity w (lower va) u = Some e \<Longrightarrow> u \<in> set scanned"
    using assms by (auto simp: held_equity_def split: option.splits)
  then show ?thesis
    by (auto simp: getUserVaultEquities_def getVaultDetails_def Let_def m)
qed

definition sub_with_spot :: sys where
  \<comment> \<open>a sub-account with 3 dollars in its native perp account and 5 in spot\<close>
  "sub_with_spot = empty_sys\<lparr>subAccounts := (\<lambda>x. if x = ''m'' then [(''s'', 7)] else []),
     subMeta := (\<lambda>x. if x = ''s'' then Some \<lparr>sm_name = ''sub'', sm_master = ''m'', sm_createdAt = 7\<rparr> else None),
     spotBal := (\<lambda>x. if x = ''s'' then Some 5 else None),
     core := empty_state\<lparr>balance := (\<lambda>x d. if x = ''s'' \<and> d = '''' then Some 3 else None)\<rparr>\<rparr>"

lemma sub_spot_total_is_perp:
  "map sv_spotTotal (getSubAccounts sample_env sub_with_spot ''m'') = [3]"
  "trade_read N q ''s'' Q_spotClearinghouseState sub_with_spot = R_Spot 5"
  by (simp_all add: getSubAccounts_def sub_view_def sub_with_spot_def amount_in_def stored.simps map_filter_def)

lemma listing_wipes_balance:
  assumes "account_exists w u" "perpDexs (core w) = Some ds" "Some d \<in> set ds" "d \<noteq> ''''" "d \<notin> set (seeded w u)"
  shows "stored (ensureAccount E b u w) (u, Perp d) = Some 0"
proof -
  have zero: "stored (foldl (seed_dex u) w xs) (u, Perp d) = Some 0"
    if "Some d \<in> set xs \<and> d \<notin> set (seeded w u) \<or> d \<in> set (seeded w u) \<and> stored w (u, Perp d) = Some 0" for xs w
    using that
  proof (induction xs arbitrary: w)
    case (Cons x xs)
    have "Some d \<in> set xs \<and> d \<notin> set (seeded (seed_dex u w x) u) \<or>
        d \<in> set (seeded (seed_dex u w x) u) \<and> stored (seed_dex u w x) (u, Perp d) = Some 0"
      using Cons.prems assms(4) by (auto simp: seed_dex_def split: option.split)
    then show ?case using Cons.IH by simp
  qed simp
  have "opened E b u w = w" using assms(1) by (simp add: opened_def Let_def)
  then show ?thesis using assms(2,3,5) zero [of ds w] by (simp add: ensure_opened)
qed

subsection \<open>Witnesses\<close>

definition sample_info_env :: info_env where
  "sample_info_env = \<lparr>ie_env = sample_env, ie_live = None, ie_fee = None, ie_rows = \<lambda>_ _. [],
     ie_netDeposits = \<lambda>_. 0, ie_volumeSince = \<lambda>_ _. 0, ie_scan = [], ie_trailingLive = True\<rparr>"

definition sample_read :: "string \<Rightarrow> info_request" where
  "sample_read ty = \<lparr>iq_type = Some ty, iq_user = Some ''0xAb'', iq_dex = None, iq_coin = None,
     iq_vaultAddress = None, iq_oid = None, iq_builder = None, iq_startTime = None, iq_endTime = None,
     iq_limit = None, iq_text = ty\<rparr>"

definition fresh_info :: info_sys where
  "fresh_info = \<lparr>is_sys = empty_sys, is_cache = [], is_fee = None, is_avhist = \<lambda>_. []\<rparr>"



theorem passed_answers_are_fresh_witness:
  "\<exists>(N', q') \<in> {(sample_info_env\<lparr>ie_live := Some ''book''\<rparr>, sample_read ''l2Book''), (sample_info_env, sample_read ''l2Book'')}.
    ie_live N' = Some ''book'' \<and> now (ie_env sample_info_env) < now (ie_env N') + proxy_ttl q'"
proof -
  let ?q = "sample_read ''l2Book''"
  have "fst (info_handler 10000 sample_info_env ?q (info_run 10000 [(sample_info_env\<lparr>ie_live := Some ''book''\<rparr>, ?q)] fresh_info)) = R_Live ''book''"
    by (simp add: info_run_def info_handler_def sample_read_def given_def proxied_type_def PROXY_TTL_def
      cachedProxyToHL_def Let_def fresh_info_def sample_info_env_def proxy_ttl_def purge_proxy_def)
  from passed_answers_are_fresh [OF _ this] show ?thesis by (auto simp: fresh_info_def)
qed

end
