(* ===== verification/Signing.thy ===== *)
theory Signing
  imports JsHex "HOL-Library.Word"
begin

text \<open>
  How a request gets its wallet: api/middleware/recoverHlSigner.ts, recoverUserSignedAction.ts and
  internal.ts, and the front of api/routes/exchange.ts. msgpack, keccak and verifyTypedData, which
  the packages provide, are the record \<open>crypto\<close>; an action is any JSON value with the three fields
  the code reads. A number is the rational it stands for, and a vault address has the type of a
  string, as the route demands of it right after. A trailing stop is already in its canonical form.
\<close>

type_synonym bytes = "8 word list"

record Signature =
  sg_r :: string
  sg_s :: string
  sg_v :: nat

record 'a RawAction =
  ra_type :: string
  ra_hyperliquidChain :: "string option"
  ra_signatureChainId :: "string option"
  ra_json :: 'a

record Domain =
  dm_name :: string
  dm_version :: string
  dm_chainId :: int
  dm_verifyingContract :: string

datatype 'a Typed =
    AgentMessage string string \<comment> \<open>source, connectionId\<close>
  | ActionMessage string "(string \<times> string) list" "'a RawAction" \<comment> \<open>primaryType, fields, action\<close>

record 'a crypto =
  msgpackEncode :: "'a \<Rightarrow> bytes"
  keccakBytes :: "bytes \<Rightarrow> string"
  verifyTypedData :: "Domain \<Rightarrow> 'a Typed \<Rightarrow> string \<Rightarrow> string option"

subsection \<open>Actions of the trading engine\<close>

definition be8 :: "int \<Rightarrow> bytes" where
  \<comment> \<open>setBigUint64, big-endian, modulo 2 ^ 64\<close>
  "be8 n = map (\<lambda>i. word_of_int (n div 256 ^ i)) (rev [0..<8])"

definition to_bigint :: "rat \<Rightarrow> int option" where
  \<comment> \<open>BigInt throws on a fraction\<close>
  "to_bigint x = (if of_int \<lfloor>x\<rfloor> = x then Some \<lfloor>x\<rfloor> else None)"

definition un_0x :: "string \<Rightarrow> string" where
  "un_0x s = (if starts_with ''0x'' s then drop 2 s else s)"

definition hexToBytes :: "string \<Rightarrow> bytes" where
  \<comment> \<open>an odd digit at the end is dropped, and NaN is stored as 0\<close>
  "hexToBytes s =
    (let clean = un_0x s
     in map (\<lambda>i. word_of_int (case parse_hex (take 2 (drop (2 * i) clean)) of None \<Rightarrow> 0 | Some n \<Rightarrow> n))
          [0..<length clean div 2])"

definition connection_bytes :: "bytes \<Rightarrow> int \<Rightarrow> string option \<Rightarrow> int option \<Rightarrow> bytes" where
  "connection_bytes packed nonce vault expiresAfter =
    packed @ be8 nonce @
    (case vault of None \<Rightarrow> [0] | Some v \<Rightarrow> if v = '''' then [0] else 1 # hexToBytes v) @
    (case expiresAfter of None \<Rightarrow> [] | Some e \<Rightarrow> 0 # be8 e)"

definition buildConnectionId :: "'a crypto \<Rightarrow> 'a \<Rightarrow> rat \<Rightarrow> string option \<Rightarrow> rat option \<Rightarrow> string option" where
  \<comment> \<open>\<open>None\<close> when a conversion throws\<close>
  "buildConnectionId X action nonce vault expiresAfter =
    (case (to_bigint nonce, case expiresAfter of None \<Rightarrow> Some None | Some e \<Rightarrow> map_option Some (to_bigint e)) of
      (Some n, Some ex) \<Rightarrow> Some (keccakBytes X (connection_bytes (msgpackEncode X action) n vault ex))
    | _ \<Rightarrow> None)"

definition PAPER_SOURCE :: string where
  "PAPER_SOURCE = ''b''"

definition no_contract :: string where
  "no_contract = ''0x'' @ replicate 40 (CHR ''0'')"

definition HL_EIP712_DOMAIN :: Domain where
  "HL_EIP712_DOMAIN =
    \<lparr>dm_name = ''Exchange'', dm_version = ''1'', dm_chainId = 1337, dm_verifyingContract = no_contract\<rparr>"

definition sig_hex :: "Signature \<Rightarrow> string" where
  "sig_hex sg = ''0x'' @ un_0x (sg_r sg) @ un_0x (sg_s sg) @ pad_start 2 (CHR ''0'') (show_hex (sg_v sg))"

definition recoverHlSigner ::
    "'a crypto \<Rightarrow> 'a \<Rightarrow> rat \<Rightarrow> Signature \<Rightarrow> string option \<Rightarrow> rat option \<Rightarrow> string option" where
  "recoverHlSigner X action nonce sg vault expiresAfter =
    (case buildConnectionId X action nonce vault expiresAfter of None \<Rightarrow> None
     | Some connectionId \<Rightarrow>
         map_option lower (verifyTypedData X HL_EIP712_DOMAIN (AgentMessage PAPER_SOURCE connectionId) (sig_hex sg)))"

subsection \<open>User-signed actions\<close>

definition chain_field :: "string \<times> string" where
  "chain_field = (''hyperliquidChain'', ''string'')"

definition USER_SIGNED_SPECS :: "(string \<times> string \<times> (string \<times> string) list) list" where
  "USER_SIGNED_SPECS =
    [(''usdSend'', ''HyperliquidTransaction:UsdSend'',
       [chain_field, (''destination'', ''string''), (''amount'', ''string''), (''time'', ''uint64'')]),
     (''spotSend'', ''HyperliquidTransaction:SpotSend'',
       [chain_field, (''destination'', ''string''), (''token'', ''string''), (''amount'', ''string''),
        (''time'', ''uint64'')]),
     (''withdraw3'', ''HyperliquidTransaction:Withdraw'',
       [chain_field, (''destination'', ''string''), (''amount'', ''string''), (''time'', ''uint64'')]),
     (''usdClassTransfer'', ''HyperliquidTransaction:UsdClassTransfer'',
       [chain_field, (''amount'', ''string''), (''toPerp'', ''bool''), (''nonce'', ''uint64'')]),
     (''sendAsset'', ''HyperliquidTransaction:SendAsset'',
       [chain_field, (''destination'', ''string''), (''sourceDex'', ''string''), (''destinationDex'', ''string''),
        (''token'', ''string''), (''amount'', ''string''), (''fromSubAccount'', ''string''), (''nonce'', ''uint64'')]),
     (''convertToMultiSigUser'', ''HyperliquidTransaction:ConvertToMultiSigUser'',
       [chain_field, (''signers'', ''string''), (''nonce'', ''uint64'')]),
     (''approveAgent'', ''HyperliquidTransaction:ApproveAgent'',
       [chain_field, (''agentAddress'', ''address''), (''agentName'', ''string''), (''nonce'', ''uint64'')]),
     (''approveBuilderFee'', ''HyperliquidTransaction:ApproveBuilderFee'',
       [chain_field, (''maxFeeRate'', ''string''), (''builder'', ''address''), (''nonce'', ''uint64'')]),
     (''tokenDelegate'', ''HyperliquidTransaction:TokenDelegate'',
       [chain_field, (''validator'', ''address''), (''wei'', ''uint64''), (''isUndelegate'', ''bool''),
        (''nonce'', ''uint64'')])]"

definition user_signed_type :: "string \<Rightarrow> bool" where
  "user_signed_type t \<longleftrightarrow> map_of USER_SIGNED_SPECS t \<noteq> None"

definition PAPER_HYPERLIQUID_CHAIN :: string where
  "PAPER_HYPERLIQUID_CHAIN = ''Testnet''"

definition user_domain :: "int \<Rightarrow> Domain" where
  "user_domain chainId =
    \<lparr>dm_name = ''HyperliquidSignTransaction'', dm_version = ''1'', dm_chainId = chainId, dm_verifyingContract = no_contract\<rparr>"

definition recoverUserSignedAction :: "'a crypto \<Rightarrow> 'a RawAction \<Rightarrow> Signature \<Rightarrow> string option" where
  \<comment> \<open>\<open>None\<close> for each of the errors it throws\<close>
  "recoverUserSignedAction X a sg =
    (case map_of USER_SIGNED_SPECS (ra_type a) of None \<Rightarrow> None
     | Some (primaryType, flds) \<Rightarrow>
         if ra_hyperliquidChain a \<noteq> Some PAPER_HYPERLIQUID_CHAIN then None
         else (case Option.bind (ra_signatureChainId a) parse_hex of None \<Rightarrow> None
           | Some chainId \<Rightarrow>
               map_option lower (verifyTypedData X (user_domain chainId) (ActionMessage primaryType flds a) (sig_hex sg))))"

subsection \<open>The wallet of a request\<close>

definition isInternalRequest :: "string \<Rightarrow> string option \<Rightarrow> bool" where
  \<comment> \<open>the secret of the configuration, empty when unset, and the header\<close>
  "isInternalRequest secret presented =
    (if secret = '''' then False
     else case presented of None \<Rightarrow> False | Some p \<Rightarrow> p \<noteq> '''' \<and> length p = length secret \<and> p = secret)"

record 'a Body =
  bd_action :: "'a RawAction option"
  bd_nonce :: "rat option"
  bd_signature :: "Signature option"
  bd_vaultAddress :: "string option"
  bd_expiresAfter :: "rat option"
  bd_wallet :: "string option"

datatype WalletError = SignatureRecoveryFailed | UnsignedNotAccepted | MissingSignature

definition unsigned_wallet :: "string \<Rightarrow> string option \<Rightarrow> string option \<Rightarrow> WalletError + string" where
  "unsigned_wallet secret presented wallet =
    (case wallet of None \<Rightarrow> Inl MissingSignature
     | Some u \<Rightarrow> if isInternalRequest secret presented then Inr (lower u) else Inl UnsignedNotAccepted)"

definition wallet_of :: "'a crypto \<Rightarrow> string \<Rightarrow> string option \<Rightarrow> 'a Body \<Rightarrow> WalletError + string" where
  "wallet_of X secret presented b =
    (case (bd_signature b, bd_action b, bd_nonce b) of
      (Some sg, Some a, Some n) \<Rightarrow>
        (case (if user_signed_type (ra_type a) then recoverUserSignedAction X a sg
               else recoverHlSigner X (ra_json a) n sg (bd_vaultAddress b) (bd_expiresAfter b)) of
           None \<Rightarrow> Inl SignatureRecoveryFailed | Some u \<Rightarrow> Inr u)
    | _ \<Rightarrow> unsigned_wallet secret presented (bd_wallet b))"

subsection \<open>Bytes\<close>

lemma be_inj:
  "map (\<lambda>i. word_of_int (n div 256 ^ i) :: 8 word) (rev [0..<k]) = map (\<lambda>i. word_of_int (m div 256 ^ i)) (rev [0..<k]) \<Longrightarrow>
   n mod 256 ^ k = m mod (256 ^ k :: int)"
proof (induction k)
  case (Suc k)
  have "n div 256 ^ k mod 256 = m div 256 ^ k mod 256"
    using Suc.prems by (simp add: word_of_int_eq_iff take_bit_eq_mod)
  moreover have "n mod 256 ^ k = m mod 256 ^ k" using Suc by simp
  ultimately show ?case unfolding power_Suc2 by (simp add: zmod_zmult2_eq)
qed simp

lemma be8_inj: "be8 n = be8 m \<Longrightarrow> 0 \<le> n \<Longrightarrow> n < 2 ^ 64 \<Longrightarrow> 0 \<le> m \<Longrightarrow> m < 2 ^ 64 \<Longrightarrow> n = m"
  using be_inj [of n 8 m] by (simp add: be8_def)

lemma length_be8 [simp]: "length (be8 n) = 8"
  by (simp add: be8_def)

lemma be8_wraps: "be8 (n + 2 ^ 64) = be8 n"
proof -
  have "word_of_int ((n + 2 ^ 64) div 256 ^ i) = (word_of_int (n div 256 ^ i) :: 8 word)" if "i < 8" for i
  proof -
    have "(2 :: int) ^ 64 = 256 ^ (8 - i) * 256 ^ i" using that by (simp flip: power_add)
    then have "(n + 2 ^ 64) div 256 ^ i = (n + 256 ^ (8 - i) * 256 ^ i) div 256 ^ i" by (simp only:)
    also have "\<dots> = n div 256 ^ i + 256 ^ (8 - i)" by simp
    finally have "(n + 2 ^ 64) div 256 ^ i = n div 256 ^ i + 256 ^ (8 - i)" .
    moreover have "(256 :: int) ^ (8 - i) = 256 * 256 ^ (7 - i)" using that by (simp flip: power_Suc add: Suc_diff_Suc)
    moreover have "word_of_int (q + 256 * z) = (word_of_int q :: 8 word)" for q z :: int
      unfolding word_of_int_eq_iff take_bit_eq_mod by simp
    ultimately show ?thesis by (simp only:)
  qed
  then show ?thesis by (simp add: be8_def)
qed

lemma take_pair: "2 * i + 1 < length xs \<Longrightarrow> take 2 (drop (2 * i) xs) = [xs ! (2 * i), xs ! (2 * i + 1)]"
  by (simp add: take_Suc_conv_app_nth numeral_2_eq_2)

lemma hex_string_body:
  assumes "hex_string 40 v"
  shows "un_0x v = drop 2 v" "length (drop 2 v) = 40" "v = ''0x'' @ drop 2 v" "\<forall>i < 40. \<exists>d. hex_digit (drop 2 v ! i) = Some d"
proof -
  have h: "starts_with ''0x'' v" "length v = 42" "list_all is_hex (drop 2 v)" using assms by (simp_all add: hex_string_def)
  show "un_0x v = drop 2 v" "length (drop 2 v) = 40" using h by (simp_all add: un_0x_def)
  show "v = ''0x'' @ drop 2 v" using h(1) by (cases v rule: list.exhaust; cases "tl v") auto
  show "\<forall>i < 40. \<exists>d. hex_digit (drop 2 v ! i) = Some d"
  proof (intro allI impI)
    fix i :: nat assume "i < 40"
    then have "is_hex (drop 2 v ! i)" using h(2,3) unfolding list_all_length by simp
    then show "\<exists>d. hex_digit (drop 2 v ! i) = Some d" unfolding is_hex_digit by blast
  qed
qed

lemma length_vault: "hex_string 40 v \<Longrightarrow> length (hexToBytes v) = 20"
  using hex_string_body(1,2) [of v] by (simp add: hexToBytes_def)

lemma vault_byte:
  assumes "hex_string 40 v" "i < 20" "hex_digit (drop 2 v ! (2 * i)) = Some d" "hex_digit (drop 2 v ! (2 * i + 1)) = Some e"
  shows "hexToBytes v ! i = word_of_int (int (16 * d + e))"
proof -
  note b = hex_string_body [OF assms(1)]
  have "take 2 (drop (2 * i) (drop 2 v)) = [drop 2 v ! (2 * i), drop 2 v ! (2 * i + 1)]"
    using assms(2) b(2) by (intro take_pair) simp
  then have "parse_hex (take 2 (drop (2 * i) (drop 2 v))) = Some (int (16 * d + e))"
    using parse_hex_pair [OF assms(3,4)] by (simp only:)
  moreover have "hexToBytes v ! i =
      word_of_int (case parse_hex (take 2 (drop (2 * i) (drop 2 v))) of None \<Rightarrow> 0 | Some n \<Rightarrow> n)"
    unfolding hexToBytes_def b(1) Let_def b(2) using assms(2) by (subst nth_map) simp_all
  ultimately show ?thesis by (simp only: option.case)
qed

lemma hexToBytes_inj:
  assumes v: "hex_string 40 v" and v': "hex_string 40 v'" and eq: "hexToBytes v = hexToBytes v'"
  shows "lower v = lower v'"
proof -
  note b = hex_string_body [OF v] and b' = hex_string_body [OF v']
  have pair: "lower_char (drop 2 v ! (2 * i)) = lower_char (drop 2 v' ! (2 * i)) \<and>
      lower_char (drop 2 v ! (2 * i + 1)) = lower_char (drop 2 v' ! (2 * i + 1))" if i: "i < 20" for i
  proof -
    obtain d e where de: "hex_digit (drop 2 v ! (2 * i)) = Some d" "hex_digit (drop 2 v ! (2 * i + 1)) = Some e"
      using b(4) [rule_format, of "2 * i"] b(4) [rule_format, of "2 * i + 1"] i by auto
    obtain d' e' where de': "hex_digit (drop 2 v' ! (2 * i)) = Some d'" "hex_digit (drop 2 v' ! (2 * i + 1)) = Some e'"
      using b'(4) [rule_format, of "2 * i"] b'(4) [rule_format, of "2 * i + 1"] i by auto
    have "(word_of_int (int (16 * d + e)) :: 8 word) = word_of_int (int (16 * d' + e'))"
      using eq vault_byte [OF v i de] vault_byte [OF v' i de'] by (simp only:)
    then have "int (16 * d + e) mod 256 = int (16 * d' + e') mod 256"
      unfolding word_of_int_eq_iff take_bit_eq_mod by simp
    moreover have b16: "d < 16" "e < 16" "d' < 16" "e' < 16" using de de' by (auto dest: hex_digit_bound)
    ultimately have "16 * d + e = 16 * d' + e'" by simp
    moreover from b16 have "(16 * d + e) div 16 = d" "(16 * d' + e') div 16 = d'" by simp_all
    ultimately have "d = d'" "e = e'" by simp_all
    then show ?thesis using hex_digit_inj de de' by blast
  qed
  have "map lower_char (drop 2 v) = map lower_char (drop 2 v')"
  proof (rule nth_equalityI)
    fix k assume "k < length (map lower_char (drop 2 v))"
    then have k: "k < 40" using b(2) by simp
    then have "k div 2 < 20" by simp
    from pair [OF this] have "lower_char (drop 2 v ! k) = lower_char (drop 2 v' ! k)"
      by (cases "even k") (simp_all add: odd_two_times_div_two_succ)
    then show "map lower_char (drop 2 v) ! k = map lower_char (drop 2 v') ! k" using k b(2) b'(2) by simp
  qed (simp only: length_map b(2) b'(2))
  then have "map lower_char (''0x'' @ drop 2 v) = map lower_char (''0x'' @ drop 2 v')" by simp
  then show ?thesis unfolding lower_def using b(3) b'(3) by (simp only:)
qed

subsection \<open>What a signature covers\<close>

definition self_delimiting :: "'a crypto \<Rightarrow> bool" where
  \<comment> \<open>no msgpack value is a proper prefix of another\<close>
  "self_delimiting X \<longleftrightarrow>
    (\<forall>a b xs ys. msgpackEncode X a @ xs = msgpackEncode X b @ ys \<longrightarrow> msgpackEncode X a = msgpackEncode X b)"

definition uint64 :: "int \<Rightarrow> bool" where
  "uint64 n \<longleftrightarrow> 0 \<le> n \<and> n < 2 ^ 64"

definition signable :: "int \<Rightarrow> string option \<Rightarrow> int option \<Rightarrow> bool" where
  "signable n vault ex \<longleftrightarrow> uint64 n \<and> pred_option (hex_string 40) vault \<and> pred_option uint64 ex"

definition vault_part :: "string option \<Rightarrow> bytes" where
  "vault_part vault = (case vault of None \<Rightarrow> [0] | Some v \<Rightarrow> if v = '''' then [0] else 1 # hexToBytes v)"

lemma vault_part_inj:
  assumes "pred_option (hex_string 40) vault" "pred_option (hex_string 40) vault'" "vault_part vault @ xs = vault_part vault' @ ys"
  shows "map_option lower vault = map_option lower vault' \<and> xs = ys"
proof -
  have ne: "v \<noteq> ''''" if "hex_string 40 v" for v using that by (auto simp: hex_string_def)
  show ?thesis
  proof (cases vault; cases vault')
    fix v v' assume c: "vault = Some v" "vault' = Some v'"
    then have h: "hex_string 40 v" "hex_string 40 v'" using assms(1,2) by simp_all
    then have "hexToBytes v @ xs = hexToBytes v' @ ys" using assms(3) ne c by (simp add: vault_part_def)
    then have "hexToBytes v = hexToBytes v' \<and> xs = ys" using length_vault h by (metis append_eq_append_conv)
    then show ?thesis using hexToBytes_inj [OF h] c by simp
  qed (use assms ne in \<open>auto simp: vault_part_def\<close>)
qed

text \<open>
  C38. A signature covers the request: two requests whose nonces and expiries are 64-bit numbers and
  whose vault addresses are addresses have the same signed bytes only if they carry the same packed
  action, nonce, vault and expiry.
\<close>
theorem signed_bytes_cover_the_request:
  assumes "self_delimiting X" "signable n vault ex" "signable n' vault' ex'"
    and eq: "connection_bytes (msgpackEncode X a) n vault ex = connection_bytes (msgpackEncode X a') n' vault' ex'"
  shows "msgpackEncode X a = msgpackEncode X a' \<and> n = n' \<and> map_option lower vault = map_option lower vault' \<and> ex = ex'"
proof -
  have bytes: "connection_bytes p m w e = p @ be8 m @ vault_part w @ (case e of None \<Rightarrow> [] | Some e \<Rightarrow> 0 # be8 e)" for p m w e
    by (simp add: connection_bytes_def vault_part_def)
  have p: "msgpackEncode X a = msgpackEncode X a'"
    using assms(1) eq unfolding bytes self_delimiting_def by blast
  then have "be8 n @ vault_part vault @ (case ex of None \<Rightarrow> [] | Some e \<Rightarrow> 0 # be8 e) =
      be8 n' @ vault_part vault' @ (case ex' of None \<Rightarrow> [] | Some e \<Rightarrow> 0 # be8 e)" using eq by (simp add: bytes)
  then have n: "be8 n = be8 n'" and rest: "vault_part vault @ (case ex of None \<Rightarrow> [] | Some e \<Rightarrow> 0 # be8 e) =
      vault_part vault' @ (case ex' of None \<Rightarrow> [] | Some e \<Rightarrow> 0 # be8 e)"
    by (simp_all add: append_eq_append_conv)
  have "n = n'" using be8_inj [OF n] assms(2,3) by (simp add: signable_def uint64_def)
  moreover have "map_option lower vault = map_option lower vault' \<and>
      (case ex of None \<Rightarrow> [] | Some e \<Rightarrow> 0 # be8 e) = (case ex' of None \<Rightarrow> [] | Some e \<Rightarrow> 0 # be8 e)"
    using assms(2,3) rest by (intro vault_part_inj) (simp_all add: signable_def)
  moreover from this have "ex = ex'"
    using assms(2,3) be8_inj by (cases ex; cases ex') (auto simp: signable_def uint64_def)
  ultimately show ?thesis using p by blast
qed

text \<open>Beyond 64 bits it does not: an expiry and the expiry 2 ^ 64 later are signed alike.\<close>

lemma expiry_wraps: "connection_bytes p n vault (Some (e + 2 ^ 64)) = connection_bytes p n vault (Some e)"
  unfolding connection_bytes_def by (simp only: be8_wraps option.case)

subsection \<open>Who a request acts as\<close>

definition paper_message :: "'a crypto \<Rightarrow> 'a Body \<Rightarrow> 'a Typed \<Rightarrow> bool" where
  \<comment> \<open>about this request, and worthless on mainnet: source b, or a signed chain of Testnet\<close>
  "paper_message X b m \<longleftrightarrow>
    (case m of
      AgentMessage source connectionId \<Rightarrow> source = ''b'' \<and>
        (\<exists>a n ex. bd_action b = Some a \<and> bd_nonce b = Some (of_int n) \<and> bd_expiresAfter b = map_option of_int ex \<and>
          connectionId = keccakBytes X (connection_bytes (msgpackEncode X (ra_json a)) n (bd_vaultAddress b) ex))
    | ActionMessage primaryType flds a \<Rightarrow>
        bd_action b = Some a \<and> chain_field \<in> set flds \<and> ra_hyperliquidChain a = Some ''Testnet'')"

lemma specs_sign_the_chain: "map_of USER_SIGNED_SPECS t = Some (p, flds) \<Longrightarrow> chain_field \<in> set flds"
proof -
  have "\<forall>x \<in> set USER_SIGNED_SPECS. chain_field \<in> set (snd (snd x))" by (simp add: USER_SIGNED_SPECS_def)
  then show "map_of USER_SIGNED_SPECS t = Some (p, flds) \<Longrightarrow> chain_field \<in> set flds" by (auto dest!: map_of_SomeD)
qed

lemma bigint_back: "to_bigint x = Some n \<longleftrightarrow> x = of_int n"
  by (auto simp: to_bigint_def split: if_splits)

lemma connection_id:
  assumes "buildConnectionId X a n vault ex = Some c"
  shows "\<exists>i e. n = of_int i \<and> ex = map_option of_int e \<and> c = keccakBytes X (connection_bytes (msgpackEncode X a) i vault e)"
proof (cases ex)
  case None
  then show ?thesis using assms
    by (intro exI [of _ "\<lfloor>n\<rfloor>"] exI [of _ None]) (auto simp: buildConnectionId_def to_bigint_def split: if_splits)
next
  case (Some x)
  then show ?thesis using assms
    by (intro exI [of _ "\<lfloor>n\<rfloor>"] exI [of _ "Some \<lfloor>x\<rfloor>"]) (auto simp: buildConnectionId_def to_bigint_def split: if_splits)
qed


corollary no_secret_no_unsigned: "bd_signature b = None \<Longrightarrow> \<exists>e. wallet_of X '''' presented b = Inl e"
  by (simp add: wallet_of_def unsigned_wallet_def isInternalRequest_def split: option.split)

lemma fractional_nonce_unsigned:
  \<comment> \<open>BigInt throws, so a fractional nonce passes on user-signed and internal requests only\<close>
  "n \<noteq> of_int \<lfloor>n\<rfloor> \<Longrightarrow> recoverHlSigner X a n sg vault ex = None"
proof -
  assume "n \<noteq> of_int \<lfloor>n\<rfloor>"
  then have "to_bigint n = None" unfolding to_bigint_def by (simp only: if_False eq_commute)
  then show ?thesis by (simp add: recoverHlSigner_def buildConnectionId_def)
qed

subsection \<open>Witnesses\<close>

definition sample_crypto :: "nat crypto" where
  \<comment> \<open>actions are numbers packed into one byte each\<close>
  "sample_crypto = \<lparr>msgpackEncode = (\<lambda>n. [of_nat n]), keccakBytes = map (\<lambda>w. char_of (unat w)),
     verifyTypedData = (\<lambda>dom m sg. if sg = ''0xab1b'' then Some ''0xA'' else None)\<rparr>"

definition sample_body :: "nat Body" where
  "sample_body = \<lparr>bd_action = Some \<lparr>ra_type = ''order'', ra_hyperliquidChain = None, ra_signatureChainId = None, ra_json = 3\<rparr>,
     bd_nonce = Some 5, bd_signature = Some \<lparr>sg_r = ''0xa'', sg_s = ''b'', sg_v = 27\<rparr>, bd_vaultAddress = None,
     bd_expiresAfter = None, bd_wallet = None\<rparr>"

theorem signed_bytes_cover_the_request_witness:
  "connection_bytes (msgpackEncode sample_crypto 3) 5 None (Some 7) \<noteq> connection_bytes (msgpackEncode sample_crypto 3) 6 None (Some 7)"
proof
  assume eq: "connection_bytes (msgpackEncode sample_crypto 3) 5 None (Some 7) =
    connection_bytes (msgpackEncode sample_crypto 3) 6 None (Some 7)"
  have "self_delimiting sample_crypto" by (simp add: self_delimiting_def sample_crypto_def)
  from signed_bytes_cover_the_request [OF this _ _ eq] show False by (simp add: signable_def uint64_def)
qed


end
