(* ===== verification/PgSink.thy ===== *)
theory PgSink
  imports Views Recorded "HOL-Library.AList" "HOL-Library.Multiset"
begin

text \<open>
  The Postgres mirror of store/pg-sink.ts, store/pg-queries.ts and store/schema.ts: tables as lists
  of rows in the order of insertion, with their unique keys and foreign keys, the write of every
  event of the engine's bus, and the queries. A funding row, a flow of the ledger, a liquidation
  event or an activated TWAP on the bus stands for the call of the function that records it. The
  write queue runs one write after the other, so a write is one step; a write that violates a
  foreign key is lost, as the queue only logs it. Rows with equal sort keys come in the order of
  insertion, which SQL leaves open.
\<close>

subsection \<open>Tables\<close>

record StatusRow =
  os_oid :: oid
  os_user :: user
  os_status :: OrderStatus
  os_time :: millis
  os_body :: TrailingBody

record LedgerRec =
  lg_user :: user
  lg_time :: millis
  lg_type :: string
  lg_usdc :: rat
  lg_delta :: "LiquidationDelta option"

record FundingRec =
  fu_user :: user
  fu_time :: millis
  fu_coin :: coin
  fu_usdc :: rat
  fu_szi :: rat
  fu_rate :: rat

record TwapRow =
  tr_twapId :: nat
  tr_twap :: TwapHash
  tr_executedSize :: rat
  tr_executedNtl :: rat
  tr_activated :: bool
  tr_reason :: "TwapStatus option"
  tr_eventAt :: millis

record ConsentRec =
  cr_id :: rat
  cr_ts :: rat
  cr_ipHash :: "string option"
  cr_userAgent :: "string option"
  cr_policyVersion :: rat
  cr_analytics :: bool
  cr_advertising :: bool
  cr_adPersonalization :: bool

record pg =
  t_users :: "(user \<times> rat) list"
  t_orders :: "PaperOrder list"
  t_fills :: "(user \<times> PaperFill) list"
  t_status :: "StatusRow list"
  t_funding :: "FundingRec list"
  t_ledger :: "LedgerRec list"
  t_liquidations :: "LiquidationEvent list"
  t_twaps :: "TwapRow list"
  t_marginTables :: "(nat \<times> HlMarginTier list) list"
  t_assetMargin :: "(coin \<times> nat option \<times> nat) list"
  t_vault :: "(string \<times> rat \<times> millis) option"
  t_consent :: "ConsentRec list"

definition empty_pg :: pg where
  "empty_pg = \<lparr>t_users = [], t_orders = [], t_fills = [], t_status = [], t_funding = [], t_ledger = [],
     t_liquidations = [], t_twaps = [], t_marginTables = [], t_assetMargin = [], t_vault = None,
     t_consent = []\<rparr>"

definition known_user :: "pg \<Rightarrow> user \<Rightarrow> bool" where
  "known_user P u = list_ex (\<lambda>r. fst r = u) (t_users P)"

subsection \<open>Writes\<close>

definition refresh_row :: "PaperOrder \<Rightarrow> PaperOrder \<Rightarrow> PaperOrder" where
  \<comment> \<open>what a conflict on the oid updates\<close>
  "refresh_row ord r = r\<lparr>o_status := o_status ord, o_filledSz := o_filledSz ord, o_avgPx := o_avgPx ord,
     o_updatedAt := o_updatedAt ord\<rparr>"

definition writeOrder :: "PaperOrder \<Rightarrow> pg \<Rightarrow> pg" where
  \<comment> \<open>the foreign key is the user's; the table has no builder and no TWAP\<close>
  "writeOrder ord P =
    (if list_ex (\<lambda>r. o_oid r = o_oid ord) (t_orders P)
     then P\<lparr>t_orders := map (\<lambda>r. if o_oid r = o_oid ord then refresh_row ord r else r) (t_orders P)\<rparr>
     else if known_user P (o_userId ord)
     then P\<lparr>t_orders := t_orders P @ [ord\<lparr>o_builder := None, o_twapId := None\<rparr>]\<rparr>
     else P)"

definition writeFill :: "user \<Rightarrow> PaperFill \<Rightarrow> pg \<Rightarrow> pg" where
  \<comment> \<open>nothing on a conflict of the tid; the foreign keys are the user's and the order's\<close>
  "writeFill u f P =
    (if list_ex (\<lambda>r. f_tid (snd r) = f_tid f) (t_fills P) then P
     else if known_user P u \<and> list_ex (\<lambda>r. o_oid r = f_oid f) (t_orders P)
     then P\<lparr>t_fills := t_fills P @
            [(u, f\<lparr>f_twapId := (case f_twapId f of None \<Rightarrow> None | Some t \<Rightarrow> if t = '''' then None else Some t)\<rparr>)]\<rparr>
     else P)"

definition writeStatus :: "user \<Rightarrow> oid \<Rightarrow> OrderStatus \<Rightarrow> millis \<Rightarrow> TrailingBody \<Rightarrow> pg \<Rightarrow> pg" where
  "writeStatus u x st t body P =
    (if list_ex (\<lambda>r. os_oid r = x \<and> os_status r = st) (t_status P) \<or> \<not> known_user P u then P
     else P\<lparr>t_status := t_status P @ [\<lparr>os_oid = x, os_user = u, os_status = st, os_time = t, os_body = body\<rparr>]\<rparr>)"

definition recordFunding :: "FundingRec \<Rightarrow> pg \<Rightarrow> pg" where
  "recordFunding r P = (if known_user P (fu_user r) then P\<lparr>t_funding := t_funding P @ [r]\<rparr> else P)"

definition recordLedgerUpdate :: "LedgerRec \<Rightarrow> pg \<Rightarrow> pg" where
  "recordLedgerUpdate r P = (if known_user P (lg_user r) then P\<lparr>t_ledger := t_ledger P @ [r]\<rparr> else P)"

definition recordLiquidationLedger :: "user \<Rightarrow> millis \<Rightarrow> LiquidationDelta \<Rightarrow> pg \<Rightarrow> pg" where
  "recordLiquidationLedger u t d P =
    recordLedgerUpdate \<lparr>lg_user = u, lg_time = t, lg_type = ''liquidation'', lg_usdc = 0, lg_delta = Some d\<rparr> P"

definition insertLiquidationEventPg :: "LiquidationEvent \<Rightarrow> pg \<Rightarrow> pg" where
  "insertLiquidationEventPg ev P =
    (if known_user P (le_userId ev) then P\<lparr>t_liquidations := t_liquidations P @ [ev]\<rparr> else P)"

definition insert_twap :: "TwapRow \<Rightarrow> pg \<Rightarrow> pg" where
  \<comment> \<open>one row per TWAP and state\<close>
  "insert_twap r P =
    (if list_ex (\<lambda>x. tr_twapId x = tr_twapId r \<and> tr_activated x = tr_activated r) (t_twaps P) \<or>
        \<not> known_user P (twp_userId (tr_twap r)) then P
     else P\<lparr>t_twaps := t_twaps P @ [r]\<rparr>)"

definition recordTwapActivated :: "nat \<Rightarrow> TwapHash \<Rightarrow> pg \<Rightarrow> pg" where
  "recordTwapActivated n h P =
    insert_twap \<lparr>tr_twapId = n, tr_twap = h, tr_executedSize = 0, tr_executedNtl = 0, tr_activated = True,
      tr_reason = None, tr_eventAt = twp_startTime h\<rparr> P"

definition slice_ntl :: "declib \<Rightarrow> pg \<Rightarrow> user \<Rightarrow> string \<Rightarrow> rat" where
  "slice_ntl L P u n =
    foldl (\<lambda>tot r. add_d L tot (mul_d L (f_px (snd r)) (f_sz (snd r)))) 0
      (filter (\<lambda>r. fst r = u \<and> f_twapId (snd r) = Some n) (t_fills P))"

definition recordTwapHistory :: "declib \<Rightarrow> nat \<Rightarrow> TwapHash \<Rightarrow> rat \<Rightarrow> TwapStatus \<Rightarrow> millis \<Rightarrow> pg \<Rightarrow> pg" where
  "recordTwapHistory L n h executed st finishedAt P =
    insert_twap \<lparr>tr_twapId = n, tr_twap = h, tr_executedSize = executed,
      tr_executedNtl = slice_ntl L P (twp_userId h) (show_nat n), tr_activated = False,
      tr_reason = Some st, tr_eventAt = finishedAt\<rparr> P"

definition upsertUser :: "user \<Rightarrow> rat \<Rightarrow> pg \<Rightarrow> pg" where
  "upsertUser u b P =
    P\<lparr>t_users := (if known_user P u then map (\<lambda>r. if fst r = u then (u, b) else r) (t_users P) else t_users P @ [(u, b)])\<rparr>"

definition updateUserBalance :: "user \<Rightarrow> rat \<Rightarrow> pg \<Rightarrow> pg" where
  "updateUserBalance u b P = P\<lparr>t_users := map (\<lambda>r. if fst r = u then (u, b) else r) (t_users P)\<rparr>"

definition upsertMarginTablesPg :: "HlMeta \<Rightarrow> pg \<Rightarrow> pg" where
  "upsertMarginTablesPg mt P =
    (let tables = (case m_marginTables mt of None \<Rightarrow> [] | Some ts \<Rightarrow> ts)
     in P\<lparr>t_marginTables := foldl (\<lambda>acc (n, tiers). AList.update n tiers acc) (t_marginTables P) tables,
          t_assetMargin := foldl (\<lambda>acc x. AList.update (ai_name x) (ai_marginTableId x, ai_maxLeverage x) acc)
            (t_assetMargin P) (m_universe mt)\<rparr>)"

definition ensureVaultRowPg :: "string \<Rightarrow> millis \<Rightarrow> pg \<Rightarrow> pg" where
  "ensureVaultRowPg addr t P = (if t_vault P = None then P\<lparr>t_vault := Some (addr, 0, t)\<rparr> else P)"

definition creditVaultPg :: "rat \<Rightarrow> millis \<Rightarrow> pg \<Rightarrow> pg" where
  \<comment> \<open>the sum is Postgres' own, exact\<close>
  "creditVaultPg amount t P = P\<lparr>t_vault := map_option (\<lambda>(addr, tot, _). (addr, tot + amount, t)) (t_vault P)\<rparr>"

definition whole :: "rat \<Rightarrow> bool" where
  "whole x \<longleftrightarrow> of_int \<lfloor>x\<rfloor> = x"

definition recordConsent :: "ConsentRec \<Rightarrow> pg \<Rightarrow> pg" where
  \<comment> \<open>nothing on a conflict; a fraction in an integer column, or a version beyond 32 bits, fails\<close>
  "recordConsent r P =
    (if list_ex (\<lambda>x. cr_id x = cr_id r) (t_consent P) \<or> \<not> whole (cr_id r) \<or> \<not> whole (cr_ts r) \<or>
        \<not> whole (cr_policyVersion r) \<or> 2 ^ 31 \<le> cr_policyVersion r then P
     else P\<lparr>t_consent := t_consent P @ [r]\<rparr>)"

fun sink_event :: "event \<Rightarrow> pg \<Rightarrow> pg" where
  "sink_event (FillEvent u f) P = writeFill u f P"
| "sink_event (OrderUpdate u ord st) P = writeOrder ord P"
| "sink_event (LiquidationOrder ord) P = writeOrder ord P"
| "sink_event (OrderUpdateBatch u ups) P = foldl (\<lambda>Q x. writeOrder (fst x) Q) P ups"
| "sink_event (LiquidationLedger u t d) P = recordLiquidationLedger u t d P"
| "sink_event (TrailingHistory u x st t body) P = writeStatus u x st t body P"
| "sink_event (FundingRow u c usdc szi rate t) P =
    recordFunding \<lparr>fu_user = u, fu_time = t, fu_coin = c, fu_usdc = usdc, fu_szi = szi, fu_rate = rate\<rparr> P"
| "sink_event (LedgerRow u t ty usdc) P =
    recordLedgerUpdate \<lparr>lg_user = u, lg_time = t, lg_type = ty, lg_usdc = usdc, lg_delta = None\<rparr> P"
| "sink_event (LiquidationLog ev) P = insertLiquidationEventPg ev P"
| "sink_event (TwapActivated n h) P = recordTwapActivated n h P"
| "sink_event _ P = P"

datatype sink_op =
    Bus event
  | UpsertUser user rat
  | UpdateUserBalance user rat
  | TwapOver nat TwapHash rat TwapStatus millis
  | SyncMarginTables HlMeta
  | EnsureVault string millis
  | CreditVault rat millis
  | Consent ConsentRec

fun sink_step :: "declib \<Rightarrow> sink_op \<Rightarrow> pg \<Rightarrow> pg" where
  "sink_step L (Bus ev) P = sink_event ev P"
| "sink_step L (UpsertUser u b) P = upsertUser u b P"
| "sink_step L (UpdateUserBalance u b) P = updateUserBalance u b P"
| "sink_step L (TwapOver n h executed st t) P = recordTwapHistory L n h executed st t P"
| "sink_step L (SyncMarginTables mt) P = upsertMarginTablesPg mt P"
| "sink_step L (EnsureVault addr t) P = ensureVaultRowPg addr t P"
| "sink_step L (CreditVault amount t) P = creditVaultPg amount t P"
| "sink_step L (Consent r) P = recordConsent r P"

definition sink_run :: "declib \<Rightarrow> sink_op list \<Rightarrow> pg \<Rightarrow> pg" where
  "sink_run L xs P = foldl (\<lambda>Q x. sink_step L x Q) P xs"

definition max_id :: "nat list \<Rightarrow> nat" where
  "max_id xs = foldl max 0 xs"

definition syncSeqCountersToPgMax :: "pg \<Rightarrow> state \<Rightarrow> state" where
  "syncSeqCountersToPgMax P s =
    (let safeTid = max_id (map (\<lambda>r. f_tid (snd r)) (t_fills P)) + 1000; safeOid = max_id (map o_oid (t_orders P)) + 1000
     in s\<lparr>seqOid := (if seqOid s < safeOid then safeOid else seqOid s),
          seqTid := (if seqTid s < safeTid then safeTid else seqTid s)\<rparr>)"

subsection \<open>Queries\<close>

definition newest :: "('a \<Rightarrow> int) \<Rightarrow> 'a list \<Rightarrow> 'a list" where
  \<comment> \<open>ORDER BY key DESC\<close>
  "newest f xs = sort_key (\<lambda>x. - f x) xs"

definition in_period :: "millis \<Rightarrow> millis option \<Rightarrow> millis \<Rightarrow> bool" where
  "in_period startTime endTime t \<longleftrightarrow> startTime \<le> t \<and> (case endTime of None \<Rightarrow> True | Some e \<Rightarrow> t \<le> e)"

record HistoricalOrder =
  ho_order :: "TrailingBody + PlainBody"
  ho_status :: OrderStatus
  ho_time :: millis

definition plain_rows :: "pg \<Rightarrow> user \<Rightarrow> HistoricalOrder list" where
  "plain_rows P u =
    map (\<lambda>r. \<lparr>ho_order = Inr (plain_body (o_oid r) r), ho_status = o_status r, ho_time = o_updatedAt r\<rparr>)
      (newest o_updatedAt (filter (\<lambda>r. o_userId r = u \<and> o_orderType r \<noteq> TrailingStop) (t_orders P)))"

definition trailing_rows :: "pg \<Rightarrow> user \<Rightarrow> HistoricalOrder list" where
  \<comment> \<open>by time and then by id, both descending\<close>
  "trailing_rows P u =
    map (\<lambda>e. \<lparr>ho_order = Inl (os_body e), ho_status = os_status e, ho_time = os_time e\<rparr>)
      (newest os_time (rev (filter (\<lambda>e. os_user e = u) (t_status P))))"

definition getHistoricalOrdersPg :: "pg \<Rightarrow> user \<Rightarrow> nat \<Rightarrow> HistoricalOrder list" where
  "getHistoricalOrdersPg P u limit =
    take limit (newest ho_time (take limit (plain_rows P u) @ take limit (trailing_rows P u)))"

definition rowToFill :: "PaperFill \<Rightarrow> PaperFill" where
  "rowToFill f = f\<lparr>f_twapId := None\<rparr>"

definition user_fills :: "pg \<Rightarrow> user \<Rightarrow> PaperFill list" where
  "user_fills P u = newest f_time (map snd (filter (\<lambda>r. fst r = u) (t_fills P)))"

definition getUserFillsPg :: "pg \<Rightarrow> user \<Rightarrow> nat \<Rightarrow> PaperFill list" where
  "getUserFillsPg P u limit = map rowToFill (take limit (user_fills P u))"

definition getUserFillsByTimePg :: "pg \<Rightarrow> user \<Rightarrow> millis \<Rightarrow> millis option \<Rightarrow> PaperFill list" where
  "getUserFillsByTimePg P u startTime endTime =
    map rowToFill (filter (\<lambda>f. in_period startTime endTime (f_time f)) (user_fills P u))"

definition getUserTwapSliceFillsPg :: "pg \<Rightarrow> user \<Rightarrow> nat \<Rightarrow> (PaperFill \<times> string) list" where
  "getUserTwapSliceFillsPg P u limit =
    List.map_filter (\<lambda>f. map_option (\<lambda>t. (rowToFill f, t)) (f_twapId f))
      (take limit (filter (\<lambda>f. f_twapId f \<noteq> None) (user_fills P u)))"

record TwapHistoryView =
  tv_time :: int \<comment> \<open>seconds\<close>
  tv_twapId :: nat
  tv_twap :: TwapHash
  tv_executedSz :: rat
  tv_executedNtl :: rat
  tv_status :: string

definition getTwapHistoryPg :: "pg \<Rightarrow> user \<Rightarrow> nat \<Rightarrow> TwapHistoryView list" where
  "getTwapHistoryPg P u limit =
    map (\<lambda>r. \<lparr>tv_time = tr_eventAt r div 1000, tv_twapId = tr_twapId r, tv_twap = tr_twap r,
        tv_executedSz = tr_executedSize r, tv_executedNtl = tr_executedNtl r,
        tv_status = (if tr_activated r then ''activated''
          else if tr_reason r = Some Tw_finished then ''finished'' else ''terminated'')\<rparr>)
      (take limit (newest tr_eventAt (filter (\<lambda>r. twp_userId (tr_twap r) = u) (t_twaps P))))"

definition getUserFundingPg :: "pg \<Rightarrow> user \<Rightarrow> millis \<Rightarrow> millis option \<Rightarrow> FundingRec list" where
  "getUserFundingPg P u startTime endTime =
    sort_key fu_time (filter (\<lambda>r. fu_user r = u \<and> in_period startTime endTime (fu_time r)) (t_funding P))"

definition getLedgerUpdatesPg :: "pg \<Rightarrow> user \<Rightarrow> millis \<Rightarrow> millis option \<Rightarrow> LedgerRec list" where
  "getLedgerUpdatesPg P u startTime endTime =
    sort_key lg_time (filter (\<lambda>r. lg_user r = u \<and> in_period startTime endTime (lg_time r)) (t_ledger P))"

definition getNetDepositsPg :: "declib \<Rightarrow> pg \<Rightarrow> user \<Rightarrow> rat" where
  "getNetDepositsPg L P u =
    foldl (\<lambda>net r. if lg_type r = ''withdraw'' then sub_d L net (lg_usdc r)
        else if lg_type r = ''deposit'' \<or> lg_type r = ''subAccountTransfer'' then add_d L net (lg_usdc r) else net) 0
      (filter (\<lambda>r. lg_user r = u) (t_ledger P))"

definition getVolumeSincePg :: "declib \<Rightarrow> pg \<Rightarrow> user \<Rightarrow> millis \<Rightarrow> rat" where
  "getVolumeSincePg L P u since =
    foldl (\<lambda>vlm f. add_d L vlm (mul_d L (f_px f) (f_sz f))) 0
      (filter (\<lambda>f. since \<le> f_time f) (map snd (filter (\<lambda>r. fst r = u) (t_fills P))))"

definition getLiquidationEventsPg :: "pg \<Rightarrow> user \<Rightarrow> nat \<Rightarrow> LiquidationEvent list" where
  "getLiquidationEventsPg P u limit =
    take limit (newest le_time (filter (\<lambda>ev. le_userId ev = u) (t_liquidations P)))"

definition getVaultStatePg :: "pg \<Rightarrow> (string \<times> rat \<times> millis) option" where
  "getVaultStatePg P = t_vault P"

definition getMarginTablesPg :: "pg \<Rightarrow> (nat \<times> HlMarginTier list) list" where
  "getMarginTablesPg P = t_marginTables P"

definition getAssetMarginMapPg :: "pg \<Rightarrow> (coin \<times> nat option \<times> nat) list" where
  "getAssetMarginMapPg P = t_assetMargin P"

definition HL_USER_FILLS_LIMIT :: nat where
  "HL_USER_FILLS_LIMIT = 2000"

definition getUserFills :: "pg \<Rightarrow> user \<Rightarrow> nat option \<Rightarrow> PaperFill list" where
  "getUserFills P u limit = getUserFillsPg P u (case limit of None \<Rightarrow> HL_USER_FILLS_LIMIT | Some n \<Rightarrow> n)"

definition getUserFillsByTime :: "pg \<Rightarrow> user \<Rightarrow> millis \<Rightarrow> millis option \<Rightarrow> PaperFill list" where
  "getUserFillsByTime P u startTime endTime = getUserFillsByTimePg P u startTime endTime"

subsection \<open>The order table\<close>

fun order_writes :: "sink_op \<Rightarrow> PaperOrder list" where
  "order_writes (Bus ev) = rows_of ev"
| "order_writes _ = []"

definition order_row :: "pg \<Rightarrow> oid \<Rightarrow> PaperOrder option" where
  "order_row P x = List.find (\<lambda>r. o_oid r = x) (t_orders P)"

definition write_row :: "PaperOrder option \<Rightarrow> PaperOrder \<Rightarrow> PaperOrder" where
  "write_row r ord = (case r of None \<Rightarrow> ord\<lparr>o_builder := None, o_twapId := None\<rparr> | Some r \<Rightarrow> refresh_row ord r)"

lemma find_none_ex: "List.find p xs = None \<longleftrightarrow> \<not> list_ex p xs"
  by (auto simp: find_None_iff list_ex_iff)

lemma find_refresh:
  "List.find (\<lambda>r. o_oid r = x) (map (\<lambda>r. if o_oid r = y then refresh_row ord r else r) rs) =
    map_option (\<lambda>r. if x = y then refresh_row ord r else r) (List.find (\<lambda>r. o_oid r = x) rs)"
  by (induction rs) (auto simp: refresh_row_def)

lemma find_snoc: "List.find p (xs @ [x]) = (case List.find p xs of None \<Rightarrow> if p x then Some x else None | Some y \<Rightarrow> Some y)"
  by (induction xs) auto

lemma order_row_write:
  assumes "known_user P (o_userId ord)"
  shows "order_row (writeOrder ord P) x = (if x = o_oid ord then Some (write_row (order_row P x) ord) else order_row P x)"
proof (cases "list_ex (\<lambda>r. o_oid r = o_oid ord) (t_orders P)")
  case True
  then have "order_row P (o_oid ord) \<noteq> None" by (simp add: order_row_def find_none_ex)
  with True show ?thesis by (cases "order_row P x")
    (auto simp: writeOrder_def order_row_def find_refresh write_row_def option.map_ident)
next
  case False
  then have "order_row P (o_oid ord) = None" by (simp add: order_row_def find_none_ex)
  with False assms show ?thesis
    by (auto simp: writeOrder_def order_row_def find_snoc write_row_def split: option.split)
qed

lemma write_frame [simp]: "t_users (writeOrder ord P) = t_users P" "t_fills (writeOrder ord P) = t_fills P"
  by (simp_all add: writeOrder_def)

lemma writes_frame [simp]:
  "t_users (foldl (\<lambda>Q ord. writeOrder ord Q) P ords) = t_users P"
  "t_fills (foldl (\<lambda>Q ord. writeOrder ord Q) P ords) = t_fills P"
  by (induction ords arbitrary: P) simp_all

lemma known_writes [simp]:
  "known_user (writeOrder ord P) u = known_user P u"
  "known_user (foldl (\<lambda>Q ord. writeOrder ord Q) P ords) u = known_user P u"
  by (simp_all add: known_user_def)

lemma batch_writes: "foldl (\<lambda>Q x. writeOrder (fst x) Q) P ups = foldl (\<lambda>Q ord. writeOrder ord Q) P (map fst ups)"
  by (induction ups arbitrary: P) simp_all

lemma users_update: "list_ex (\<lambda>r. fst r = u) (map (\<lambda>r. if fst r = v then (v, b) else r) rs) = list_ex (\<lambda>r. fst r = u) rs"
  by (induction rs) auto

lemma known_update: "known_user P u \<Longrightarrow> list_ex (\<lambda>r. fst r = u) (map (\<lambda>r. if fst r = v then (v, b) else r) (t_users P))"
  unfolding users_update by (simp add: known_user_def)

lemma known_step: "known_user P u \<Longrightarrow> known_user (sink_step L x P) u"
proof (cases x)
  case (Bus ev)
  assume "known_user P u"
  then show ?thesis unfolding Bus
    by (cases ev)
      (simp_all add: batch_writes writeFill_def writeStatus_def recordFunding_def recordLedgerUpdate_def
        recordLiquidationLedger_def insertLiquidationEventPg_def recordTwapActivated_def insert_twap_def known_user_def)
next
  case (UpsertUser v b)
  assume k: "known_user P u"
  show ?thesis
  proof (cases "known_user P v")
    case True
    then show ?thesis using known_update [OF k, of v b] by (simp add: UpsertUser upsertUser_def) (simp add: known_user_def)
  next
    case False
    then show ?thesis using k by (simp add: UpsertUser upsertUser_def) (simp add: known_user_def)
  qed
next
  case (UpdateUserBalance v b)
  assume "known_user P u"
  from known_update [OF this, of v b] show ?thesis
    by (simp add: UpdateUserBalance updateUserBalance_def) (simp add: known_user_def)
qed (simp_all add: recordTwapHistory_def insert_twap_def upsertMarginTablesPg_def ensureVaultRowPg_def creditVaultPg_def
      recordConsent_def known_user_def Let_def)

lemma orders_step:
  "t_orders (sink_step L x P) = t_orders (foldl (\<lambda>Q ord. writeOrder ord Q) P (order_writes x))"
proof (cases x)
  case (Bus ev)
  then show ?thesis
    by (cases ev)
      (simp_all add: batch_writes writeFill_def writeStatus_def recordFunding_def recordLedgerUpdate_def
        recordLiquidationLedger_def insertLiquidationEventPg_def recordTwapActivated_def insert_twap_def)
qed (simp_all add: upsertUser_def updateUserBalance_def recordTwapHistory_def insert_twap_def upsertMarginTablesPg_def
      ensureVaultRowPg_def creditVaultPg_def recordConsent_def Let_def)

lemma row_writes:
  assumes "\<forall>ord \<in> set ords. known_user P (o_userId ord)"
  shows "order_row (foldl (\<lambda>Q ord. writeOrder ord Q) P ords) x =
    foldl (\<lambda>r ord. Some (write_row r ord)) (order_row P x) (filter (\<lambda>ord. o_oid ord = x) ords)"
  using assms by (induction ords arbitrary: P) (simp_all add: order_row_write)

lemma row_run:
  assumes "\<forall>x \<in> set xs. \<forall>ord \<in> set (order_writes x). known_user P (o_userId ord)"
  shows "order_row (sink_run L xs P) oid =
    foldl (\<lambda>r ord. Some (write_row r ord)) (order_row P oid) (filter (\<lambda>ord. o_oid ord = oid) (concat (map order_writes xs)))"
  using assms
proof (induction xs arbitrary: P)
  case (Cons x xs)
  have "order_row (sink_step L x P) oid = order_row (foldl (\<lambda>Q ord. writeOrder ord Q) P (order_writes x)) oid"
    using orders_step by (simp add: order_row_def)
  then show ?case
    using Cons.IH [of "sink_step L x P"] Cons.prems row_writes [of "order_writes x" P oid] known_step
    by (simp add: sink_run_def)
qed (simp add: sink_run_def)

lemma row_folded:
  "ws \<noteq> [] \<Longrightarrow> foldl (\<lambda>r ord. Some (write_row r ord)) r ws =
    Some (refresh_row (last ws) (case r of None \<Rightarrow> (hd ws)\<lparr>o_builder := None, o_twapId := None\<rparr> | Some r \<Rightarrow> r))"
proof (induction ws rule: rev_induct)
  case (snoc w ws)
  then show ?case by (cases "ws = []") (auto simp: write_row_def refresh_row_def split: option.split)
qed simp

text \<open>
  The row of an order is what was first written about it with the status, executed size, price
  and time of its last event, whatever else the sink records in between.
\<close>
theorem order_row_is_latest:
  assumes "\<forall>x \<in> set xs. \<forall>ord \<in> set (order_writes x). known_user P (o_userId ord)"
  shows "order_row (sink_run L xs P) oid =
    (case filter (\<lambda>ord. o_oid ord = oid) (concat (map order_writes xs)) of
      [] \<Rightarrow> order_row P oid
    | w # ws \<Rightarrow> Some (refresh_row (last (w # ws))
        (case order_row P oid of None \<Rightarrow> w\<lparr>o_builder := None, o_twapId := None\<rparr> | Some r \<Rightarrow> r)))"
proof (cases "filter (\<lambda>ord. o_oid ord = oid) (concat (map order_writes xs))")
  case Nil
  then show ?thesis using row_run [OF assms, of L oid] by simp
next
  case (Cons w ws)
  then show ?thesis
    unfolding row_run [OF assms, of L oid] Cons list.case by (subst row_folded) (simp_all split: option.split)
qed

subsection \<open>The fill table\<close>

definition stored_fill :: "user \<times> PaperFill \<Rightarrow> user \<times> PaperFill" where
  "stored_fill x = (fst x, (snd x)\<lparr>f_twapId := (case f_twapId (snd x) of None \<Rightarrow> None | Some t \<Rightarrow> if t = '''' then None else Some t)\<rparr>)"

definition event_users :: "event \<Rightarrow> user set" where
  "event_users ev = fst ` set (fills_of ev) \<union> o_userId ` set (rows_of ev)"

lemma oids_write: "known_user P (o_userId ord) \<Longrightarrow> o_oid ` set (t_orders (writeOrder ord P)) = insert (o_oid ord) (o_oid ` set (t_orders P))"
proof -
  assume "known_user P (o_userId ord)"
  moreover have "o_oid (if o_oid r = o_oid ord then refresh_row ord r else r) = o_oid r" for r
    by (simp add: refresh_row_def)
  then have "o_oid ` set (map (\<lambda>r. if o_oid r = o_oid ord then refresh_row ord r else r) rs) = o_oid ` set rs" for rs
    by (simp only: set_map image_image)
  moreover have "o_oid ord \<in> o_oid ` set (t_orders P)" if "list_ex (\<lambda>r. o_oid r = o_oid ord) (t_orders P)"
    using that unfolding list_ex_iff by (metis imageI)
  ultimately show ?thesis
    by (cases "list_ex (\<lambda>r. o_oid r = o_oid ord) (t_orders P)") (simp_all add: writeOrder_def insert_absorb del: set_map)
qed

lemma oids_writes:
  "\<forall>ord \<in> set ords. known_user P (o_userId ord) \<Longrightarrow>
   o_oid ` set (t_orders (foldl (\<lambda>Q ord. writeOrder ord Q) P ords)) = o_oid ` set ords \<union> o_oid ` set (t_orders P)"
  by (induction ords arbitrary: P) (auto simp: oids_write)

lemma fills_step:
  assumes "\<forall>x \<in> set (fills_of ev). known_user P (fst x) \<and> f_oid (snd x) \<in> o_oid ` set (t_orders P) \<and>
    f_tid (snd x) \<notin> (\<lambda>r. f_tid (snd r)) ` set (t_fills P)"
  shows "t_fills (sink_step L (Bus ev) P) = t_fills P @ map stored_fill (fills_of ev)"
proof (cases ev)
  case (FillEvent u f)
  with assms have "\<not> list_ex (\<lambda>r. f_tid (snd r) = f_tid f) (t_fills P)" "list_ex (\<lambda>r. o_oid r = f_oid f) (t_orders P)" "known_user P u"
    by (auto simp: list_ex_iff image_iff)
  then show ?thesis by (simp add: FillEvent writeFill_def stored_fill_def)
qed (simp_all add: batch_writes writeStatus_def recordFunding_def recordLedgerUpdate_def
        recordLiquidationLedger_def insertLiquidationEventPg_def recordTwapActivated_def insert_twap_def)

text \<open>
  The foreign keys and the unique key drop no fill of a log in which every fill follows an
  event of its order and no fill number comes twice: the fill table is the fills of the log, in
  their order.
\<close>
lemma fills_reach_the_table:
  assumes "backed (o_oid ` set (t_orders P)) evs" "distinct (map (\<lambda>x. f_tid (snd x)) (t_fills P @ all_fills evs))"
    and "\<forall>ev \<in> set evs. \<forall>u \<in> event_users ev. known_user P u"
  shows "t_fills (sink_run L (map Bus evs) P) = t_fills P @ map stored_fill (all_fills evs)"
  using assms
proof (induction evs arbitrary: P)
  case (Cons ev evs)
  define Q where "Q = sink_step L (Bus ev) P"
  have f: "t_fills Q = t_fills P @ map stored_fill (fills_of ev)"
    unfolding Q_def using Cons.prems by (intro fills_step) (auto simp: event_users_def)
  have o: "o_oid ` set (t_orders Q) = o_oid ` set (t_orders P) \<union> o_oid ` set (rows_of ev)"
    unfolding Q_def orders_step using Cons.prems(3) by (subst oids_writes) (auto simp: event_users_def)
  have t: "map (\<lambda>x. f_tid (snd x)) (map stored_fill xs) = map (\<lambda>x. f_tid (snd x)) xs" for xs
    by (simp add: stored_fill_def)
  have "t_fills (sink_run L (map Bus evs) Q) = t_fills Q @ map stored_fill (all_fills evs)"
  proof (rule Cons.IH)
    show "backed (o_oid ` set (t_orders Q)) evs" using Cons.prems(1) by (simp add: o)
    show "distinct (map (\<lambda>x. f_tid (snd x)) (t_fills Q @ all_fills evs))"
      using Cons.prems(2) unfolding f all_fills_simps map_append t append_assoc .
    show "\<forall>ev \<in> set evs. \<forall>u \<in> event_users ev. known_user Q u"
      using Cons.prems(3) known_step unfolding Q_def by (metis list.set_intros(2))
  qed
  moreover have "sink_run L (map Bus (ev # evs)) P = sink_run L (map Bus evs) Q" by (simp add: sink_run_def Q_def)
  ultimately show ?case by (simp add: f)
qed (simp add: sink_run_def)

lemma max_id_ge: "n \<in> set xs \<Longrightarrow> n \<le> max_id xs"
proof -
  have "n \<le> foldl max m xs" if "n \<in> set xs \<or> n \<le> m" for m xs and n :: nat
    using that
  proof (induction xs arbitrary: m)
    case (Cons x xs)
    from Cons.prems have "n \<in> set xs \<or> n \<le> max m x" by auto
    then show ?case unfolding foldl.simps by (rule Cons.IH)
  qed simp
  from this [of n xs 0] show "n \<in> set xs \<Longrightarrow> n \<le> max_id xs" unfolding max_id_def by blast
qed

lemma synced_counters_are_ahead:
  "x \<in> set (t_fills P) \<Longrightarrow> f_tid (snd x) < seqTid (syncSeqCountersToPgMax P s)"
  "ord \<in> set (t_orders P) \<Longrightarrow> o_oid ord < seqOid (syncSeqCountersToPgMax P s)"
  using max_id_ge [of "f_tid (snd x)" "map (\<lambda>r. f_tid (snd r)) (t_fills P)"] max_id_ge [of "o_oid ord" "map o_oid (t_orders P)"]
  by (auto simp: syncSeqCountersToPgMax_def Let_def)

subsection \<open>Margin tables and the vault\<close>

lemma updates_read_back:
  "map_of (foldl (\<lambda>acc (k, v). AList.update k v acc) al kvs) k = (case map_of (rev kvs) k of None \<Rightarrow> map_of al k | Some v \<Rightarrow> Some v)"
proof (induction kvs arbitrary: al)
  case (Cons kv kvs)
  then show ?case by (cases kv) (auto simp: update_conv' map_add_Some_iff split: option.splits)
qed simp

lemma margin_tables_read_back:
  assumes "m_marginTables mt = Some ts" "distinct (map fst ts)" "(n, tiers) \<in> set ts"
  shows "map_of (getMarginTablesPg (upsertMarginTablesPg mt P)) n = Some tiers"
proof -
  have "distinct (map fst (rev ts))" using assms(2) by (simp add: rev_map [symmetric])
  then have "map_of (rev ts) n = Some tiers" using assms(3) by (simp add: map_of_eq_Some_iff)
  then show ?thesis using assms(1) by (simp add: getMarginTablesPg_def upsertMarginTablesPg_def updates_read_back)
qed

lemma vault_row_accumulates:
  "t_vault P = Some (addr, tot, t0) \<Longrightarrow>
   getVaultStatePg (foldl (\<lambda>Q (amount, t). creditVaultPg amount t Q) P cs) =
     Some (addr, tot + sum_list (map fst cs), last (t0 # map snd cs))"
proof (induction cs arbitrary: P tot t0)
  case (Cons c cs)
  obtain amount t where c: "c = (amount, t)" by force
  have "t_vault (creditVaultPg amount t P) = Some (addr, tot + amount, t)" using Cons.prems by (simp add: creditVaultPg_def)
  from Cons.IH [OF this] show ?case by (simp add: c add.assoc)
qed (simp add: getVaultStatePg_def)

subsection \<open>History\<close>

lemma newest_sorted: "sorted_wrt (\<lambda>a b. f b \<le> f a) (newest f xs)"
proof -
  have "sorted (map (\<lambda>x. - f x) (newest f xs))" by (simp add: newest_def)
  then show ?thesis by (simp add: sorted_map)
qed

lemma newest_set [simp]: "set (newest f xs) = set xs" "length (newest f xs) = length xs"
  by (simp_all add: newest_def)

lemma newest_takeWhile:
  assumes "sorted_wrt (\<lambda>a b. f b \<le> f a) xs"
  shows "filter (\<lambda>x. k \<le> (f x :: int)) xs = takeWhile (\<lambda>x. k \<le> f x) xs"
  using assms
proof (induction xs)
  case (Cons a xs)
  show ?case
  proof (cases "k \<le> f a")
    case True
    with Cons show ?thesis by simp
  next
    case False
    then have "filter (\<lambda>x. k \<le> f x) (a # xs) = []" using Cons.prems by (fastforce simp: filter_empty_conv)
    with False show ?thesis by (simp only: takeWhile.simps if_False)
  qed
qed simp

lemma take_newest:
  assumes "sorted_wrt (\<lambda>a b. f b \<le> f a) xs" "n \<le> length (filter (\<lambda>x. k \<le> f x) xs)" "x \<in> set (take n xs)"
  shows "k \<le> (f x :: int)"
proof -
  let ?ys = "takeWhile (\<lambda>x. k \<le> f x) xs"
  have n: "n \<le> length ?ys" using assms(2) unfolding newest_takeWhile [OF assms(1), of k] .
  have "take n xs = take n (?ys @ dropWhile (\<lambda>x. k \<le> f x) xs)" by simp
  also have "\<dots> = take n ?ys" unfolding take_append using n by simp
  finally show ?thesis using assms(3) by (metis in_set_takeD set_takeWhileD)
qed

lemma dropped_older:
  assumes "sorted_wrt (\<lambda>a b. f b \<le> (f a :: int)) xs" "x \<in> set xs" "x \<notin> set (take n xs)"
  shows "\<forall>y \<in> set (take n xs). f x \<le> f y" "n \<le> length xs"
proof -
  have "set (take n xs) \<union> set (drop n xs) = set xs" by (metis append_take_drop_id set_append)
  then have d: "x \<in> set (drop n xs)" using assms(2,3) by blast
  have "sorted_wrt (\<lambda>a b. f b \<le> f a) (take n xs @ drop n xs)" using assms(1) by simp
  then show "\<forall>y \<in> set (take n xs). f x \<le> f y" using d unfolding sorted_wrt_append by blast
  show "n \<le> length xs" using d by (cases "n \<le> length xs") auto
qed

lemma merged_newest:
  assumes p: "sorted_wrt (\<lambda>a b. f b \<le> (f a :: int)) ps" and x: "x \<in> set ps"
    and H: "H = take n (newest f M)" "mset M = mset (take n ps) + R" "x \<notin> set H"
  shows "\<forall>y \<in> set H. f x \<le> f y"
proof (cases "x \<in> set (take n ps)")
  case True
  then have "x \<in># mset M" unfolding H(2) by simp
  then have "x \<in> set (newest f M)" by simp
  moreover have "x \<notin> set (take n (newest f M))" using H(1,3) by simp
  ultimately show ?thesis unfolding H(1) by (rule dropped_older(1) [OF newest_sorted])
next
  case False
  note old = dropped_older [OF p x False]
  have count: "length (filter q zs) = size (filter_mset q (mset zs))" for q and zs :: "'a list"
    unfolding mset_filter [symmetric] size_mset ..
  have "filter (\<lambda>y. f x \<le> f y) (take n ps) = take n ps" using old(1) by simp
  then have "n = length (filter (\<lambda>y. f x \<le> f y) (take n ps))" using old(2) by simp
  also have "\<dots> = size (filter_mset (\<lambda>y. f x \<le> f y) (mset (take n ps)))" by (rule count)
  also have "\<dots> \<le> size (filter_mset (\<lambda>y. f x \<le> f y) (mset M))" unfolding H(2) filter_union_mset size_union by (rule le_add1)
  also have "mset M = mset (newest f M)" by (simp add: newest_def)
  also have "size (filter_mset (\<lambda>y. f x \<le> f y) (mset (newest f M))) = length (filter (\<lambda>y. f x \<le> f y) (newest f M))"
    by (rule count [symmetric])
  finally have "n \<le> length (filter (\<lambda>y. f x \<le> f y) (newest f M))" .
  from take_newest [OF newest_sorted this] show ?thesis unfolding H(1) by blast
qed

text \<open>
  The order history is the newest rows of a user's orders and trailing stops together: at most
  the limit, newest first, and nothing newer is left out by cutting each half first.
\<close>
theorem historical_orders_are_the_newest:
  "(let H = getHistoricalOrdersPg P u limit; rows = plain_rows P u @ trailing_rows P u
    in sorted_wrt (\<lambda>a b. ho_time b \<le> ho_time a) H \<and> length H = min limit (length rows) \<and> set H \<subseteq> set rows \<and>
       (\<forall>h \<in> set rows. h \<notin> set H \<longrightarrow> (\<forall>h' \<in> set H. ho_time h \<le> ho_time h')))"
proof -
  let ?p = "plain_rows P u" and ?t = "trailing_rows P u" and ?H = "getHistoricalOrdersPg P u limit"
  let ?M = "take limit ?p @ take limit ?t"
  have H: "?H = take limit (newest ho_time ?M)" by (simp add: getHistoricalOrdersPg_def)
  have srt: "sorted_wrt (\<lambda>a b. ho_time b \<le> ho_time a) ?p" "sorted_wrt (\<lambda>a b. ho_time b \<le> ho_time a) ?t"
    using newest_sorted by (auto simp: plain_rows_def trailing_rows_def sorted_wrt_map)
  have M: "mset ?M = mset (take limit ?t) + mset (take limit ?p)" by simp
  have one: "\<forall>h' \<in> set ?H. ho_time h \<le> ho_time h'" if "h \<in> set ?p \<union> set ?t" "h \<notin> set ?H" for h
    using that merged_newest [OF srt(1) _ H, of h "mset (take limit ?t)"] merged_newest [OF srt(2) _ H M, of h] by auto
  have "sorted_wrt (\<lambda>a b. ho_time b \<le> ho_time a) ?H" unfolding H by (rule sorted_wrt_take [OF newest_sorted])
  moreover have "length ?H = min limit (length (?p @ ?t))" by (simp add: H)
  moreover have "set ?H \<subseteq> set (?p @ ?t)"
    unfolding H using set_take_subset [of limit "newest ho_time ?M"] set_take_subset [of limit ?p] set_take_subset [of limit ?t]
    by auto
  ultimately show ?thesis using one by (simp add: Let_def)
qed

subsection \<open>Witnesses\<close>

definition sample_pg :: pg where
  "sample_pg = upsertUser ''u'' 1000 empty_pg"

definition sample_stored_fill :: PaperFill where
  "sample_stored_fill =
    \<lparr>f_coin = ''BTC'', f_px = 90, f_sz = 5, f_side = SideB, f_time = 5, f_startPosition = 0, f_dir = OpenLong,
     f_closedPnl = 0, f_hash = ZeroHash, f_oid = 7, f_crossed = True, f_fee = 0, f_tid = 3, f_cloid = None,
     f_twapId = Some '''', f_liquidation = None\<rparr>"

definition sample_done :: PaperOrder where
  "sample_done = (sample_order 7 True 5 90 False)\<lparr>o_status := St_filled, o_filledSz := 5, o_avgPx := 90, o_updatedAt := 5\<rparr>"

lemmas sample_pg_defs = sample_pg_def upsertUser_def empty_pg_def known_user_def sample_done_def sample_order_def
  sample_stored_fill_def

theorem order_row_is_latest_witness:
  "order_row (sink_run decimal30 [Bus (OrderUpdate ''u'' (sample_order 7 True 5 90 False) St_open),
      Bus (FillEvent ''u'' sample_stored_fill), Bus (OrderUpdate ''u'' sample_done St_filled)] sample_pg) 7 = Some sample_done"
  by (subst order_row_is_latest) (simp_all add: sample_pg_defs order_row_def refresh_row_def)

lemma sample_history:
  "map ho_status (getHistoricalOrdersPg (writeOrder sample_done
      (writeOrder (sample_order 8 True 1 80 False) sample_pg)) ''u'' 1) = [St_filled]"
  by code_simp

theorem historical_orders_are_the_newest_witness:
  "let P = writeOrder sample_done (writeOrder (sample_order 8 True 1 80 False) sample_pg); H = getHistoricalOrdersPg P ''u'' 1
   in map ho_status H = [St_filled] \<and> length H = 1 \<and>
      (\<forall>h \<in> set (plain_rows P ''u''). h \<notin> set H \<longrightarrow> (\<forall>h' \<in> set H. ho_time h \<le> ho_time h'))"
proof -
  define P where "P = writeOrder sample_done (writeOrder (sample_order 8 True 1 80 False) sample_pg)"
  have st: "map ho_status (getHistoricalOrdersPg P ''u'' 1) = [St_filled]" unfolding P_def by (rule sample_history)
  then have "length (getHistoricalOrdersPg P ''u'' 1) = 1" by (metis One_nat_def length_map list.size(3,4) Suc_eq_plus1 plus_1_eq_Suc)
  with st show ?thesis using historical_orders_are_the_newest [of P "''u''" 1]
    unfolding Let_def P_def [symmetric] by (metis UnCI set_append)
qed

end
