(* ===== verification/EvmBridge.thy ===== *)
theory EvmBridge
  imports JsHex "HOL-Library.AList" "HOL-Library.Product_Lexorder"
begin

text \<open>
  The chain emulator of evm/dispatcher.ts and evm/handlers.ts: the SlushyChartSnapshots contract
  over three Postgres tables, behind JSON-RPC. ABI coding, signature recovery, keccak and the topic
  hashes of ethers are the record \<open>ethers\<close>; a call is its decoded form and an event its arguments.
  A request is one step: the statements of a write are not in a transaction in the code, and the
  interleaving of two writes is not modelled. eth_feeHistory and eth_fillTransaction, which answer
  constants, are left out.
\<close>

subsection \<open>Tables\<close>

type_synonym address = string

record Drawing =
  dw_wallet :: address
  dw_market :: string
  dw_tokenId :: nat
  dw_uri :: string
  dw_block :: nat
  dw_txHash :: string
  dw_updatedAt :: millis

datatype EventKind = SnapshotPublished | SnapshotBurned | Transferred

datatype ContractEvent =
    Published address string nat string \<comment> \<open>user, market, token, uri\<close>
  | Burned address string nat
  | Moved address address nat

fun event_kind :: "ContractEvent \<Rightarrow> EventKind" where
  "event_kind (Published u m t uri) = SnapshotPublished"
| "event_kind (Burned u m t) = SnapshotBurned"
| "event_kind (Moved f t n) = Transferred"

record ChainEvent =
  ce_block :: nat
  ce_txHash :: string
  ce_logIndex :: nat
  ce_event :: ContractEvent

record Receipt =
  rc_block :: nat
  rc_from :: address

record chain =
  chartDrawings :: "Drawing list"
  chainEvents :: "ChainEvent list"
  nextTokenId :: nat
  currentBlock :: nat
  receiptCache :: "(string \<times> Receipt) list"

definition genesis :: chain where
  "genesis = \<lparr>chartDrawings = [], chainEvents = [], nextTokenId = 1, currentBlock = 0, receiptCache = []\<rparr>"

subsection \<open>What ethers provides\<close>

datatype ContractCall =
    C_publish string string
  | C_deleteForMarket string
  | C_burn nat
  | C_currentSnapshotOf address string
  | C_tokenURI nat
  | C_ownerOf nat
  | C_marketOf nat
  | C_balanceOf address
  | C_name
  | C_symbol
  | C_supportsInterface string

record RawTx =
  rt_from :: "address option"
  rt_to :: "address option"
  rt_data :: string

record ethers =
  decodeCall :: "string \<Rightarrow> ContractCall option"
  transactionFrom :: "string \<Rightarrow> RawTx option"
  keccak256 :: "string \<Rightarrow> string"
  topicHash :: "EventKind \<Rightarrow> string"
  contractAddr :: address \<comment> \<open>CHART_NFT_CONTRACT, lower case\<close>

datatype Revert = EmptyMarket | EmptyUri | NoSnapshot | NotOwner | TokenDoesNotExist

definition ZERO_ADDRESS :: address where
  "ZERO_ADDRESS = ''0x'' @ replicate 40 (CHR ''0'')"

subsection \<open>View functions\<close>

datatype CallResult = V_uint nat | V_string string | V_address address | V_bool bool

definition drawings_of :: "chain \<Rightarrow> address \<Rightarrow> Drawing list" where
  "drawings_of c u = filter (\<lambda>d. dw_wallet d = lower u) (chartDrawings c)"

definition snapshot_row :: "chain \<Rightarrow> address \<Rightarrow> string \<Rightarrow> Drawing option" where
  "snapshot_row c u market = List.find (\<lambda>d. dw_wallet d = u \<and> dw_market d = market) (chartDrawings c)"

definition token_row :: "chain \<Rightarrow> nat \<Rightarrow> Drawing option" where
  "token_row c t = List.find (\<lambda>d. dw_tokenId d = t) (chartDrawings c)"

definition token_field :: "(Drawing \<Rightarrow> CallResult) \<Rightarrow> chain \<Rightarrow> nat \<Rightarrow> Revert + CallResult" where
  "token_field f c t = (case token_row c t of None \<Rightarrow> Inl TokenDoesNotExist | Some d \<Rightarrow> Inr (f d))"

definition currentSnapshotOf :: "chain \<Rightarrow> address \<Rightarrow> string \<Rightarrow> nat" where
  "currentSnapshotOf c u market = (case snapshot_row c (lower u) market of None \<Rightarrow> 0 | Some d \<Rightarrow> dw_tokenId d)"

definition supportsInterface :: "string \<Rightarrow> bool" where
  "supportsInterface i \<longleftrightarrow> lower i \<in> {''0x01ffc9a7'', ''0x80ac58cd'', ''0x5b5e139f''}"

subsection \<open>State-changing functions\<close>

definition nextTokenAndBlock :: "chain \<Rightarrow> (nat \<times> nat) \<times> chain" where
  "nextTokenAndBlock c =
    ((nextTokenId c, currentBlock c + 1), c\<lparr>nextTokenId := nextTokenId c + 1, currentBlock := currentBlock c + 1\<rparr>)"

definition tickBlock :: "chain \<Rightarrow> nat \<times> chain" where
  "tickBlock c = (currentBlock c + 1, c\<lparr>currentBlock := currentBlock c + 1\<rparr>)"

definition emitEvent :: "ContractEvent \<Rightarrow> nat \<Rightarrow> string \<Rightarrow> nat \<Rightarrow> chain \<Rightarrow> chain" where
  "emitEvent ev block tx i c =
    c\<lparr>chainEvents := chainEvents c @ [\<lparr>ce_block = block, ce_txHash = tx, ce_logIndex = i, ce_event = ev\<rparr>]\<rparr>"

definition upsert_drawing :: "Drawing \<Rightarrow> chain \<Rightarrow> chain" where
  \<comment> \<open>the key is wallet and market\<close>
  "upsert_drawing d c =
    (let same = (\<lambda>x. dw_wallet x = dw_wallet d \<and> dw_market x = dw_market d)
     in c\<lparr>chartDrawings := (if list_ex same (chartDrawings c)
            then map (\<lambda>x. if same x then d else x) (chartDrawings c) else chartDrawings c @ [d])\<rparr>)"

definition emit_burn :: "address \<Rightarrow> string \<Rightarrow> nat \<Rightarrow> nat \<Rightarrow> string \<Rightarrow> chain \<Rightarrow> chain" where
  "emit_burn u market t block tx c =
    emitEvent (Moved u ZERO_ADDRESS t) block tx 1 (emitEvent (Burned u market t) block tx 0 c)"

definition publish :: "millis \<Rightarrow> address \<Rightarrow> string \<Rightarrow> string \<Rightarrow> string \<Rightarrow> chain \<Rightarrow> (Revert + nat) \<times> chain" where
  \<comment> \<open>the result is the block\<close>
  "publish t sender rawMarket uri tx c =
    (let market = js_trim rawMarket; u = lower sender in
     if market = '''' then (Inl EmptyMarket, c)
     else if uri = '''' then (Inl EmptyUri, c)
     else
       let ((tok, block), c1) = nextTokenAndBlock c;
           existing = snapshot_row c1 u market;
           c2 = (case existing of None \<Rightarrow> c1 | Some d \<Rightarrow> emit_burn u market (dw_tokenId d) block tx c1);
           c3 = upsert_drawing \<lparr>dw_wallet = u, dw_market = market, dw_tokenId = tok, dw_uri = uri, dw_block = block,
                  dw_txHash = tx, dw_updatedAt = t\<rparr> c2;
           i = (case existing of None \<Rightarrow> 0 | Some _ \<Rightarrow> 2)
       in (Inr block, emitEvent (Published u market tok uri) block tx (i + 1)
                        (emitEvent (Moved ZERO_ADDRESS u tok) block tx i c3)))"

definition deleteForMarket :: "address \<Rightarrow> string \<Rightarrow> string \<Rightarrow> chain \<Rightarrow> (Revert + nat) \<times> chain" where
  "deleteForMarket sender rawMarket tx c =
    (let market = js_trim rawMarket; u = lower sender in
     case snapshot_row c u market of None \<Rightarrow> (Inl NoSnapshot, c)
     | Some d \<Rightarrow>
         let (block, c1) = tickBlock c;
             c2 = c1\<lparr>chartDrawings := filter (\<lambda>x. \<not> (dw_wallet x = u \<and> dw_market x = market)) (chartDrawings c1)\<rparr>
         in (Inr block, emit_burn u market (dw_tokenId d) block tx c2))"

definition burn :: "address \<Rightarrow> nat \<Rightarrow> string \<Rightarrow> chain \<Rightarrow> (Revert + nat) \<times> chain" where
  "burn sender t tx c =
    (let u = lower sender in
     case token_row c t of None \<Rightarrow> (Inl TokenDoesNotExist, c)
     | Some d \<Rightarrow>
         if dw_wallet d \<noteq> u then (Inl NotOwner, c)
         else
           let (block, c1) = tickBlock c;
               c2 = c1\<lparr>chartDrawings := filter (\<lambda>x. dw_tokenId x \<noteq> t) (chartDrawings c1)\<rparr>
           in (Inr block, emit_burn u (dw_market d) t block tx c2))"

subsection \<open>JSON-RPC\<close>

datatype RpcError = InvalidParams | MethodNotFound | Reverted Revert | Failed \<comment> \<open>thrown by ethers or the database\<close>

record LogFilter =
  fl_fromBlock :: "string option"
  fl_toBlock :: "string option"
  fl_address :: "address list option"
  fl_topic0 :: "string list"

datatype RpcMethod =
    Eth_chainId | Net_version | Web3_clientVersion | Eth_blockNumber | Eth_getBalance | Eth_gasPrice
  | Eth_estimateGas | Eth_getTransactionCount | Eth_getCode "address option" | Eth_call "address option" "string option"
  | Eth_sendRawTransaction "string option" | Eth_getTransactionReceipt string | Eth_getLogs LogFilter
  | Eth_getBlockByNumber string | Eth_syncing | Eth_other string

record LogRow =
  lr_event :: ContractEvent
  lr_blockNumber :: string
  lr_txHash :: string
  lr_blockHash :: string
  lr_logIndex :: string

record ReceiptView =
  rv_txHash :: string
  rv_blockHash :: string
  rv_blockNumber :: string
  rv_from :: address
  rv_to :: address
  rv_logs :: "LogRow list"

record BlockView =
  bv_number :: string
  bv_hash :: string
  bv_parentHash :: string
  bv_timestamp :: int

datatype RpcResult =
    J_text string
  | J_bool bool
  | J_call CallResult
  | J_receipt "ReceiptView option"
  | J_logs "LogRow list"
  | J_block BlockView

definition pad64 :: "string \<Rightarrow> string" where
  "pad64 s = ''0x'' @ pad_start 64 (CHR ''0'') s"

definition chain_id_hex :: "nat \<Rightarrow> string" where
  "chain_id_hex n = ''0x'' @ show_hex n"

definition handleEthCall :: "ethers \<Rightarrow> chain \<Rightarrow> address option \<Rightarrow> string option \<Rightarrow> RpcError + CallResult" where
  "handleEthCall X c addr data =
    (case (addr, data) of
      (Some a, Some d) \<Rightarrow>
        if a = '''' \<or> d = '''' \<or> lower a \<noteq> contractAddr X then Inl InvalidParams
        else
          let view = (\<lambda>r. case r of Inl e \<Rightarrow> Inl (Reverted e) | Inr v \<Rightarrow> Inr v)
          in (case decodeCall X d of None \<Rightarrow> Inl Failed
              | Some (C_currentSnapshotOf u m) \<Rightarrow> Inr (V_uint (currentSnapshotOf c u m))
              | Some (C_tokenURI t) \<Rightarrow> view (token_field (\<lambda>d. V_string (dw_uri d)) c t)
              | Some (C_ownerOf t) \<Rightarrow> view (token_field (\<lambda>d. V_address (dw_wallet d)) c t)
              | Some (C_marketOf t) \<Rightarrow> view (token_field (\<lambda>d. V_string (dw_market d)) c t)
              | Some (C_balanceOf u) \<Rightarrow> Inr (V_uint (length (drawings_of c u)))
              | Some C_name \<Rightarrow> Inr (V_string ''Slushy Chart Snapshots'')
              | Some C_symbol \<Rightarrow> Inr (V_string ''SLCS'')
              | Some (C_supportsInterface i) \<Rightarrow> Inr (V_bool (supportsInterface i))
              | Some _ \<Rightarrow> Inl MethodNotFound)
    | _ \<Rightarrow> Inl InvalidParams)"

definition state_call :: "millis \<Rightarrow> address \<Rightarrow> ContractCall \<Rightarrow> string \<Rightarrow> chain \<Rightarrow> (Revert + nat) option \<times> chain" where
  \<comment> \<open>\<open>None\<close> for a function that changes no state\<close>
  "state_call t sender call tx c =
    (case call of
      C_publish m uri \<Rightarrow> (let (r, c1) = publish t sender m uri tx c in (Some r, c1))
    | C_deleteForMarket m \<Rightarrow> (let (r, c1) = deleteForMarket sender m tx c in (Some r, c1))
    | C_burn n \<Rightarrow> (let (r, c1) = burn sender n tx c in (Some r, c1))
    | _ \<Rightarrow> (None, c))"

definition handleSendRawTransaction ::
    "ethers \<Rightarrow> millis \<Rightarrow> string option \<Rightarrow> chain \<Rightarrow> (RpcError + string) \<times> chain" where
  "handleSendRawTransaction X t raw c =
    (case raw of None \<Rightarrow> (Inl InvalidParams, c)
     | Some rawTx \<Rightarrow>
        if \<not> starts_with ''0x'' rawTx then (Inl InvalidParams, c)
        else case transactionFrom X rawTx of None \<Rightarrow> (Inl Failed, c)
        | Some tx \<Rightarrow>
          (case rt_from tx of None \<Rightarrow> (Inl Failed, c)
           | Some sender \<Rightarrow>
              if map_option lower (rt_to tx) \<noteq> Some (contractAddr X) then (Inl InvalidParams, c)
              else case decodeCall X (rt_data tx) of None \<Rightarrow> (Inl Failed, c)
              | Some call \<Rightarrow>
                  let h = keccak256 X rawTx; (r, c1) = state_call t (lower sender) call h c
                  in (case r of None \<Rightarrow> (Inl MethodNotFound, c)
                      | Some (Inl e) \<Rightarrow> (Inl (Reverted e), c)
                      | Some (Inr block) \<Rightarrow>
                          (Inr h, c1\<lparr>receiptCache := AList.update h \<lparr>rc_block = block, rc_from = lower sender\<rparr> (receiptCache c1)\<rparr>))))"

definition trimReceiptCache :: "chain \<Rightarrow> chain" where
  \<comment> \<open>one entry, the oldest\<close>
  "trimReceiptCache c = (if 1000 < length (receiptCache c) then c\<lparr>receiptCache := tl (receiptCache c)\<rparr> else c)"

definition replace_0x :: "string \<Rightarrow> string \<Rightarrow> string" where
  \<comment> \<open>the first occurrence\<close>
  "replace_0x s new = (case split_at ''0x'' s of None \<Rightarrow> s | Some (a, b) \<Rightarrow> a @ new @ b)"

definition receipt_block_hash :: "nat \<Rightarrow> string" where
  "receipt_block_hash n =
    replace_0x (pad_start 66 (CHR ''0'') (''0x'' @ show_hex n)) (''0x'' @ replicate (64 - length (show_hex n)) (CHR ''0''))"

definition handleGetReceipt :: "ethers \<Rightarrow> string \<Rightarrow> chain \<Rightarrow> ReceiptView option \<times> chain" where
  "handleGetReceipt X tx c =
    (case map_of (receiptCache c) tx of None \<Rightarrow> (None, c)
     | Some r \<Rightarrow>
         let blockHex = ''0x'' @ show_hex (rc_block r);
             rows = sort_key ce_logIndex (filter (\<lambda>e. ce_txHash e = tx) (chainEvents c))
         in (Some \<lparr>rv_txHash = tx, rv_blockHash = receipt_block_hash (rc_block r), rv_blockNumber = blockHex,
                rv_from = rc_from r, rv_to = contractAddr X,
                rv_logs = map (\<lambda>(i, e). \<lparr>lr_event = ce_event e, lr_blockNumber = blockHex, lr_txHash = tx,
                  lr_blockHash = blockHex, lr_logIndex = ''0x'' @ show_hex i\<rparr>) (enumerate 0 rows)\<rparr>,
             trimReceiptCache c))"

definition bound_block :: "string option \<Rightarrow> int \<Rightarrow> int option" where
  \<comment> \<open>a bound of the filter, the default when it is absent or empty\<close>
  "bound_block b d0 =
    (case b of None \<Rightarrow> Some d0 | Some s \<Rightarrow> if s = '''' then Some d0 else parse_hex s)"

definition handleGetLogs :: "ethers \<Rightarrow> LogFilter \<Rightarrow> chain \<Rightarrow> LogRow list option" where
  \<comment> \<open>\<open>None\<close> when a bound is not a number\<close>
  "handleGetLogs X fl c =
    (case (bound_block (fl_fromBlock fl) 0,
           bound_block (if fl_toBlock fl = Some ''latest'' then None else fl_toBlock fl) (int (currentBlock c))) of
      (Some b1, Some b2) \<Rightarrow>
        Some (map (\<lambda>e. \<lparr>lr_event = ce_event e, lr_blockNumber = ''0x'' @ show_hex (ce_block e), lr_txHash = ce_txHash e,
            lr_blockHash = pad64 (show_hex (ce_block e)), lr_logIndex = ''0x'' @ show_hex (ce_logIndex e)\<rparr>)
          (sort_key (\<lambda>e. (ce_block e, ce_logIndex e))
            (filter (\<lambda>e. b1 \<le> int (ce_block e) \<and> int (ce_block e) \<le> b2 \<and>
                (case fl_address fl of None \<Rightarrow> True | Some as \<Rightarrow> contractAddr X \<in> lower ` set as) \<and>
                (fl_topic0 fl = [] \<or> topicHash X (event_kind (ce_event e)) \<in> set (fl_topic0 fl))) (chainEvents c))))
    | _ \<Rightarrow> None)"

definition num_text :: "int option \<Rightarrow> string" where
  "num_text n = (case n of None \<Rightarrow> ''NaN'' | Some i \<Rightarrow> hex_text i)"

definition handleGetBlock :: "millis \<Rightarrow> string \<Rightarrow> chain \<Rightarrow> BlockView" where
  "handleGetBlock t tag c =
    (let n = (if tag \<in> {''latest'', ''pending'', ''safe'', ''finalized''} then Some (int (currentBlock c)) else parse_hex tag)
     in \<lparr>bv_number = ''0x'' @ num_text n, bv_hash = pad64 (num_text n),
         bv_parentHash = pad64 (num_text (map_option (\<lambda>i. max 0 (i - 1)) n)), bv_timestamp = t div 1000\<rparr>)"

definition evm_handle :: "ethers \<Rightarrow> nat \<Rightarrow> millis \<Rightarrow> RpcMethod \<Rightarrow> chain \<Rightarrow> (RpcError + RpcResult) \<times> chain" where
  \<comment> \<open>the second argument is EVM_CHAIN_ID\<close>
  "evm_handle X chainId t req c =
    (case req of
      Eth_chainId \<Rightarrow> (Inr (J_text (chain_id_hex chainId)), c)
    | Net_version \<Rightarrow> (Inr (J_text (show_nat chainId)), c)
    | Web3_clientVersion \<Rightarrow> (Inr (J_text ''HyPaper/1.0 (chain emulator)''), c)
    | Eth_blockNumber \<Rightarrow> (Inr (J_text (''0x'' @ show_hex (currentBlock c))), c)
    | Eth_getBalance \<Rightarrow> (Inr (J_text (''0x'' @ show_hex (1000 * 10 ^ 18))), c)
    | Eth_gasPrice \<Rightarrow> (Inr (J_text ''0x0''), c)
    | Eth_estimateGas \<Rightarrow> (Inr (J_text ''0x3d090''), c)
    | Eth_getTransactionCount \<Rightarrow> (Inr (J_text ''0x0''), c)
    | Eth_getCode a \<Rightarrow>
        (Inr (J_text (if map_option lower a = Some (contractAddr X) then ''0x60806040'' else ''0x'')), c)
    | Eth_call a d \<Rightarrow> (map_sum id J_call (handleEthCall X c a d), c)
    | Eth_sendRawTransaction raw \<Rightarrow>
        (let (r, c1) = handleSendRawTransaction X t raw c in (map_sum id J_text r, c1))
    | Eth_getTransactionReceipt tx \<Rightarrow> (let (r, c1) = handleGetReceipt X tx c in (Inr (J_receipt r), c1))
    | Eth_getLogs fl \<Rightarrow> (case handleGetLogs X fl c of None \<Rightarrow> (Inl Failed, c) | Some rows \<Rightarrow> (Inr (J_logs rows), c))
    | Eth_getBlockByNumber tag \<Rightarrow> (Inr (J_block (handleGetBlock t tag c)), c)
    | Eth_syncing \<Rightarrow> (Inr (J_bool False), c)
    | Eth_other name \<Rightarrow> (Inl MethodNotFound, c))"

definition evm_run :: "ethers \<Rightarrow> nat \<Rightarrow> (millis \<times> RpcMethod) list \<Rightarrow> chain" where
  "evm_run X chainId reqs = foldl (\<lambda>c (t, req). snd (evm_handle X chainId t req c)) genesis reqs"

subsection \<open>The registry\<close>

lemma find_unique: "distinct (map f xs) \<Longrightarrow> List.find (\<lambda>x. f x = k) xs = Some d \<longleftrightarrow> d \<in> set xs \<and> f d = k"
  by (induction xs) (auto simp: image_iff)

abbreviation dw_key :: "Drawing \<Rightarrow> address \<times> string" where
  "dw_key d \<equiv> (dw_wallet d, dw_market d)"

definition registry_ok :: "chain \<Rightarrow> bool" where
  \<comment> \<open>one snapshot per wallet and market, tokens minted once\<close>
  "registry_ok c \<longleftrightarrow>
    distinct (map dw_key (chartDrawings c)) \<and> distinct (map dw_tokenId (chartDrawings c)) \<and>
    (\<forall>d \<in> set (chartDrawings c). dw_tokenId d < nextTokenId c \<and> lower (dw_wallet d) = dw_wallet d \<and>
       dw_market d \<noteq> '''' \<and> dw_uri d \<noteq> '''')"

lemma token_row_iff: "registry_ok c \<Longrightarrow> token_row c t = Some d \<longleftrightarrow> d \<in> set (chartDrawings c) \<and> dw_tokenId d = t"
  by (simp add: token_row_def registry_ok_def find_unique)

lemma snapshot_row_iff:
  "registry_ok c \<Longrightarrow> snapshot_row c u m = Some d \<longleftrightarrow> d \<in> set (chartDrawings c) \<and> dw_key d = (u, m)"
  using find_unique [of dw_key "chartDrawings c" "(u, m)" d] by (simp add: snapshot_row_def registry_ok_def)

lemma snapshot_row_None:
  "snapshot_row c u m = None \<longleftrightarrow> (\<forall>d \<in> set (chartDrawings c). dw_key d \<noteq> (u, m))"
  by (auto simp: snapshot_row_def find_None_iff)

lemma same_option: "(\<And>d. x = Some d \<longleftrightarrow> y = Some d) \<Longrightarrow> x = y"
  by (metis not_Some_eq)

lemma row_frame [simp]:
  "snapshot_row (c\<lparr>nextTokenId := n, currentBlock := b\<rparr>) u m = snapshot_row c u m"
  "token_row (c\<lparr>chainEvents := evs\<rparr>) t = token_row c t" "token_row (c\<lparr>receiptCache := rs\<rparr>) t = token_row c t"
  "chartDrawings (emitEvent ev block tx i c) = chartDrawings c" "nextTokenId (emitEvent ev block tx i c) = nextTokenId c"
  "currentBlock (emitEvent ev block tx i c) = currentBlock c" "token_row (emitEvent ev block tx i c) t = token_row c t"
  "chartDrawings (emit_burn u mk t' block tx c) = chartDrawings c" "nextTokenId (emit_burn u mk t' block tx c) = nextTokenId c"
  "currentBlock (emit_burn u mk t' block tx c) = currentBlock c"
  by (simp_all add: snapshot_row_def token_row_def emitEvent_def emit_burn_def)

lemma set_upsert:
  "set (chartDrawings (upsert_drawing d c)) = insert d {x \<in> set (chartDrawings c). dw_key x \<noteq> dw_key d}"
  by (auto simp: upsert_drawing_def Let_def list_ex_iff)

lemma distinct_replace:
  assumes "distinct (map k xs)" "distinct (map f xs)" "f d \<notin> f ` set xs"
  shows "distinct (map f (map (\<lambda>x. if k x = k d then d else x) xs))"
  using assms
proof (induction xs)
  case (Cons x xs)
  show ?case
  proof (cases "k x = k d")
    case True
    with Cons.prems have "map (\<lambda>x. if k x = k d then d else x) xs = xs"
      by (intro map_idI) (auto simp: image_iff)
    with True Cons.prems show ?thesis by auto
  next
    case False
    moreover have "f x \<notin> f ` (\<lambda>x. if k x = k d then d else x) ` set xs" using Cons.prems by auto
    ultimately show ?thesis using Cons by auto
  qed
qed simp

lemma map_key_replace: "map k (map (\<lambda>x. if k x = k d then d else x) xs) = map k xs"
  by (induction xs) auto

lemma registry_upsert:
  assumes "registry_ok c" "dw_tokenId d = nextTokenId c - 1" "\<forall>x \<in> set (chartDrawings c). dw_tokenId x < nextTokenId c - 1"
    "0 < nextTokenId c" "lower (dw_wallet d) = dw_wallet d" "dw_market d \<noteq> ''''" "dw_uri d \<noteq> ''''"
  shows "registry_ok (upsert_drawing d c)"
proof -
  let ?xs = "chartDrawings c"
  have new: "dw_tokenId d \<notin> dw_tokenId ` set ?xs" using assms(2,3) by auto
  have each: "\<forall>x \<in> set (chartDrawings (upsert_drawing d c)). dw_tokenId x < nextTokenId c \<and> lower (dw_wallet x) = dw_wallet x \<and>
       dw_market x \<noteq> '''' \<and> dw_uri x \<noteq> ''''"
    using assms by (auto simp: set_upsert registry_ok_def)
  have n: "nextTokenId (upsert_drawing d c) = nextTokenId c" by (simp add: upsert_drawing_def Let_def)
  have keys: "distinct (map dw_key ?xs)" and toks: "distinct (map dw_tokenId ?xs)" using assms(1) by (auto simp: registry_ok_def)
  let ?rep = "map (\<lambda>x. if dw_key x = dw_key d then d else x) ?xs"
  have rows: "chartDrawings (upsert_drawing d c) =
      (if list_ex (\<lambda>x. dw_key x = dw_key d) ?xs then ?rep else ?xs @ [d])"
    by (simp add: upsert_drawing_def Let_def)
  have "distinct (map dw_key ?rep)" by (rule subst [where P = distinct, OF map_key_replace [of dw_key d ?xs, symmetric]]) (rule keys)
  moreover have "distinct (map dw_tokenId ?rep)" by (rule distinct_replace [OF keys toks new])
  moreover have "\<not> list_ex (\<lambda>x. dw_key x = dw_key d) ?xs \<Longrightarrow> distinct (map dw_key (?xs @ [d]))"
    using keys by (auto simp: list_ex_iff)
  moreover have "distinct (map dw_tokenId (?xs @ [d]))" using toks new by auto
  ultimately show ?thesis using each by (simp add: registry_ok_def n rows)
qed

lemma registry_filter: "registry_ok c \<Longrightarrow> registry_ok (c\<lparr>currentBlock := b, chartDrawings := filter P (chartDrawings c)\<rparr>)"
  by (auto simp: registry_ok_def distinct_map_filter)

lemma registry_cong:
  "chartDrawings c' = chartDrawings c \<Longrightarrow> nextTokenId c' = nextTokenId c \<Longrightarrow> registry_ok c' = registry_ok c"
  by (simp add: registry_ok_def)

definition write_events :: "nat \<Rightarrow> address \<Rightarrow> Drawing option \<Rightarrow> Drawing option \<Rightarrow> string \<Rightarrow> ChainEvent list" where
  \<comment> \<open>the burn of the row a write removes, then the mint of the row it adds\<close>
  "write_events b u old new tx =
    (let gone = (case old of None \<Rightarrow> [] | Some d \<Rightarrow> [Burned u (dw_market d) (dw_tokenId d), Moved u ZERO_ADDRESS (dw_tokenId d)]);
         made = (case new of None \<Rightarrow> [] | Some d \<Rightarrow>
           [Moved ZERO_ADDRESS u (dw_tokenId d), Published u (dw_market d) (dw_tokenId d) (dw_uri d)])
     in map (\<lambda>(i, ev). \<lparr>ce_block = b, ce_txHash = tx, ce_logIndex = i, ce_event = ev\<rparr>) (enumerate 0 (gone @ made)))"

definition write_effect :: "chain \<Rightarrow> address \<Rightarrow> Drawing option \<Rightarrow> Drawing option \<Rightarrow> string \<Rightarrow> chain \<Rightarrow> bool" where
  \<comment> \<open>a write of a sender in a new block\<close>
  "write_effect c u old new tx c' \<longleftrightarrow>
    (\<forall>d. old = Some d \<longrightarrow> token_row c (dw_tokenId d) = Some d \<and> dw_wallet d = u) \<and>
    (\<forall>d. new = Some d \<longrightarrow> dw_tokenId d = nextTokenId c \<and> dw_wallet d = u) \<and>
    registry_ok c' \<and> currentBlock c' = currentBlock c + 1 \<and>
    chainEvents c' = chainEvents c @ write_events (currentBlock c + 1) u old new tx \<and>
    (\<forall>t. token_row c' t =
      (if \<exists>d. new = Some d \<and> dw_tokenId d = t then new
       else if \<exists>d. old = Some d \<and> dw_tokenId d = t then None else token_row c t))"

lemma events_emit [simp]:
  "chainEvents (emitEvent ev block tx i c) = chainEvents c @ [\<lparr>ce_block = block, ce_txHash = tx, ce_logIndex = i, ce_event = ev\<rparr>]"
  "chainEvents (emit_burn u m t block tx c) = chainEvents c @
     [\<lparr>ce_block = block, ce_txHash = tx, ce_logIndex = 0, ce_event = Burned u m t\<rparr>,
      \<lparr>ce_block = block, ce_txHash = tx, ce_logIndex = 1, ce_event = Moved u ZERO_ADDRESS t\<rparr>]"
  by (simp_all add: emitEvent_def emit_burn_def)

lemma upsert_frame [simp]:
  "chainEvents (upsert_drawing d c) = chainEvents c" "nextTokenId (upsert_drawing d c) = nextTokenId c"
  "currentBlock (upsert_drawing d c) = currentBlock c"
  by (simp_all add: upsert_drawing_def Let_def)

lemma rows_removed:
  assumes "registry_ok c" "registry_ok c'" "set (chartDrawings c') = {x \<in> set (chartDrawings c). x \<noteq> d}" "d \<in> set (chartDrawings c)"
  shows "token_row c' t = (if dw_tokenId d = t then None else token_row c t)"
proof -
  have one: "x \<in> set (chartDrawings c) \<Longrightarrow> dw_tokenId x = dw_tokenId d \<Longrightarrow> x = d" for x
    using assms(1,4) by (auto simp: registry_ok_def distinct_map inj_on_def)
  show ?thesis
    by (rule same_option) (use assms one in \<open>auto simp: token_row_iff\<close>)
qed

lemma same_key: "registry_ok c \<Longrightarrow> x \<in> set (chartDrawings c) \<Longrightarrow> d \<in> set (chartDrawings c) \<Longrightarrow> dw_key x = dw_key d \<longleftrightarrow> x = d"
  by (auto simp: registry_ok_def distinct_map inj_on_def)

lemma same_token: "registry_ok c \<Longrightarrow> x \<in> set (chartDrawings c) \<Longrightarrow> d \<in> set (chartDrawings c) \<Longrightarrow> dw_tokenId x = dw_tokenId d \<longleftrightarrow> x = d"
  by (auto simp: registry_ok_def distinct_map inj_on_def)

lemma registry_later:
  "registry_ok c \<Longrightarrow> registry_ok (c\<lparr>nextTokenId := nextTokenId c + 1, currentBlock := b\<rparr>)"
  by (auto simp: registry_ok_def)

lemma rows_added:
  assumes "registry_ok c" "dw_tokenId d = nextTokenId c" "snapshot_row c (dw_wallet d) (dw_market d) = old"
    "registry_ok c'" "set (chartDrawings c') = insert d {x \<in> set (chartDrawings c). dw_key x \<noteq> dw_key d}"
  shows "token_row c' t = (if dw_tokenId d = t then Some d
    else if \<exists>e. old = Some e \<and> dw_tokenId e = t then None else token_row c t)"
proof (rule same_option)
  fix e
  have fresh: "x \<in> set (chartDrawings c) \<Longrightarrow> dw_tokenId x \<noteq> dw_tokenId d" for x
    using assms(1,2) by (auto simp: registry_ok_def)
  have old: "old = Some x \<longleftrightarrow> x \<in> set (chartDrawings c) \<and> dw_key x = dw_key d" for x
    using assms(1,3) snapshot_row_iff by auto
  have key: "x \<in> set (chartDrawings c) \<Longrightarrow> y \<in> set (chartDrawings c) \<Longrightarrow> dw_tokenId x = dw_tokenId y \<Longrightarrow> x = y" for x y
    using same_token [OF assms(1)] by blast
  show "token_row c' t = Some e \<longleftrightarrow> (if dw_tokenId d = t then Some d
    else if \<exists>e. old = Some e \<and> dw_tokenId e = t then None else token_row c t) = Some e"
    unfolding token_row_iff [OF assms(4)] assms(5)
    using fresh old key by (auto simp: token_row_iff [OF assms(1)])
qed

lemma publish_effect:
  assumes ok: "registry_ok c" and r: "publish t sender rawMarket uri tx c = (res, c')"
  shows "case res of
      Inl e \<Rightarrow> c' = c \<and> (if js_trim rawMarket = '''' then e = EmptyMarket else uri = '''' \<and> e = EmptyUri)
    | Inr b \<Rightarrow> js_trim rawMarket \<noteq> '''' \<and> uri \<noteq> '''' \<and> b = currentBlock c + 1 \<and>
        write_effect c (lower sender) (snapshot_row c (lower sender) (js_trim rawMarket))
          (Some \<lparr>dw_wallet = lower sender, dw_market = js_trim rawMarket, dw_tokenId = nextTokenId c, dw_uri = uri,
                 dw_block = b, dw_txHash = tx, dw_updatedAt = t\<rparr>) tx c'"
proof (cases "js_trim rawMarket = '''' \<or> uri = ''''")
  case True
  then show ?thesis using r by (auto simp: publish_def Let_def split: if_splits)
next
  case False
  let ?u = "lower sender" and ?m = "js_trim rawMarket" and ?b = "currentBlock c + 1"
  let ?d = "\<lparr>dw_wallet = ?u, dw_market = ?m, dw_tokenId = nextTokenId c, dw_uri = uri,
                 dw_block = ?b, dw_txHash = tx, dw_updatedAt = t\<rparr>"
  let ?old = "snapshot_row c ?u ?m"
  define c1 where "c1 = c\<lparr>nextTokenId := nextTokenId c + 1, currentBlock := ?b\<rparr>"
  define c2 where "c2 = (case ?old of None \<Rightarrow> c1 | Some d \<Rightarrow> emit_burn ?u ?m (dw_tokenId d) ?b tx c1)"
  define c3 where "c3 = upsert_drawing ?d c2"
  define i :: nat where "i = (case ?old of None \<Rightarrow> 0 | Some _ \<Rightarrow> 2)"
  have res: "res = Inr ?b" and c': "c' = emitEvent (Published ?u ?m (nextTokenId c) uri) ?b tx (i + 1)
      (emitEvent (Moved ZERO_ADDRESS ?u (nextTokenId c)) ?b tx i c3)"
    using r False unfolding c3_def c2_def c1_def i_def
    by (cases ?old; simp add: publish_def nextTokenAndBlock_def Let_def)+
  have rows2: "chartDrawings c2 = chartDrawings c" "nextTokenId c2 = nextTokenId c + 1" "currentBlock c2 = ?b"
    by (simp_all add: c2_def c1_def split: option.split)
  have below: "\<forall>x \<in> set (chartDrawings c). dw_tokenId x < nextTokenId c" using ok by (simp add: registry_ok_def)
  have ok1: "registry_ok c1" unfolding c1_def by (rule registry_later [OF ok])
  have ok2: "registry_ok c2" using ok1 rows2 registry_cong [of c2 c1] by (simp add: c1_def)
  have ok3: "registry_ok c3" unfolding c3_def
    by (rule registry_upsert [OF ok2]) (use False below in \<open>simp_all add: rows2\<close>)
  have ok': "registry_ok c'" using ok3 registry_cong [of c' c3] by (simp add: c')
  have old: "\<And>e. ?old = Some e \<Longrightarrow> token_row c (dw_tokenId e) = Some e \<and> dw_wallet e = ?u \<and> dw_market e = ?m"
    using snapshot_row_iff [OF ok] token_row_iff [OF ok] by simp
  have rows: "token_row c' s = (if dw_tokenId ?d = s then Some ?d
    else if \<exists>e. ?old = Some e \<and> dw_tokenId e = s then None else token_row c s)" for s
  proof (rule rows_added [OF ok _ _ ok'])
    show "set (chartDrawings c') = insert ?d {x \<in> set (chartDrawings c). dw_key x \<noteq> dw_key ?d}"
      using set_upsert [of ?d c2] by (simp add: c' c3_def rows2)
  qed simp_all
  have evs: "chainEvents c1 = chainEvents c" by (simp add: c1_def)
  have "write_effect c ?u ?old (Some ?d) tx c'"
    unfolding write_effect_def
  proof (intro conjI allI)
    show "chainEvents c' = chainEvents c @ write_events (currentBlock c + 1) ?u ?old (Some ?d) tx"
      using old by (cases ?old) (simp_all add: c' c3_def c2_def evs i_def write_events_def)
  qed (use old ok' rows rows2 in \<open>auto simp: c' c3_def\<close>)
  then show ?thesis using res False by simp
qed

lemma delete_effect:
  assumes ok: "registry_ok c" and r: "deleteForMarket sender rawMarket tx c = (res, c')"
  shows "case res of Inl e \<Rightarrow> c' = c \<and> e = NoSnapshot \<and> snapshot_row c (lower sender) (js_trim rawMarket) = None
    | Inr b \<Rightarrow> b = currentBlock c + 1 \<and> (\<exists>d. snapshot_row c (lower sender) (js_trim rawMarket) = Some d \<and>
        write_effect c (lower sender) (Some d) None tx c')"
proof (cases "snapshot_row c (lower sender) (js_trim rawMarket)")
  case None
  then show ?thesis using r by (auto simp: deleteForMarket_def)
next
  case (Some d)
  let ?u = "lower sender" and ?m = "js_trim rawMarket"
  have d: "d \<in> set (chartDrawings c)" "dw_wallet d = ?u" "dw_market d = ?m" using Some snapshot_row_iff [OF ok] by auto
  let ?c2 = "c\<lparr>currentBlock := currentBlock c + 1,
    chartDrawings := filter (\<lambda>x. \<not> (dw_wallet x = ?u \<and> dw_market x = ?m)) (chartDrawings c)\<rparr>"
  have c': "c' = emit_burn ?u ?m (dw_tokenId d) (currentBlock c + 1) tx ?c2" and res: "res = Inr (currentBlock c + 1)"
    using r Some by (simp_all add: deleteForMarket_def tickBlock_def Let_def)
  have ok': "registry_ok c'" using registry_filter [OF ok] registry_cong [of c' ?c2] by (simp add: c')
  have rows: "token_row c' s = (if dw_tokenId d = s then None else token_row c s)" for s
    by (rule rows_removed [OF ok ok' _ d(1)]) (use same_key [OF ok _ d(1)] d in \<open>auto simp: c'\<close>)
  have "write_effect c ?u (Some d) None tx c'"
    using token_row_iff [OF ok] d ok' by (auto simp: write_effect_def c' [symmetric] rows) (simp_all add: c' write_events_def)
  then show ?thesis using res Some by simp
qed

lemma burn_effect:
  assumes ok: "registry_ok c" and r: "burn sender n tx c = (res, c')"
  shows "case res of Inl e \<Rightarrow> c' = c \<and> (case token_row c n of None \<Rightarrow> e = TokenDoesNotExist
        | Some d \<Rightarrow> dw_wallet d \<noteq> lower sender \<and> e = NotOwner)
    | Inr b \<Rightarrow> b = currentBlock c + 1 \<and> (\<exists>d. token_row c n = Some d \<and> write_effect c (lower sender) (Some d) None tx c')"
proof (cases "\<exists>d. token_row c n = Some d \<and> dw_wallet d = lower sender")
  case False
  then show ?thesis using r by (auto simp: burn_def Let_def split: option.splits if_splits)
next
  case True
  then obtain d where t: "token_row c n = Some d" and w: "dw_wallet d = lower sender" by blast
  then have d: "d \<in> set (chartDrawings c)" "dw_tokenId d = n" using token_row_iff [OF ok] by auto
  let ?u = "lower sender"
  let ?c2 = "c\<lparr>currentBlock := currentBlock c + 1, chartDrawings := filter (\<lambda>x. dw_tokenId x \<noteq> n) (chartDrawings c)\<rparr>"
  have c': "c' = emit_burn ?u (dw_market d) n (currentBlock c + 1) tx ?c2" and res: "res = Inr (currentBlock c + 1)"
    using r t w by (simp_all add: burn_def tickBlock_def Let_def)
  have ok': "registry_ok c'" using registry_filter [OF ok] registry_cong [of c' ?c2] by (simp add: c')
  have rows: "token_row c' s = (if dw_tokenId d = s then None else token_row c s)" for s
    by (rule rows_removed [OF ok ok' _ d(1)]) (use same_token [OF ok _ d(1)] d in \<open>auto simp: c'\<close>)
  have "write_effect c ?u (Some d) None tx c'"
    using token_row_iff [OF ok] d w ok' by (auto simp: write_effect_def c' [symmetric] rows) (simp_all add: c' write_events_def)
  then show ?thesis using res t by simp
qed

lemma state_call_effect:
  assumes "registry_ok c" "state_call t sender call tx c = (r, c')"
  shows "case r of None \<Rightarrow> c' = c | Some (Inl e) \<Rightarrow> c' = c
    | Some (Inr b) \<Rightarrow> b = currentBlock c + 1 \<and> (\<exists>old new. write_effect c (lower sender) old new tx c')"
proof (cases call)
  case (C_publish m uri)
  then show ?thesis using assms publish_effect [OF assms(1), of t sender m uri tx]
    by (auto simp: state_call_def split: prod.splits sum.splits; blast)
next
  case (C_deleteForMarket m)
  then show ?thesis using assms delete_effect [OF assms(1), of sender m tx]
    by (auto simp: state_call_def split: prod.splits sum.splits; blast)
next
  case (C_burn n)
  then show ?thesis using assms burn_effect [OF assms(1), of sender n tx]
    by (auto simp: state_call_def split: prod.splits sum.splits; blast)
qed (use assms in \<open>auto simp: state_call_def\<close>)

subsection \<open>An indexer over the logs\<close>

fun index_owner :: "ContractEvent \<Rightarrow> (nat \<Rightarrow> address option) \<Rightarrow> (nat \<Rightarrow> address option)" where
  \<comment> \<open>ownership of an ERC-721 token from its transfers alone\<close>
  "index_owner (Moved f to t) m = m(t := if to = ZERO_ADDRESS then None else Some to)"
| "index_owner _ m = m"

fun index_snapshot :: "ContractEvent \<Rightarrow> (nat \<Rightarrow> (address \<times> string \<times> string) option) \<Rightarrow> (nat \<Rightarrow> (address \<times> string \<times> string) option)" where
  "index_snapshot (Published u m t uri) s = s(t := Some (u, m, uri))"
| "index_snapshot (Burned u m t) s = s(t := None)"
| "index_snapshot (Moved f to t) s = s"

definition logged_owner :: "ContractEvent list \<Rightarrow> nat \<Rightarrow> address option" where
  "logged_owner evs = fold index_owner evs (\<lambda>_. None)"

definition logged_snapshot :: "ContractEvent list \<Rightarrow> nat \<Rightarrow> (address \<times> string \<times> string) option" where
  "logged_snapshot evs = fold index_snapshot evs (\<lambda>_. None)"

abbreviation ce_key :: "ChainEvent \<Rightarrow> nat \<times> nat" where
  "ce_key e \<equiv> (ce_block e, ce_logIndex e)"

definition logs_ok :: "chain \<Rightarrow> bool" where
  "logs_ok c \<longleftrightarrow>
    sorted (map ce_key (chainEvents c)) \<and> (\<forall>e \<in> set (chainEvents c). ce_block e \<le> currentBlock c) \<and>
    logged_snapshot (map ce_event (chainEvents c)) = (\<lambda>t. map_option (\<lambda>d. (dw_wallet d, dw_market d, dw_uri d)) (token_row c t)) \<and>
    logged_owner (map ce_event (chainEvents c)) = (\<lambda>t. map_option dw_wallet (token_row c t))"

lemma logged_append:
  "logged_owner (evs @ evs') = fold index_owner evs' (logged_owner evs)"
  "logged_snapshot (evs @ evs') = fold index_snapshot evs' (logged_snapshot evs)"
  by (simp_all add: logged_owner_def logged_snapshot_def)

lemma events_owner:
  "fold index_owner (map ce_event (write_events b u old new tx)) m t =
    (if \<exists>d. new = Some d \<and> dw_tokenId d = t then (if u = ZERO_ADDRESS then None else Some u)
     else if \<exists>d. old = Some d \<and> dw_tokenId d = t then None else m t)"
  by (cases old; cases new) (auto simp: write_events_def)

lemma events_snapshot:
  "fold index_snapshot (map ce_event (write_events b u old new tx)) s t =
    (case new of Some d \<Rightarrow> if dw_tokenId d = t then Some (u, dw_market d, dw_uri d)
        else if \<exists>d. old = Some d \<and> dw_tokenId d = t then None else s t
     | None \<Rightarrow> if \<exists>d. old = Some d \<and> dw_tokenId d = t then None else s t)"
  by (cases old; cases new) (auto simp: write_events_def)

lemma write_keeps_logs:
  assumes w: "write_effect c u old new tx c'" and ok: "logs_ok c" and u: "u \<noteq> ZERO_ADDRESS"
  shows "logs_ok c'"
proof -
  let ?b = "currentBlock c + 1"
  define evs where "evs = write_events ?b u old new tx"
  have evs: "chainEvents c' = chainEvents c @ evs" and b: "currentBlock c' = ?b"
    using w by (auto simp: write_effect_def evs_def)
  have keys: "\<forall>e \<in> set evs. ce_block e = ?b" "sorted (map ce_logIndex evs)"
    by (auto simp: evs_def write_events_def Let_def split: option.split)
  have s: "sorted (map ce_key evs)" using keys
    by (auto simp: sorted_map sorted_wrt_iff_nth_less less_eq_prod_def)
  have srt: "sorted (map ce_key (chainEvents c'))"
    using ok s keys(1) by (fastforce simp: logs_ok_def evs sorted_append less_eq_prod_def)
  have low: "\<forall>e \<in> set (chainEvents c'). ce_block e \<le> currentBlock c'"
    using ok keys(1) by (fastforce simp: logs_ok_def evs b)
  have rows: "\<And>t. token_row c' t = (if \<exists>d. new = Some d \<and> dw_tokenId d = t then new
           else if \<exists>d. old = Some d \<and> dw_tokenId d = t then None else token_row c t)"
    using w by (auto simp: write_effect_def)
  have n: "\<And>d. new = Some d \<Longrightarrow> dw_wallet d = u"
    using w by (auto simp: write_effect_def)
  have kinds: "map ce_event (chainEvents c') = map ce_event (chainEvents c) @ map ce_event evs" by (simp add: evs)
  have snap: "logged_snapshot (map ce_event (chainEvents c')) = (\<lambda>t. map_option (\<lambda>d. (dw_wallet d, dw_market d, dw_uri d)) (token_row c' t))"
  proof
    fix t
    have "logged_snapshot (map ce_event (chainEvents c)) t = map_option (\<lambda>d. (dw_wallet d, dw_market d, dw_uri d)) (token_row c t)"
      using ok by (simp add: logs_ok_def)
    then show "logged_snapshot (map ce_event (chainEvents c')) t = map_option (\<lambda>d. (dw_wallet d, dw_market d, dw_uri d)) (token_row c' t)"
      unfolding kinds logged_append rows evs_def events_snapshot using n by (cases old; cases new) simp_all
  qed
  have own: "logged_owner (map ce_event (chainEvents c')) = (\<lambda>t. map_option dw_wallet (token_row c' t))"
  proof
    fix t
    have "logged_owner (map ce_event (chainEvents c)) t = map_option dw_wallet (token_row c t)"
      using ok by (simp add: logs_ok_def)
    then show "logged_owner (map ce_event (chainEvents c')) t = map_option dw_wallet (token_row c' t)"
      unfolding kinds logged_append rows evs_def events_owner using n u by (cases old; cases new) simp_all
  qed
  show ?thesis using srt low snap own by (simp add: logs_ok_def)
qed

subsection \<open>Runs\<close>

lemma handle_cases:
  assumes ok: "registry_ok c" and r: "evm_handle X chainId t req c = (r, c')"
  shows "(\<exists>rs. c' = c\<lparr>receiptCache := rs\<rparr>) \<or>
    (\<exists>raw tx a c1 rs old new h. req = Eth_sendRawTransaction (Some raw) \<and> transactionFrom X raw = Some tx \<and>
       rt_from tx = Some a \<and> write_effect c (lower a) old new h c1 \<and> c' = c1\<lparr>receiptCache := rs\<rparr>)"
proof -
  have same: "\<exists>rs. c = c\<lparr>receiptCache := rs\<rparr>" by (rule exI [of _ "receiptCache c"]) simp
  consider (send) raw where "req = Eth_sendRawTransaction raw" | (receipt) tx where "req = Eth_getTransactionReceipt tx" | (other) "c' = c"
    using r by (cases req) (auto simp: evm_handle_def split: prod.splits option.splits)
  then show ?thesis
  proof cases
    case (send raw)
    have "c' = c \<or> (\<exists>rawTx tx a call c1 b. raw = Some rawTx \<and> transactionFrom X rawTx = Some tx \<and> rt_from tx = Some a \<and>
        state_call t (lower a) call (keccak256 X rawTx) c = (Some (Inr b), c1) \<and> (\<exists>rs. c' = c1\<lparr>receiptCache := rs\<rparr>))"
      using r unfolding send evm_handle_def handleSendRawTransaction_def Let_def
      by (auto split: option.splits if_splits prod.splits sum.splits)
    then show ?thesis
    proof
      assume "c' = c" then show ?thesis using same by blast
    next
      assume "\<exists>rawTx tx a call c1 b. raw = Some rawTx \<and> transactionFrom X rawTx = Some tx \<and> rt_from tx = Some a \<and>
        state_call t (lower a) call (keccak256 X rawTx) c = (Some (Inr b), c1) \<and> (\<exists>rs. c' = c1\<lparr>receiptCache := rs\<rparr>)"
      then obtain rawTx tx a call c1 b rs where x: "raw = Some rawTx" "transactionFrom X rawTx = Some tx" "rt_from tx = Some a"
        "state_call t (lower a) call (keccak256 X rawTx) c = (Some (Inr b), c1)" "c' = c1\<lparr>receiptCache := rs\<rparr>" by blast
      from state_call_effect [OF ok x(4)] obtain old new where "write_effect c (lower a) old new (keccak256 X rawTx) c1"
        by auto
      with x show ?thesis unfolding send by blast
    qed
  next
    case (receipt tx)
    then have "c' = c \<or> c' = trimReceiptCache c"
      using r by (auto simp: evm_handle_def handleGetReceipt_def Let_def split: option.splits prod.splits)
    then show ?thesis using same by (auto simp: trimReceiptCache_def)
  next
    case other
    then show ?thesis using same by blast
  qed
qed

lemma logs_cong:
  "chainEvents c' = chainEvents c \<Longrightarrow> chartDrawings c' = chartDrawings c \<Longrightarrow> currentBlock c' = currentBlock c \<Longrightarrow> logs_ok c' = logs_ok c"
  by (simp add: logs_ok_def token_row_def)

definition recovers :: "ethers \<Rightarrow> bool" where
  \<comment> \<open>signature recovery never yields the zero address\<close>
  "recovers X \<longleftrightarrow> (\<forall>raw tx a. transactionFrom X raw = Some tx \<longrightarrow> rt_from tx = Some a \<longrightarrow> lower a \<noteq> ZERO_ADDRESS)"

lemma step_registry:
  assumes "registry_ok c" "evm_handle X chainId t req c = (r, c')"
  shows "registry_ok c'"
  using handle_cases [OF assms]
proof (elim disjE exE conjE)
  fix rs assume "c' = c\<lparr>receiptCache := rs\<rparr>"
  then show ?thesis using assms(1) registry_cong [of c' c] by simp
next
  fix a c1 rs old new h
  assume w: "write_effect c a old new h c1" and c': "c' = c1\<lparr>receiptCache := rs\<rparr>"
  have "registry_ok c1" using w by (simp add: write_effect_def)
  then show ?thesis using c' registry_cong [of c' c1] by simp
qed

lemma step_logs:
  assumes "recovers X" "registry_ok c" "logs_ok c" "evm_handle X chainId t req c = (r, c')"
  shows "logs_ok c'"
  using handle_cases [OF assms(2,4)]
proof (elim disjE exE conjE)
  fix rs assume "c' = c\<lparr>receiptCache := rs\<rparr>"
  then show ?thesis using assms(3) logs_cong [of c' c] by simp
next
  fix raw tx a c1 rs old new h
  assume tx: "transactionFrom X raw = Some tx" "rt_from tx = Some a" and w: "write_effect c (lower a) old new h c1"
    and c': "c' = c1\<lparr>receiptCache := rs\<rparr>"
  have "lower a \<noteq> ZERO_ADDRESS" using assms(1) tx by (auto simp: recovers_def)
  from write_keeps_logs [OF w assms(3) this] show ?thesis using c' logs_cong [of c' c1] by simp
qed

lemma genesis_ok: "registry_ok genesis" "logs_ok genesis"
  by (simp_all add: registry_ok_def logs_ok_def genesis_def token_row_def logged_owner_def logged_snapshot_def)

lemma evm_run_snoc: "evm_run X n (reqs @ [(t, req)]) = snd (evm_handle X n t req (evm_run X n reqs))"
  by (simp add: evm_run_def)

lemma run_registry: "registry_ok (evm_run X n reqs)"
proof (induction reqs rule: rev_induct)
  case (snoc x reqs)
  from step_registry [OF snoc surjective_pairing] show ?case by (cases x) (simp add: evm_run_snoc)
qed (simp add: evm_run_def genesis_ok)

lemma run_logs: "recovers X \<Longrightarrow> logs_ok (evm_run X n reqs)"
proof (induction reqs rule: rev_induct)
  case (snoc x reqs)
  from step_logs [OF snoc.prems run_registry snoc.IH [OF snoc.prems] surjective_pairing]
  show ?case by (cases x) (simp add: evm_run_snoc)
qed (simp add: evm_run_def genesis_ok)

definition ALL_LOGS :: LogFilter where
  "ALL_LOGS = \<lparr>fl_fromBlock = None, fl_toBlock = None, fl_address = None, fl_topic0 = []\<rparr>"

text \<open>
  C36. What a client rebuilds from the logs is the registry: on any history of requests, the
  transfers that eth_getLogs returns, in their order, give the owner of every token, and the
  published and burned snapshots its market and envelope, exactly as the view functions read them.
\<close>
theorem logs_rebuild_the_registry:
  assumes "recovers X"
  shows "\<exists>rows. handleGetLogs X ALL_LOGS (evm_run X n reqs) = Some rows \<and>
    (\<forall>t. logged_owner (map lr_event rows) t = map_option dw_wallet (token_row (evm_run X n reqs) t) \<and>
         logged_snapshot (map lr_event rows) t =
           map_option (\<lambda>d. (dw_wallet d, dw_market d, dw_uri d)) (token_row (evm_run X n reqs) t))"
proof -
  let ?c = "evm_run X n reqs"
  have ok: "logs_ok ?c" using assms by (rule run_logs)
  have f: "filter (\<lambda>e. int (ce_block e) \<le> int (currentBlock ?c)) (chainEvents ?c) = chainEvents ?c"
    using ok by (intro filter_True) (auto simp: logs_ok_def)
  have s: "sort_key ce_key (chainEvents ?c) = chainEvents ?c"
    using ok by (intro sort_key_id_if_sorted) (simp add: logs_ok_def)
  show ?thesis using ok
    by (simp add: handleGetLogs_def bound_block_def ALL_LOGS_def f s logs_ok_def comp_def)
qed

text \<open>
  C37. Nobody but its owner touches a token: whatever the request, a token keeps its owner, market
  and envelope, unless the request is a transaction signed by the owner.
\<close>
theorem only_the_owner_changes_a_token:
  assumes "token_row (evm_run X n reqs) t = Some d" "evm_handle X n tm req (evm_run X n reqs) = (r, c')"
  shows "token_row c' t = Some d \<or>
    (\<exists>raw tx a. req = Eth_sendRawTransaction (Some raw) \<and> transactionFrom X raw = Some tx \<and> rt_from tx = Some a \<and>
       lower a = dw_wallet d)"
  using handle_cases [OF run_registry assms(2)]
proof (elim disjE exE conjE)
  fix rs assume "c' = evm_run X n reqs\<lparr>receiptCache := rs\<rparr>"
  then show ?thesis using assms(1) by simp
next
  let ?c = "evm_run X n reqs"
  fix raw tx a c1 rs old new h
  assume x: "req = Eth_sendRawTransaction (Some raw)" "transactionFrom X raw = Some tx" "rt_from tx = Some a"
    and w: "write_effect ?c (lower a) old new h c1" and c': "c' = c1\<lparr>receiptCache := rs\<rparr>"
  have "d \<in> set (chartDrawings ?c) \<and> dw_tokenId d = t"
    using assms(1) unfolding token_row_iff [OF run_registry] .
  with run_registry [of X n reqs] have fresh: "dw_tokenId d = t" "t < nextTokenId ?c"
    by (auto simp: registry_ok_def)
  show ?thesis
  proof (cases "lower a = dw_wallet d")
    case True
    then show ?thesis using x by blast
  next
    case False
    have other: "\<not> (\<exists>e. new = Some e \<and> dw_tokenId e = t)" "\<not> (\<exists>e. old = Some e \<and> dw_tokenId e = t)"
      using w fresh False assms(1) unfolding write_effect_def by auto
    have "token_row c1 t = (if \<exists>e. new = Some e \<and> dw_tokenId e = t then new
        else if \<exists>e. old = Some e \<and> dw_tokenId e = t then None else token_row ?c t)"
      using w unfolding write_effect_def by blast
    then have "token_row c1 t = token_row ?c t" unfolding if_not_P [OF other(1)] if_not_P [OF other(2)] .
    then show ?thesis using assms(1) by (simp add: c')
  qed
qed

text \<open>Three names for one block: the receipt's hash of block 31 is not even a hash.\<close>

lemma receipt_hash_malformed:
  "length (receipt_block_hash 31) = 128" "take 2 (receipt_block_hash 31) = ''00''"
  "receipt_block_hash 31 \<noteq> pad64 (show_hex 31)"
  by code_simp+

subsection \<open>Witnesses\<close>

definition sample_ethers :: ethers where
  "sample_ethers = \<lparr>
     decodeCall = (\<lambda>d. if d = ''publish'' then Some (C_publish '' BTC '' ''uri'') else if d = ''burn'' then Some (C_burn 1) else None),
     transactionFrom = (\<lambda>raw. if raw = ''0x1'' then Some \<lparr>rt_from = Some ''0xA'', rt_to = Some ''0xC'', rt_data = ''publish''\<rparr>
       else if raw = ''0x2'' then Some \<lparr>rt_from = Some ''0xB'', rt_to = Some ''0xC'', rt_data = ''burn''\<rparr> else None),
     keccak256 = id, topicHash = (\<lambda>_. ''0x0''), contractAddr = ''0xc''\<rparr>"

definition sample_send :: "string \<Rightarrow> millis \<times> RpcMethod" where
  "sample_send raw = (700, Eth_sendRawTransaction (Some raw))"

lemma sample_published:
  "map (\<lambda>d. (dw_wallet d, dw_market d, dw_tokenId d)) (chartDrawings (evm_run sample_ethers 999 [sample_send ''0x1'', sample_send ''0x1''])) =
    [(''0xa'', ''BTC'', 2)]"
  by code_simp

theorem logs_rebuild_the_registry_witness:
  "\<exists>rows. handleGetLogs sample_ethers ALL_LOGS (evm_run sample_ethers 999 [sample_send ''0x1'', sample_send ''0x1'']) = Some rows \<and>
    logged_owner (map lr_event rows) 2 = Some ''0xa'' \<and> logged_owner (map lr_event rows) 1 = None"
proof -
  have z: "''0xa'' \<noteq> ZERO_ADDRESS" "''0xb'' \<noteq> ZERO_ADDRESS" by code_simp+
  have l: "lower ''0xA'' = ''0xa''" "lower ''0xB'' = ''0xb''" by code_simp+
  have "recovers sample_ethers" using z by (auto simp: recovers_def sample_ethers_def l split: if_splits)
  from logs_rebuild_the_registry [OF this, of 999 "[sample_send ''0x1'', sample_send ''0x1'']"]
  obtain rows where r: "handleGetLogs sample_ethers ALL_LOGS (evm_run sample_ethers 999 [sample_send ''0x1'', sample_send ''0x1'']) = Some rows"
    "\<And>t. logged_owner (map lr_event rows) t =
      map_option dw_wallet (token_row (evm_run sample_ethers 999 [sample_send ''0x1'', sample_send ''0x1'']) t)" by blast
  have "map_option dw_wallet (token_row (evm_run sample_ethers 999 [sample_send ''0x1'', sample_send ''0x1'']) 2) = Some ''0xa''"
    "map_option dw_wallet (token_row (evm_run sample_ethers 999 [sample_send ''0x1'', sample_send ''0x1'']) 1) = None"
    by code_simp+
  with r show ?thesis by auto
qed

theorem only_the_owner_changes_a_token_witness:
  "\<exists>d. dw_wallet d = ''0xa'' \<and>
    token_row (snd (evm_handle sample_ethers 999 700 (Eth_sendRawTransaction (Some ''0x2'')) (evm_run sample_ethers 999 [sample_send ''0x1'']))) 1 = Some d"
proof -
  let ?c = "evm_run sample_ethers 999 [sample_send ''0x1'']" and ?q = "Eth_sendRawTransaction (Some ''0x2'')"
  have "map_option dw_wallet (token_row ?c 1) = Some ''0xa''" by code_simp
  then obtain d where d: "token_row ?c 1 = Some d" "dw_wallet d = ''0xa''" by (cases "token_row ?c 1") auto
  have "lower ''0xB'' \<noteq> ''0xa''" by code_simp
  then have "\<not> (\<exists>raw tx a. ?q = Eth_sendRawTransaction (Some raw) \<and> transactionFrom sample_ethers raw = Some tx \<and>
      rt_from tx = Some a \<and> lower a = dw_wallet d)"
    using d by (auto simp: sample_ethers_def)
  with only_the_owner_changes_a_token [OF d(1) surjective_pairing, of 700 ?q] d show ?thesis by blast
qed

text \<open>A transaction sent twice has one receipt, with the logs of both blocks.\<close>

lemma replayed_receipt_mixes_blocks:
  "(case fst (handleGetReceipt sample_ethers ''0x1'' (evm_run sample_ethers 999 [sample_send ''0x1'', sample_send ''0x1''])) of
     None \<Rightarrow> 0 | Some v \<Rightarrow> length (rv_logs v)) = 6"
  by code_simp

end
