(* ===== verification/Gateway.thy ===== *)
theory Gateway
  imports InfoRoute Exchange Signing PgSink EvmBridge
begin

text \<open>
  The other end of the routes: api/routes/hypaper.ts, consent.ts and evm.ts, and the exchange route
  from the body of a request with its signature to the reply. The action of a body is given twice,
  as the JSON value that was signed and as the typed action the route reads from it. An expiry with
  a fraction counts as the next millisecond, which compares alike with a clock of milliseconds.
\<close>

subsection \<open>The exchange route\<close>

definition exchange_post ::
    "'a crypto \<Rightarrow> string \<Rightarrow> string option \<Rightarrow> env \<Rightarrow> inputs \<Rightarrow> 'a Body \<Rightarrow> Action \<Rightarrow> sys \<Rightarrow> (WalletError + Response) \<times> sys" where
  "exchange_post X secret presented E I b act w =
    (case wallet_of X secret presented b of Inl e \<Rightarrow> (Inl e, w)
     | Inr u \<Rightarrow>
        let (r, w') = handle E I \<lparr>rq_wallet = u, rq_action = act, rq_vaultAddress = bd_vaultAddress b, rq_nonce = bd_nonce b,
              rq_expiresAfter = map_option (\<lambda>x. \<lceil>x\<rceil>) (bd_expiresAfter b)\<rparr> w
        in (Inr r, w'))"

subsection \<open>Administration of paper accounts\<close>

datatype HypaperType =
    H_resetAccount
  | H_setBalance "rat option" \<comment> \<open>\<open>None\<close> is missing, no number or not finite\<close>
  | H_getAccountInfo
  | H_liquidationHistory "int option"
  | H_liquidatorVault
  | H_other string

datatype HypaperReply =
    HR_MissingType
  | HR_MissingUser
  | HR_NotAccepted
  | HR_Reset
  | HR_InvalidBalance
  | HR_Balance rat
  | HR_Account "rat option" "millis option"
  | HR_Events "LiquidationEvent list"
  | HR_Vault LiquidatorVaultState
  | HR_UnknownType

definition is_admin :: "HypaperType \<Rightarrow> bool" where
  "is_admin t = (case t of H_resetAccount \<Rightarrow> True | H_setBalance b \<Rightarrow> True | _ \<Rightarrow> False)"

definition history_limit :: "int option \<Rightarrow> nat" where
  "history_limit n = (case n of None \<Rightarrow> 100 | Some i \<Rightarrow> nat (min (max 1 i) 500))"

definition hypaper_case ::
    "env \<Rightarrow> rat \<Rightarrow> pg \<Rightarrow> HypaperType \<Rightarrow> user \<Rightarrow> sys \<Rightarrow> HypaperReply \<times> sys \<times> sink_op list" where
  "hypaper_case E defaultBalance P t u w =
    (case t of
      H_resetAccount \<Rightarrow> (HR_Reset, resetAccount E defaultBalance u w, [UpsertUser u defaultBalance])
    | H_setBalance b \<Rightarrow>
        (case Option.bind b (\<lambda>x. map_option (\<lambda>w'. (x, w')) (setBalance E u x w)) of
           None \<Rightarrow> (HR_InvalidBalance, w, [])
         | Some (x, w') \<Rightarrow> (HR_Balance x, w', [UpdateUserBalance u x]))
    | H_getAccountInfo \<Rightarrow> (HR_Account (stored w (u, Perp '''')) (accountSince w u), w, [])
    | H_liquidationHistory n \<Rightarrow> (HR_Events (getLiquidationEventsPg P u (history_limit n)), w, [])
    | H_liquidatorVault \<Rightarrow> (HR_Vault (getVaultState E (core w)), w, [])
    | H_other name \<Rightarrow> (HR_UnknownType, w, []))"

definition hypaper_post ::
    "env \<Rightarrow> rat \<Rightarrow> string \<Rightarrow> string option \<Rightarrow> pg \<Rightarrow> HypaperType option \<Rightarrow> string option \<Rightarrow> sys \<Rightarrow>
      HypaperReply \<times> sys \<times> sink_op list" where
  \<comment> \<open>the writes of Postgres are those of this route; the recording events of the bus come besides\<close>
  "hypaper_post E defaultBalance secret presented P ty user w =
    (case (ty, user) of
      (None, _) \<Rightarrow> (HR_MissingType, w, [])
    | (Some t, None) \<Rightarrow> (HR_MissingUser, w, [])
    | (Some t, Some raw) \<Rightarrow>
        if raw = '''' then (HR_MissingUser, w, [])
        else if is_admin t \<and> \<not> isInternalRequest secret presented then (HR_NotAccepted, w, [])
        else hypaper_case E defaultBalance P t (lower raw) (ensureAccount E defaultBalance (lower raw) w))"

subsection \<open>Consent records\<close>

record ConsentBody =
  cb_policyVersion :: "rat option" \<comment> \<open>\<open>None\<close> when it is no number\<close>
  cb_analytics :: bool
  cb_advertising :: bool
  cb_adPersonalization :: bool
  cb_ts :: "rat option"

definition first_part :: "string \<Rightarrow> string" where
  "first_part s = js_trim (takeWhile (\<lambda>c. c \<noteq> CHR '','') s)"

definition consent_ip :: "string option \<Rightarrow> string option \<Rightarrow> string" where
  \<comment> \<open>cf-connecting-ip, x-forwarded-for\<close>
  "consent_ip cf xff =
    (case cf of Some ip \<Rightarrow> ip | None \<Rightarrow> first_part (case xff of None \<Rightarrow> '''' | Some x \<Rightarrow> x))"

definition consent_ts :: "millis \<Rightarrow> rat option \<Rightarrow> rat" where
  "consent_ts t ts =
    (let clientTs = (case ts of None \<Rightarrow> of_int t | Some x \<Rightarrow> x)
     in if \<bar>clientTs - of_int t\<bar> < 3600000 then clientTs else of_int t)"

definition consent_post ::
    "(string \<Rightarrow> string) \<Rightarrow> nat \<Rightarrow> millis \<Rightarrow> string option \<Rightarrow> string option \<Rightarrow> string option \<Rightarrow> ConsentBody \<Rightarrow> sink_op option" where
  \<comment> \<open>the salted hash and the random number below 1000 are arguments; \<open>None\<close> is the answer 400\<close>
  "consent_post sha rnd1000 t cf xff agent b =
    (case cb_policyVersion b of None \<Rightarrow> None
     | Some v \<Rightarrow>
        if v \<le> 0 then None
        else
          let ip = consent_ip cf xff; ts = consent_ts t (cb_ts b)
          in Some (Consent \<lparr>cr_id = ts * 1000 + of_nat rnd1000, cr_ts = ts,
               cr_ipHash = (if ip \<noteq> '''' \<and> ip \<noteq> ''unknown'' then Some (sha (''slushy-consent:'' @ ip)) else None),
               cr_userAgent = agent, cr_policyVersion = v, cr_analytics = cb_analytics b,
               cr_advertising = cb_advertising b, cr_adPersonalization = cb_adPersonalization b\<rparr>))"

subsection \<open>The JSON-RPC route\<close>

datatype RpcBody = Unparsed | Single RpcMethod | Batch "RpcMethod list"

datatype RpcAnswer = ParseError | One "RpcError + RpcResult" | Many "(RpcError + RpcResult) list"

fun evm_batch :: "ethers \<Rightarrow> nat \<Rightarrow> millis \<Rightarrow> RpcMethod list \<Rightarrow> chain \<Rightarrow> (RpcError + RpcResult) list \<times> chain" where
  \<comment> \<open>the code runs the requests of a batch in parallel; here in their order\<close>
  "evm_batch X n t [] c = ([], c)"
| "evm_batch X n t (q # qs) c = (let (r, c1) = evm_handle X n t q c; (rs, c2) = evm_batch X n t qs c1 in (r # rs, c2))"

definition evm_post :: "ethers \<Rightarrow> nat \<Rightarrow> millis \<Rightarrow> RpcBody \<Rightarrow> chain \<Rightarrow> RpcAnswer \<times> chain" where
  "evm_post X n t body c =
    (case body of
      Unparsed \<Rightarrow> (ParseError, c)
    | Single q \<Rightarrow> (let (r, c1) = evm_handle X n t q c in (One r, c1))
    | Batch qs \<Rightarrow> (let (rs, c1) = evm_batch X n t qs c in (Many rs, c1)))"

lemma batch_runs: "snd (evm_batch X n t qs c) = foldl (\<lambda>c q. snd (evm_handle X n t q c)) c qs"
  by (induction qs arbitrary: c) (simp_all add: case_prod_beta' Let_def)

lemma posts_run: "snd (evm_post X n t (Batch qs) (evm_run X n reqs)) = evm_run X n (reqs @ map (Pair t) qs)"
  by (simp add: evm_post_def case_prod_beta' Let_def batch_runs evm_run_def foldl_map)

lemma consent_near_now:
  assumes "consent_post sha k t cf xff agent b = Some (Consent r)" "k < 1000"
  shows "\<bar>cr_ts r - of_int t\<bar> < 3600000" "cr_ts r * 1000 \<le> cr_id r" "cr_id r < (cr_ts r + 1) * 1000" "0 < cr_policyVersion r"
  using assms by (auto simp: consent_post_def consent_ts_def Let_def algebra_simps split: option.splits if_splits)

subsection \<open>Without the secret\<close>

lemma public_case:
  assumes "\<not> is_admin t" "hypaper_case E d P t u w = (r, w', ops)"
  shows "w' = w \<and> ops = []"
  using assms by (cases t) (simp_all add: is_admin_def hypaper_case_def)



lemma internal_sets_the_balance:
  "isInternalRequest secret presented \<Longrightarrow> 0 \<le> x \<Longrightarrow> raw \<noteq> '''' \<Longrightarrow>
    hypaper_post E d secret presented P (Some (H_setBalance (Some x))) (Some raw) w = (r, w', ops) \<Longrightarrow>
    r = HR_Balance x \<and> stored w' (lower raw, Perp '''') = Some x \<and> ops = [UpdateUserBalance (lower raw) x]"
  by (auto simp: hypaper_post_def hypaper_case_def setBalance_def Let_def simp del: stored.simps store_bal.simps split: if_splits)

end
