(* ===== verification/Spec2Isabelle.thy ===== *)
theory Spec2Isabelle
  imports Exchange L2Cache WsServer Guards Gateway
begin

text \<open>
  HyPaper is a paper-trading backend with the interface of the Hyperliquid exchange: clients send
  signed actions over HTTP, read their accounts over HTTP and WebSockets, and trade against the
  live order book without touching it. This development models the TypeScript sources under
  \<open>src/\<close> (the server; file names below are relative to \<open>src/src\<close>) and proves what makes them
  correct.

  \<^bold>\<open>The program.\<close> Redis holds the live state: orders, positions, balances, market data, bracket
  links and the accounts around them. Postgres keeps the history. Requests pass the signature and
  nonce checks (\<open>api/\<close>), run one operation of the engine (\<open>engine/\<close>) on Redis, and leave events on an in-process bus. Workers (\<open>worker/\<close>) feed market data from Hyperliquid,
  match resting orders, submit TWAP slices, charge funding, liquidate and run the dead man's
  switch. The bus feeds the WebSocket server (\<open>ws/\<close>) and the Postgres sink (\<open>store/\<close>). A chain
  emulator (\<open>evm/\<close>) serves an NFT contract for chart snapshots from three Postgres tables.

  \<^bold>\<open>Theories and sources.\<close>
  \<^item> \<open>Prelude\<close>: lemmas on lists, options and powers of ten that the rest shares.
  \<^item> \<open>Decimals\<close>, \<open>Decimal30\<close>, \<open>Doubles\<close>: \<open>utils/math.ts\<close> with decimal.js as a parameter, its
    setting in this program, and JavaScript numbers.
  \<^item> \<open>Types\<close>, \<open>Store\<close>, \<open>AssetMeta\<close>: \<open>types/\<close>, the keys of \<open>store/keys.ts\<close> as the record
    \<open>state\<close>, \<open>engine/assetMeta.ts\<close> and the reading half of \<open>worker/mark-feed.ts\<close>.
  \<^item> \<open>Slippage\<close>, \<open>MarginTiers\<close>, \<open>Margin\<close>: \<open>utils/slippage.ts\<close>, \<open>engine/marginTiers.ts\<close>,
    \<open>engine/margin.ts\<close>.
  \<^item> \<open>TrailingMath\<close>, \<open>TrailingHash\<close>, \<open>TrailingStops\<close>, \<open>TrailingPlace\<close>: \<open>engine/trailing-math.ts\<close>,
    \<open>engine/trailing-state.ts\<close>, \<open>engine/trailingStop.ts\<close>.
  \<^item> \<open>Orders\<close>, \<open>Cancel\<close>: \<open>engine/order.ts\<close> with placing, bracket groups, cancelling, modifying
    and settings.
  \<^item> \<open>Fill\<close>, \<open>Matcher\<close>, \<open>Twap\<close>: \<open>worker/order-matcher.ts\<close> and the TWAP half of \<open>engine/order.ts\<close>.
  \<^item> \<open>Liquidation\<close>, \<open>Funding\<close>, \<open>Schedule\<close>: \<open>engine/liquidation.ts\<close>, \<open>engine/liquidator-vault.ts\<close>,
    \<open>worker/liquidation-worker.ts\<close>, \<open>worker/funding-worker.ts\<close>, the scheduled cancel of
    \<open>worker/index.ts\<close>.
  \<^item> \<open>Engine\<close>, \<open>Recorded\<close>, \<open>Steps\<close>: the invariants of \<open>state\<close> and what every operation above
    appends to the bus, the step relation with one rule per operation, its reachable states, and the
    life-cycle specification of orders.
  \<^item> \<open>JsStrings\<close>, \<open>JsHex\<close>: number and text conversions of JavaScript.
  \<^item> \<open>Accounts\<close>, \<open>Transfers\<close>, \<open>Staking\<close>, \<open>Subaccounts\<close>, \<open>Agents\<close>: \<open>api/middleware/auth.ts\<close> and
    \<open>engine/transfers.ts\<close>, \<open>staking.ts\<close>, \<open>subaccount.ts\<close>, \<open>agents.ts\<close> over the record \<open>sys\<close>,
    whose field \<open>core\<close> is the engine's \<open>state\<close>.
  \<^item> \<open>Signing\<close>, \<open>Exchange\<close>, \<open>Gateway\<close>: \<open>api/middleware/\<close> and \<open>api/routes/exchange.ts\<close>,
    \<open>hypaper.ts\<close>, \<open>consent.ts\<close>, \<open>evm.ts\<close>: the wallet of a request, the checks, the dispatch.
  \<^item> \<open>Views\<close>, \<open>InfoRoute\<close>: \<open>engine/position.ts\<close>, \<open>engine/account.ts\<close>, \<open>api/routes/info.ts\<close>.
  \<^item> \<open>Market\<close>, \<open>Upstream\<close>, \<open>L2Cache\<close>: \<open>worker/price-updater.ts\<close> and the seeding of
    \<open>worker/index.ts\<close>, \<open>worker/ws-client.ts\<close> with the subscriptions of \<open>worker/\<close>,
    \<open>utils/l2-cache.ts\<close>.
  \<^item> \<open>Guards\<close>: \<open>api/middleware/rate-limit.ts\<close> and \<open>utils/userLock.ts\<close>.
  \<^item> \<open>WsServer\<close>: \<open>ws/server.ts\<close> and \<open>ws/order-updates.ts\<close>.
  \<^item> \<open>PgSink\<close>: \<open>store/schema.ts\<close>, \<open>store/pg-sink.ts\<close>, \<open>store/pg-queries.ts\<close>, \<open>engine/fill.ts\<close>.
  \<^item> \<open>EvmBridge\<close>: \<open>evm/\<close>.

  \<^bold>\<open>State and operations.\<close> A Redis string or hash is a partial function of its key, a set a list, a
  sorted set a list of members with scores. An operation takes the environment (decimal library,
  clock, order book, configuration), the request and the state, and returns its result with the new
  state; errors are values of a sum, written where the code returns or throws. An operation is
  one step. The code serialises the fills, liquidations and margin changes of a user with
  \<open>utils/userLock.ts\<close>, which \<open>Guards\<close> models with its promises; outside that lock other
  operations may run at an \<open>await\<close>, and such interleavings are not modelled.
  The lists of the event bus and of the sent WebSocket frames are part of the states, oldest first.

  \<^bold>\<open>Numbers.\<close> Decimal strings are rationals, and every decimal operation rounds through the record
  \<open>declib\<close>; what the engine relies on is the locale \<open>decimal_js\<close>, satisfied by \<open>decimal30\<close>, the
  30-digit setting of \<open>utils/math.ts\<close>. The double operations round to 53 bits (\<open>dbl\<close>), away from
  overflow and subnormals. Integers that JavaScript keeps unbounded (BigInt, counters) are \<open>int\<close> or
  \<open>nat\<close>; the bytes that are signed are 8-bit words.

  \<^bold>\<open>What the lemmas show.\<close>
  \<^item> The engine: \<open>good\<close> (order book, ledger and links fit together) holds in every reachable state;
    \<open>hist\<close> says that orders never disappear or change identity and that a finished one is final.
    The locale \<open>safe_steps\<close>, of operations that keep an invariant and refine a relation, carries
    both through every loop; the operations are shown to keep them one by one, and the step relation
    and its specification \<open>lifecycle\<close> follow. The same locale at \<open>grows\<close> shows that every operation only
    appends to the bus, announces an order before its fills, and keeps Redis' fill lists in step.
  \<^item> Prices, margin and fills: equivalence of the tiered margin with its marginal reading, average
    cost of a walk through the book, conservation of equity by a fill, reduce-only orders that only
    reduce, the outcome of every placement and of every fill.
  \<^item> Trailing stops: the persisted state is the declarative watermark of the marks seen, placement
    reads back, orphaned stops end exactly when they must.
  \<^item> Liquidation, TWAP, funding: liquidation only reduces and runs exactly below maintenance, a
    TWAP never overfills, funding moves exactly the charges.
  \<^item> Accounts: transfers, staking and vault moves conserve money and never overdraw; agents obey
    their limits.
  \<^item> The way in: which bytes are signed and what they determine, who may act for whom, that a
    nonce is used once, that the administration fails closed without its secret; the whole service
    moves the engine by engine steps only.
  \<^item> The way out: the views agree with the engine's own figures, paper reads do not depend on live
    answers, events reach exactly their subscribers, the fills the engine announced are the rows of
    Postgres and the lists of Redis, the logs of the contract rebuild its registry.
  \<^item> Infrastructure: market data are the last frame's, books are fresh and fetched once, the
    upstream socket recovers, the user lock is exclusive and fair.

  \<^bold>\<open>Bounds and fuel.\<close> The cascade of a cancel recurses over bracket links with fuel; the fuel is the
  number of oids handed out, every level cancels at least one open order, and the lemmas
  show that it never runs out. All other recursion ends by structure or by a measure, so every
  operation is total. A pass of a worker is one step over a snapshot of its list, as in the code.

  \<^bold>\<open>Parameters.\<close> Third-party code is never given a definition: decimal.js is \<open>declib\<close>, msgpack, keccak
  and signature recovery are \<open>crypto\<close>, ABI coding and the hashes of ethers are \<open>ethers\<close>, and the
  answers of Hyperliquid, the results of SQL aggregates, random draws and the clock are arguments.

  \<^bold>\<open>Conventions that differ from the text of the code.\<close> The typed fields of an action are checked by
  the datatype, so a value of the wrong JSON type cannot be written; HTTP status codes are dropped.
  Strings are lists of code units below 256. A client id that \<open>batchModify\<close> does not find gives oid 0
  where the code takes -1; neither is ever an order.
  \<open>resetAccount\<close> is an operation of the accounts and not a step of
  the engine, because it rewrites finished orders. In \<open>Market\<close> an empty price field is a missing one.
  In \<open>WsServer\<close> a ledger or funding row is the event that recorded it. In \<open>InfoRoute\<close> the cache is keyed
  by the text of the body, and a request type that names a property of \<open>Object.prototype\<close> is left out.
  In \<open>PgSink\<close> a queued write is one step, rows with equal sort keys come in the order of their
  insertion, and a write that violates a foreign key is lost, as the sink logs and drops it.

  \<^bold>\<open>Not modelled.\<close> Process start-up, configuration files, logging and the connections to Redis and
  Postgres are I/O. Timers are: every handler they call is a step that may run at any time. An
  exception thrown by a corrupt Redis hash, which would abort a whole pass of the matcher, is not;
  neither is the branch of \<open>worker/order-matcher.ts\<close> for TWAP records of an older format, nor
  \<open>eth_feeHistory\<close> and \<open>eth_fillTransaction\<close>, which answer constants, nor answers of Hyperliquid that
  are malformed half-way through the seeding. The scripts under \<open>src/scripts\<close> and
  \<open>src/test-scripts\<close> probe Hyperliquid's test network or drive a running server; they hold no logic
  of the program and are the larger part of the lines without a definition.
\<close>

section \<open>Properties of the whole engine\<close>

text \<open>
  C2. Every reachable state of the engine satisfies its invariants: only handed-out oids carry an
  order, filed under its own oid; the matcher's lists hold open orders only, trailing stops apart
  from the others; the position lists hold exactly the stored positions, each under its exchange,
  and no stored position has size zero; bracket links join stored orders and never make a trailing
  stop a sibling.
\<close>

theorem reachable_states_are_good: "reachable s \<Longrightarrow> book_ok s \<and> ledger_ok s \<and> links_ok s"
  using reachable_is_good by (simp add: good_def)

theorem reachable_states_are_good_witness:
  "ledger_ok (matchAll sample_env (\<lambda>_. 0) (snd (placeOrders sample_env ''u'' [sample_wire True 100 2 False Gtc] Na no_opts
     (empty_state\<lparr>perpDexs := Some [None]\<rparr>))))"
proof -
  have "reachable (matchAll sample_env (\<lambda>_. 0) (snd (placeOrders sample_env ''u'' [sample_wire True 100 2 False Gtc] Na no_opts
     (empty_state\<lparr>perpDexs := Some [None]\<rparr>))))"
    by (rule reachable.step [OF reachable.step [OF reachable.start engine_step.place] engine_step.match])
      (rule prod.collapse [symmetric])
  from reachable_states_are_good [OF this] show ?thesis by blast
qed

text \<open>
  C1. A finished order is final: along every run of the engine from a state that satisfies the
  invariants, as every reachable state does, orders never disappear, keep owner, asset, side, size,
  type and reduce-only flag, and an order that has left the status open keeps its status, executed
  size and average price for ever.
\<close>

theorem finished_orders_are_final:
  assumes "good s" "engine_step\<^sup>*\<^sup>* s s'" "orders s x = Some h"
  shows "\<exists>h'. orders s' x = Some h' \<and> fst (order_view h') = fst (order_view h) \<and>
    (o_status (h_order h) \<noteq> St_open \<longrightarrow>
      o_status (h_order h') = o_status (h_order h) \<and> o_filledSz (h_order h') = o_filledSz (h_order h) \<and>
      o_avgPx (h_order h') = o_avgPx (h_order h))"
  using steps_hist [OF assms(2,1)] assms(3)
  by (fastforce simp: hist_def kept_def same_identity_def order_view_def Let_def)

definition finished_state :: state where
  \<comment> \<open>one filled order\<close>
  "finished_state = (sample_state None [])
    \<lparr>orders := [1 \<mapsto> sample_hash ((sample_order 1 True 2 90 False)\<lparr>o_status := St_filled\<rparr>)], seqOid := 1\<rparr>"

lemma finished_state_good: "good finished_state"
  by (simp add: good_def book_ok_def ledger_ok_def links_ok_def oids_ok_def listed_def status_of_def finished_state_def
      sample_state_def empty_state_def sample_hash_def sample_order_def)

theorem finished_orders_are_final_witness:
  "\<exists>h'. orders (matchAll sample_env (\<lambda>_. 0) finished_state) 1 = Some h' \<and> o_status (h_order h') = St_filled"
proof -
  have "engine_step\<^sup>*\<^sup>* finished_state (matchAll sample_env (\<lambda>_. 0) finished_state)"
    by (rule r_into_rtranclp) (rule engine_step.match)
  moreover have "orders finished_state 1 = Some (sample_hash ((sample_order 1 True 2 90 False)\<lparr>o_status := St_filled\<rparr>))"
    by (simp add: finished_state_def)
  ultimately show ?thesis
    using finished_orders_are_final [OF finished_state_good] by (fastforce simp: sample_hash_def)
qed

text \<open>
  C4. The engine refines the specification of an order's life: seen through \<open>orders_view\<close>, every
  operation of the engine is a sequence of creating orders, open and with a fixed identity, under
  oids that are free, and ending open orders once.
\<close>

theorem engine_refines_lifecycle:
  assumes "good s" "engine_step s s'"
  shows "lifecycle\<^sup>*\<^sup>* (orders_view s) (orders_view s')"
  using safe_step [OF assms(2)] assms(1) by (intro hist_lifecycle) (auto intro: eng.safe_good eng.safe_hist)

theorem engine_refines_lifecycle_witness:
  "lifecycle\<^sup>*\<^sup>* (orders_view finished_state)
    (orders_view (snd (placeOrders sample_env ''u'' [sample_wire True 90 2 False Gtc] Na no_opts finished_state)))"
  by (rule engine_refines_lifecycle [OF finished_state_good engine_step.place]) (rule prod.collapse [symmetric])

section \<open>Properties of the whole service\<close>



section \<open>The engine and its history\<close>



end
